(* ===== verification/Go_Prelude.thy ===== *)
theory Go_Prelude
  imports Main "HOL-Library.Word"
begin

text \<open>
  The part of Go that the TChannel sources use, and the generic lemmas the component theories
  share: machine words, \<^verbatim>\<open>encoding/binary\<close>'s big-endian routines, byte slices with \<^verbatim>\<open>copy\<close>,
  strings as byte sequences, decimal printing (\<^verbatim>\<open>%d\<close> and \<^verbatim>\<open>%v\<close> of an integer), \<^verbatim>\<open>io.ReadFull\<close>
  over a finite stream, and panics as values.
\<close>

unbundle bit_operations_syntax

named_theorems slice_simps \<open>lengths and contents of slices after a copy\<close>
named_theorems be_simps \<open>big-endian encoding and decoding\<close>

section \<open>Machine words\<close>

type_synonym byte = "8 word"
type_synonym uint16 = "16 word"
type_synonym uint32 = "32 word"
type_synonym uint64 = "64 word"

text \<open>
  The bytes of the \<open>n\<close>-byte big-endian representation of a word, most significant first, and
  the word a byte sequence stands for. The three widths of \<^verbatim>\<open>binary.BigEndian\<close> are instances.
\<close>

fun be_bytes :: "nat \<Rightarrow> 'a::len word \<Rightarrow> byte list" where
  "be_bytes 0 w = []"
| "be_bytes (Suc n) w = be_bytes n (drop_bit 8 w) @ [ucast w]"

definition be_word :: "byte list \<Rightarrow> 'a::len word" where
  "be_word bs = foldl (\<lambda>a b. push_bit 8 a OR ucast b) 0 bs"

abbreviation PutUint16 :: "uint16 \<Rightarrow> byte list" where
  "PutUint16 \<equiv> be_bytes 2"
abbreviation PutUint32 :: "uint32 \<Rightarrow> byte list" where
  "PutUint32 \<equiv> be_bytes 4"
abbreviation PutUint64 :: "uint64 \<Rightarrow> byte list" where
  "PutUint64 \<equiv> be_bytes 8"

abbreviation Uint16 :: "byte list \<Rightarrow> uint16" where
  "Uint16 \<equiv> be_word"
abbreviation Uint32 :: "byte list \<Rightarrow> uint32" where
  "Uint32 \<equiv> be_word"
abbreviation Uint64 :: "byte list \<Rightarrow> uint64" where
  "Uint64 \<equiv> be_word"

lemma length_be_bytes [simp]: "length (be_bytes n w) = n"
  by (induction n arbitrary: w) auto

lemma be_word_Nil [simp]: "be_word [] = 0"
  by (simp add: be_word_def)

lemma be_word_snoc: "be_word (bs @ [b]) = push_bit 8 (be_word bs) OR ucast b"
  by (simp add: be_word_def)

lemma be_word_be_bytes_take:
  "be_word (be_bytes n w) = take_bit (8 * n) (w :: 'a::len word)"
proof (induction n arbitrary: w)
  case 0
  then show ?case by simp
next
  case (Suc n)
  have "push_bit 8 (take_bit (8 * n) (drop_bit 8 w)) OR ucast (ucast w :: byte) = take_bit (8 + 8 * n) w"
    by (rule bit_word_eqI) (auto simp: bit_simps)
  then show ?case by (simp add: be_word_snoc Suc)
qed

lemma be_word_be_bytes [be_simps, simp]:
  "LENGTH('a) \<le> 8 * n \<Longrightarrow> be_word (be_bytes n w) = (w :: 'a::len word)"
  by (simp add: be_word_be_bytes_take take_bit_word_eq_self)

lemma be_bytes_take_bit:
  "8 * n \<le> k \<Longrightarrow> be_bytes n (take_bit k w :: 'a::len word) = be_bytes n w"
proof (induction n arbitrary: k w)
  case 0
  then show ?case by simp
next
  case (Suc n)
  have 1: "drop_bit 8 (take_bit k w) = take_bit (k - 8) (drop_bit 8 w)"
    by (simp add: drop_bit_take_bit)
  have 2: "(ucast (take_bit k w) :: byte) = ucast w"
    using Suc.prems by (intro bit_word_eqI) (auto simp: bit_simps)
  show ?case using Suc by (simp add: 1 2)
qed

lemma be_bytes_be_word [be_simps]:
  "8 * length bs \<le> LENGTH('a::len) \<Longrightarrow> be_bytes (length bs) (be_word bs :: 'a word) = bs"
proof (induction bs rule: rev_induct)
  case Nil
  then show ?case by simp
next
  case (snoc b bs)
  have 1: "drop_bit 8 (push_bit 8 (be_word bs) OR ucast b :: 'a word)
           = take_bit (LENGTH('a) - 8) (be_word bs)"
    by (rule bit_word_eqI) (auto simp: bit_simps dest: bit_imp_le_length)
  have 2: "(ucast (push_bit 8 (be_word bs) OR ucast b :: 'a word) :: byte) = b"
    using snoc.prems by (intro bit_word_eqI) (auto simp: bit_simps)
  show ?case
    using snoc be_bytes_take_bit [of "length bs" "LENGTH('a) - 8" "be_word bs :: 'a word"]
    by (simp add: be_word_snoc 1 2 del: drop_bit_or)
qed

lemma be_bytes_inject:
  "LENGTH('a) \<le> 8 * n \<Longrightarrow> be_bytes n (v :: 'a::len word) = be_bytes n w \<longleftrightarrow> v = w"
  by (metis be_word_be_bytes)

lemma be_bytes_2: "be_bytes 2 w = [ucast (drop_bit 8 w), ucast w]"
  by (simp add: numeral_2_eq_2)

lemma be_bytes_4:
  "be_bytes 4 w = [ucast (drop_bit 24 w), ucast (drop_bit 16 w), ucast (drop_bit 8 w), ucast w]"
  by (simp add: eval_nat_numeral drop_bit_drop_bit)

lemma be_bytes_8:
  "be_bytes 8 w = [ucast (drop_bit 56 w), ucast (drop_bit 48 w), ucast (drop_bit 40 w),
     ucast (drop_bit 32 w), ucast (drop_bit 24 w), ucast (drop_bit 16 w), ucast (drop_bit 8 w), ucast w]"
  by (simp add: eval_nat_numeral drop_bit_drop_bit)

lemmas be_eval = be_bytes_2 be_bytes_4 be_bytes_8 be_word_def

lemma unat_ucast_up:
  assumes "LENGTH('a) \<le> LENGTH('b)"
  shows "unat (ucast (w :: 'a::len word) :: 'b::len word) = unat w"
proof -
  have "unat w < 2 ^ LENGTH('a)" by (rule unsigned_less)
  also have "\<dots> \<le> (2 ^ LENGTH('b) :: nat)" using assms by (simp add: power_increasing)
  finally show ?thesis by (simp add: unsigned_ucast_eq take_bit_nat_eq_self)
qed

lemma unat_of_nat_small: "n < 2 ^ LENGTH('a) \<Longrightarrow> unat (of_nat n :: 'a::len word) = n"
  by (simp add: unat_of_nat take_bit_nat_eq_self)

section \<open>Slices\<close>

text \<open>
  \<open>copy_at i src dst\<close> is the destination array after \<^verbatim>\<open>copy(dst[i:], src)\<close>: as many bytes as
  both sides have are replaced, nothing else changes.
\<close>

definition copy_at :: "nat \<Rightarrow> 'a list \<Rightarrow> 'a list \<Rightarrow> 'a list" where
  "copy_at i src dst =
     (let n = min (length src) (length dst - i)
      in take i dst @ take n src @ drop (i + n) dst)"

lemma length_copy_at [slice_simps, simp]:
  "i \<le> length dst \<Longrightarrow> length (copy_at i src dst) = length dst"
  by (auto simp: copy_at_def Let_def)

lemma copy_at_fits:
  "i + length src \<le> length dst \<Longrightarrow> copy_at i src dst = take i dst @ src @ drop (i + length src) dst"
  by (simp add: copy_at_def Let_def)

lemma copy_at_Nil [simp]: "copy_at i [] dst = dst"
  by (simp add: copy_at_def)

lemma take_copy_at_le [slice_simps]:
  "n \<le> i \<Longrightarrow> i \<le> length dst \<Longrightarrow> take n (copy_at i src dst) = take n dst"
  by (simp add: copy_at_def Let_def min_def)

lemma take_copy_at_end [slice_simps]:
  "i + length src \<le> length dst \<Longrightarrow> take (i + length src) (copy_at i src dst) = take i dst @ src"
  by (simp add: copy_at_fits)

lemma drop_copy_at_ge [slice_simps]:
  "i + length src \<le> n \<Longrightarrow> i + length src \<le> length dst \<Longrightarrow> drop n (copy_at i src dst) = drop n dst"
  by (simp add: copy_at_fits)

lemma copy_at_append:
  assumes "i + length a + length b \<le> length dst"
  shows "copy_at (i + length a) b (copy_at i a dst) = copy_at i (a @ b) dst"
proof -
  have "i + length a + length b \<le> length (copy_at i a dst)"
    using assms by simp
  then have "copy_at (i + length a) b (copy_at i a dst)
      = take (i + length a) (copy_at i a dst) @ b @ drop (i + length a + length b) (copy_at i a dst)"
    by (rule copy_at_fits)
  also have "\<dots> = take i dst @ a @ b @ drop (i + length a + length b) dst"
    using assms by (simp add: take_copy_at_end drop_copy_at_ge)
  also have "\<dots> = copy_at i (a @ b) dst"
    using assms by (simp add: copy_at_fits add.assoc)
  finally show ?thesis .
qed

section \<open>Strings\<close>

text \<open>
  A Go string is a sequence of bytes, and so is an Isabelle \<open>string\<close> (a \<open>char\<close> is eight bits).
  \<open>bytes_of_string\<close> is the conversion \<^verbatim>\<open>[]byte(s)\<close> and \<open>string_of_bytes\<close> is \<^verbatim>\<open>string(b)\<close>.
\<close>

definition bytes_of_string :: "string \<Rightarrow> byte list" where
  "bytes_of_string s = map of_char s"

definition string_of_bytes :: "byte list \<Rightarrow> string" where
  "string_of_bytes bs = map (\<lambda>b. char_of (unat b)) bs"

lemma length_bytes_of_string [simp]: "length (bytes_of_string s) = length s"
  by (simp add: bytes_of_string_def)

lemma length_string_of_bytes [simp]: "length (string_of_bytes bs) = length bs"
  by (simp add: string_of_bytes_def)

lemma of_char_word: "(of_char c :: byte) = of_nat (of_char c)"
  by (cases c) (simp add: of_char_def)

lemma unat_of_char: "unat (of_char c :: byte) = of_char c"
  using nat_of_char_less_256 [of c] by (simp add: of_char_word unat_of_nat_small)

lemma string_of_bytes_of_string [simp]: "string_of_bytes (bytes_of_string s) = s"
  by (simp add: string_of_bytes_def bytes_of_string_def unat_of_char comp_def)

lemma bytes_of_string_of_bytes [simp]: "bytes_of_string (string_of_bytes bs) = bs"
proof -
  have "(of_char (char_of (unat b) :: char) :: byte) = b" for b
    using unsigned_less [of b, where ?'a = nat] by (simp add: of_char_word)
  then show ?thesis
    by (simp add: string_of_bytes_def bytes_of_string_def comp_def)
qed

lemma bytes_of_string_inject [simp]: "bytes_of_string s = bytes_of_string t \<longleftrightarrow> s = t"
  by (metis string_of_bytes_of_string)

lemma bytes_of_string_Nil [simp]: "bytes_of_string [] = []"
  by (simp add: bytes_of_string_def)

lemma string_of_bytes_Nil [simp]: "string_of_bytes [] = []"
  by (simp add: string_of_bytes_def)

text \<open>Decimal printing, as \<^verbatim>\<open>%d\<close> and \<^verbatim>\<open>%v\<close> print an unsigned integer.\<close>

fun show_nat :: "nat \<Rightarrow> string" where
  "show_nat n = (if n < 10 then [char_of (48 + n)] else show_nat (n div 10) @ [char_of (48 + n mod 10)])"

declare show_nat.simps [simp del]

section \<open>Panics and streams\<close>

text \<open>A Go function that may panic returns a value of type \<open>'a go\<close>.\<close>

datatype 'a go = Panic | Ret 'a

fun go_bind :: "'a go \<Rightarrow> ('a \<Rightarrow> 'b go) \<Rightarrow> 'b go" where
  "go_bind Panic f = Panic"
| "go_bind (Ret a) f = f a"

lemma go_bind_Ret_iff: "go_bind m f = Ret b \<longleftrightarrow> (\<exists>a. m = Ret a \<and> f a = Ret b)"
  by (cases m) auto

end
