(* ===== verification/Sys_Errors.thy ===== *)
theory Sys_Errors
  imports Go_Prelude
begin

text \<open>
  Error values (\<^verbatim>\<open>errors.go\<close>, \<^verbatim>\<open>systemerrcode_string.go\<close> and the package-level error variables
  of the other files). A Go \<^verbatim>\<open>error\<close> is a value of \<open>gerror\<close>; an \<^verbatim>\<open>err\<close> that may be nil is a
  \<open>gerror option\<close>. Every package-level \<^verbatim>\<open>errors.New\<close> variable has a text of its own, so equality of
  \<open>ErrorString\<close> values is the identity comparison the sources make (\<^verbatim>\<open>err == io.EOF\<close>).
\<close>

section \<open>Codes\<close>

type_synonym SystemErrCode = byte

definition invalidMessageID :: uint32 where
  "invalidMessageID = 0xFFFFFFFF"

definition ErrCodeInvalid :: SystemErrCode where [simp]: "ErrCodeInvalid = 0x00"
definition ErrCodeTimeout :: SystemErrCode where [simp]: "ErrCodeTimeout = 0x01"
definition ErrCodeCancelled :: SystemErrCode where [simp]: "ErrCodeCancelled = 0x02"
definition ErrCodeBusy :: SystemErrCode where [simp]: "ErrCodeBusy = 0x03"
definition ErrCodeDeclined :: SystemErrCode where [simp]: "ErrCodeDeclined = 0x04"
definition ErrCodeUnexpected :: SystemErrCode where [simp]: "ErrCodeUnexpected = 0x05"
definition ErrCodeBadRequest :: SystemErrCode where [simp]: "ErrCodeBadRequest = 0x06"
definition ErrCodeNetwork :: SystemErrCode where [simp]: "ErrCodeNetwork = 0x07"
definition ErrCodeProtocol :: SystemErrCode where [simp]: "ErrCodeProtocol = 0xFF"

text \<open>The generated \<^verbatim>\<open>String\<close> method: a slice of one long name table.\<close>

definition SystemErrCode_name_0 :: string where
  "SystemErrCode_name_0 = ''ErrCodeInvalidErrCodeTimeoutErrCodeCancelledErrCodeBusyErrCodeDeclinedErrCodeUnexpectedErrCodeBadRequestErrCodeNetwork''"

definition SystemErrCode_index_0 :: "nat list" where
  "SystemErrCode_index_0 = [0, 14, 28, 44, 55, 70, 87, 104, 118]"

definition SystemErrCode_String :: "SystemErrCode \<Rightarrow> string" where
  "SystemErrCode_String i =
     (if i \<le> 7 then
        drop (SystemErrCode_index_0 ! unat i)
          (take (SystemErrCode_index_0 ! (unat i + 1)) SystemErrCode_name_0)
      else if i = 255 then ''ErrCodeProtocol''
      else ''SystemErrCode('' @ show_nat (unat i) @ '')'')"

definition MetricsKey :: "SystemErrCode \<Rightarrow> string" where
  "MetricsKey c =
     (if c = ErrCodeInvalid then ''invalid''
      else if c = ErrCodeTimeout then ''timeout''
      else if c = ErrCodeCancelled then ''cancelled''
      else if c = ErrCodeBusy then ''busy''
      else if c = ErrCodeDeclined then ''declined''
      else if c = ErrCodeUnexpected then ''unexpected-error''
      else if c = ErrCodeBadRequest then ''bad-request''
      else if c = ErrCodeNetwork then ''network-error''
      else if c = ErrCodeProtocol then ''protocol-error''
      else SystemErrCode_String c)"

definition relayMetricsKey :: "SystemErrCode \<Rightarrow> string" where
  "relayMetricsKey c =
     (if c = ErrCodeInvalid then ''relay-invalid''
      else if c = ErrCodeTimeout then ''relay-timeout''
      else if c = ErrCodeCancelled then ''relay-cancelled''
      else if c = ErrCodeBusy then ''relay-busy''
      else if c = ErrCodeDeclined then ''relay-declined''
      else if c = ErrCodeUnexpected then ''relay-unexpected-error''
      else if c = ErrCodeBadRequest then ''relay-bad-request''
      else if c = ErrCodeNetwork then ''relay-network-error''
      else if c = ErrCodeProtocol then ''relay-protocol-error''
      else ''relay-'' @ SystemErrCode_String c)"

section \<open>Formatting without operands\<close>

text \<open>
  \<^verbatim>\<open>fmt.Sprintf(format)\<close> with no operands, byte by byte: text is copied, \<^verbatim>\<open>%%\<close> is a percent sign,
  a directive (flags, width, precision, verb) has no operand and prints as \<^verbatim>\<open>%!verb(MISSING)\<close>, and
  a format that ends inside a directive prints \<^verbatim>\<open>%!(NOVERB)\<close>. A width or precision given as \<^verbatim>\<open>*\<close>
  is reported as \<^verbatim>\<open>%!(BADWIDTH)\<close> and \<^verbatim>\<open>%!(BADPREC)\<close>. Explicit argument indexes (\<^verbatim>\<open>%[1]d\<close>) and verbs
  outside ASCII are not treated specially.
\<close>

fun skip_chars :: "string \<Rightarrow> string \<Rightarrow> string" where
  "skip_chars cs [] = []"
| "skip_chars cs (c # s) = (if c \<in> set cs then skip_chars cs s else c # s)"

lemma length_skip_chars: "length (skip_chars cs s) \<le> length s"
  by (induction s) auto

fun strip_prefix :: "string \<Rightarrow> string \<Rightarrow> string option" where
  "strip_prefix [] s = Some s"
| "strip_prefix (c # p) [] = None"
| "strip_prefix (c # p) (d # s) = (if c = d then strip_prefix p s else None)"

lemma length_strip_prefix: "strip_prefix p s = Some t \<Longrightarrow> length t \<le> length s"
  by (induction p s rule: strip_prefix.induct) (auto split: if_splits)

definition sprintf_width :: "string \<Rightarrow> string \<times> string" where
  "sprintf_width s =
     (case strip_prefix ''*'' s of
        Some s' \<Rightarrow> (''%!(BADWIDTH)'', s')
      | None \<Rightarrow> ([], skip_chars ''0123456789'' s))"

definition sprintf_prec :: "string \<Rightarrow> string \<times> string" where
  "sprintf_prec s =
     (case strip_prefix ''.'' s of
        None \<Rightarrow> ([], s)
      | Some s' \<Rightarrow>
          (case strip_prefix ''*'' s' of
             Some s'' \<Rightarrow> (''%!(BADPREC)'', s'')
           | None \<Rightarrow> ([], skip_chars ''0123456789'' s')))"

definition sprintf_directive :: "string \<Rightarrow> string \<times> string" where
  "sprintf_directive s =
     (let (o1, s1) = sprintf_width (skip_chars ''#0+- '' s);
          (o2, s2) = sprintf_prec s1
      in case s2 of
           [] \<Rightarrow> (o1 @ o2 @ ''%!(NOVERB)'', [])
         | v # s3 \<Rightarrow>
             (if v = CHR ''%'' then (o1 @ o2 @ ''%'', s3)
              else (o1 @ o2 @ ''%!'' @ [v] @ ''(MISSING)'', s3)))"

lemma length_sprintf_width: "length (snd (sprintf_width s)) \<le> length s"
  by (auto simp: sprintf_width_def length_skip_chars dest: length_strip_prefix
      simp del: strip_prefix.simps skip_chars.simps split: option.splits)

lemma length_sprintf_prec: "length (snd (sprintf_prec s)) \<le> length s"
  by (auto simp: sprintf_prec_def dest!: length_strip_prefix
      intro: le_trans [OF length_skip_chars]
      simp del: strip_prefix.simps skip_chars.simps split: option.splits)

lemma length_sprintf_directive: "length (snd (sprintf_directive s)) \<le> length s"
proof -
  let ?s1 = "snd (sprintf_width (skip_chars ''#0+- '' s))"
  have "length (snd (sprintf_prec ?s1)) \<le> length ?s1"
    by (rule length_sprintf_prec)
  also have "\<dots> \<le> length (skip_chars ''#0+- '' s)"
    by (rule length_sprintf_width)
  also have "\<dots> \<le> length s"
    by (rule length_skip_chars)
  finally have "length (snd (sprintf_prec ?s1)) \<le> length s" .
  then show ?thesis
    by (cases "snd (sprintf_prec ?s1)")
      (simp_all add: sprintf_directive_def case_prod_unfold Let_def)
qed

function Sprintf0 :: "string \<Rightarrow> string" where
  "Sprintf0 [] = []"
| "Sprintf0 (c # s) =
     (if c = CHR ''%'' then
        fst (sprintf_directive s) @ Sprintf0 (snd (sprintf_directive s))
      else c # Sprintf0 s)"
  by pat_completeness auto
termination
  by (relation "measure length") (simp_all add: length_sprintf_directive less_Suc_eq_le)

lemma Sprintf0_plain: "CHR ''%'' \<notin> set s \<Longrightarrow> Sprintf0 s = s"
  by (induction s) auto

section \<open>Error values\<close>

text \<open>The state types that occur inside error values.\<close>

datatype connectionState =
  connectionActive | connectionStartClose | connectionInboundClosed | connectionClosed

datatype reqResWriterState =
  reqResWriterPreArg1 | reqResWriterPreArg2 | reqResWriterPreArg3 | reqResWriterComplete

datatype reqResReaderState =
  reqResReaderPreArg1 | reqResReaderPreArg2 | reqResReaderPreArg3 | reqResReaderComplete

fun connectionState_String :: "connectionState \<Rightarrow> string" where
  "connectionState_String connectionActive = ''connectionActive''"
| "connectionState_String connectionStartClose = ''connectionStartClose''"
| "connectionState_String connectionInboundClosed = ''connectionInboundClosed''"
| "connectionState_String connectionClosed = ''connectionClosed''"

fun reqResWriterState_String :: "reqResWriterState \<Rightarrow> string" where
  "reqResWriterState_String reqResWriterPreArg1 = ''reqResWriterPreArg1''"
| "reqResWriterState_String reqResWriterPreArg2 = ''reqResWriterPreArg2''"
| "reqResWriterState_String reqResWriterPreArg3 = ''reqResWriterPreArg3''"
| "reqResWriterState_String reqResWriterComplete = ''reqResWriterComplete''"

fun reqResReaderState_String :: "reqResReaderState \<Rightarrow> string" where
  "reqResReaderState_String reqResReaderPreArg1 = ''reqResReaderPreArg1''"
| "reqResReaderState_String reqResReaderPreArg2 = ''reqResReaderPreArg2''"
| "reqResReaderState_String reqResReaderPreArg3 = ''reqResReaderPreArg3''"
| "reqResReaderState_String reqResReaderComplete = ''reqResReaderComplete''"

text \<open>The tracing span carried by calls and error frames (\<^verbatim>\<open>tracing.go\<close>).\<close>

record Span =
  traceID :: uint64
  parentID :: uint64
  spanID :: uint64
  spanFlags :: byte

definition emptySpan :: Span where
  "emptySpan = \<lparr>traceID = 0, parentID = 0, spanID = 0, spanFlags = 0\<rparr>"

text \<open>
  \<open>ErrorString\<close> is what \<^verbatim>\<open>errors.New\<close> and \<^verbatim>\<open>fmt.Errorf\<close> return. \<open>NetError\<close> is a \<^verbatim>\<open>net.Error\<close> with its
  \<^verbatim>\<open>Timeout()\<close> and its text. \<open>ErrorMessage\<close> is an \<^verbatim>\<open>errorMessage\<close> used as an error value.
\<close>

datatype gerror =
    ErrorString string
  | SystemError SystemErrCode string "gerror option"
  | ErrorMessage uint32 SystemErrCode Span string
  | NetError bool string
  | DeadlineExceeded
  | Canceled
  | ErrConnNotActive string connectionState
  | ErrReqResWriterStateMismatch reqResWriterState reqResWriterState
  | ErrReqResReaderStateMismatch reqResReaderState reqResReaderState

definition ioEOF :: gerror where "ioEOF = ErrorString ''EOF''"
definition ioErrUnexpectedEOF :: gerror where "ioErrUnexpectedEOF = ErrorString ''unexpected EOF''"
definition ErrEOF :: gerror where "ErrEOF = ErrorString ''buffer is too small''"
definition ErrBufferFull :: gerror where "ErrBufferFull = ErrorString ''no more room in buffer''"
definition errStringTooLong :: gerror where "errStringTooLong = ErrorString ''string is too long''"

definition NewSystemError :: "SystemErrCode \<Rightarrow> string \<Rightarrow> gerror" where
  "NewSystemError code msg = SystemError code (Sprintf0 msg) None"

definition ErrServerBusy :: gerror where
  "ErrServerBusy = NewSystemError ErrCodeBusy ''server busy''"
definition ErrRequestCancelled :: gerror where
  "ErrRequestCancelled = NewSystemError ErrCodeCancelled ''request cancelled''"
definition ErrTimeout :: gerror where
  "ErrTimeout = NewSystemError ErrCodeTimeout ''timeout''"
definition ErrTimeoutRequired :: gerror where
  "ErrTimeoutRequired = NewSystemError ErrCodeBadRequest ''timeout required''"
definition ErrChannelClosed :: gerror where
  "ErrChannelClosed = NewSystemError ErrCodeDeclined ''closed channel''"
definition ErrMethodTooLarge :: gerror where
  "ErrMethodTooLarge = NewSystemError ErrCodeProtocol ''method too large''"

text \<open>The \<^verbatim>\<open>Error()\<close> methods.\<close>

fun Error :: "gerror \<Rightarrow> string" where
  "Error (ErrorString s) = s"
| "Error (SystemError code msg wrapped) =
     ''tchannel error '' @ SystemErrCode_String code @ '': '' @ msg"
| "Error (ErrorMessage msgID code span msg) =
     ''tchannel error '' @ SystemErrCode_String code @ '': '' @ Sprintf0 msg"
| "Error (NetError timeout text) = text"
| "Error DeadlineExceeded = ''context deadline exceeded''"
| "Error Canceled = ''context canceled''"
| "Error (ErrConnNotActive info state) =
     info @ '' connection is not active: '' @ connectionState_String state"
| "Error (ErrReqResWriterStateMismatch state expected) =
     ''attempting write outside of expected state, in '' @ reqResWriterState_String state
     @ '' expected '' @ reqResWriterState_String expected"
| "Error (ErrReqResReaderStateMismatch state expected) =
     ''attempting read outside of expected state, in '' @ reqResReaderState_String state
     @ '' expected '' @ reqResReaderState_String expected"

fun NewWrappedSystemError :: "SystemErrCode \<Rightarrow> gerror \<Rightarrow> gerror" where
  "NewWrappedSystemError code (SystemError c m w) = SystemError c m w"
| "NewWrappedSystemError code wrapped = SystemError code (Error wrapped) (Some wrapped)"

definition GetContextError :: "gerror \<Rightarrow> gerror" where
  "GetContextError err =
     (if err = DeadlineExceeded then ErrTimeout
      else if err = Canceled then ErrRequestCancelled
      else err)"

fun GetSystemErrorCode :: "gerror option \<Rightarrow> SystemErrCode" where
  "GetSystemErrorCode None = ErrCodeInvalid"
| "GetSystemErrorCode (Some (SystemError code msg wrapped)) = code"
| "GetSystemErrorCode (Some err) = ErrCodeUnexpected"

fun GetSystemErrorMessage :: "gerror \<Rightarrow> string" where
  "GetSystemErrorMessage (SystemError code msg wrapped) = msg"
| "GetSystemErrorMessage err = Error err"

definition AsSystemError :: "SystemErrCode \<Rightarrow> string \<Rightarrow> gerror" where
  "AsSystemError errCode message = NewSystemError errCode message"

section \<open>Facts shared by the components\<close>

lemma NewWrappedSystemError_is_system:
  "\<exists>c m w. NewWrappedSystemError code err = SystemError c m w"
  by (cases err) auto

lemma NewWrappedSystemError_idem:
  "NewWrappedSystemError c2 (NewWrappedSystemError c1 err) = NewWrappedSystemError c1 err"
  by (cases err) auto

lemma GetSystemErrorCode_New [simp]:
  "GetSystemErrorCode (Some (NewSystemError code msg)) = code"
  by (simp add: NewSystemError_def)

end
