(* ===== verification/Typed_Buffer.thy ===== *)
theory Typed_Buffer
  imports Sys_Errors "HOL-Library.Sublist"
begin

text \<open>
  The fixed-size read and write buffers of \<^verbatim>\<open>typed/buffer.go\<close>. A \<open>ReadBuffer\<close> keeps the unread
  bytes and the first error. A \<open>WriteBuffer\<close> keeps the whole array and the position of
  \<^verbatim>\<open>remaining\<close>, which is always a suffix of it; a reference returned by a \<^verbatim>\<open>Defer\<close> method is the
  offset and length of a slice of that array, \<open>None\<close> for nil. Both buffers are passed along
  explicitly. The locale \<open>wire_codec\<close> at the end is the contract every writer/reader pair of
  the protocol keeps; the pairs of this file interpret it.
\<close>

section \<open>ReadBuffer\<close>

record ReadBuffer =
  rb_initialLength :: nat
  rb_remaining :: "byte list"
  rb_err :: "gerror option"

definition NewReadBuffer :: "byte list \<Rightarrow> ReadBuffer" where
  "NewReadBuffer buffer = \<lparr>rb_initialLength = length buffer, rb_remaining = buffer, rb_err = None\<rparr>"

definition ReadByte :: "ReadBuffer \<Rightarrow> (byte \<times> gerror option) \<times> ReadBuffer" where
  "ReadByte r =
     (case rb_err r of
        Some e \<Rightarrow> ((0, Some e), r)
      | None \<Rightarrow>
          (case rb_remaining r of
             [] \<Rightarrow> ((0, Some ErrEOF), r\<lparr>rb_err := Some ErrEOF\<rparr>)
           | b # bs \<Rightarrow> ((b, None), r\<lparr>rb_remaining := bs\<rparr>)))"

definition ReadSingleByte :: "ReadBuffer \<Rightarrow> byte \<times> ReadBuffer" where
  "ReadSingleByte r = (case ReadByte r of ((b, _), r') \<Rightarrow> (b, r'))"

definition ReadBytes :: "nat \<Rightarrow> ReadBuffer \<Rightarrow> byte list option \<times> ReadBuffer" where
  "ReadBytes n r =
     (case rb_err r of
        Some e \<Rightarrow> (None, r)
      | None \<Rightarrow>
          if length (rb_remaining r) < n then (None, r\<lparr>rb_err := Some ErrEOF\<rparr>)
          else (Some (take n (rb_remaining r)), r\<lparr>rb_remaining := drop n (rb_remaining r)\<rparr>))"

definition SkipBytes :: "nat \<Rightarrow> ReadBuffer \<Rightarrow> ReadBuffer" where
  "SkipBytes n r =
     (case rb_err r of
        Some e \<Rightarrow> r
      | None \<Rightarrow>
          if length (rb_remaining r) < n then r\<lparr>rb_err := Some ErrEOF\<rparr>
          else r\<lparr>rb_remaining := drop n (rb_remaining r)\<rparr>)"

definition ReadString :: "nat \<Rightarrow> ReadBuffer \<Rightarrow> string \<times> ReadBuffer" where
  "ReadString n r =
     (case ReadBytes n r of (Some b, r') \<Rightarrow> (string_of_bytes b, r') | (None, r') \<Rightarrow> ([], r'))"

definition ReadUint16 :: "ReadBuffer \<Rightarrow> uint16 \<times> ReadBuffer" where
  "ReadUint16 r = (case ReadBytes 2 r of (Some b, r') \<Rightarrow> (Uint16 b, r') | (None, r') \<Rightarrow> (0, r'))"

definition ReadUint32 :: "ReadBuffer \<Rightarrow> uint32 \<times> ReadBuffer" where
  "ReadUint32 r = (case ReadBytes 4 r of (Some b, r') \<Rightarrow> (Uint32 b, r') | (None, r') \<Rightarrow> (0, r'))"

definition ReadUint64 :: "ReadBuffer \<Rightarrow> uint64 \<times> ReadBuffer" where
  "ReadUint64 r = (case ReadBytes 8 r of (Some b, r') \<Rightarrow> (Uint64 b, r') | (None, r') \<Rightarrow> (0, r'))"

text \<open>
  \<^verbatim>\<open>binary.ReadUvarint\<close>: at most ten bytes, seven bits each, least significant first. \<open>k\<close> counts
  the bytes that may still be read; the error it returns besides the value is dropped by
  \<^verbatim>\<open>ReadBuffer.ReadUvarint\<close>.
\<close>

fun uvarint_loop :: "nat \<Rightarrow> nat \<Rightarrow> uint64 \<Rightarrow> ReadBuffer \<Rightarrow> uint64 \<times> ReadBuffer" where
  "uvarint_loop 0 s x r = (x, r)"
| "uvarint_loop (Suc k) s x r =
     (case ReadByte r of
        ((b, Some e), r') \<Rightarrow> (x, r')
      | ((b, None), r') \<Rightarrow>
          if b < 0x80 then
            (if k = 0 \<and> b > 1 then (x, r') else (x OR push_bit s (ucast b), r'))
          else uvarint_loop k (s + 7) (x OR push_bit s (ucast (b AND 0x7F))) r')"

definition ReadUvarint :: "ReadBuffer \<Rightarrow> uint64 \<times> ReadBuffer" where
  "ReadUvarint r = uvarint_loop 10 0 0 r"

definition ReadLen8String :: "ReadBuffer \<Rightarrow> string \<times> ReadBuffer" where
  "ReadLen8String r = (let (n, r1) = ReadSingleByte r in ReadString (unat n) r1)"

definition ReadLen16String :: "ReadBuffer \<Rightarrow> string \<times> ReadBuffer" where
  "ReadLen16String r = (let (n, r1) = ReadUint16 r in ReadString (unat n) r1)"

definition Remaining :: "ReadBuffer \<Rightarrow> byte list" where
  "Remaining r = rb_remaining r"

definition rb_BytesRemaining :: "ReadBuffer \<Rightarrow> nat" where
  "rb_BytesRemaining r = length (Remaining r)"

definition BytesRead :: "ReadBuffer \<Rightarrow> nat" where
  "BytesRead r = rb_initialLength r - length (rb_remaining r)"

definition rb_Wrap :: "byte list \<Rightarrow> ReadBuffer \<Rightarrow> ReadBuffer" where
  "rb_Wrap b r = \<lparr>rb_initialLength = length b, rb_remaining = b, rb_err = None\<rparr>"

section \<open>WriteBuffer\<close>

record WriteBuffer =
  wb_buffer :: "byte list"
  wb_pos :: nat
  wb_err :: "gerror option"

type_synonym slice_ref = "(nat \<times> nat) option"

definition NewWriteBuffer :: "byte list \<Rightarrow> WriteBuffer" where
  "NewWriteBuffer buffer = \<lparr>wb_buffer = buffer, wb_pos = 0, wb_err = None\<rparr>"

definition NewWriteBufferWithSize :: "nat \<Rightarrow> WriteBuffer" where
  "NewWriteBufferWithSize sz = NewWriteBuffer (replicate sz 0)"

definition wb_BytesRemaining :: "WriteBuffer \<Rightarrow> nat" where
  "wb_BytesRemaining w = length (wb_buffer w) - wb_pos w"

definition BytesWritten :: "WriteBuffer \<Rightarrow> nat" where
  "BytesWritten w = length (wb_buffer w) - wb_BytesRemaining w"

definition setErr :: "gerror \<Rightarrow> WriteBuffer \<Rightarrow> WriteBuffer" where
  "setErr e w = (if wb_err w \<noteq> None then w else w\<lparr>wb_err := Some e\<rparr>)"

definition WriteSingleByte :: "byte \<Rightarrow> WriteBuffer \<Rightarrow> WriteBuffer" where
  "WriteSingleByte n w =
     (if wb_err w \<noteq> None then w
      else if wb_BytesRemaining w = 0 then setErr ErrBufferFull w
      else w\<lparr>wb_buffer := copy_at (wb_pos w) [n] (wb_buffer w), wb_pos := wb_pos w + 1\<rparr>)"

definition reserve :: "nat \<Rightarrow> WriteBuffer \<Rightarrow> slice_ref \<times> WriteBuffer" where
  "reserve n w =
     (if wb_err w \<noteq> None then (None, w)
      else if wb_BytesRemaining w < n then (None, setErr ErrBufferFull w)
      else (Some (wb_pos w, n), w\<lparr>wb_pos := wb_pos w + n\<rparr>))"

text \<open>Writing through a slice of the array: \<^verbatim>\<open>copy(ref, src)\<close>, nothing for a nil slice.\<close>

definition copy_ref :: "slice_ref \<Rightarrow> byte list \<Rightarrow> WriteBuffer \<Rightarrow> WriteBuffer" where
  "copy_ref ref src w =
     (case ref of
        None \<Rightarrow> w
      | Some (i, n) \<Rightarrow> w\<lparr>wb_buffer := copy_at i (take n src) (wb_buffer w)\<rparr>)"

definition WriteBytes :: "byte list \<Rightarrow> WriteBuffer \<Rightarrow> WriteBuffer" where
  "WriteBytes src w = (case reserve (length src) w of (b, w') \<Rightarrow> copy_ref b src w')"

definition WriteUint16 :: "uint16 \<Rightarrow> WriteBuffer \<Rightarrow> WriteBuffer" where
  "WriteUint16 n w = (case reserve 2 w of (b, w') \<Rightarrow> copy_ref b (PutUint16 n) w')"

definition WriteUint32 :: "uint32 \<Rightarrow> WriteBuffer \<Rightarrow> WriteBuffer" where
  "WriteUint32 n w = (case reserve 4 w of (b, w') \<Rightarrow> copy_ref b (PutUint32 n) w')"

definition WriteUint64 :: "uint64 \<Rightarrow> WriteBuffer \<Rightarrow> WriteBuffer" where
  "WriteUint64 n w = (case reserve 8 w of (b, w') \<Rightarrow> copy_ref b (PutUint64 n) w')"

text \<open>\<^verbatim>\<open>binary.PutUvarint\<close>.\<close>

function PutUvarint :: "uint64 \<Rightarrow> byte list" where
  "PutUvarint x = (if x < 0x80 then [ucast x] else (ucast x OR 0x80) # PutUvarint (drop_bit 7 x))"
  by pat_completeness auto
termination
proof (relation "measure unat", goal_cases)
  case (2 x)
  then have "128 \<le> unat x"
    by (simp add: word_less_nat_alt not_less)
  then have "unat x div 128 < unat x" by simp
  then show ?case by (simp add: drop_bit_eq_div unat_div_distrib)
qed simp

declare PutUvarint.simps [simp del]

definition WriteUvarint :: "uint64 \<Rightarrow> WriteBuffer \<Rightarrow> WriteBuffer" where
  "WriteUvarint n w =
     (let buf = PutUvarint n
      in case reserve (length buf) w of (b, w') \<Rightarrow> copy_ref b buf w')"

definition WriteString :: "string \<Rightarrow> WriteBuffer \<Rightarrow> WriteBuffer" where
  "WriteString s w =
     (case reserve (length s) w of (b, w') \<Rightarrow> copy_ref b (bytes_of_string s) w')"

definition WriteLen8String :: "string \<Rightarrow> WriteBuffer \<Rightarrow> WriteBuffer" where
  "WriteLen8String s w =
     (let w1 = (if unat (of_nat (length s) :: byte) \<noteq> length s then setErr errStringTooLong w else w)
      in WriteString s (WriteSingleByte (of_nat (length s)) w1))"

definition WriteLen16String :: "string \<Rightarrow> WriteBuffer \<Rightarrow> WriteBuffer" where
  "WriteLen16String s w =
     (let w1 = (if unat (of_nat (length s) :: uint16) \<noteq> length s then setErr errStringTooLong w else w)
      in WriteString s (WriteUint16 (of_nat (length s)) w1))"

definition DeferByte :: "WriteBuffer \<Rightarrow> slice_ref \<times> WriteBuffer" where
  "DeferByte w =
     (if wb_BytesRemaining w = 0 then (None, setErr ErrBufferFull w)
      else (Some (wb_pos w, wb_BytesRemaining w),
            w\<lparr>wb_buffer := copy_at (wb_pos w) [0] (wb_buffer w), wb_pos := wb_pos w + 1\<rparr>))"

definition deferred :: "nat \<Rightarrow> WriteBuffer \<Rightarrow> slice_ref \<times> WriteBuffer" where
  "deferred n w = (case reserve n w of (bs, w') \<Rightarrow> (bs, copy_ref bs (replicate n 0) w'))"

definition DeferUint16 :: "WriteBuffer \<Rightarrow> slice_ref \<times> WriteBuffer" where
  "DeferUint16 w = deferred 2 w"

definition DeferUint32 :: "WriteBuffer \<Rightarrow> slice_ref \<times> WriteBuffer" where
  "DeferUint32 w = deferred 4 w"

definition DeferUint64 :: "WriteBuffer \<Rightarrow> slice_ref \<times> WriteBuffer" where
  "DeferUint64 w = deferred 8 w"

definition DeferBytes :: "nat \<Rightarrow> WriteBuffer \<Rightarrow> slice_ref \<times> WriteBuffer" where
  "DeferBytes n w = deferred n w"

definition FlushTo :: "WriteBuffer \<Rightarrow> byte list" where
  "FlushTo w = take (BytesWritten w) (wb_buffer w)"

definition wb_Reset :: "WriteBuffer \<Rightarrow> WriteBuffer" where
  "wb_Reset w = w\<lparr>wb_pos := 0, wb_err := None\<rparr>"

definition wb_Wrap :: "byte list \<Rightarrow> WriteBuffer \<Rightarrow> WriteBuffer" where
  "wb_Wrap b w = w\<lparr>wb_buffer := b, wb_pos := 0\<rparr>"

text \<open>The \<^verbatim>\<open>Update\<close> methods of the references.\<close>

definition ByteRef_Update :: "slice_ref \<Rightarrow> byte \<Rightarrow> WriteBuffer \<Rightarrow> WriteBuffer" where
  "ByteRef_Update ref b w = copy_ref ref [b] w"

definition Uint16Ref_Update :: "slice_ref \<Rightarrow> uint16 \<Rightarrow> WriteBuffer \<Rightarrow> WriteBuffer" where
  "Uint16Ref_Update ref n w = copy_ref ref (PutUint16 n) w"

definition Uint32Ref_Update :: "slice_ref \<Rightarrow> uint32 \<Rightarrow> WriteBuffer \<Rightarrow> WriteBuffer" where
  "Uint32Ref_Update ref n w = copy_ref ref (PutUint32 n) w"

definition Uint64Ref_Update :: "slice_ref \<Rightarrow> uint64 \<Rightarrow> WriteBuffer \<Rightarrow> WriteBuffer" where
  "Uint64Ref_Update ref n w = copy_ref ref (PutUint64 n) w"

definition BytesRef_Update :: "slice_ref \<Rightarrow> byte list \<Rightarrow> WriteBuffer \<Rightarrow> WriteBuffer" where
  "BytesRef_Update ref b w = copy_ref ref b w"

definition BytesRef_UpdateString :: "slice_ref \<Rightarrow> string \<Rightarrow> WriteBuffer \<Rightarrow> WriteBuffer" where
  "BytesRef_UpdateString ref s w = copy_ref ref (bytes_of_string s) w"

section \<open>What the operations do\<close>

text \<open>The invariant of a write buffer, the bytes written so far, and the effect of a write that fits.\<close>

definition wb_inv :: "WriteBuffer \<Rightarrow> bool" where
  "wb_inv w \<longleftrightarrow> wb_pos w \<le> length (wb_buffer w)"

definition wb_written :: "WriteBuffer \<Rightarrow> byte list" where
  "wb_written w = take (wb_pos w) (wb_buffer w)"

definition wb_append :: "byte list \<Rightarrow> WriteBuffer \<Rightarrow> WriteBuffer" where
  "wb_append bs w =
     w\<lparr>wb_buffer := copy_at (wb_pos w) bs (wb_buffer w), wb_pos := wb_pos w + length bs\<rparr>"

lemmas wb_defs = wb_inv_def wb_written_def wb_append_def wb_BytesRemaining_def BytesWritten_def

lemma wb_inv_New [simp]: "wb_inv (NewWriteBuffer b)"
  by (simp add: NewWriteBuffer_def wb_inv_def)

lemma wb_New_simps [simp]:
  "wb_err (NewWriteBuffer b) = None" "wb_written (NewWriteBuffer b) = []"
  "wb_BytesRemaining (NewWriteBuffer b) = length b" "wb_pos (NewWriteBuffer b) = 0"
  "wb_buffer (NewWriteBuffer b) = b"
  by (simp_all add: NewWriteBuffer_def wb_defs)

lemma rb_New_simps [simp]:
  "rb_err (NewReadBuffer b) = None" "rb_remaining (NewReadBuffer b) = b"
  by (simp_all add: NewReadBuffer_def)

lemma BytesWritten_pos: "wb_inv w \<Longrightarrow> BytesWritten w = wb_pos w"
  by (simp add: wb_defs)

lemma FlushTo_written: "wb_inv w \<Longrightarrow> FlushTo w = wb_written w"
  by (simp add: FlushTo_def BytesWritten_pos wb_written_def)

lemma wb_append_Nil [simp]: "wb_append [] w = w"
  by (simp add: wb_append_def)

lemma wb_append_append:
  assumes "wb_inv w" and "length a + length b \<le> wb_BytesRemaining w"
  shows "wb_append b (wb_append a w) = wb_append (a @ b) w"
  using assms by (simp add: wb_defs copy_at_append add.assoc)

lemma wb_append_props [simp]:
  assumes "wb_inv w" and "length bs \<le> wb_BytesRemaining w"
  shows "wb_inv (wb_append bs w)"
    and "wb_BytesRemaining (wb_append bs w) = wb_BytesRemaining w - length bs"
    and "wb_written (wb_append bs w) = wb_written w @ bs"
    and "wb_err (wb_append bs w) = wb_err w"
    and "length (wb_buffer (wb_append bs w)) = length (wb_buffer w)"
  using assms by (simp_all add: wb_defs take_copy_at_end)

lemma setErr_simps [simp]:
  "wb_err w = Some e \<Longrightarrow> setErr e' w = w"
  "wb_err w = None \<Longrightarrow> setErr e' w = w\<lparr>wb_err := Some e'\<rparr>"
  by (simp_all add: setErr_def)

text \<open>
  All the fixed-size writers and \<^verbatim>\<open>WriteString\<close> are the same operation on the encoded bytes: they
  append all of them, or none and record \<^verbatim>\<open>ErrBufferFull\<close>, and do nothing once an error is set.
\<close>

lemma reserve_copy:
  assumes "length src = n" and "wb_inv w"
  shows "(case reserve n w of (b, w') \<Rightarrow> copy_ref b src w') =
     (if wb_err w \<noteq> None then w
      else if wb_BytesRemaining w < n then w\<lparr>wb_err := Some ErrBufferFull\<rparr>
      else wb_append src w)"
  using assms by (auto simp: reserve_def copy_ref_def wb_append_def)

lemma WriteBytes_eq:
  "wb_inv w \<Longrightarrow> WriteBytes src w =
     (if wb_err w \<noteq> None then w
      else if wb_BytesRemaining w < length src then w\<lparr>wb_err := Some ErrBufferFull\<rparr>
      else wb_append src w)"
  unfolding WriteBytes_def by (rule reserve_copy) simp_all

lemma WriteUint_eq:
  assumes "wb_inv w"
  shows "WriteUint16 n16 w = WriteBytes (PutUint16 n16) w"
    and "WriteUint32 n32 w = WriteBytes (PutUint32 n32) w"
    and "WriteUint64 n64 w = WriteBytes (PutUint64 n64) w"
    and "WriteUvarint n64 w = WriteBytes (PutUvarint n64) w"
    and "WriteString s w = WriteBytes (bytes_of_string s) w"
  by (simp_all add: WriteUint16_def WriteUint32_def WriteUint64_def WriteUvarint_def
      WriteString_def WriteBytes_def Let_def)

lemma WriteSingleByte_eq: "wb_inv w \<Longrightarrow> WriteSingleByte b w = WriteBytes [b] w"
  by (auto simp: WriteSingleByte_def WriteBytes_eq wb_append_def)

lemma WriteBytes_props:
  assumes "wb_inv w"
  shows "wb_inv (WriteBytes src w)"
    and "wb_err w = Some e \<Longrightarrow> WriteBytes src w = w"
    and "wb_err w = None \<Longrightarrow> length src \<le> wb_BytesRemaining w \<Longrightarrow> WriteBytes src w = wb_append src w"
    and "wb_err w = None \<Longrightarrow> wb_BytesRemaining w < length src \<Longrightarrow>
           WriteBytes src w = w\<lparr>wb_err := Some ErrBufferFull\<rparr>"
  using assms by (auto simp: WriteBytes_eq) (simp add: wb_inv_def)

text \<open>Reading a known number of bytes.\<close>

lemma ReadBytes_append:
  "rb_err r = None \<Longrightarrow> rb_remaining r = bs @ rest \<Longrightarrow>
   ReadBytes (length bs) r = (Some bs, r\<lparr>rb_remaining := rest\<rparr>)"
  by (simp add: ReadBytes_def)

lemma ReadBytes_short:
  "rb_err r = None \<Longrightarrow> length (rb_remaining r) < n \<Longrightarrow>
   ReadBytes n r = (None, r\<lparr>rb_err := Some ErrEOF\<rparr>)"
  by (simp add: ReadBytes_def)

lemma ReadBytes_err: "rb_err r = Some e \<Longrightarrow> ReadBytes n r = (None, r)"
  by (simp add: ReadBytes_def)

lemma SkipBytes_ReadBytes: "SkipBytes n r = snd (ReadBytes n r)"
  by (simp add: SkipBytes_def ReadBytes_def split: option.split)

lemma ReadSingleByte_ReadBytes:
  "ReadSingleByte r = (case ReadBytes 1 r of (Some b, r') \<Rightarrow> (hd b, r') | (None, r') \<Rightarrow> (0, r'))"
  by (auto simp: ReadSingleByte_def ReadByte_def ReadBytes_def split: option.split list.split)

section \<open>The contract of a writer and a reader\<close>

text \<open>
  \<open>enc v\<close> is the wire form of a value and \<open>view v\<close> what the reader makes of it (the same value,
  except that a map is written in the order of its enumeration and read back as a map).
  \<^item> A writer appends the wire form of a valid value when it fits and otherwise leaves
    \<^verbatim>\<open>ErrBufferFull\<close>; an error, once set, stays.
  \<^item> A reader consumes exactly the wire form, and a truncated form gives \<^verbatim>\<open>ErrEOF\<close>.
\<close>

locale wire_codec =
  fixes wr :: "'a \<Rightarrow> WriteBuffer \<Rightarrow> WriteBuffer"
    and rd :: "ReadBuffer \<Rightarrow> 'b \<times> ReadBuffer"
    and enc :: "'a \<Rightarrow> byte list"
    and valid :: "'a \<Rightarrow> bool"
    and view :: "'a \<Rightarrow> 'b"
  assumes write_enc: "wb_inv w \<Longrightarrow> wb_err w = None \<Longrightarrow> valid v \<Longrightarrow>
      length (enc v) \<le> wb_BytesRemaining w \<Longrightarrow> wr v w = wb_append (enc v) w"
    and write_full: "wb_inv w \<Longrightarrow> wb_err w = None \<Longrightarrow> valid v \<Longrightarrow>
      wb_BytesRemaining w < length (enc v) \<Longrightarrow> wb_err (wr v w) = Some ErrBufferFull"
    and write_err: "wb_inv w \<Longrightarrow> wb_err w = Some e \<Longrightarrow> wr v w = w"
    and write_inv: "wb_inv w \<Longrightarrow> wb_inv (wr v w)"
    and read_enc: "rb_err r = None \<Longrightarrow> valid v \<Longrightarrow> rb_remaining r = enc v @ rest \<Longrightarrow>
      rd r = (view v, r\<lparr>rb_remaining := rest\<rparr>)"
    and read_short: "rb_err r = None \<Longrightarrow> valid v \<Longrightarrow> strict_prefix (rb_remaining r) (enc v) \<Longrightarrow>
      rb_err (snd (rd r)) = Some ErrEOF"
    and read_err: "rb_err r = Some e \<Longrightarrow> rb_err (snd (rd r)) = Some e"
begin

lemma roundtrip:
  assumes "valid v" and "length (enc v) \<le> length buf"
  shows "wb_err (wr v (NewWriteBuffer buf)) = None"
    and "rd (NewReadBuffer (FlushTo (wr v (NewWriteBuffer buf)) @ rest)) =
      (view v, \<lparr>rb_initialLength = length (enc v) + length rest, rb_remaining = rest, rb_err = None\<rparr>)"
proof -
  have w: "wr v (NewWriteBuffer buf) = wb_append (enc v) (NewWriteBuffer buf)"
    using assms by (simp add: write_enc)
  then show "wb_err (wr v (NewWriteBuffer buf)) = None"
    using assms by simp
  have "FlushTo (wr v (NewWriteBuffer buf)) = enc v"
    using assms by (simp add: w FlushTo_written)
  then show "rd (NewReadBuffer (FlushTo (wr v (NewWriteBuffer buf)) @ rest)) =
      (view v, \<lparr>rb_initialLength = length (enc v) + length rest, rb_remaining = rest, rb_err = None\<rparr>)"
    using assms by (simp add: read_enc NewReadBuffer_def)
qed

lemma write_result:
  assumes "wb_inv w" and "wb_err w = None" and "valid v"
  shows "wb_err (wr v w) = (if length (enc v) \<le> wb_BytesRemaining w then None else Some ErrBufferFull)"
  using assms by (simp add: write_enc write_full)

lemma enc_inject:
  assumes "valid v" and "valid v'" and "enc v @ rest = enc v' @ rest'"
  shows "view v = view v'" and "rest = rest'"
proof -
  let ?r = "NewReadBuffer (enc v @ rest)"
  have 1: "rd ?r = (view v, ?r\<lparr>rb_remaining := rest\<rparr>)"
    using assms by (intro read_enc) (simp_all add: NewReadBuffer_def)
  have 2: "rd ?r = (view v', ?r\<lparr>rb_remaining := rest'\<rparr>)"
    using assms by (intro read_enc) (simp_all add: NewReadBuffer_def)
  from 1 2 show "view v = view v'" by simp
  from 1 2 have "rb_remaining (?r\<lparr>rb_remaining := rest\<rparr>) = rb_remaining (?r\<lparr>rb_remaining := rest'\<rparr>)"
    by simp
  then show "rest = rest'" by simp
qed

end

text \<open>
  Contracts compose: a pair is written and read one after the other, an isomorphic value
  through its components, and a list of known length element by element.
\<close>

lemma wire_codec_pair:
  assumes A: "wire_codec wa ra ea va fa" and B: "wire_codec wb rb eb vb fb"
  shows "wire_codec (\<lambda>(a, b) w. wb b (wa a w))
     (\<lambda>r. let (a, r1) = ra r; (b, r2) = rb r1 in ((a, b), r2))
     (\<lambda>(a, b). ea a @ eb b) (\<lambda>(a, b). va a \<and> vb b) (\<lambda>(a, b). (fa a, fb b))"
proof (unfold_locales, goal_cases)
  case (1 w v)
  obtain a b where v: "v = (a, b)" by force
  have "wa a w = wb_append (ea a) w"
    using 1 v by (intro wire_codec.write_enc [OF A]) auto
  moreover have "wb b (wb_append (ea a) w) = wb_append (eb b) (wb_append (ea a) w)"
    using 1 v by (intro wire_codec.write_enc [OF B]) auto
  ultimately show ?case using 1 v by (simp add: wb_append_append)
next
  case (2 w v)
  obtain a b where v: "v = (a, b)" by force
  show ?case
  proof (cases "wb_BytesRemaining w < length (ea a)")
    case True
    then have "wb_err (wa a w) = Some ErrBufferFull" and "wb_inv (wa a w)"
      using 2 v wire_codec.write_full [OF A] wire_codec.write_inv [OF A] by auto
    then show ?thesis using v by (simp add: wire_codec.write_err [OF B])
  next
    case False
    then have "wa a w = wb_append (ea a) w"
      using 2 v by (intro wire_codec.write_enc [OF A]) auto
    then show ?thesis
      using 2 v False by (simp add: wire_codec.write_full [OF B])
  qed
next
  case (3 w e v)
  then show ?case
    by (cases v) (simp add: wire_codec.write_err [OF A] wire_codec.write_err [OF B])
next
  case (4 w v)
  then show ?case
    by (cases v) (simp add: wire_codec.write_inv [OF A] wire_codec.write_inv [OF B])
next
  case (5 r v rest)
  obtain a b where v: "v = (a, b)" by force
  have "ra r = (fa a, r\<lparr>rb_remaining := eb b @ rest\<rparr>)"
    using 5 v by (intro wire_codec.read_enc [OF A]) auto
  moreover have "rb (r\<lparr>rb_remaining := eb b @ rest\<rparr>) = (fb b, r\<lparr>rb_remaining := eb b @ rest\<rparr>\<lparr>rb_remaining := rest\<rparr>)"
    using 5 v by (intro wire_codec.read_enc [OF B]) auto
  ultimately show ?case using v by simp
next
  case (6 r v)
  obtain a b where v: "v = (a, b)" by force
  have *: "snd (case ra r of (x, r1) \<Rightarrow> case rb r1 of (y, r2) \<Rightarrow> ((x, y), r2)) = snd (rb (snd (ra r)))"
    by (simp add: case_prod_unfold)
  show ?case
  proof (cases "strict_prefix (rb_remaining r) (ea a)")
    case True
    then have "rb_err (snd (ra r)) = Some ErrEOF"
      using 6 v by (intro wire_codec.read_short [OF A]) auto
    then show ?thesis by (simp add: * wire_codec.read_err [OF B])
  next
    case False
    with 6 v obtain p where p: "rb_remaining r = ea a @ p" "strict_prefix p (eb b)"
      by (auto simp: strict_prefix_def prefix_append)
    then have "ra r = (fa a, r\<lparr>rb_remaining := p\<rparr>)"
      using 6 v by (intro wire_codec.read_enc [OF A]) auto
    then show ?thesis
      using 6 v p wire_codec.read_short [OF B, of "r\<lparr>rb_remaining := p\<rparr>" b]
      by (simp add: case_prod_unfold Let_def)
  qed
next
  case (7 r e)
  then show ?case
    by (simp add: case_prod_unfold Let_def wire_codec.read_err [OF A] wire_codec.read_err [OF B])
qed

lemma wire_codec_iso:
  assumes A: "wire_codec wa ra ea va fa"
    and w: "\<And>v w. wb_inv w \<Longrightarrow> wr v w = wa (g v) w"
    and r: "\<And>r. rd r = (h (fst (ra r)), snd (ra r))"
    and e: "\<And>v. enc v = ea (g v)" and v: "\<And>v. valid v \<Longrightarrow> va (g v)"
    and f: "\<And>v. valid v \<Longrightarrow> view v = h (fa (g v))"
  shows "wire_codec wr rd enc valid view"
proof (unfold_locales, goal_cases)
  case (5 r x rest)
  then show ?case
    using wire_codec.read_enc [OF A, of r "g x" rest] by (simp add: r e f v)
next
  case (6 r x)
  then show ?case
    using wire_codec.read_short [OF A, of r "g x"] by (simp add: r e v)
qed (simp_all add: w r e v wire_codec.write_enc [OF A] wire_codec.write_full [OF A]
      wire_codec.write_err [OF A] wire_codec.write_inv [OF A] wire_codec.read_err [OF A])

fun read_n :: "(ReadBuffer \<Rightarrow> 'a \<times> ReadBuffer) \<Rightarrow> nat \<Rightarrow> ReadBuffer \<Rightarrow> 'a list \<times> ReadBuffer" where
  "read_n rd 0 r = ([], r)"
| "read_n rd (Suc n) r = (let (x, r1) = rd r; (xs, r2) = read_n rd n r1 in (x # xs, r2))"

lemma wire_codec_list:
  assumes A: "wire_codec wa ra ea va fa"
  shows "wire_codec (fold wa) (read_n ra n) (\<lambda>vs. concat (map ea vs))
     (\<lambda>vs. length vs = n \<and> (\<forall>v \<in> set vs. va v)) (map fa)"
proof (induction n)
  case 0
  have "wb_inv (fold wa v w)" if "wb_inv w" for v w
    using that by (induction v arbitrary: w) (auto simp: wire_codec.write_inv [OF A])
  moreover have "fold wa v w = w" if "wb_inv w" "wb_err w = Some e" for v w e
    using that by (induction v) (auto simp: wire_codec.write_err [OF A])
  ultimately show ?case
    by unfold_locales auto
next
  case (Suc n)
  have inv: "wb_inv (fold wa v w)" if "wb_inv w" for v w
    using that by (induction v arbitrary: w) (auto simp: wire_codec.write_inv [OF A])
  have err: "fold wa v w = w" if "wb_inv w" "wb_err w = Some e" for v w e
    using that by (induction v) (auto simp: wire_codec.write_err [OF A])
  note P = wire_codec_pair [OF A Suc.IH]
  show ?case
  proof (unfold_locales, goal_cases)
    case (1 w v)
    then show ?case
      by (cases v) (use wire_codec.write_enc [OF P, of w "(hd v, tl v)"] in auto)
  next
    case (2 w v)
    then show ?case
      by (cases v) (use wire_codec.write_full [OF P, of w "(hd v, tl v)"] in auto)
  next
    case (3 w e v)
    then show ?case by (simp add: err)
  next
    case (4 w v)
    then show ?case by (simp add: inv)
  next
    case (5 r v rest)
    then show ?case
      by (cases v) (use wire_codec.read_enc [OF P, of r "(hd v, tl v)" rest] in
          \<open>auto simp: case_prod_unfold Let_def\<close>)
  next
    case (6 r v)
    then show ?case
      by (cases v) (use wire_codec.read_short [OF P, of r "(hd v, tl v)"] in
          \<open>auto simp: case_prod_unfold Let_def\<close>)
  next
    case (7 r e)
    then show ?case
      using wire_codec.read_err [OF P, of r e] by (simp add: case_prod_unfold Let_def)
  qed
qed

text \<open>A list written behind its length: the reader takes the length and then as many elements.\<close>

lemma wire_codec_counted:
  assumes P: "wire_codec wn rn en (\<lambda>_. True) (\<lambda>n. n)" and A: "wire_codec wa ra ea va fa"
    and small: "\<And>vs. valid vs \<Longrightarrow> unat (of_nat (length vs) :: 'l::len word) = length vs"
    and elems: "\<And>vs v. valid vs \<Longrightarrow> v \<in> set vs \<Longrightarrow> va v"
  shows "wire_codec (\<lambda>vs w. fold wa vs (wn (of_nat (length vs) :: 'l word) w))
     (\<lambda>r. let (n, r1) = rn r in read_n ra (unat n) r1)
     (\<lambda>vs. en (of_nat (length vs)) @ concat (map ea vs)) valid (map fa)"
proof -
  note L = wire_codec_list [OF A]
  show ?thesis
  proof (unfold_locales, goal_cases)
    case (1 w v)
    then show ?case
      using wire_codec.write_enc [OF wire_codec_pair [OF P L [of "length v"]], of w "(of_nat (length v), v)"] elems by simp
  next
    case (2 w v)
    then show ?case
      using wire_codec.write_full [OF wire_codec_pair [OF P L [of "length v"]], of w "(of_nat (length v), v)"] elems by simp
  next
    case (3 w e v)
    then show ?case
      using wire_codec.write_err [OF wire_codec_pair [OF P L [of "length v"]], of w e "(of_nat (length v), v)"] by simp
  next
    case (4 w v)
    then show ?case
      using wire_codec.write_inv [OF wire_codec_pair [OF P L [of "length v"]], of w "(of_nat (length v), v)"] by simp
  next
    case (5 r v rest)
    then have "rn r = (of_nat (length v), r\<lparr>rb_remaining := concat (map ea v) @ rest\<rparr>)"
      by (simp add: wire_codec.read_enc [OF P])
    with 5 show ?case
      using wire_codec.read_enc [OF L [of "length v"], of "r\<lparr>rb_remaining := concat (map ea v) @ rest\<rparr>" v rest]
        elems by (simp add: small)
  next
    case (6 r v)
    show ?case
    proof (cases "strict_prefix (rb_remaining r) (en (of_nat (length v)))")
      case True
      with 6 have "rb_err (snd (rn r)) = Some ErrEOF"
        by (simp add: wire_codec.read_short [OF P])
      then show ?thesis by (simp add: case_prod_unfold Let_def wire_codec.read_err [OF L])
    next
      case False
      with 6 obtain p where p: "rb_remaining r = en (of_nat (length v)) @ p"
          "strict_prefix p (concat (map ea v))"
        by (auto simp: strict_prefix_def prefix_append)
      then have "rn r = (of_nat (length v), r\<lparr>rb_remaining := p\<rparr>)"
        using 6 by (simp add: wire_codec.read_enc [OF P])
      with 6 p show ?thesis
        using wire_codec.read_short [OF L [of "length v"], of "r\<lparr>rb_remaining := p\<rparr>" v] elems
        by (simp add: small)
    qed
  next
    case (7 r e)
    then have "rb_err (snd (rn r)) = Some e"
      by (simp add: wire_codec.read_err [OF P])
    then show ?case by (simp add: case_prod_unfold Let_def wire_codec.read_err [OF L])
  qed
qed

section \<open>The typed values keep the contract\<close>

lemma strict_prefix_length: "strict_prefix xs ys \<Longrightarrow> length xs < length ys"
  by (rule prefix_length_less)

lemma wire_codec_fixed:
  assumes w: "\<And>v w. wb_inv w \<Longrightarrow> wr v w = WriteBytes (en v) w"
    and n: "\<And>v. length (en v) = n" and d: "\<And>v. de (en v) = v"
    and r: "\<And>r. rd r = (case ReadBytes n r of (Some b, r') \<Rightarrow> (de b, r') | (None, r') \<Rightarrow> (z, r'))"
  shows "wire_codec wr rd en (\<lambda>_. True) (\<lambda>v. v)"
proof (unfold_locales, goal_cases)
  case (5 r v rest)
  then show ?case
    using ReadBytes_append [of r "en v" rest] by (simp add: r n d)
next
  case (6 r v)
  then have "length (rb_remaining r) < n"
    using n strict_prefix_length by metis
  with 6 show ?case by (simp add: r ReadBytes_short)
qed (simp_all add: w r WriteBytes_props ReadBytes_err)

interpretation byte_codec: wire_codec WriteSingleByte ReadSingleByte "\<lambda>b. [b]" "\<lambda>_. True" "\<lambda>b. b"
  by (rule wire_codec_fixed [where n = 1 and de = hd and z = 0])
    (simp_all add: WriteSingleByte_eq ReadSingleByte_ReadBytes)

interpretation uint16_codec: wire_codec WriteUint16 ReadUint16 PutUint16 "\<lambda>_. True" "\<lambda>n. n"
  by (rule wire_codec_fixed [where n = 2 and de = Uint16 and z = 0])
    (simp_all add: WriteUint_eq ReadUint16_def)

interpretation uint32_codec: wire_codec WriteUint32 ReadUint32 PutUint32 "\<lambda>_. True" "\<lambda>n. n"
  by (rule wire_codec_fixed [where n = 4 and de = Uint32 and z = 0])
    (simp_all add: WriteUint_eq ReadUint32_def)

interpretation uint64_codec: wire_codec WriteUint64 ReadUint64 PutUint64 "\<lambda>_. True" "\<lambda>n. n"
  by (rule wire_codec_fixed [where n = 8 and de = Uint64 and z = 0])
    (simp_all add: WriteUint_eq ReadUint64_def)

text \<open>A length-prefixed string: the prefix says how many bytes follow.\<close>

lemma ReadString_append:
  "rb_err r = None \<Longrightarrow> rb_remaining r = bytes_of_string s @ rest \<Longrightarrow>
   ReadString (length s) r = (s, r\<lparr>rb_remaining := rest\<rparr>)"
  using ReadBytes_append [of r "bytes_of_string s" rest] by (simp add: ReadString_def)

lemma ReadString_short:
  "rb_err r = None \<Longrightarrow> length (rb_remaining r) < n \<Longrightarrow> rb_err (snd (ReadString n r)) = Some ErrEOF"
  by (simp add: ReadString_def ReadBytes_short)

lemma ReadString_err: "rb_err r = Some e \<Longrightarrow> ReadString n r = ([], r)"
  by (simp add: ReadString_def ReadBytes_err)

lemma wire_codec_len_string:
  assumes P: "wire_codec wn rn en (\<lambda>_. True) (\<lambda>n. n)"
    and small: "\<And>s. valid s \<Longrightarrow> unat (of_nat (length s) :: 'l::len word) = length s"
    and w: "\<And>s w. wb_inv w \<Longrightarrow> wr s w =
      WriteString s (wn (of_nat (length s)) (if valid s then w else setErr errStringTooLong w))"
    and r: "\<And>r. rd r = (let (n, r1) = rn r in ReadString (unat n) r1)"
  shows "wire_codec wr rd (\<lambda>s. en (of_nat (length s) :: 'l word) @ bytes_of_string s) valid (\<lambda>s. s)"
proof (unfold_locales, goal_cases)
  case (1 w s)
  then have "wn (of_nat (length s)) w = wb_append (en (of_nat (length s))) w"
    by (simp add: wire_codec.write_enc [OF P])
  with 1 show ?case
    by (simp add: w WriteUint_eq WriteBytes_props wb_append_append)
next
  case (2 w s)
  show ?case
  proof (cases "wb_BytesRemaining w < length (en (of_nat (length s)))")
    case True
    with 2 have "wb_err (wn (of_nat (length s)) w) = Some ErrBufferFull"
      by (simp add: wire_codec.write_full [OF P])
    with 2 show ?thesis
      by (simp add: w WriteUint_eq WriteBytes_props wire_codec.write_inv [OF P])
  next
    case False
    with 2 have "wn (of_nat (length s)) w = wb_append (en (of_nat (length s))) w"
      by (simp add: wire_codec.write_enc [OF P])
    with 2 False show ?thesis
      by (simp add: w WriteUint_eq WriteBytes_props)
  qed
next
  case (3 w e s)
  then show ?case
    by (simp add: w wire_codec.write_err [OF P] WriteUint_eq WriteBytes_props)
next
  case (4 w s)
  then have "wb_inv (setErr errStringTooLong w)"
    by (simp add: setErr_def wb_inv_def)
  with 4 show ?case
    by (simp add: w WriteUint_eq WriteBytes_props wire_codec.write_inv [OF P])
next
  case (5 r s rest)
  then have "rn r = (of_nat (length s), r\<lparr>rb_remaining := bytes_of_string s @ rest\<rparr>)"
    by (simp add: wire_codec.read_enc [OF P])
  with 5 show ?case by (simp add: r small ReadString_append)
next
  case (6 r s)
  show ?case
  proof (cases "strict_prefix (rb_remaining r) (en (of_nat (length s)))")
    case True
    with 6 have "rb_err (snd (rn r)) = Some ErrEOF"
      by (simp add: wire_codec.read_short [OF P])
    then show ?thesis by (simp add: r case_prod_unfold ReadString_err)
  next
    case False
    with 6 obtain p where p: "rb_remaining r = en (of_nat (length s)) @ p"
        "strict_prefix p (bytes_of_string s)"
      by (auto simp: strict_prefix_def prefix_append)
    then have "rn r = (of_nat (length s), r\<lparr>rb_remaining := p\<rparr>)"
      using 6 by (simp add: wire_codec.read_enc [OF P])
    moreover have "length p < length s"
      using strict_prefix_length [OF p(2)] by simp
    ultimately show ?thesis using 6 by (simp add: r small ReadString_short)
  qed
next
  case (7 r e)
  then have "rb_err (snd (rn r)) = Some e"
    by (simp add: wire_codec.read_err [OF P])
  then show ?case by (simp add: r case_prod_unfold ReadString_err)
qed

definition enc_len8 :: "string \<Rightarrow> byte list" where
  "enc_len8 s = of_nat (length s) # bytes_of_string s"

definition enc_len16 :: "string \<Rightarrow> byte list" where
  "enc_len16 s = PutUint16 (of_nat (length s)) @ bytes_of_string s"

lemma unat_of_nat_fits:
  "unat (of_nat n :: byte) = n \<longleftrightarrow> n < 256"
  "unat (of_nat n :: uint16) = n \<longleftrightarrow> n < 65536"
  by (auto simp: unat_of_nat take_bit_eq_mod mod_eq_self_iff_div_eq_0)

interpretation len8_codec: wire_codec WriteLen8String ReadLen8String enc_len8
  "\<lambda>s. length s < 256" "\<lambda>s. s"
proof -
  have "wire_codec WriteLen8String ReadLen8String
      (\<lambda>s. [of_nat (length s) :: byte] @ bytes_of_string s) (\<lambda>s. length s < 256) (\<lambda>s. s)"
    by (rule wire_codec_len_string [OF byte_codec.wire_codec_axioms])
      (simp_all add: WriteLen8String_def ReadLen8String_def unat_of_nat_fits Let_def)
  then show "wire_codec WriteLen8String ReadLen8String enc_len8 (\<lambda>s. length s < 256) (\<lambda>s. s)"
    by (simp add: enc_len8_def [abs_def])
qed

interpretation len16_codec: wire_codec WriteLen16String ReadLen16String enc_len16
  "\<lambda>s. length s < 65536" "\<lambda>s. s"
  unfolding enc_len16_def [abs_def]
  by (rule wire_codec_len_string [OF uint16_codec.wire_codec_axioms])
    (simp_all add: WriteLen16String_def ReadLen16String_def unat_of_nat_fits Let_def)

text \<open>A string that does not fit its length prefix is refused.\<close>

lemma WriteLenString_too_long:
  assumes "wb_inv w" and "wb_err w = None"
  shows "256 \<le> length s \<Longrightarrow> wb_err (WriteLen8String s w) = Some errStringTooLong"
    and "65536 \<le> length s \<Longrightarrow> wb_err (WriteLen16String s w) = Some errStringTooLong"
proof -
  let ?w = "w\<lparr>wb_err := Some errStringTooLong\<rparr>"
  have "wb_inv ?w" using assms by (simp add: wb_inv_def)
  then show "256 \<le> length s \<Longrightarrow> wb_err (WriteLen8String s w) = Some errStringTooLong"
    and "65536 \<le> length s \<Longrightarrow> wb_err (WriteLen16String s w) = Some errStringTooLong"
    using assms
    by (simp_all add: WriteLen8String_def WriteLen16String_def Let_def unat_of_nat_fits
        byte_codec.write_err uint16_codec.write_err WriteUint_eq WriteBytes_props)
qed

lemma length_enc_len [simp]:
  "length (enc_len8 s) = length s + 1" "length (enc_len16 s) = length s + 2"
  by (simp_all add: enc_len8_def enc_len16_def)

end
