(* ===== verification/Messages.thy ===== *)
theory Messages
  imports Typed_Buffer "HOL-Library.AList" "HOL-Library.Signed_Division"
begin

text \<open>
  The protocol messages of \<^verbatim>\<open>messages.go\<close> and the span encoding of \<^verbatim>\<open>tracing.go\<close>: their data, their
  read and write methods, and that each pair keeps the \<open>wire_codec\<close> contract.
  A Go map is an association list with distinct keys; its order is the (arbitrary) order in which
  \<^verbatim>\<open>range\<close> enumerates it, so a statement about every such list is one about every order.
  A \<^verbatim>\<open>time.Duration\<close> is an \<open>int\<close> number of nanoseconds.
\<close>

type_synonym ('k, 'v) gomap = "('k \<times> 'v) list"
type_synonym duration = int

definition Millisecond :: duration where "Millisecond = 1000000"
definition Second :: duration where "Second = 1000 * Millisecond"
definition Minute :: duration where "Minute = 60 * Second"

abbreviation map_inv :: "('k, 'v) gomap \<Rightarrow> bool" where
  "map_inv m \<equiv> distinct (map fst m)"

section \<open>Message types\<close>

definition messageTypeInitReq :: byte where [simp]: "messageTypeInitReq = 0x01"
definition messageTypeInitRes :: byte where [simp]: "messageTypeInitRes = 0x02"
definition messageTypeCallReq :: byte where [simp]: "messageTypeCallReq = 0x03"
definition messageTypeCallRes :: byte where [simp]: "messageTypeCallRes = 0x04"
definition messageTypeCallReqContinue :: byte where [simp]: "messageTypeCallReqContinue = 0x13"
definition messageTypeCallResContinue :: byte where [simp]: "messageTypeCallResContinue = 0x14"
definition messageTypePingReq :: byte where [simp]: "messageTypePingReq = 0xd0"
definition messageTypePingRes :: byte where [simp]: "messageTypePingRes = 0xd1"
definition messageTypeError :: byte where [simp]: "messageTypeError = 0xFF"

definition InitParamHostPort :: string where "InitParamHostPort = ''host_port''"
definition InitParamProcessName :: string where "InitParamProcessName = ''process_name''"
definition InitParamTChannelLanguage :: string where "InitParamTChannelLanguage = ''tchannel_language''"
definition InitParamTChannelLanguageVersion :: string where
  "InitParamTChannelLanguageVersion = ''tchannel_language_version''"
definition InitParamTChannelVersion :: string where "InitParamTChannelVersion = ''tchannel_version''"

definition ArgScheme :: string where "ArgScheme = ''as''"
definition CallerName :: string where "CallerName = ''cn''"
definition ShardKey :: string where "ShardKey = ''sk''"
definition RoutingDelegate :: string where "RoutingDelegate = ''rd''"
definition RoutingKey :: string where "RoutingKey = ''rk''"

section \<open>Span\<close>

definition Span_read :: "ReadBuffer \<Rightarrow> Span \<times> ReadBuffer" where
  "Span_read r =
     (let (spanID', r1) = ReadUint64 r;
          (parentID', r2) = ReadUint64 r1;
          (traceID', r3) = ReadUint64 r2;
          (flags', r4) = ReadSingleByte r3
      in (\<lparr>traceID = traceID', parentID = parentID', spanID = spanID', spanFlags = flags'\<rparr>, r4))"

definition Span_write :: "Span \<Rightarrow> WriteBuffer \<Rightarrow> WriteBuffer" where
  "Span_write s w =
     (let w1 = WriteUint64 (spanID s) w;
          w2 = WriteUint64 (parentID s) w1;
          w3 = WriteUint64 (traceID s) w2
      in WriteSingleByte (spanFlags s) w3)"

section \<open>Init messages\<close>

record initMessage =
  im_id :: uint32
  im_Version :: uint16
  im_initParams :: "(string, string) gomap"

fun initParams_loop :: "nat \<Rightarrow> (string, string) gomap \<Rightarrow> ReadBuffer \<Rightarrow> (string, string) gomap \<times> ReadBuffer" where
  "initParams_loop 0 m r = (m, r)"
| "initParams_loop (Suc n) m r =
     (let (k, r1) = ReadLen16String r;
          (v, r2) = ReadLen16String r1
      in initParams_loop n (AList.update k v m) r2)"

definition initMessage_read :: "initMessage \<Rightarrow> ReadBuffer \<Rightarrow> initMessage \<times> ReadBuffer" where
  "initMessage_read m r =
     (let (ver, r1) = ReadUint16 r;
          (np, r2) = ReadUint16 r1;
          (ps, r3) = initParams_loop (unat np) [] r2
      in (m\<lparr>im_Version := ver, im_initParams := ps\<rparr>, r3))"

definition initMessage_write :: "initMessage \<Rightarrow> WriteBuffer \<Rightarrow> WriteBuffer" where
  "initMessage_write m w =
     (let w1 = WriteUint16 (im_Version m) w;
          w2 = WriteUint16 (of_nat (length (im_initParams m))) w1
      in fold (\<lambda>(k, v) w. WriteLen16String v (WriteLen16String k w)) (im_initParams m) w2)"

section \<open>Transport headers\<close>

type_synonym transportHeaders = "(string, string) gomap"

fun headers_loop :: "nat \<Rightarrow> transportHeaders \<Rightarrow> ReadBuffer \<Rightarrow> transportHeaders \<times> ReadBuffer" where
  "headers_loop 0 ch r = (ch, r)"
| "headers_loop (Suc n) ch r =
     (let (k, r1) = ReadLen8String r;
          (v, r2) = ReadLen8String r1
      in headers_loop n (AList.update k v ch) r2)"

definition transportHeaders_read :: "transportHeaders \<Rightarrow> ReadBuffer \<Rightarrow> transportHeaders \<times> ReadBuffer" where
  "transportHeaders_read ch r = (let (nh, r1) = ReadSingleByte r in headers_loop (unat nh) ch r1)"

definition transportHeaders_write :: "transportHeaders \<Rightarrow> WriteBuffer \<Rightarrow> WriteBuffer" where
  "transportHeaders_write ch w =
     fold (\<lambda>(k, v) w. WriteLen8String v (WriteLen8String k w)) ch
       (WriteSingleByte (of_nat (length ch)) w)"

section \<open>Calls\<close>

record callReq =
  cq_id :: uint32
  cq_TimeToLive :: duration
  cq_Tracing :: Span
  cq_Headers :: transportHeaders
  cq_Service :: string

definition callReq_read :: "callReq \<Rightarrow> ReadBuffer \<Rightarrow> callReq \<times> ReadBuffer" where
  "callReq_read m r =
     (let (ttl, r1) = ReadUint32 r;
          (tr, r2) = Span_read r1;
          (svc, r3) = ReadLen8String r2;
          (hs, r4) = transportHeaders_read [] r3
      in (m\<lparr>cq_TimeToLive := uint ttl * Millisecond, cq_Tracing := tr, cq_Headers := hs,
            cq_Service := svc\<rparr>, r4))"

definition callReq_write :: "callReq \<Rightarrow> WriteBuffer \<Rightarrow> WriteBuffer" where
  "callReq_write m w =
     (let w1 = WriteUint32 (of_int (cq_TimeToLive m sdiv Millisecond)) w;
          w2 = Span_write (cq_Tracing m) w1;
          w3 = WriteLen8String (cq_Service m) w2
      in transportHeaders_write (cq_Headers m) w3)"

definition responseOK :: byte where [simp]: "responseOK = 0x00"
definition responseApplicationError :: byte where [simp]: "responseApplicationError = 0x01"

record callRes =
  cs_id :: uint32
  cs_ResponseCode :: byte
  cs_Tracing :: Span
  cs_Headers :: transportHeaders

definition callRes_read :: "callRes \<Rightarrow> ReadBuffer \<Rightarrow> callRes \<times> ReadBuffer" where
  "callRes_read m r =
     (let (code, r1) = ReadSingleByte r;
          (tr, r2) = Span_read r1;
          (hs, r3) = transportHeaders_read [] r2
      in (m\<lparr>cs_ResponseCode := code, cs_Tracing := tr, cs_Headers := hs\<rparr>, r3))"

definition callRes_write :: "callRes \<Rightarrow> WriteBuffer \<Rightarrow> WriteBuffer" where
  "callRes_write m w =
     (let w1 = WriteSingleByte (cs_ResponseCode m) w;
          w2 = Span_write (cs_Tracing m) w1
      in transportHeaders_write (cs_Headers m) w2)"

section \<open>Errors and the message interface\<close>

record errorMessage =
  em_id :: uint32
  em_errCode :: SystemErrCode
  em_tracing :: Span
  em_message :: string

definition errorMessage_read :: "errorMessage \<Rightarrow> ReadBuffer \<Rightarrow> errorMessage \<times> ReadBuffer" where
  "errorMessage_read m r =
     (let (code, r1) = ReadSingleByte r;
          (tr, r2) = Span_read r1;
          (msg, r3) = ReadLen16String r2
      in (m\<lparr>em_errCode := code, em_tracing := tr, em_message := msg\<rparr>, r3))"

definition errorMessage_write :: "errorMessage \<Rightarrow> WriteBuffer \<Rightarrow> WriteBuffer" where
  "errorMessage_write m w =
     (let w1 = WriteSingleByte (em_errCode m) w;
          w2 = Span_write (em_tracing m) w1
      in WriteLen16String (em_message m) w2)"

definition errorMessage_AsSystemError :: "errorMessage \<Rightarrow> gerror" where
  "errorMessage_AsSystemError m = AsSystemError (em_errCode m) (em_message m)"

definition errorMessage_as_error :: "errorMessage \<Rightarrow> gerror" where
  "errorMessage_as_error m = ErrorMessage (em_id m) (em_errCode m) (em_tracing m) (em_message m)"

datatype message =
    InitReq initMessage
  | InitRes initMessage
  | CallReq callReq
  | CallReqContinue uint32
  | CallRes callRes
  | CallResContinue uint32
  | ErrorMsg errorMessage
  | PingReq uint32
  | PingRes uint32

fun message_ID :: "message \<Rightarrow> uint32" where
  "message_ID (InitReq m) = im_id m"
| "message_ID (InitRes m) = im_id m"
| "message_ID (CallReq m) = cq_id m"
| "message_ID (CallReqContinue i) = i"
| "message_ID (CallRes m) = cs_id m"
| "message_ID (CallResContinue i) = i"
| "message_ID (ErrorMsg m) = em_id m"
| "message_ID (PingReq i) = i"
| "message_ID (PingRes i) = i"

fun message_messageType :: "message \<Rightarrow> byte" where
  "message_messageType (InitReq m) = messageTypeInitReq"
| "message_messageType (InitRes m) = messageTypeInitRes"
| "message_messageType (CallReq m) = messageTypeCallReq"
| "message_messageType (CallReqContinue i) = messageTypeCallReqContinue"
| "message_messageType (CallRes m) = messageTypeCallRes"
| "message_messageType (CallResContinue i) = messageTypeCallResContinue"
| "message_messageType (ErrorMsg m) = messageTypeError"
| "message_messageType (PingReq i) = messageTypePingReq"
| "message_messageType (PingRes i) = messageTypePingRes"

text \<open>Reading fills in the receiver, so a read method takes the message it is called on.\<close>

fun message_read :: "message \<Rightarrow> ReadBuffer \<Rightarrow> message \<times> ReadBuffer" where
  "message_read (InitReq m) r = (case initMessage_read m r of (m', r') \<Rightarrow> (InitReq m', r'))"
| "message_read (InitRes m) r = (case initMessage_read m r of (m', r') \<Rightarrow> (InitRes m', r'))"
| "message_read (CallReq m) r = (case callReq_read m r of (m', r') \<Rightarrow> (CallReq m', r'))"
| "message_read (CallReqContinue i) r = (CallReqContinue i, r)"
| "message_read (CallRes m) r = (case callRes_read m r of (m', r') \<Rightarrow> (CallRes m', r'))"
| "message_read (CallResContinue i) r = (CallResContinue i, r)"
| "message_read (ErrorMsg m) r = (case errorMessage_read m r of (m', r') \<Rightarrow> (ErrorMsg m', r'))"
| "message_read (PingReq i) r = (PingReq i, r)"
| "message_read (PingRes i) r = (PingRes i, r)"

fun message_write :: "message \<Rightarrow> WriteBuffer \<Rightarrow> WriteBuffer" where
  "message_write (InitReq m) w = initMessage_write m w"
| "message_write (InitRes m) w = initMessage_write m w"
| "message_write (CallReq m) w = callReq_write m w"
| "message_write (CallReqContinue i) w = w"
| "message_write (CallRes m) w = callRes_write m w"
| "message_write (CallResContinue i) w = w"
| "message_write (ErrorMsg m) w = errorMessage_write m w"
| "message_write (PingReq i) w = w"
| "message_write (PingRes i) w = w"

section \<open>Every message keeps the wire contract\<close>

text \<open>The bytes of each message, and which messages fit their wire format.\<close>

definition enc_span :: "Span \<Rightarrow> byte list" where
  "enc_span s = PutUint64 (spanID s) @ PutUint64 (parentID s) @ PutUint64 (traceID s) @ [spanFlags s]"

interpretation span_codec: wire_codec Span_write Span_read enc_span "\<lambda>_. True" "\<lambda>s. s"
  by (rule wire_codec_iso [OF wire_codec_pair [OF uint64_codec.wire_codec_axioms
          wire_codec_pair [OF uint64_codec.wire_codec_axioms wire_codec_pair
            [OF uint64_codec.wire_codec_axioms byte_codec.wire_codec_axioms]]],
        where g = "\<lambda>s. (spanID s, parentID s, traceID s, spanFlags s)"
          and h = "\<lambda>(a, b, c, d). \<lparr>traceID = c, parentID = b, spanID = a, spanFlags = d\<rparr>"])
    (simp_all add: Span_write_def Span_read_def enc_span_def Let_def case_prod_unfold)

text \<open>Reading the entries of a map one by one is reading them all and then adding them in order.\<close>

abbreviation put_all :: "('k \<times> 'v) list \<Rightarrow> ('k, 'v) gomap \<Rightarrow> ('k, 'v) gomap" where
  "put_all kvs m \<equiv> fold (\<lambda>(k, v). AList.update k v) kvs m"

lemma put_all_fresh:
  "map_inv (m @ kvs) \<Longrightarrow> put_all kvs m = m @ kvs"
proof (induction kvs arbitrary: m)
  case (Cons kv kvs)
  obtain k v where kv: "kv = (k, v)" by force
  have "k \<notin> fst ` set m" using Cons.prems kv by auto
  then have "AList.update k v m = m @ [(k, v)]" by (induction m) auto
  then show ?case using Cons.IH [of "m @ [kv]"] Cons.prems kv by simp
qed simp

lemma initParams_loop_read_n:
  "initParams_loop n m r =
     (case read_n (\<lambda>r. let (k, r1) = ReadLen16String r; (v, r2) = ReadLen16String r1 in ((k, v), r2)) n r of
        (kvs, r') \<Rightarrow> (put_all kvs m, r'))"
  by (induction n arbitrary: m r) (simp_all add: Let_def case_prod_unfold)

lemma headers_loop_read_n:
  "headers_loop n m r =
     (case read_n (\<lambda>r. let (k, r1) = ReadLen8String r; (v, r2) = ReadLen8String r1 in ((k, v), r2)) n r of
        (kvs, r') \<Rightarrow> (put_all kvs m, r'))"
  by (induction n arbitrary: m r) (simp_all add: Let_def case_prod_unfold)

definition enc_params :: "(string, string) gomap \<Rightarrow> byte list" where
  "enc_params ps = PutUint16 (of_nat (length ps)) @ concat (map (\<lambda>(k, v). enc_len16 k @ enc_len16 v) ps)"

definition enc_headers :: "transportHeaders \<Rightarrow> byte list" where
  "enc_headers hs = of_nat (length hs) # concat (map (\<lambda>(k, v). enc_len8 k @ enc_len8 v) hs)"

definition valid_params :: "(string, string) gomap \<Rightarrow> bool" where
  "valid_params ps \<longleftrightarrow> map_inv ps \<and> length ps < 65536 \<and>
     (\<forall>(k, v) \<in> set ps. length k < 65536 \<and> length v < 65536)"

definition valid_headers :: "transportHeaders \<Rightarrow> bool" where
  "valid_headers hs \<longleftrightarrow> map_inv hs \<and> length hs < 256 \<and>
     (\<forall>(k, v) \<in> set hs. length k < 256 \<and> length v < 256)"

interpretation headers_codec: wire_codec transportHeaders_write "transportHeaders_read []"
  enc_headers valid_headers "\<lambda>hs. hs"
proof (rule wire_codec_iso [OF wire_codec_counted [OF byte_codec.wire_codec_axioms
        wire_codec_pair [OF len8_codec.wire_codec_axioms len8_codec.wire_codec_axioms],
        where valid = valid_headers], where g = "\<lambda>hs. hs" and h = "\<lambda>kvs. put_all kvs []"], goal_cases)
  case (1 vs)
  then show ?case by (simp add: valid_headers_def unat_of_nat_fits)
next
  case (2 vs v)
  then show ?case by (auto simp: valid_headers_def)
next
  case (7 v)
  then show ?case
    using put_all_fresh [of "[]" v] by (simp add: valid_headers_def case_prod_unfold)
qed (simp_all add: transportHeaders_write_def transportHeaders_read_def enc_headers_def
    headers_loop_read_n case_prod_unfold Let_def)

lemma params_codec:
  "wire_codec (\<lambda>ps w. fold (\<lambda>(k, v) w. WriteLen16String v (WriteLen16String k w)) ps
       (WriteUint16 (of_nat (length ps)) w))
     (\<lambda>r. let (np, r1) = ReadUint16 r in initParams_loop (unat np) [] r1)
     enc_params valid_params (\<lambda>ps. ps)"
proof (rule wire_codec_iso [OF wire_codec_counted [OF uint16_codec.wire_codec_axioms
        wire_codec_pair [OF len16_codec.wire_codec_axioms len16_codec.wire_codec_axioms],
        where valid = valid_params], where g = "\<lambda>hs. hs" and h = "\<lambda>kvs. put_all kvs []"], goal_cases)
  case (1 vs)
  then show ?case by (simp add: valid_params_def unat_of_nat_fits)
next
  case (2 vs v)
  then show ?case by (auto simp: valid_params_def)
next
  case (7 v)
  then show ?case
    using put_all_fresh [of "[]" v] by (simp add: valid_params_def case_prod_unfold)
qed (simp_all add: enc_params_def initParams_loop_read_n case_prod_unfold Let_def)

definition enc_init :: "initMessage \<Rightarrow> byte list" where
  "enc_init m = PutUint16 (im_Version m) @ enc_params (im_initParams m)"

definition valid_init :: "initMessage \<Rightarrow> bool" where
  "valid_init m \<longleftrightarrow> valid_params (im_initParams m)"

lemma init_codec:
  "wire_codec initMessage_write (initMessage_read m0) enc_init valid_init (\<lambda>m. m\<lparr>im_id := im_id m0\<rparr>)"
  by (rule wire_codec_iso [OF wire_codec_pair [OF uint16_codec.wire_codec_axioms params_codec],
        where g = "\<lambda>m. (im_Version m, im_initParams m)"
          and h = "\<lambda>(v, ps). m0\<lparr>im_Version := v, im_initParams := ps\<rparr>"])
    (simp_all add: initMessage_write_def initMessage_read_def enc_init_def valid_init_def
      Let_def case_prod_unfold)

definition enc_callReq :: "callReq \<Rightarrow> byte list" where
  "enc_callReq m = PutUint32 (of_int (cq_TimeToLive m sdiv Millisecond)) @ enc_span (cq_Tracing m) @
     enc_len8 (cq_Service m) @ enc_headers (cq_Headers m)"

definition valid_callReq :: "callReq \<Rightarrow> bool" where
  "valid_callReq m \<longleftrightarrow> 0 \<le> cq_TimeToLive m \<and> cq_TimeToLive m < 2 ^ 32 * Millisecond \<and>
     length (cq_Service m) < 256 \<and> valid_headers (cq_Headers m)"

text \<open>A time to live survives the wire to the millisecond.\<close>

definition callReq_view :: "callReq \<Rightarrow> callReq \<Rightarrow> callReq" where
  "callReq_view m0 m = m\<lparr>cq_id := cq_id m0, cq_TimeToLive := cq_TimeToLive m div Millisecond * Millisecond\<rparr>"

lemma ttl_millis:
  assumes "0 \<le> t" and "t < 2 ^ 32 * Millisecond"
  shows "uint (of_int (t sdiv Millisecond) :: uint32) = t div Millisecond"
proof -
  have "0 < Millisecond" by (simp add: Millisecond_def)
  with assms have q: "t sdiv Millisecond = t div Millisecond"
    by (cases "t = 0") (simp_all add: signed_divide_int_def)
  moreover have "0 \<le> t div Millisecond" "t div Millisecond < 2 ^ 32"
    using assms by (simp_all add: Millisecond_def)
  ultimately show ?thesis
    by (simp add: uint_word_of_int_eq take_bit_int_eq_self_iff)
qed

lemma callReq_codec:
  "wire_codec callReq_write (callReq_read m0) enc_callReq valid_callReq (callReq_view m0)"
proof (rule wire_codec_iso [OF wire_codec_pair [OF uint32_codec.wire_codec_axioms
      wire_codec_pair [OF span_codec.wire_codec_axioms wire_codec_pair
        [OF len8_codec.wire_codec_axioms headers_codec.wire_codec_axioms]]],
      where g = "\<lambda>m. (of_int (cq_TimeToLive m sdiv Millisecond), cq_Tracing m, cq_Service m, cq_Headers m)"
        and h = "\<lambda>(ttl, tr, svc, hs). m0\<lparr>cq_TimeToLive := uint ttl * Millisecond, cq_Tracing := tr,
          cq_Headers := hs, cq_Service := svc\<rparr>"], goal_cases)
  case (5 m)
  then show ?case by (simp add: callReq_view_def valid_callReq_def ttl_millis)
qed (simp_all add: callReq_write_def callReq_read_def enc_callReq_def valid_callReq_def
    Let_def case_prod_unfold)

definition enc_callRes :: "callRes \<Rightarrow> byte list" where
  "enc_callRes m = cs_ResponseCode m # enc_span (cs_Tracing m) @ enc_headers (cs_Headers m)"

lemma callRes_codec:
  "wire_codec callRes_write (callRes_read m0) enc_callRes (\<lambda>m. valid_headers (cs_Headers m))
     (\<lambda>m. m\<lparr>cs_id := cs_id m0\<rparr>)"
  by (rule wire_codec_iso [OF wire_codec_pair [OF byte_codec.wire_codec_axioms
        wire_codec_pair [OF span_codec.wire_codec_axioms headers_codec.wire_codec_axioms]],
        where g = "\<lambda>m. (cs_ResponseCode m, cs_Tracing m, cs_Headers m)"
          and h = "\<lambda>(c, tr, hs). m0\<lparr>cs_ResponseCode := c, cs_Tracing := tr, cs_Headers := hs\<rparr>"])
    (simp_all add: callRes_write_def callRes_read_def enc_callRes_def Let_def case_prod_unfold)

definition enc_error :: "errorMessage \<Rightarrow> byte list" where
  "enc_error m = em_errCode m # enc_span (em_tracing m) @ enc_len16 (em_message m)"

lemma error_codec:
  "wire_codec errorMessage_write (errorMessage_read m0) enc_error (\<lambda>m. length (em_message m) < 65536)
     (\<lambda>m. m\<lparr>em_id := em_id m0\<rparr>)"
  by (rule wire_codec_iso [OF wire_codec_pair [OF byte_codec.wire_codec_axioms
        wire_codec_pair [OF span_codec.wire_codec_axioms len16_codec.wire_codec_axioms]],
        where g = "\<lambda>m. (em_errCode m, em_tracing m, em_message m)"
          and h = "\<lambda>(c, tr, t). m0\<lparr>em_errCode := c, em_tracing := tr, em_message := t\<rparr>"])
    (simp_all add: errorMessage_write_def errorMessage_read_def enc_error_def Let_def case_prod_unfold)

text \<open>The message interface: one contract over all the message types.\<close>

fun enc_message :: "message \<Rightarrow> byte list" where
  "enc_message (InitReq m) = enc_init m"
| "enc_message (InitRes m) = enc_init m"
| "enc_message (CallReq m) = enc_callReq m"
| "enc_message (CallReqContinue i) = []"
| "enc_message (CallRes m) = enc_callRes m"
| "enc_message (CallResContinue i) = []"
| "enc_message (ErrorMsg m) = enc_error m"
| "enc_message (PingReq i) = []"
| "enc_message (PingRes i) = []"

fun valid_message :: "message \<Rightarrow> bool" where
  "valid_message (InitReq m) = valid_init m"
| "valid_message (InitRes m) = valid_init m"
| "valid_message (CallReq m) = valid_callReq m"
| "valid_message (CallRes m) = valid_headers (cs_Headers m)"
| "valid_message (ErrorMsg m) = (length (em_message m) < 65536)"
| "valid_message m = True"

text \<open>What a receiver \<open>m0\<close> of the same type holds after reading \<open>m\<close>: everything but the message id,
  which travels in the frame header.\<close>

fun message_view :: "message \<Rightarrow> message \<Rightarrow> message" where
  "message_view (InitReq m0) (InitReq m) = InitReq (m\<lparr>im_id := im_id m0\<rparr>)"
| "message_view (InitRes m0) (InitRes m) = InitRes (m\<lparr>im_id := im_id m0\<rparr>)"
| "message_view (CallReq m0) (CallReq m) = CallReq (callReq_view m0 m)"
| "message_view (CallRes m0) (CallRes m) = CallRes (m\<lparr>cs_id := cs_id m0\<rparr>)"
| "message_view (ErrorMsg m0) (ErrorMsg m) = ErrorMsg (m\<lparr>em_id := em_id m0\<rparr>)"
| "message_view m0 m = m0"

lemma message_write_enc:
  assumes "wb_inv w" and "wb_err w = None" and "valid_message m"
    and "length (enc_message m) \<le> wb_BytesRemaining w"
  shows "message_write m w = wb_append (enc_message m) w"
  using assms
  by (cases m) (simp_all add: wire_codec.write_enc [OF init_codec] wire_codec.write_enc [OF callReq_codec]
      wire_codec.write_enc [OF callRes_codec] wire_codec.write_enc [OF error_codec])

lemma message_write_full:
  assumes "wb_inv w" and "wb_err w = None" and "valid_message m"
    and "wb_BytesRemaining w < length (enc_message m)"
  shows "wb_err (message_write m w) = Some ErrBufferFull"
  using assms
  by (cases m) (simp_all add: wire_codec.write_full [OF init_codec] wire_codec.write_full [OF callReq_codec]
      wire_codec.write_full [OF callRes_codec] wire_codec.write_full [OF error_codec])

lemma message_write_inv: "wb_inv w \<Longrightarrow> wb_inv (message_write m w)"
  by (cases m) (simp_all add: wire_codec.write_inv [OF init_codec] wire_codec.write_inv [OF callReq_codec]
      wire_codec.write_inv [OF callRes_codec] wire_codec.write_inv [OF error_codec])

lemma message_read_enc:
  assumes "rb_err r = None" and "valid_message m" and "rb_remaining r = enc_message m @ rest"
    and "message_messageType m0 = message_messageType m"
  shows "message_read m0 r = (message_view m0 m, r\<lparr>rb_remaining := rest\<rparr>)"
  using assms
  by (cases m; cases m0) (simp_all add: wire_codec.read_enc [OF init_codec] wire_codec.read_enc [OF callReq_codec]
      wire_codec.read_enc [OF callRes_codec] wire_codec.read_enc [OF error_codec])

lemma message_read_short:
  assumes "rb_err r = None" and "valid_message m" and "strict_prefix (rb_remaining r) (enc_message m)"
    and "message_messageType m0 = message_messageType m"
  shows "rb_err (snd (message_read m0 r)) = Some ErrEOF"
  using assms
  by (cases m; cases m0) (simp_all add: case_prod_unfold wire_codec.read_short [OF init_codec]
      wire_codec.read_short [OF callReq_codec] wire_codec.read_short [OF callRes_codec]
      wire_codec.read_short [OF error_codec])

end
