(* ===== verification/Frame.thy ===== *)
theory Frame
  imports Messages
begin

text \<open>
  Frames, from \<^verbatim>\<open>frame.go\<close>: the 16-byte header, and the frame as the one array that holds header and
  payload. The slices \<^verbatim>\<open>headerBuffer\<close> and \<^verbatim>\<open>Payload\<close> of the source are the first 16 bytes of that
  array and the rest of it. An \<^verbatim>\<open>io.Reader\<close> is the bytes it will deliver and the error it returns
  after them; an \<^verbatim>\<open>io.Writer\<close> is the error it answers a write with. The frame pools of
  \<^verbatim>\<open>frame_pool.go\<close> are at the end.
\<close>

section \<open>Streams\<close>

record io_reader =
  ir_data :: "byte list"
  ir_err :: gerror

definition io_ReadFull :: "nat \<Rightarrow> io_reader \<Rightarrow> (byte list \<times> gerror option) \<times> io_reader" where
  "io_ReadFull n r =
     (let d = ir_data r
      in if n \<le> length d then ((take n d, None), r\<lparr>ir_data := drop n d\<rparr>)
         else ((d, Some (if d \<noteq> [] \<and> ir_err r = ioEOF then ioErrUnexpectedEOF else ir_err r)),
               r\<lparr>ir_data := []\<rparr>))"

section \<open>Frame header\<close>

definition MaxFrameSize :: nat where "MaxFrameSize = 65535"
definition FrameHeaderSize :: nat where [simp]: "FrameHeaderSize = 16"
definition MaxFramePayloadSize :: nat where "MaxFramePayloadSize = MaxFrameSize - FrameHeaderSize"

record FrameHeader =
  fh_size :: uint16
  fh_messageType :: byte
  fh_reserved1 :: byte
  fh_ID :: uint32
  fh_reserved :: "byte list"

definition SetPayloadSize :: "uint16 \<Rightarrow> FrameHeader \<Rightarrow> FrameHeader" where
  "SetPayloadSize n fh = fh\<lparr>fh_size := n + of_nat FrameHeaderSize\<rparr>"

definition PayloadSize :: "FrameHeader \<Rightarrow> uint16" where
  "PayloadSize fh = fh_size fh - of_nat FrameHeaderSize"

definition FrameSize :: "FrameHeader \<Rightarrow> uint16" where
  "FrameSize fh = fh_size fh"

definition FrameHeader_read :: "FrameHeader \<Rightarrow> ReadBuffer \<Rightarrow> FrameHeader \<times> ReadBuffer" where
  "FrameHeader_read fh r =
     (let (sz, r1) = ReadUint16 r;
          (mt, r2) = ReadSingleByte r1;
          (res1, r3) = ReadSingleByte r2;
          (i, r4) = ReadUint32 r3;
          (_, r5) = ReadBytes (length (fh_reserved fh)) r4
      in (fh\<lparr>fh_size := sz, fh_messageType := mt, fh_reserved1 := res1, fh_ID := i\<rparr>, r5))"

definition FrameHeader_write :: "FrameHeader \<Rightarrow> WriteBuffer \<Rightarrow> WriteBuffer" where
  "FrameHeader_write fh w =
     (let w1 = WriteUint16 (fh_size fh) w;
          w2 = WriteSingleByte (fh_messageType fh) w1;
          w3 = WriteSingleByte (fh_reserved1 fh) w2;
          w4 = WriteUint32 (fh_ID fh) w3
      in WriteBytes (fh_reserved fh) w4)"

section \<open>Frames\<close>

record Frame =
  fr_buffer :: "byte list"
  fr_Header :: FrameHeader

definition zeroHeader :: FrameHeader where
  "zeroHeader = \<lparr>fh_size = 0, fh_messageType = 0, fh_reserved1 = 0, fh_ID = 0,
     fh_reserved = replicate 8 0\<rparr>"

definition NewFrame :: "nat \<Rightarrow> Frame" where
  "NewFrame payloadCapacity =
     \<lparr>fr_buffer = replicate (payloadCapacity + FrameHeaderSize) 0, fr_Header = zeroHeader\<rparr>"

definition fr_Payload :: "Frame \<Rightarrow> byte list" where
  "fr_Payload f = drop FrameHeaderSize (fr_buffer f)"

definition headerBuffer :: "Frame \<Rightarrow> byte list" where
  "headerBuffer f = take FrameHeaderSize (fr_buffer f)"

definition set_Payload :: "byte list \<Rightarrow> Frame \<Rightarrow> Frame" where
  "set_Payload p f = f\<lparr>fr_buffer := headerBuffer f @ p\<rparr>"

text \<open>Slicing beyond the array panics.\<close>

definition SizedPayload :: "Frame \<Rightarrow> byte list go" where
  "SizedPayload f =
     (let n = unat (PayloadSize (fr_Header f))
      in if n \<le> length (fr_Payload f) then Ret (take n (fr_Payload f)) else Panic)"

definition ReadBody :: "byte list \<Rightarrow> io_reader \<Rightarrow> Frame \<Rightarrow> (gerror option \<times> Frame \<times> io_reader) go" where
  "ReadBody header r f =
     (let f1 = f\<lparr>fr_buffer := copy_at 0 header (fr_buffer f)\<rparr>;
          (h, rb) = FrameHeader_read (fr_Header f1) (NewReadBuffer header);
          f2 = f1\<lparr>fr_Header := h\<rparr>
      in case rb_err rb of
           Some e \<Rightarrow> Ret (Some e, f2, r)
         | None \<Rightarrow>
             if unat (PayloadSize h) > MaxFramePayloadSize then
               Ret (Some (ErrorString (''invalid frame size '' @ show_nat (unat (fh_size h)))), f2, r)
             else if PayloadSize h > 0 then
               go_bind (SizedPayload f2) (\<lambda>p.
                 case io_ReadFull (length p) r of
                   ((bs, e), r') \<Rightarrow>
                     Ret (e, set_Payload (copy_at 0 bs (fr_Payload f2)) f2, r'))
             else Ret (None, f2, r))"

definition ReadIn :: "io_reader \<Rightarrow> Frame \<Rightarrow> (gerror option \<times> Frame \<times> io_reader) go" where
  "ReadIn r f =
     (case io_ReadFull FrameHeaderSize r of
        ((_, Some e), r') \<Rightarrow> Ret (Some e, f, r')
      | ((header, None), r') \<Rightarrow> ReadBody header r' f)"

text \<open>\<open>WriteOut\<close> also returns the bytes it handed to the writer, if it got that far.\<close>

definition WriteOut :: "(byte list \<Rightarrow> gerror option) \<Rightarrow> Frame \<Rightarrow> (gerror option \<times> byte list option \<times> Frame) go" where
  "WriteOut w f =
     (let wbuf = FrameHeader_write (fr_Header f) (NewWriteBuffer (headerBuffer f));
          f' = f\<lparr>fr_buffer := wb_buffer wbuf @ fr_Payload f\<rparr>
      in case wb_err wbuf of
           Some e \<Rightarrow> Ret (Some e, None, f')
         | None \<Rightarrow>
             let n = unat (FrameSize (fr_Header f'))
             in if n \<le> length (fr_buffer f')
                then let fullFrame = take n (fr_buffer f')
                     in Ret (w fullFrame, Some fullFrame, f')
                else Panic)"

definition Frame_messageType :: "Frame \<Rightarrow> byte" where
  "Frame_messageType f = fh_messageType (fr_Header f)"

definition Frame_write :: "message \<Rightarrow> Frame \<Rightarrow> gerror option \<times> Frame" where
  "Frame_write msg f =
     (let wbuf = message_write msg (NewWriteBuffer (fr_Payload f));
          f1 = set_Payload (wb_buffer wbuf) f
      in case wb_err wbuf of
           Some e \<Rightarrow> (Some e, f1)
         | None \<Rightarrow>
             let h = (fr_Header f1)\<lparr>fh_ID := message_ID msg, fh_reserved1 := 0,
                       fh_messageType := message_messageType msg\<rparr>
             in (None, f1\<lparr>fr_Header := SetPayloadSize (of_nat (BytesWritten wbuf)) h\<rparr>))"

definition Frame_read :: "message \<Rightarrow> Frame \<Rightarrow> (gerror option \<times> message) go" where
  "Frame_read msg f =
     go_bind (SizedPayload f) (\<lambda>p.
       case message_read msg (NewReadBuffer p) of (m, r) \<Rightarrow> Ret (rb_err r, m))"

section \<open>Frame pools\<close>

text \<open>
  \<^verbatim>\<open>disabledFramePool\<close> always allocates. \<^verbatim>\<open>sync.Pool\<close> gives back some frame that was put into it, or
  calls \<^verbatim>\<open>New\<close>; which one is the runtime's choice, the argument \<open>choice\<close>. A channel pool is a queue
  with a capacity.
\<close>

definition disabledFramePool_Get :: Frame where
  "disabledFramePool_Get = NewFrame MaxFramePayloadSize"

definition syncFramePool_Get :: "nat option \<Rightarrow> Frame list \<Rightarrow> Frame \<times> Frame list" where
  "syncFramePool_Get choice pool =
     (case choice of
        Some i \<Rightarrow> if i < length pool then (pool ! i, take i pool @ drop (Suc i) pool)
                  else (NewFrame MaxFramePayloadSize, pool)
      | None \<Rightarrow> (NewFrame MaxFramePayloadSize, pool))"

definition syncFramePool_Release :: "Frame \<Rightarrow> Frame list \<Rightarrow> Frame list" where
  "syncFramePool_Release f pool = f # pool"

record channelFramePool =
  cfp_capacity :: nat
  cfp_frames :: "Frame list"

definition NewChannelFramePool :: "nat \<Rightarrow> channelFramePool" where
  "NewChannelFramePool capacity = \<lparr>cfp_capacity = capacity, cfp_frames = []\<rparr>"

definition channelFramePool_Get :: "channelFramePool \<Rightarrow> Frame \<times> channelFramePool" where
  "channelFramePool_Get c =
     (case cfp_frames c of
        f # fs \<Rightarrow> (f, c\<lparr>cfp_frames := fs\<rparr>)
      | [] \<Rightarrow> (NewFrame MaxFramePayloadSize, c))"

definition channelFramePool_Release :: "Frame \<Rightarrow> channelFramePool \<Rightarrow> channelFramePool" where
  "channelFramePool_Release f c =
     (if length (cfp_frames c) < cfp_capacity c then c\<lparr>cfp_frames := cfp_frames c @ [f]\<rparr> else c)"

section \<open>The header keeps the wire contract\<close>

definition enc_header :: "FrameHeader \<Rightarrow> byte list" where
  "enc_header h = PutUint16 (fh_size h) @ [fh_messageType h] @ [fh_reserved1 h] @ PutUint32 (fh_ID h) @
     fh_reserved h"

text \<open>A header has eight reserved bytes. They are written but not read back.\<close>

abbreviation header_ok :: "FrameHeader \<Rightarrow> bool" where
  "header_ok h \<equiv> length (fh_reserved h) = 8"

lemma header_codec:
  assumes "header_ok h0"
  shows "wire_codec FrameHeader_write (FrameHeader_read h0) enc_header header_ok
     (\<lambda>h. h\<lparr>fh_reserved := fh_reserved h0\<rparr>)"
proof -
  have *: "wire_codec WriteBytes (ReadBytes 8) (\<lambda>b. b) (\<lambda>b. length b = 8) Some"
  proof (unfold_locales, goal_cases)
    case (5 r v rest)
    then show ?case using ReadBytes_append [of r v rest] by simp
  next
    case (6 r v)
    then have "length (rb_remaining r) < 8" using prefix_length_less by fastforce
    with 6 show ?case by (simp add: ReadBytes_short)
  qed (simp_all add: WriteBytes_props ReadBytes_err)
  show ?thesis
    by (rule wire_codec_iso [OF wire_codec_pair [OF uint16_codec.wire_codec_axioms
          wire_codec_pair [OF byte_codec.wire_codec_axioms
          wire_codec_pair [OF byte_codec.wire_codec_axioms
          wire_codec_pair [OF uint32_codec.wire_codec_axioms *]]]],
          where g = "\<lambda>h. (fh_size h, fh_messageType h, fh_reserved1 h, fh_ID h, fh_reserved h)"
            and h = "\<lambda>(sz, mt, r1, i, _). h0\<lparr>fh_size := sz, fh_messageType := mt,
              fh_reserved1 := r1, fh_ID := i\<rparr>"])
      (simp_all add: FrameHeader_write_def FrameHeader_read_def enc_header_def assms
        Let_def case_prod_unfold)
qed

lemma length_enc_header [simp]: "header_ok h \<Longrightarrow> length (enc_header h) = 16"
  by (simp add: enc_header_def)

section \<open>Frames on the wire\<close>

text \<open>A frame of a pool: the array has room for the largest frame. Every operation keeps it.\<close>

definition frame_inv :: "Frame \<Rightarrow> bool" where
  "frame_inv f \<longleftrightarrow> length (fr_buffer f) = MaxFrameSize \<and> header_ok (fr_Header f)"

lemma frame_inv_New: "frame_inv (NewFrame MaxFramePayloadSize)"
  by (simp add: frame_inv_def NewFrame_def zeroHeader_def MaxFramePayloadSize_def MaxFrameSize_def)

lemma frame_inv_length:
  "frame_inv f \<Longrightarrow> length (fr_Payload f) = MaxFramePayloadSize \<and> length (headerBuffer f) = 16"
  by (simp add: frame_inv_def fr_Payload_def headerBuffer_def MaxFramePayloadSize_def MaxFrameSize_def)

lemma frame_inv_set_Payload:
  "frame_inv f \<Longrightarrow> length p = MaxFramePayloadSize \<Longrightarrow> frame_inv (set_Payload p f)"
  by (simp add: frame_inv_def set_Payload_def headerBuffer_def MaxFramePayloadSize_def MaxFrameSize_def)

lemma set_Payload_simps [simp]:
  assumes "frame_inv f"
  shows "fr_Payload (set_Payload p f) = p" and "headerBuffer (set_Payload p f) = headerBuffer f"
    and "fr_Header (set_Payload p f) = fr_Header f"
  using frame_inv_length [OF assms]
  by (simp_all add: set_Payload_def fr_Payload_def) (simp add: headerBuffer_def)

lemma frame_Header_simps [simp]:
  "fr_Payload (f\<lparr>fr_Header := h\<rparr>) = fr_Payload f"
  "headerBuffer (f\<lparr>fr_Header := h\<rparr>) = headerBuffer f"
  by (simp_all add: fr_Payload_def headerBuffer_def)

lemma PayloadSize_Set:
  "PayloadSize (SetPayloadSize n h) = n"
  by (simp add: PayloadSize_def SetPayloadSize_def)

text \<open>A header with a size below 16 never gets past the size check, because the subtraction wraps.\<close>

lemma PayloadSize_small:
  assumes "unat (fh_size h) < 16"
  shows "MaxFramePayloadSize < unat (PayloadSize h)"
proof -
  have "unat (fh_size h - 16) = unat (fh_size h) + 65536 - 16"
    using assms by (simp add: unat_sub_if')
  then show ?thesis by (simp add: PayloadSize_def MaxFramePayloadSize_def MaxFrameSize_def)
qed

lemma PayloadSize_large:
  assumes "16 \<le> unat (fh_size h)"
  shows "unat (PayloadSize h) = unat (fh_size h) - 16" and "unat (PayloadSize h) \<le> MaxFramePayloadSize"
proof -
  have "unat (fh_size h - 16) = unat (fh_size h) - 16"
    using assms by (simp add: unat_sub_if')
  then show *: "unat (PayloadSize h) = unat (fh_size h) - 16"
    by (simp add: PayloadSize_def)
  have "unat (fh_size h) < 65536" using unsigned_less [of "fh_size h", where ?'a = nat] by simp
  with * show "unat (PayloadSize h) \<le> MaxFramePayloadSize"
    by (simp add: MaxFramePayloadSize_def MaxFrameSize_def)
qed

lemma Frame_write_ok:
  assumes f: "frame_inv f" and m: "valid_message m" "length (enc_message m) \<le> MaxFramePayloadSize"
  obtains f' where "Frame_write m f = (None, f')" and "frame_inv f'"
    and "SizedPayload f' = Ret (enc_message m)"
    and "fr_Header f' = (fr_Header f)\<lparr>fh_size := of_nat (length (enc_message m) + 16),
           fh_messageType := message_messageType m, fh_reserved1 := 0, fh_ID := message_ID m\<rparr>"
proof -
  let ?w0 = "NewWriteBuffer (fr_Payload f)" and ?n = "length (enc_message m)"
  have l: "length (fr_Payload f) = MaxFramePayloadSize" using frame_inv_length [OF f] by simp
  have w: "message_write m ?w0 = wb_append (enc_message m) ?w0"
    using m l by (intro message_write_enc) simp_all
  have n: "unat (of_nat ?n :: uint16) = ?n"
    using m(2) by (simp add: unat_of_nat_fits MaxFramePayloadSize_def MaxFrameSize_def)
  have bw: "BytesWritten (wb_append (enc_message m) ?w0) = ?n"
    using m l by (simp add: BytesWritten_pos) (simp add: wb_append_def)
  let ?f1 = "set_Payload (wb_buffer (wb_append (enc_message m) ?w0)) f"
  let ?f' = "?f1\<lparr>fr_Header := SetPayloadSize (of_nat ?n) ((fr_Header ?f1)\<lparr>fh_ID := message_ID m,
      fh_reserved1 := 0, fh_messageType := message_messageType m\<rparr>)\<rparr>"
  have wr: "Frame_write m f = (None, ?f')"
    using m l by (simp add: Frame_write_def w Let_def bw)
  have lb: "length (wb_buffer (wb_append (enc_message m) ?w0)) = MaxFramePayloadSize"
    using m l by simp
  have inv: "frame_inv ?f1" by (rule frame_inv_set_Payload [OF f lb])
  then have inv': "frame_inv ?f'" by (simp add: frame_inv_def SetPayloadSize_def)
  have pl: "fr_Payload ?f' = wb_buffer (wb_append (enc_message m) ?w0)"
    using f by simp
  have "take ?n (wb_buffer (wb_append (enc_message m) ?w0)) = enc_message m"
    using m l by (simp add: wb_append_def copy_at_fits)
  then have sp: "SizedPayload ?f' = Ret (enc_message m)"
    using m lb f by (simp add: SizedPayload_def PayloadSize_Set n Let_def)
  have hd: "fr_Header ?f' = (fr_Header f)\<lparr>fh_size := of_nat (?n + 16),
           fh_messageType := message_messageType m, fh_reserved1 := 0, fh_ID := message_ID m\<rparr>"
    using f by (simp add: SetPayloadSize_def add.commute)
  show ?thesis using that [OF wr inv' sp hd] .
qed

text \<open>\<open>WriteOut\<close> puts the header in front of the payload and hands both to the writer.\<close>

lemma WriteOut_ok:
  assumes f: "frame_inv f" and sz: "16 \<le> unat (fh_size (fr_Header f))"
    and p: "SizedPayload f = Ret p"
  obtains f' where "WriteOut w f = Ret (w (enc_header (fr_Header f) @ p),
      Some (enc_header (fr_Header f) @ p), f')"
    and "frame_inv f'" and "fr_Header f' = fr_Header f" and "fr_Payload f' = fr_Payload f"
proof -
  let ?h = "fr_Header f" and ?w0 = "NewWriteBuffer (headerBuffer f)"
  have ok: "header_ok ?h" and l: "length (headerBuffer f) = 16"
    and lp: "length (fr_Payload f) = MaxFramePayloadSize"
    using f frame_inv_length [OF f] by (simp_all add: frame_inv_def)
  have "FrameHeader_write ?h ?w0 = wb_append (enc_header ?h) ?w0"
    using ok l by (simp add: wire_codec.write_enc [OF header_codec [OF ok]])
  moreover have "wb_buffer (wb_append (enc_header ?h) ?w0) = enc_header ?h"
    using ok l by (simp add: wb_append_def copy_at_fits)
  ultimately have w0: "wb_buffer (FrameHeader_write ?h ?w0) = enc_header ?h"
      "wb_err (FrameHeader_write ?h ?w0) = None"
    using ok l by simp_all
  let ?f' = "f\<lparr>fr_buffer := enc_header ?h @ fr_Payload f\<rparr>"
  have n: "unat (fh_size ?h) = unat (PayloadSize ?h) + 16"
    and le: "unat (PayloadSize ?h) \<le> MaxFramePayloadSize"
    using PayloadSize_large [OF sz] sz by simp_all
  have "take (unat (fh_size ?h)) (enc_header ?h @ fr_Payload f) = enc_header ?h @ p"
    using p n le ok lp by (simp add: SizedPayload_def Let_def split: if_splits)
  then have "WriteOut w f = Ret (w (enc_header ?h @ p), Some (enc_header ?h @ p), ?f')"
    using le lp ok n by (simp add: WriteOut_def w0 FrameSize_def Let_def)
  moreover have "frame_inv ?f'" "fr_Header ?f' = ?h" "fr_Payload ?f' = fr_Payload f"
    using f ok lp by (simp_all add: frame_inv_def fr_Payload_def MaxFramePayloadSize_def MaxFrameSize_def)
  ultimately show ?thesis by (rule that)
qed

lemma ReadIn_ok:
  assumes g: "frame_inv g" and h: "header_ok h" and sz: "16 \<le> unat (fh_size h)"
    and p: "length p = unat (PayloadSize h)"
    and r: "ir_data r = enc_header h @ p @ rest"
  obtains g' where "ReadIn r g = Ret (None, g', r\<lparr>ir_data := rest\<rparr>)"
    and "frame_inv g'" and "SizedPayload g' = Ret p"
    and "fr_Header g' = h\<lparr>fh_reserved := fh_reserved (fr_Header g)\<rparr>"
proof -
  let ?r = "r\<lparr>ir_data := p @ rest\<rparr>" and ?h = "h\<lparr>fh_reserved := fh_reserved (fr_Header g)\<rparr>"
  let ?g2 = "g\<lparr>fr_buffer := copy_at 0 (enc_header h) (fr_buffer g), fr_Header := ?h\<rparr>"
  have ok: "header_ok (fr_Header g)" using g by (simp add: frame_inv_def)
  have 1: "ReadIn r g = ReadBody (enc_header h) ?r g"
    using r h by (simp add: ReadIn_def io_ReadFull_def)
  have 2: "FrameHeader_read (fr_Header g) (NewReadBuffer (enc_header h)) =
      (?h, (NewReadBuffer (enc_header h))\<lparr>rb_remaining := []\<rparr>)"
    using h by (intro wire_codec.read_enc [OF header_codec [OF ok]]) simp_all
  have ps: "PayloadSize ?h = PayloadSize h" by (simp add: PayloadSize_def)
  have le: "unat (PayloadSize h) \<le> MaxFramePayloadSize" using PayloadSize_large [OF sz] by simp
  have g2: "frame_inv ?g2" using g by (simp add: frame_inv_def)
  then have l2: "length (fr_Payload ?g2) = MaxFramePayloadSize" using frame_inv_length by blast
  have sp2: "SizedPayload ?g2 = Ret (take (length p) (fr_Payload ?g2))"
    using le l2 p by (simp add: SizedPayload_def ps Let_def)
  let ?g' = "if p = [] then ?g2 else set_Payload (copy_at 0 p (fr_Payload ?g2)) ?g2"
  have fits: "length p \<le> length (fr_Payload ?g2)" using le l2 p by simp
  have "ReadBody (enc_header h) ?r g = Ret (None, ?g', r\<lparr>ir_data := rest\<rparr>)"
  proof (cases "p = []")
    case True
    then have "PayloadSize h = 0" using p by (simp add: unat_eq_zero)
    then show ?thesis
      using True by (simp add: ReadBody_def 2 ps Let_def)
  next
    case False
    then have "0 < PayloadSize h" using p by (metis length_0_conv unat_eq_zero word_neq_0_conv)
    then show ?thesis
      using False le sp2 fits
      by (simp add: ReadBody_def 2 ps Let_def io_ReadFull_def del: frame_Header_simps)
  qed
  moreover have "frame_inv ?g'"
    using g2 l2 fits by (simp add: frame_inv_set_Payload)
  moreover have "SizedPayload ?g' = Ret p"
    using g2 fits p le l2 ps by (auto simp: SizedPayload_def Let_def copy_at_fits)
  moreover have "fr_Header ?g' = ?h" using g2 by simp
  ultimately show ?thesis using 1 that by simp
qed

text \<open>A frame whose header announces less than its own 16 bytes is refused, whatever follows.\<close>

lemma ReadIn_small:
  assumes g: "frame_inv g" and h: "header_ok h" and sz: "unat (fh_size h) < 16"
    and r: "ir_data r = enc_header h @ rest"
  shows "\<exists>g'. ReadIn r g = Ret (Some (ErrorString (''invalid frame size '' @ show_nat (unat (fh_size h)))),
      g', r\<lparr>ir_data := rest\<rparr>)"
proof -
  let ?h = "h\<lparr>fh_reserved := fh_reserved (fr_Header g)\<rparr>"
  have ok: "header_ok (fr_Header g)" using g by (simp add: frame_inv_def)
  have "FrameHeader_read (fr_Header g) (NewReadBuffer (enc_header h)) =
      (?h, (NewReadBuffer (enc_header h))\<lparr>rb_remaining := []\<rparr>)"
    using h by (intro wire_codec.read_enc [OF header_codec [OF ok]]) simp_all
  moreover have "MaxFramePayloadSize < unat (PayloadSize ?h)"
    using PayloadSize_small [OF sz] by (simp add: PayloadSize_def)
  ultimately show ?thesis
    using r h by (simp add: ReadIn_def io_ReadFull_def ReadBody_def Let_def)
qed

text \<open>From a pooled frame of the sender to one of the receiver.\<close>

lemma frame_transfer:
  assumes "frame_inv f" and "frame_inv g" and "valid_message m"
    and "length (enc_message m) \<le> MaxFramePayloadSize"
    and "message_messageType m0 = message_messageType m"
  shows "\<exists>f' f'' g' bs. Frame_write m f = (None, f') \<and>
    WriteOut w f' = Ret (w bs, Some bs, f'') \<and>
    ReadIn \<lparr>ir_data = bs @ rest, ir_err = e\<rparr> g = Ret (None, g', \<lparr>ir_data = rest, ir_err = e\<rparr>) \<and>
    fh_ID (fr_Header g') = message_ID m \<and> Frame_messageType g' = message_messageType m \<and>
    Frame_read m0 g' = Ret (None, message_view m0 m)"
proof -
  obtain f' where f': "Frame_write m f = (None, f')" "frame_inv f'" "SizedPayload f' = Ret (enc_message m)"
    and h: "fr_Header f' = (fr_Header f)\<lparr>fh_size := of_nat (length (enc_message m) + 16),
           fh_messageType := message_messageType m, fh_reserved1 := 0, fh_ID := message_ID m\<rparr>"
    using Frame_write_ok [OF assms(1,3,4)] by metis
  let ?h = "fr_Header f'" and ?n = "length (enc_message m) + 16"
  have "unat (of_nat ?n :: uint16) = ?n"
    using assms(4) by (subst unat_of_nat_fits) (simp add: MaxFramePayloadSize_def MaxFrameSize_def)
  then have sz: "unat (fh_size ?h) = ?n" using h by simp
  then have sz16: "16 \<le> unat (fh_size ?h)" by simp
  obtain f'' where f'': "WriteOut w f' =
      Ret (w (enc_header ?h @ enc_message m), Some (enc_header ?h @ enc_message m), f'')"
    using WriteOut_ok [OF f'(2) sz16 f'(3)] by metis
  have ok: "header_ok ?h" using f'(2) by (simp add: frame_inv_def)
  have len: "length (enc_message m) = unat (PayloadSize ?h)"
    using PayloadSize_large [OF sz16] sz by simp
  obtain g' where g': "ReadIn \<lparr>ir_data = (enc_header ?h @ enc_message m) @ rest, ir_err = e\<rparr> g =
      Ret (None, g', \<lparr>ir_data = rest, ir_err = e\<rparr>)" "SizedPayload g' = Ret (enc_message m)"
      "fr_Header g' = ?h\<lparr>fh_reserved := fh_reserved (fr_Header g)\<rparr>"
    using ReadIn_ok [OF assms(2) ok sz16 len,
        of "\<lparr>ir_data = (enc_header ?h @ enc_message m) @ rest, ir_err = e\<rparr>" rest] by auto
  have "message_read m0 (NewReadBuffer (enc_message m)) =
      (message_view m0 m, (NewReadBuffer (enc_message m))\<lparr>rb_remaining := []\<rparr>)"
    using assms(3,5) by (intro message_read_enc) simp_all
  then have "Frame_read m0 g' = Ret (None, message_view m0 m)"
    using g'(2) by (simp add: Frame_read_def)
  then show ?thesis
    using f'(1) f'' g'(1,3) h by (auto simp: Frame_messageType_def)
qed

section \<open>Properties\<close>

text \<open>
  C15: a message written into a pooled frame, sent with \<^verbatim>\<open>WriteOut\<close> and received with \<^verbatim>\<open>ReadIn\<close> into any other
  pooled frame arrives as it was: no step fails, the receiver takes exactly the bytes of this frame
  from the stream, and the id, the type and every field (the time to live to the millisecond)
  are those of the sender.
\<close>

theorem frame_roundtrip:
  assumes "frame_inv f" and "frame_inv g" and "valid_message m"
    and "length (enc_message m) \<le> MaxFramePayloadSize"
    and "message_messageType m0 = message_messageType m"
  shows "\<exists>f' f'' g' bs. Frame_write m f = (None, f') \<and>
    WriteOut w f' = Ret (w bs, Some bs, f'') \<and>
    ReadIn \<lparr>ir_data = bs @ rest, ir_err = e\<rparr> g = Ret (None, g', \<lparr>ir_data = rest, ir_err = e\<rparr>) \<and>
    fh_ID (fr_Header g') = message_ID m \<and> Frame_messageType g' = message_messageType m \<and>
    Frame_read m0 g' = Ret (None, message_view m0 m)"
  by (rule frame_transfer [OF assms])

definition exampleReq :: callReq where
  "exampleReq = \<lparr>cq_id = 7, cq_TimeToLive = 1500 * Millisecond, cq_Tracing = emptySpan,
     cq_Headers = [(''as'', ''raw''), (''cn'', ''caller'')], cq_Service = ''svc''\<rparr>"

theorem frame_roundtrip_witness:
  "\<exists>f' f'' g' bs. Frame_write (CallReq exampleReq) (NewFrame MaxFramePayloadSize) = (None, f') \<and>
    WriteOut (\<lambda>_. None) f' = Ret (None, Some bs, f'') \<and>
    ReadIn \<lparr>ir_data = bs @ [1, 2], ir_err = ioEOF\<rparr> (NewFrame MaxFramePayloadSize) =
      Ret (None, g', \<lparr>ir_data = [1, 2], ir_err = ioEOF\<rparr>) \<and>
    fh_ID (fr_Header g') = 7 \<and> Frame_messageType g' = messageTypeCallReq \<and>
    Frame_read (CallReq exampleReq) g' = Ret (None, CallReq exampleReq)"
proof -
  have "message_view (CallReq exampleReq) (CallReq exampleReq) = CallReq exampleReq"
    by (simp add: callReq_view_def exampleReq_def Millisecond_def)
  moreover have "valid_message (CallReq exampleReq)"
    by (simp add: valid_callReq_def valid_headers_def exampleReq_def Millisecond_def)
  moreover have "length (enc_message (CallReq exampleReq)) \<le> MaxFramePayloadSize"
    by (simp add: enc_callReq_def enc_span_def enc_headers_def exampleReq_def
        MaxFramePayloadSize_def MaxFrameSize_def)
  ultimately show ?thesis
    using frame_roundtrip [OF frame_inv_New frame_inv_New, of "CallReq exampleReq" "CallReq exampleReq"
        "\<lambda>_. None" "[1, 2]" ioEOF]
    by (simp add: exampleReq_def)
qed

end
