(* ===== verification/Checksum.thy ===== *)
theory Checksum
  imports Typed_Buffer
begin

text \<open>
  The checksums of \<^verbatim>\<open>checksum.go\<close> and the two CRC-32 variants of \<^verbatim>\<open>hash/crc32\<close> they use, computed as
  the Go library does: a table of 256 words made from the reversed polynomial, one table lookup per
  byte. A pool of checksums is the list of those that were released into it.
\<close>

section \<open>CRC-32\<close>

definition crc32_IEEE :: uint32 where "crc32_IEEE = 0xedb88320"
definition crc32_Castagnoli :: uint32 where "crc32_Castagnoli = 0x82f63b78"
definition crc32_Size :: nat where [simp]: "crc32_Size = 4"

definition crc_step :: "uint32 \<Rightarrow> uint32 \<Rightarrow> uint32" where
  "crc_step poly c = (if c AND 1 = 1 then drop_bit 1 c XOR poly else drop_bit 1 c)"

definition crc_table :: "uint32 \<Rightarrow> byte \<Rightarrow> uint32" where
  "crc_table poly i = (crc_step poly ^^ 8) (ucast i)"

definition crc_byte :: "uint32 \<Rightarrow> byte \<Rightarrow> uint32 \<Rightarrow> uint32" where
  "crc_byte poly v crc = crc_table poly (ucast crc XOR v) XOR drop_bit 8 crc"

definition crc_update :: "uint32 \<Rightarrow> uint32 \<Rightarrow> byte list \<Rightarrow> uint32" where
  "crc_update poly crc p = NOT (fold (crc_byte poly) p (NOT crc))"

section \<open>Checksums\<close>

type_synonym ChecksumType = byte

definition ChecksumTypeNone :: ChecksumType where [simp]: "ChecksumTypeNone = 0"
definition ChecksumTypeCrc32 :: ChecksumType where [simp]: "ChecksumTypeCrc32 = 1"
definition ChecksumTypeFarmhash :: ChecksumType where [simp]: "ChecksumTypeFarmhash = 2"
definition ChecksumTypeCrc32C :: ChecksumType where [simp]: "ChecksumTypeCrc32C = 3"
definition checksumCount :: nat where [simp]: "checksumCount = 4"

definition errInvalidChecksumType :: gerror where
  "errInvalidChecksumType = ErrorString ''peer sent an unknown checksum type''"

text \<open>A \<^verbatim>\<open>hashChecksum\<close> holds its type, the polynomial of its hash and the running CRC.\<close>

datatype Checksum = nullChecksum | hashChecksum ChecksumType uint32 uint32

definition newHashChecksum :: "ChecksumType \<Rightarrow> uint32 \<Rightarrow> Checksum" where
  "newHashChecksum t poly = hashChecksum t poly 0"

fun TypeCode :: "Checksum \<Rightarrow> ChecksumType" where
  "TypeCode nullChecksum = ChecksumTypeNone"
| "TypeCode (hashChecksum t poly crc) = t"

fun Checksum_Size :: "Checksum \<Rightarrow> nat" where
  "Checksum_Size nullChecksum = 0"
| "Checksum_Size (hashChecksum t poly crc) = crc32_Size"

fun Checksum_Sum :: "Checksum \<Rightarrow> byte list" where
  "Checksum_Sum nullChecksum = []"
| "Checksum_Sum (hashChecksum t poly crc) = PutUint32 crc"

fun Checksum_Add :: "byte list \<Rightarrow> Checksum \<Rightarrow> Checksum" where
  "Checksum_Add b nullChecksum = nullChecksum"
| "Checksum_Add b (hashChecksum t poly crc) = hashChecksum t poly (crc_update poly crc b)"

fun Checksum_Reset :: "Checksum \<Rightarrow> Checksum" where
  "Checksum_Reset nullChecksum = nullChecksum"
| "Checksum_Reset (hashChecksum t poly crc) = hashChecksum t poly 0"

definition ChecksumType_valid :: "ChecksumType \<Rightarrow> bool" where
  "ChecksumType_valid t \<longleftrightarrow> unat t < checksumCount"

definition ChecksumSize :: "ChecksumType \<Rightarrow> nat" where
  "ChecksumSize t =
     (if t = ChecksumTypeNone then 0
      else if t = ChecksumTypeCrc32 \<or> t = ChecksumTypeCrc32C then crc32_Size
      else if t = ChecksumTypeFarmhash then 4
      else 0)"

text \<open>The index of the pool of a type, and what its \<^verbatim>\<open>New\<close> function makes.\<close>

definition pool_index :: "ChecksumType \<Rightarrow> ChecksumType" where
  "pool_index t = (if \<not> ChecksumType_valid t then ChecksumTypeNone else t)"

definition pool_New :: "ChecksumType \<Rightarrow> Checksum" where
  "pool_New t =
     (if t = ChecksumTypeCrc32 then newHashChecksum ChecksumTypeCrc32 crc32_IEEE
      else if t = ChecksumTypeCrc32C then newHashChecksum ChecksumTypeCrc32C crc32_Castagnoli
      else nullChecksum)"

type_synonym checksumPools = "ChecksumType \<Rightarrow> Checksum list"

text \<open>
  Taking a checksum from a pool: one that was released, or a new one; \<open>choice\<close> is what the runtime
  picks. It is reset before it is handed out.
\<close>

definition ChecksumType_Get :: "nat option \<Rightarrow> ChecksumType \<Rightarrow> checksumPools \<Rightarrow> Checksum \<times> checksumPools" where
  "ChecksumType_Get choice t pools =
     (let i = pool_index t; pool = pools i
      in case choice of
           None \<Rightarrow> (Checksum_Reset (pool_New i), pools)
         | Some n \<Rightarrow>
             if n < length pool
             then (Checksum_Reset (pool ! n), pools(i := take n pool @ drop (Suc n) pool))
             else (Checksum_Reset (pool_New i), pools))"

definition ChecksumType_Release :: "ChecksumType \<Rightarrow> Checksum \<Rightarrow> checksumPools \<Rightarrow> checksumPools" where
  "ChecksumType_Release t c pools = pools(pool_index t := c # pools (pool_index t))"

definition Checksum_Release :: "Checksum \<Rightarrow> checksumPools \<Rightarrow> checksumPools" where
  "Checksum_Release c pools = ChecksumType_Release (TypeCode c) c pools"

text \<open>The checksum a caller of \<^verbatim>\<open>New\<close> gets, by \<open>Get_pooled\<close> below whatever the pool holds.\<close>

definition ChecksumType_New :: "ChecksumType \<Rightarrow> Checksum" where
  "ChecksumType_New t = Checksum_Reset (pool_New (pool_index t))"

section \<open>A checksum runs over the concatenation of what was added\<close>

lemma crc_update_Nil [simp]: "crc_update poly c [] = c"
  by (simp add: crc_update_def)

lemma crc_update_append: "crc_update poly c (a @ b) = crc_update poly (crc_update poly c a) b"
  by (simp add: crc_update_def)

lemma Add_append: "Checksum_Add (a @ b) c = Checksum_Add b (Checksum_Add a c)"
  by (cases c) (simp_all add: crc_update_append)

lemma Add_Nil [simp]: "Checksum_Add [] c = c"
  by (cases c) simp_all

lemma Add_simps [simp]:
  "TypeCode (Checksum_Add b c) = TypeCode c" "Checksum_Size (Checksum_Add b c) = Checksum_Size c"
  "length (Checksum_Sum c) = Checksum_Size c"
  by (cases c; simp)+

text \<open>Every type but Farmhash yields a checksum of that type and of the size the type announces.\<close>

lemma New_type:
  assumes "ChecksumType_valid t" and "t \<noteq> ChecksumTypeFarmhash"
  shows "TypeCode (ChecksumType_New t) = t" and "Checksum_Size (ChecksumType_New t) = ChecksumSize t"
proof -
  have "unat t < 4" using assms by (simp add: ChecksumType_valid_def)
  then have "unat t = 0 \<or> unat t = 1 \<or> unat t = 2 \<or> unat t = 3" by linarith
  then have "t = 0 \<or> t = 1 \<or> t = 2 \<or> t = 3" by (simp add: word_unat_eq_iff)
  then show "TypeCode (ChecksumType_New t) = t" "Checksum_Size (ChecksumType_New t) = ChecksumSize t"
    using assms
    by (auto simp: ChecksumType_New_def pool_index_def pool_New_def ChecksumType_valid_def
        newHashChecksum_def ChecksumSize_def)
qed

text \<open>What the pools hold: checksums that differ from a new one by the running sum only.\<close>

definition pools_inv :: "checksumPools \<Rightarrow> bool" where
  "pools_inv pools \<longleftrightarrow> (\<forall>t. \<forall>c \<in> set (pools t). Checksum_Reset c = ChecksumType_New t)"

text \<open>A checksum as the code has it: made by \<^verbatim>\<open>New\<close>, then added to.\<close>

definition checksum_ok :: "Checksum \<Rightarrow> bool" where
  "checksum_ok c \<longleftrightarrow> Checksum_Reset c = ChecksumType_New (TypeCode c)"

lemma checksum_ok_New: "checksum_ok (ChecksumType_New t)"
  by (auto simp: checksum_ok_def ChecksumType_New_def pool_New_def newHashChecksum_def pool_index_def
      ChecksumType_valid_def)

lemma checksum_ok_Add: "checksum_ok c \<Longrightarrow> checksum_ok (Checksum_Add b c)"
  by (cases c) (simp_all add: checksum_ok_def)

lemma Reset_Reset [simp]: "Checksum_Reset (Checksum_Reset c) = Checksum_Reset c"
  by (cases c) simp_all

lemma pools_inv_empty: "pools_inv (\<lambda>_. [])"
  by (simp add: pools_inv_def)

lemma pools_inv_Release:
  assumes "pools_inv pools" and "checksum_ok c"
  shows "pools_inv (Checksum_Release c pools)"
proof -
  have "ChecksumType_New (pool_index t) = ChecksumType_New t" for t
    by (simp add: ChecksumType_New_def pool_index_def ChecksumType_valid_def)
  with assms show ?thesis
    by (auto simp: pools_inv_def checksum_ok_def Checksum_Release_def ChecksumType_Release_def)
qed

lemma Get_pooled:
  assumes "pools_inv pools" and "ChecksumType_Get choice t pools = (c, pools')"
  shows "c = ChecksumType_New t" and "pools_inv pools'"
proof -
  let ?i = "pool_index t"
  have New: "ChecksumType_New ?i = ChecksumType_New t"
    by (simp add: ChecksumType_New_def pool_index_def ChecksumType_valid_def)
  have "c = ChecksumType_New t \<and> pools_inv pools'"
  proof (cases "\<exists>n. choice = Some n \<and> n < length (pools ?i)")
    case True
    then obtain n where n: "choice = Some n" "n < length (pools ?i)" by blast
    then have "Checksum_Reset (pools ?i ! n) = ChecksumType_New t"
      using assms(1) New nth_mem [OF n(2)] unfolding pools_inv_def by metis
    moreover have "pools_inv (pools(?i := take n (pools ?i) @ drop (Suc n) (pools ?i)))"
      using assms(1) by (auto simp: pools_inv_def dest: in_set_takeD in_set_dropD)
    ultimately show ?thesis
      using assms(2) n by (auto simp: ChecksumType_Get_def Let_def)
  next
    case False
    then show ?thesis
      using assms by (auto simp: ChecksumType_Get_def Let_def ChecksumType_New_def split: option.splits if_splits)
  qed
  then show "c = ChecksumType_New t" "pools_inv pools'" by simp_all
qed

section \<open>A changed byte changes the sum\<close>

text \<open>One table step is eight shift steps on the state with the byte added, and these are invertible.\<close>

lemma crc_step_bit:
  "crc_step poly c = (if bit c 0 then drop_bit 1 c XOR poly else drop_bit 1 c)"
  by (simp add: crc_step_def and_one_eq bit_0 odd_iff_mod_2_eq_one)

lemma xor_cancel [simp]:
  "a XOR x = b XOR x \<longleftrightarrow> a = b" "x XOR a = x XOR b \<longleftrightarrow> a = b" for a :: "'a::len word"
  by (metis xor.assoc xor_self_eq xor.right_neutral, metis xor.assoc xor_self_eq xor.left_neutral)

lemma xor_cancel_mid: "(a XOR x) XOR (b XOR x) = a XOR b" for a :: "'a::len word"
  by (metis xor.assoc xor.commute xor_self_eq xor.right_neutral)

lemma crc_step_xor: "crc_step poly (a XOR b) = crc_step poly a XOR crc_step poly b"
  by (cases "bit a 0"; cases "bit b 0")
    (simp_all only: crc_step_bit bit_xor_iff drop_bit_xor if_True if_False simp_thms xor_cancel_mid,
     simp_all only: ac_simps)

lemma crc_steps_xor: "(crc_step poly ^^ n) (a XOR b) = (crc_step poly ^^ n) a XOR (crc_step poly ^^ n) b"
  by (induction n) (simp_all add: crc_step_xor)

lemma crc_steps_low_zero:
  "take_bit n a = 0 \<Longrightarrow> (crc_step poly ^^ n) a = drop_bit n a"
proof (induction n arbitrary: a)
  case (Suc n)
  have b: "\<not> bit a i" if "i < Suc n" for i
    using Suc.prems that by (metis bit_0_eq bit_take_bit_iff bot_apply bot_bool_def)
  then have 1: "crc_step poly a = drop_bit 1 a"
    by (simp add: crc_step_bit)
  have "take_bit n (drop_bit 1 a) = 0"
    using b by (intro bit_eqI) (auto simp: bit_simps)
  then show ?case
    using Suc.IH [of "drop_bit 1 a"] 1 by (simp only: funpow_Suc_right comp_apply) simp
qed simp

lemma crc_byte_steps: "crc_byte poly v c = (crc_step poly ^^ 8) (c XOR ucast v)"
proof -
  let ?lo = "ucast (ucast c XOR v :: byte) :: uint32" and ?hi = "push_bit 8 (drop_bit 8 c)"
  have "c XOR ucast v = ?lo XOR ?hi"
    by (rule bit_eqI) (auto simp: bit_simps)
  moreover have "(crc_step poly ^^ 8) ?hi = drop_bit 8 ?hi"
    by (rule crc_steps_low_zero, rule bit_eqI) (simp add: bit_simps)
  moreover have "drop_bit 8 ?hi = drop_bit 8 c"
    by (rule bit_eqI) (auto simp: bit_simps dest: bit_imp_le_length)
  ultimately show ?thesis
    by (simp add: crc_byte_def crc_table_def crc_steps_xor)
qed

lemma crc_step_inj:
  assumes "bit poly 31"
  shows "inj (crc_step poly)"
proof (rule injI)
  fix a b assume eq: "crc_step poly a = crc_step poly b"
  have top: "bit (crc_step poly c) 31 = bit c 0" for c
  proof -
    have "\<not> bit c 32" using bit_imp_le_length [of c 32] by auto
    then show ?thesis
      using assms by (cases "bit c 0") (simp_all add: crc_step_bit bit_xor_iff bit_drop_bit_eq)
  qed
  then have 0: "bit a 0 = bit b 0" using eq by metis
  then have eq1: "drop_bit 1 a = drop_bit 1 b"
    using eq by (cases "bit b 0") (simp_all add: crc_step_bit)
  have "bit a (Suc n) = bit b (Suc n)" for n
    using arg_cong [OF eq1, of "\<lambda>x. bit x n"] by (simp add: bit_drop_bit_eq)
  then have "bit a n = bit b n" for n
    using 0 by (cases n) simp_all
  then show "a = b"
    by (intro bit_eqI) simp
qed

lemma crc_byte_inj:
  assumes "bit poly 31"
  shows "crc_byte poly v a = crc_byte poly v b \<longleftrightarrow> a = b"
    and "crc_byte poly v a = crc_byte poly v' a \<longleftrightarrow> v = v'"
proof -
  have "inj (crc_step poly ^^ 8)" using crc_step_inj [OF assms] by (rule inj_fn)
  then have *: "(crc_step poly ^^ 8) x = (crc_step poly ^^ 8) y \<longleftrightarrow> x = y" for x y
    by (auto dest: injD)
  show "crc_byte poly v a = crc_byte poly v b \<longleftrightarrow> a = b"
    by (simp add: crc_byte_steps *)
  have "(ucast v :: uint32) = ucast v' \<longleftrightarrow> v = v'"
    using unat_ucast_up [where 'a = 8 and 'b = 32] by (auto simp: word_unat_eq_iff)
  then show "crc_byte poly v a = crc_byte poly v' a \<longleftrightarrow> v = v'"
    by (simp add: crc_byte_steps *)
qed

lemma crc_bytes_inj:
  "bit poly 31 \<Longrightarrow> fold (crc_byte poly) p a = fold (crc_byte poly) p b \<longleftrightarrow> a = b"
  by (induction p arbitrary: a b) (simp_all add: crc_byte_inj)

lemma crc_update_byte:
  assumes "bit poly 31"
  shows "crc_update poly c (p @ v # q) = crc_update poly c (p @ v' # q) \<longleftrightarrow> v = v'"
  using assms by (simp add: crc_update_def crc_bytes_inj crc_byte_inj)

lemma polys_bit31: "bit crc32_IEEE 31" "bit crc32_Castagnoli 31"
  by (simp_all add: crc32_IEEE_def crc32_Castagnoli_def)

text \<open>The published check values of the two polynomials, for the nine digits.\<close>

lemma funpow_8: "(f ^^ 8) x = f (f (f (f (f (f (f (f x)))))))"
  by (simp add: eval_nat_numeral)

lemmas crc_eval = crc_byte_def crc_table_def crc_step_def funpow_8 crc32_IEEE_def crc32_Castagnoli_def

lemma crc_update_start: "crc_update poly 0 p = NOT (fold (crc_byte poly) p 0xFFFFFFFF)"
proof -
  have "NOT (0 :: uint32) = 0xFFFFFFFF" by code_simp
  then show ?thesis by (simp only: crc_update_def)
qed

lemma crc32_check_values:
  "crc_update crc32_IEEE 0 [0x31, 0x32, 0x33, 0x34, 0x35, 0x36, 0x37, 0x38, 0x39] = 0xcbf43926"
  "crc_update crc32_Castagnoli 0 [0x31, 0x32, 0x33, 0x34, 0x35, 0x36, 0x37, 0x38, 0x39] = 0xe3069283"
  by (simp_all only: crc_update_start fold_simps) (simp_all add: crc_eval)

lemma fold_Add: "fold Checksum_Add chunks c = Checksum_Add (concat chunks) c"
  by (induction chunks arbitrary: c) (simp_all add: Add_append)

text \<open>The pools that sequences of \<^verbatim>\<open>New\<close>, \<^verbatim>\<open>Add\<close> and \<^verbatim>\<open>Release\<close> lead to, in any interleaving.\<close>

inductive pools_reach :: "checksumPools \<Rightarrow> bool" where
  start: "pools_reach (\<lambda>_. [])"
| get: "pools_reach pools \<Longrightarrow> ChecksumType_Get choice t pools = (c, pools') \<Longrightarrow> pools_reach pools'"
| release: "pools_reach pools \<Longrightarrow>
    pools_reach (Checksum_Release (fold Checksum_Add chunks (ChecksumType_New t)) pools)"

lemma pools_reach_inv: "pools_reach pools \<Longrightarrow> pools_inv pools"
proof (induction rule: pools_reach.induct)
  case (release pools chunks t)
  then show ?case
    by (intro pools_inv_Release) (simp_all add: fold_Add checksum_ok_Add checksum_ok_New)
qed (auto simp: pools_inv_empty dest: Get_pooled)

section \<open>Properties\<close>

text \<open>
  C16: a running CRC-32 checksum of either kind tells two byte streams apart that differ in one byte,
  no matter into which chunks the sender and the receiver cut them.
\<close>

theorem checksum_detects_byte:
  assumes "t = ChecksumTypeCrc32 \<or> t = ChecksumTypeCrc32C"
    and "concat chunks = p @ v # q" and "concat chunks' = p @ v' # q" and "v \<noteq> v'"
  shows "Checksum_Sum (fold Checksum_Add chunks (ChecksumType_New t)) \<noteq>
    Checksum_Sum (fold Checksum_Add chunks' (ChecksumType_New t))"
proof -
  obtain poly where poly: "bit poly 31" "ChecksumType_New t = hashChecksum t poly 0"
    using assms(1) polys_bit31
    by (auto simp: ChecksumType_New_def pool_index_def pool_New_def newHashChecksum_def ChecksumType_valid_def)
  then have "crc_update poly 0 (concat chunks) \<noteq> crc_update poly 0 (concat chunks')"
    using assms crc_update_byte by simp
  then show ?thesis
    using poly by (simp add: fold_Add be_bytes_inject)
qed

theorem checksum_detects_byte_witness:
  "Checksum_Sum (fold Checksum_Add [[1, 2], [3]] (ChecksumType_New ChecksumTypeCrc32)) \<noteq>
   Checksum_Sum (fold Checksum_Add [[1], [7, 3]] (ChecksumType_New ChecksumTypeCrc32))"
  by (rule checksum_detects_byte [where p = "[1]" and v = 2 and v' = 7 and q = "[3]"]) simp_all

text \<open>
  C17: a checksum taken from a pool, after any history of checksums taken, used and given back, is
  the fresh checksum of its type: nothing of an earlier message leaks into it.
\<close>

theorem pooled_checksum_fresh:
  assumes "pools_reach pools"
  shows "fst (ChecksumType_Get choice t pools) = ChecksumType_New t"
  using Get_pooled(1) [OF pools_reach_inv [OF assms]] by (metis prod.collapse)

theorem pooled_checksum_fresh_witness:
  "fst (ChecksumType_Get (Some 0) ChecksumTypeCrc32C
     (Checksum_Release (fold Checksum_Add [[1, 2, 3]] (ChecksumType_New ChecksumTypeCrc32C)) (\<lambda>_. []))) =
   ChecksumType_New ChecksumTypeCrc32C"
  by (rule pooled_checksum_fresh, rule pools_reach.release, rule pools_reach.start)

end
