(* ===== verification/Fragmenting_Writer.thy ===== *)
theory Fragmenting_Writer
  imports Frame Checksum
begin

text \<open>
  The fragmenting writer of \<^verbatim>\<open>fragmenting_writer.go\<close>: it cuts the arguments of a call into chunks and
  packs the chunks into fragments that it gets from, and hands back to, a \<^verbatim>\<open>fragmentSender\<close>.
  The checksum is one object shared by the writer, its fragments and its chunks, and the contents
  buffer one object shared by a fragment and its chunk; the model keeps the checksum in the writer and
  the buffer in the fragment, and passes them to the methods that use them.
  Releasing the checksum after the last fragment only concerns its pool (\<open>Checksum_Release\<close>).
\<close>

definition errAlreadyWritingArgument :: gerror where
  "errAlreadyWritingArgument = ErrorString ''already writing argument''"
definition errNotWritingArgument :: gerror where
  "errNotWritingArgument = ErrorString ''not writing argument''"
definition errComplete :: gerror where
  "errComplete = ErrorString ''last argument already sent''"

definition chunkHeaderSize :: nat where [simp]: "chunkHeaderSize = 2"
definition hasMoreFragmentsFlag :: byte where [simp]: "hasMoreFragmentsFlag = 0x01"

section \<open>Fragments and chunks\<close>

text \<open>The payload of \<open>wf_frame\<close> is the array behind \<open>wf_contents\<close>; \<open>fragment_frame\<close> puts them together.\<close>

record writableFragment =
  wf_flagsRef :: slice_ref
  wf_checksumRef :: slice_ref
  wf_contents :: WriteBuffer
  wf_frame :: Frame

definition fragment_frame :: "writableFragment \<Rightarrow> Frame" where
  "fragment_frame f = set_Payload (wb_buffer (wf_contents f)) (wf_frame f)"

definition writableFragment_finish :: "bool \<Rightarrow> Checksum \<Rightarrow> writableFragment \<Rightarrow> writableFragment" where
  "writableFragment_finish hasMoreFragments checksum f =
     (let c1 = BytesRef_Update (wf_checksumRef f) (Checksum_Sum checksum) (wf_contents f);
          c2 = (if hasMoreFragments then ByteRef_Update (wf_flagsRef f) hasMoreFragmentsFlag c1 else c1)
      in f\<lparr>wf_contents := c2\<rparr>)"

record writableChunk =
  wc_size :: uint16
  wc_sizeRef :: slice_ref

definition newWritableChunk :: "WriteBuffer \<Rightarrow> writableChunk \<times> WriteBuffer" where
  "newWritableChunk contents =
     (case DeferUint16 contents of (ref, contents') \<Rightarrow> (\<lparr>wc_size = 0, wc_sizeRef = ref\<rparr>, contents'))"

definition writeAsFits ::
  "byte list \<Rightarrow> writableChunk \<Rightarrow> Checksum \<Rightarrow> WriteBuffer \<Rightarrow> nat \<times> writableChunk \<times> Checksum \<times> WriteBuffer" where
  "writeAsFits b c checksum contents =
     (let b' = (if length b > wb_BytesRemaining contents then take (wb_BytesRemaining contents) b else b);
          written = length b'
      in (written, c\<lparr>wc_size := wc_size c + of_nat written\<rparr>, Checksum_Add b' checksum,
          WriteBytes b' contents))"

definition writableChunk_finish :: "writableChunk \<Rightarrow> WriteBuffer \<Rightarrow> WriteBuffer" where
  "writableChunk_finish c contents = Uint16Ref_Update (wc_sizeRef c) (wc_size c) contents"

text \<open>
  When the fragment of a chunk has been given to the sender, the chunk the writer still holds refers to
  the old array, which is no longer the writer's; an update through it is lost to the current fragment.
\<close>

definition detached :: "writableChunk \<Rightarrow> writableChunk" where
  "detached c = c\<lparr>wc_sizeRef := None\<rparr>"

section \<open>The writer\<close>

text \<open>The operations of a \<^verbatim>\<open>fragmentSender\<close>, over its state \<open>'s\<close>; nil is \<open>None\<close>.\<close>

record 's fragmentSender =
  newFragment :: "bool \<Rightarrow> Checksum \<Rightarrow> 's \<Rightarrow> ((writableFragment option \<times> gerror option) \<times> 's) go"
  flushFragment :: "writableFragment \<Rightarrow> 's \<Rightarrow> (gerror option \<times> 's) go"
  doneSending :: "'s \<Rightarrow> 's go"

datatype fragmentingWriterState =
    fragmentingWriteStart
  | fragmentingWriteInArgument
  | fragmentingWriteInLastArgument
  | fragmentingWriteWaitingForArgument
  | fragmentingWriteComplete

definition isWritingArgument :: "fragmentingWriterState \<Rightarrow> bool" where
  "isWritingArgument s \<longleftrightarrow> s = fragmentingWriteInArgument \<or> s = fragmentingWriteInLastArgument"

record 's fragmentingWriter =
  fw_sender :: 's
  fw_checksum :: Checksum
  fw_curFragment :: "writableFragment option"
  fw_curChunk :: "writableChunk option"
  fw_state :: fragmentingWriterState
  fw_err :: "gerror option"

definition newFragmentingWriter :: "'s \<Rightarrow> Checksum \<Rightarrow> 's fragmentingWriter" where
  "newFragmentingWriter sender checksum =
     \<lparr>fw_sender = sender, fw_checksum = checksum, fw_curFragment = None, fw_curChunk = None,
      fw_state = fragmentingWriteStart, fw_err = None\<rparr>"

definition fw_BeginArgument ::
  "'s fragmentSender \<Rightarrow> bool \<Rightarrow> 's fragmentingWriter \<Rightarrow> (gerror option \<times> 's fragmentingWriter) go" where
  "fw_BeginArgument ops isLast w =
     (case fw_err w of
        Some e \<Rightarrow> Ret (Some e, w)
      | None \<Rightarrow>
          if fw_state w = fragmentingWriteComplete then
            Ret (Some errComplete, w\<lparr>fw_err := Some errComplete\<rparr>)
          else if isWritingArgument (fw_state w) then
            Ret (Some errAlreadyWritingArgument, w\<lparr>fw_err := Some errAlreadyWritingArgument\<rparr>)
          else
            go_bind
              (case fw_curFragment w of
                 Some _ \<Rightarrow> Ret w
               | None \<Rightarrow>
                   go_bind (newFragment ops (fw_state w = fragmentingWriteStart) (fw_checksum w) (fw_sender w))
                     (\<lambda>((f, e), s). Ret (w\<lparr>fw_sender := s, fw_curFragment := f, fw_err := e\<rparr>)))
              (\<lambda>w1. case fw_err w1 of
                 Some e \<Rightarrow> Ret (Some e, w1)
               | None \<Rightarrow>
                   (case fw_curFragment w1 of
                      None \<Rightarrow> Panic
                    | Some f \<Rightarrow>
                        if wb_BytesRemaining (wf_contents f) \<le> chunkHeaderSize then Panic
                        else
                          (case newWritableChunk (wf_contents f) of (ch, contents) \<Rightarrow>
                            Ret (None, w1\<lparr>fw_curFragment := Some (f\<lparr>wf_contents := contents\<rparr>),
                              fw_curChunk := Some ch,
                              fw_state := (if isLast then fragmentingWriteInLastArgument
                                           else fragmentingWriteInArgument)\<rparr>)))))"

definition fw_Flush ::
  "'s fragmentSender \<Rightarrow> 's fragmentingWriter \<Rightarrow> (gerror option \<times> 's fragmentingWriter) go" where
  "fw_Flush ops w =
     (case (fw_curChunk w, fw_curFragment w) of
        (Some ch, Some f) \<Rightarrow>
          (let f1 = f\<lparr>wf_contents := writableChunk_finish ch (wf_contents f)\<rparr>;
               f2 = writableFragment_finish True (fw_checksum w) f1
           in case flushFragment ops f2 (fw_sender w) of
                Panic \<Rightarrow> Panic
              | Ret (Some e, s) \<Rightarrow>
                  Ret (Some e, w\<lparr>fw_sender := s, fw_curFragment := Some f2, fw_err := Some e\<rparr>)
              | Ret (None, s) \<Rightarrow>
                  (case newFragment ops False (fw_checksum w) s of
                     Panic \<Rightarrow> Panic
                   | Ret ((f', Some e), s') \<Rightarrow>
                       Ret (Some e, w\<lparr>fw_sender := s', fw_curFragment := f', fw_err := Some e,
                         fw_curChunk := Some (detached ch)\<rparr>)
                   | Ret ((None, None), s') \<Rightarrow> Panic
                   | Ret ((Some f', None), s') \<Rightarrow>
                       (case newWritableChunk (wf_contents f') of (ch', contents) \<Rightarrow>
                          Ret (None, w\<lparr>fw_sender := s', fw_curFragment := Some (f'\<lparr>wf_contents := contents\<rparr>),
                            fw_err := None, fw_curChunk := Some ch'\<rparr>))))
      | _ \<Rightarrow> Panic)"

text \<open>The loop of \<^verbatim>\<open>Write\<close>. It goes on as long as fragments come back full, so it may not end.\<close>

partial_function (option) fw_write_loop ::
  "'s fragmentSender \<Rightarrow> byte list \<Rightarrow> nat \<Rightarrow> 's fragmentingWriter \<Rightarrow>
   ((nat \<times> gerror option) \<times> 's fragmentingWriter) go option" where
  "fw_write_loop ops b totalWritten w =
     (case (fw_curChunk w, fw_curFragment w) of
        (Some ch, Some f) \<Rightarrow>
          (case writeAsFits b ch (fw_checksum w) (wf_contents f) of (n, ch', checksum, contents) \<Rightarrow>
             let w1 = w\<lparr>fw_curChunk := Some ch', fw_checksum := checksum,
                        fw_curFragment := Some (f\<lparr>wf_contents := contents\<rparr>)\<rparr>
             in if n = length b then Some (Ret ((totalWritten + n, None), w1))
                else
                  (case fw_Flush ops w1 of
                     Panic \<Rightarrow> Some Panic
                   | Ret (Some e, w2) \<Rightarrow> Some (Ret ((totalWritten + n, Some e), w2\<lparr>fw_err := Some e\<rparr>))
                   | Ret (None, w2) \<Rightarrow>
                       fw_write_loop ops (drop n b) (totalWritten + n) (w2\<lparr>fw_err := None\<rparr>)))
      | _ \<Rightarrow> Some Panic)"

definition fw_Write ::
  "'s fragmentSender \<Rightarrow> byte list \<Rightarrow> 's fragmentingWriter \<Rightarrow>
   ((nat \<times> gerror option) \<times> 's fragmentingWriter) go option" where
  "fw_Write ops b w =
     (case fw_err w of
        Some e \<Rightarrow> Some (Ret ((0, Some e), w))
      | None \<Rightarrow>
          if \<not> isWritingArgument (fw_state w) then
            Some (Ret ((0, Some errNotWritingArgument), w\<lparr>fw_err := Some errNotWritingArgument\<rparr>))
          else fw_write_loop ops b 0 w)"

definition fw_Close ::
  "'s fragmentSender \<Rightarrow> 's fragmentingWriter \<Rightarrow> (gerror option \<times> 's fragmentingWriter) go" where
  "fw_Close ops w =
     (let isLast = (fw_state w = fragmentingWriteInLastArgument)
      in case fw_err w of
           Some e \<Rightarrow> Ret (Some e, w)
         | None \<Rightarrow>
             if \<not> isWritingArgument (fw_state w) then
               Ret (Some errNotWritingArgument, w\<lparr>fw_err := Some errNotWritingArgument\<rparr>)
             else
               (case (fw_curChunk w, fw_curFragment w) of
                 (Some ch, Some f) \<Rightarrow>
                   (let f1 = f\<lparr>wf_contents := writableChunk_finish ch (wf_contents f)\<rparr>
                    in if isLast then
                         (let f2 = writableFragment_finish False (fw_checksum w) f1
                          in go_bind (flushFragment ops f2 (fw_sender w)) (\<lambda>(e, s).
                               go_bind (doneSending ops s) (\<lambda>s'.
                                 Ret (e, w\<lparr>fw_state := fragmentingWriteComplete, fw_curFragment := Some f2,
                                   fw_err := e, fw_sender := s'\<rparr>))))
                       else if wb_BytesRemaining (wf_contents f1) > chunkHeaderSize then
                         Ret (None, w\<lparr>fw_state := fragmentingWriteWaitingForArgument, fw_curFragment := Some f1\<rparr>)
                       else
                         (let f2 = writableFragment_finish True (fw_checksum w) f1;
                              w2 = w\<lparr>fw_state := fragmentingWriteWaitingForArgument, fw_curFragment := Some f2\<rparr>
                          in case flushFragment ops f2 (fw_sender w) of
                               Panic \<Rightarrow> Panic
                             | Ret (Some e, s) \<Rightarrow> Ret (Some e, w2\<lparr>fw_sender := s, fw_err := Some e\<rparr>)
                             | Ret (None, s) \<Rightarrow>
                                 (case newFragment ops False (fw_checksum w) s of
                                    Panic \<Rightarrow> Panic
                                  | Ret ((f', Some e), s') \<Rightarrow>
                                      Ret (Some e, w2\<lparr>fw_sender := s', fw_curFragment := f', fw_err := Some e,
                                        fw_curChunk := Some (detached ch)\<rparr>)
                                  | Ret ((None, None), s') \<Rightarrow> Panic
                                  | Ret ((Some f', None), s') \<Rightarrow>
                                      Ret (None, w2\<lparr>fw_sender := s', fw_err := None,
                                        fw_curChunk := Some (detached ch),
                                        fw_curFragment :=
                                          Some (f'\<lparr>wf_contents := WriteUint16 0 (wf_contents f')\<rparr>)\<rparr>))))
               | _ \<Rightarrow> Panic))"

section \<open>Writing whole arguments\<close>

text \<open>A caller writes an argument in any number of pieces, with flushes between them, and closes it.\<close>

datatype arg_op = OpWrite "byte list" | OpFlush

fun op_bytes :: "arg_op \<Rightarrow> byte list" where
  "op_bytes (OpWrite b) = b"
| "op_bytes OpFlush = []"

abbreviation arg_bytes :: "arg_op list \<Rightarrow> byte list" where
  "arg_bytes xs \<equiv> concat (map op_bytes xs)"

fun write_pieces ::
  "'s fragmentSender \<Rightarrow> arg_op list \<Rightarrow> 's fragmentingWriter \<Rightarrow> (gerror option \<times> 's fragmentingWriter) go option" where
  "write_pieces ops [] w = Some (Ret (None, w))"
| "write_pieces ops (OpWrite b # xs) w =
     (case fw_Write ops b w of
        Some (Ret ((n, None), w')) \<Rightarrow> write_pieces ops xs w'
      | Some (Ret ((n, Some e), w')) \<Rightarrow> Some (Ret (Some e, w'))
      | Some Panic \<Rightarrow> Some Panic
      | None \<Rightarrow> None)"
| "write_pieces ops (OpFlush # xs) w =
     (case fw_Flush ops w of
        Ret (None, w') \<Rightarrow> write_pieces ops xs w'
      | Ret (Some e, w') \<Rightarrow> Some (Ret (Some e, w'))
      | Panic \<Rightarrow> Some Panic)"

definition write_arg ::
  "'s fragmentSender \<Rightarrow> bool \<Rightarrow> arg_op list \<Rightarrow> 's fragmentingWriter \<Rightarrow>
   (gerror option \<times> 's fragmentingWriter) go option" where
  "write_arg ops isLast xs w =
     (case fw_BeginArgument ops isLast w of
        Ret (None, w1) \<Rightarrow>
          (case write_pieces ops xs w1 of
             Some (Ret (None, w2)) \<Rightarrow> Some (fw_Close ops w2)
           | other \<Rightarrow> other)
      | other \<Rightarrow> Some other)"

fun write_args ::
  "'s fragmentSender \<Rightarrow> arg_op list list \<Rightarrow> 's fragmentingWriter \<Rightarrow> (gerror option \<times> 's fragmentingWriter) go option" where
  "write_args ops [] w = Some (Ret (None, w))"
| "write_args ops (xs # xss) w =
     (case write_arg ops (xss = []) xs w of
        Some (Ret (None, w')) \<Rightarrow> write_args ops xss w'
      | other \<Rightarrow> other)"

section \<open>What a fragment holds\<close>

definition enc_chunk :: "byte list \<Rightarrow> byte list" where
  "enc_chunk c = PutUint16 (of_nat (length c)) @ c"

definition enc_chunks :: "byte list list \<Rightarrow> byte list" where
  "enc_chunks cs = concat (map enc_chunk cs)"

lemma enc_chunks_simps [simp]:
  "enc_chunks [] = []" "enc_chunks (c # cs) = enc_chunk c @ enc_chunks cs"
  "enc_chunks (cs @ ds) = enc_chunks cs @ enc_chunks ds"
  by (simp_all add: enc_chunks_def)

text \<open>
  The bytes of a fragment, whose frame satisfies \<open>H\<close>: flags, the message with the checksum type, the checksum, then whole chunks;
  \<open>frag_open\<close> has one more chunk at the end, whose size is still the placeholder.
\<close>

definition frag_body :: "(Frame \<Rightarrow> bool) \<Rightarrow> writableFragment \<Rightarrow> byte \<Rightarrow> byte list \<Rightarrow> byte list \<Rightarrow> byte list \<Rightarrow> bool" where
  "frag_body H f fl mid ck bs \<longleftrightarrow>
     wb_inv (wf_contents f) \<and> wb_err (wf_contents f) = None \<and> H (wf_frame f) \<and>
     length (wb_buffer (wf_contents f)) = length (fr_Payload (wf_frame f)) \<and>
     wb_written (wf_contents f) = fl # mid @ ck @ bs \<and>
     (\<exists>n. wf_flagsRef f = Some (0, Suc n)) \<and> wf_checksumRef f = Some (1 + length mid, length ck)"

definition frag_is :: "(Frame \<Rightarrow> bool) \<Rightarrow> writableFragment \<Rightarrow> byte \<Rightarrow> byte list \<Rightarrow> byte list \<Rightarrow> byte list list \<Rightarrow> bool" where
  "frag_is H f fl mid ck cs \<longleftrightarrow> frag_body H f fl mid ck (enc_chunks cs)"

definition frag_open ::
  "(Frame \<Rightarrow> bool) \<Rightarrow> writableFragment \<Rightarrow> writableChunk \<Rightarrow> byte \<Rightarrow> byte list \<Rightarrow> byte list \<Rightarrow> byte list list \<Rightarrow> byte list \<Rightarrow> bool" where
  "frag_open H f ch fl mid ck cs d \<longleftrightarrow>
     frag_body H f fl mid ck (enc_chunks cs @ [0, 0] @ d) \<and>
     wc_sizeRef ch = Some (1 + length mid + length ck + length (enc_chunks cs), 2) \<and>
     wc_size ch = of_nat (length d)"

abbreviation room :: "writableFragment \<Rightarrow> nat" where
  "room f \<equiv> wb_BytesRemaining (wf_contents f)"

lemma written_pos: "wb_inv w \<Longrightarrow> length (wb_written w) = wb_pos w"
  by (simp add: wb_inv_def wb_written_def)

lemma copy_ref_written:
  assumes "wb_inv w" and "wb_written w = a @ b @ c" and "length src = length b" and "length src \<le> n"
  shows "wb_written (copy_ref (Some (length a, n)) src w) = a @ src @ c"
    and "wb_inv (copy_ref (Some (length a, n)) src w)"
    and "wb_err (copy_ref (Some (length a, n)) src w) = wb_err w"
    and "length (wb_buffer (copy_ref (Some (length a, n)) src w)) = length (wb_buffer w)"
    and "wb_BytesRemaining (copy_ref (Some (length a, n)) src w) = wb_BytesRemaining w"
proof -
  have pos: "wb_pos w = length a + length b + length c"
    using written_pos [OF assms(1)] assms(2) by simp
  have le: "length a + length src \<le> length (wb_buffer w)"
    using assms(1,3) pos by (simp add: wb_inv_def)
  have buf: "wb_buffer w = a @ b @ c @ drop (wb_pos w) (wb_buffer w)"
    using assms(2) by (metis append.assoc append_take_drop_id wb_written_def)
  have new: "copy_at (length a) src (wb_buffer w) = a @ src @ c @ drop (wb_pos w) (wb_buffer w)"
  proof -
    have "take (length a) (wb_buffer w) = a" by (subst buf) simp
    moreover have "drop (length a + length src) (wb_buffer w) = c @ drop (wb_pos w) (wb_buffer w)"
      by (subst buf) (simp add: assms(3))
    ultimately show ?thesis using le by (simp add: copy_at_fits)
  qed
  show "wb_written (copy_ref (Some (length a, n)) src w) = a @ src @ c"
    using pos assms(3,4) by (simp add: copy_ref_def wb_written_def new)
  show "wb_inv (copy_ref (Some (length a, n)) src w)"
    "wb_err (copy_ref (Some (length a, n)) src w) = wb_err w"
    "length (wb_buffer (copy_ref (Some (length a, n)) src w)) = length (wb_buffer w)"
    "wb_BytesRemaining (copy_ref (Some (length a, n)) src w) = wb_BytesRemaining w"
    using assms(1,3,4) le by (simp_all add: copy_ref_def wb_inv_def wb_BytesRemaining_def)
qed

lemma deferred_fits:
  assumes "wb_inv w" and "wb_err w = None" and "n \<le> wb_BytesRemaining w"
  shows "deferred n w = (Some (wb_pos w, n), wb_append (replicate n 0) w)"
  using assms by (simp add: deferred_def reserve_def copy_ref_def wb_append_def)

lemma newWritableChunk_opens:
  assumes f: "frag_is H f fl mid ck cs" and r: "2 < room f"
  obtains ch c where "newWritableChunk (wf_contents f) = (ch, c)"
    and "frag_open H (f\<lparr>wf_contents := c\<rparr>) ch fl mid ck cs []"
    and "wb_BytesRemaining c = room f - 2"
proof -
  let ?w = "wf_contents f"
  have w: "wb_inv ?w" "wb_err ?w = None" "wb_written ?w = fl # mid @ ck @ enc_chunks cs"
    using f by (simp_all add: frag_is_def frag_body_def)
  have rep: "replicate 2 (0 :: byte) = [0, 0]" by (simp add: numeral_eq_Suc)
  have d: "newWritableChunk ?w = (\<lparr>wc_size = 0, wc_sizeRef = Some (wb_pos ?w, 2)\<rparr>, wb_append [0, 0] ?w)"
    using w r by (simp add: newWritableChunk_def DeferUint16_def deferred_fits rep)
  have pos: "wb_pos ?w = 1 + length mid + length ck + length (enc_chunks cs)"
    using written_pos [OF w(1)] w(3) by simp
  show ?thesis
    using that [OF d] f r pos
    by (simp add: frag_open_def frag_is_def frag_body_def)
qed

lemma writeAsFits_open:
  assumes f: "frag_open H f ch fl mid ck cs d"
  obtains ch' c where "writeAsFits b ch cks (wf_contents f) =
      (min (length b) (room f), ch', Checksum_Add (take (room f) b) cks, c)"
    and "frag_open H (f\<lparr>wf_contents := c\<rparr>) ch' fl mid ck cs (d @ take (room f) b)"
    and "wb_BytesRemaining c = room f - length b"
proof -
  let ?w = "wf_contents f" and ?b = "take (room f) b"
  have w: "wb_inv ?w" "wb_err ?w = None" using f by (simp_all add: frag_open_def frag_body_def)
  have b: "(if length b > room f then take (room f) b else b) = ?b" by simp
  have wr: "WriteBytes ?b ?w = wb_append ?b ?w" using w by (simp add: WriteBytes_eq)
  have d: "writeAsFits b ch cks ?w = (min (length b) (room f),
      ch\<lparr>wc_size := wc_size ch + of_nat (length ?b)\<rparr>, Checksum_Add ?b cks, wb_append ?b ?w)"
    by (simp only: writeAsFits_def b wr Let_def length_take min.commute)
  show ?thesis
    using that [OF d] f w by (simp add: frag_open_def frag_body_def)
qed

lemma chunk_finish_closes:
  assumes f: "frag_open H f ch fl mid ck cs d"
  shows "frag_is H (f\<lparr>wf_contents := writableChunk_finish ch (wf_contents f)\<rparr>) fl mid ck (cs @ [d])"
    and "wb_BytesRemaining (writableChunk_finish ch (wf_contents f)) = room f"
proof -
  let ?w = "wf_contents f" and ?a = "fl # mid @ ck @ enc_chunks cs"
  have w: "wb_inv ?w" "wb_written ?w = ?a @ [0, 0] @ d"
    and ref: "wc_sizeRef ch = Some (length ?a, 2)" and sz: "wc_size ch = of_nat (length d)"
    using f by (simp_all add: frag_open_def frag_body_def)
  have fin: "writableChunk_finish ch ?w = copy_ref (Some (length ?a, 2)) (PutUint16 (of_nat (length d))) ?w"
    by (simp only: writableChunk_finish_def Uint16Ref_Update_def ref sz)
  note cr = copy_ref_written [OF w(1) w(2), of "PutUint16 (of_nat (length d))" 2]
  show "frag_is H (f\<lparr>wf_contents := writableChunk_finish ch ?w\<rparr>) fl mid ck (cs @ [d])"
    using f cr unfolding fin frag_is_def frag_open_def frag_body_def by (simp add: enc_chunk_def)
  show "wb_BytesRemaining (writableChunk_finish ch ?w) = room f"
    using cr(5) unfolding fin by simp
qed

lemma fragment_finish_seals:
  assumes f: "frag_is H f fl mid ck cs" and ck: "length ck = Checksum_Size cks"
  shows "frag_is H (writableFragment_finish mr cks f) (if mr then hasMoreFragmentsFlag else fl) mid
      (Checksum_Sum cks) cs"
    and "room (writableFragment_finish mr cks f) = room f"
proof -
  let ?w = "wf_contents f" and ?bs = "enc_chunks cs"
  obtain n where w: "wb_inv ?w" "wb_written ?w = (fl # mid) @ ck @ ?bs"
    and refs: "wf_checksumRef f = Some (length (fl # mid), length ck)" "wf_flagsRef f = Some (0, Suc n)"
    using f by (auto simp: frag_is_def frag_body_def)
  let ?c1 = "copy_ref (Some (length (fl # mid), length ck)) (Checksum_Sum cks) ?w"
  have c1: "wb_inv ?c1" "wb_written ?c1 = [] @ [fl] @ mid @ Checksum_Sum cks @ ?bs"
      "wb_err ?c1 = wb_err ?w" "length (wb_buffer ?c1) = length (wb_buffer ?w)"
      "wb_BytesRemaining ?c1 = room f"
    using copy_ref_written [OF w, of "Checksum_Sum cks" "length ck"] ck by simp_all
  have c2: "wb_inv (copy_ref (Some (0, Suc n)) [b] ?c1)"
      "wb_written (copy_ref (Some (0, Suc n)) [b] ?c1) = b # mid @ Checksum_Sum cks @ ?bs"
      "wb_err (copy_ref (Some (0, Suc n)) [b] ?c1) = wb_err ?w"
      "length (wb_buffer (copy_ref (Some (0, Suc n)) [b] ?c1)) = length (wb_buffer ?w)"
      "wb_BytesRemaining (copy_ref (Some (0, Suc n)) [b] ?c1) = room f" for b
    using copy_ref_written [OF c1(1,2), of "[b]" "Suc n"] c1 by simp_all
  have fin: "writableFragment_finish mr cks f =
      f\<lparr>wf_contents := (if mr then copy_ref (Some (0, Suc n)) [hasMoreFragmentsFlag] ?c1 else ?c1)\<rparr>"
    by (simp only: writableFragment_finish_def BytesRef_Update_def ByteRef_Update_def refs Let_def)
  have body: "frag_body H (writableFragment_finish mr cks f) (if mr then hasMoreFragmentsFlag else fl)
      mid (Checksum_Sum cks) ?bs"
    using f c1 c2 refs ck unfolding fin frag_is_def frag_body_def
    by (cases mr) (simp_all del: hasMoreFragmentsFlag_def)
  then show "frag_is H (writableFragment_finish mr cks f) (if mr then hasMoreFragmentsFlag else fl) mid
      (Checksum_Sum cks) cs"
    by (simp only: frag_is_def)
  show "room (writableFragment_finish mr cks f) = room f"
    using c1(5) c2(5) unfolding fin by simp
qed

section \<open>The arguments a sequence of fragments carries\<close>

text \<open>
  Each fragment is a list of chunks. The first chunk of a fragment continues the argument that the last
  chunk of the fragment before it belongs to; every other chunk begins a new argument.
\<close>

fun join_frags :: "'a list list list \<Rightarrow> 'a list list" where
  "join_frags [] = []"
| "join_frags [cs] = cs"
| "join_frags (cs # ds # css) =
     (case join_frags (ds # css) of
        [] \<Rightarrow> cs
      | x # xs \<Rightarrow> butlast cs @ (last cs @ x) # xs)"

lemma join_frags_nonempty: "cs \<noteq> [] \<Longrightarrow> join_frags (cs # css) \<noteq> []"
  by (cases css) (auto split: list.splits)

lemma join_frags_snoc:
  assumes "css \<noteq> []" and "\<forall>cs \<in> set css. cs \<noteq> []" and "ds \<noteq> []"
  shows "join_frags (css @ [ds]) = butlast (join_frags css) @ (last (join_frags css) @ hd ds) # tl ds"
  using assms
proof (induction css rule: join_frags.induct)
  case (2 cs)
  then show ?case by (cases ds) auto
next
  case (3 cs es css)
  then have IH: "join_frags (es # css @ [ds]) =
      butlast (join_frags (es # css)) @ (last (join_frags (es # css)) @ hd ds) # tl ds"
    by simp
  have "join_frags (es # css) \<noteq> []" using 3 by (intro join_frags_nonempty) simp
  then obtain x xs where x: "join_frags (es # css) = x # xs" by (cases "join_frags (es # css)") auto
  show ?case
    using IH x by (cases "xs = []") (auto simp: butlast_append)
qed simp

lemma join_frags_extend:
  assumes "\<forall>cs \<in> set css. cs \<noteq> []" and "join_frags (css @ [cs @ [d]]) = args @ [x]"
  shows "join_frags (css @ [cs @ [d @ b]]) = args @ [x @ b]"
proof (cases "css = []")
  case False
  then show ?thesis
    using assms join_frags_snoc [of css "cs @ [d]"] join_frags_snoc [of css "cs @ [d @ b]"]
    by (cases cs) auto
qed (use assms in auto)

lemma join_frags_flush:
  assumes "\<forall>cs \<in> set css. cs \<noteq> []" and "cs \<noteq> []"
  shows "join_frags ((css @ [cs]) @ [[[]]]) = join_frags (css @ [cs])"
proof -
  have "join_frags (css @ [cs]) \<noteq> []"
    using assms by (cases css) (simp_all add: join_frags_nonempty)
  then show ?thesis
    using assms join_frags_snoc [of "css @ [cs]" "[[]]"] by simp
qed

lemma join_frags_begin:
  assumes "\<forall>cs \<in> set css. cs \<noteq> []" and "cs \<noteq> []"
  shows "join_frags (css @ [cs @ [[]]]) = join_frags (css @ [cs]) @ [[]]"
proof (cases "css = []")
  case False
  then show ?thesis
    using assms join_frags_snoc [of css cs] join_frags_snoc [of css "cs @ [[]]"] by (cases cs) auto
qed simp

section \<open>The contract of a fragment sender\<close>

text \<open>
  What the writer relies on, while the sender is \<open>ok\<close>: a new fragment carries the message for its
  position (\<open>mid\<close>) in a frame for it (\<open>hdr\<close>) and has room for an empty chunk, another chunk header and a byte; a flushed fragment
  is handed on as \<open>out\<close> says, in order.
\<close>

locale fragment_sender =
  fixes ops :: "'s fragmentSender"
    and ok :: "'s \<Rightarrow> bool"
    and sent :: "'s \<Rightarrow> 'o list"
    and out :: "writableFragment \<Rightarrow> 'o"
    and fl0 :: "bool \<Rightarrow> byte"
    and mid :: "bool \<Rightarrow> ChecksumType \<Rightarrow> byte list"
    and hdr :: "bool \<Rightarrow> Frame \<Rightarrow> bool"
    and ended :: "'s \<Rightarrow> bool"
  assumes new_ok: "ok s \<Longrightarrow> initial = (sent s = []) \<Longrightarrow>
      \<exists>f s'. newFragment ops initial cks s = Ret ((Some f, None), s') \<and> ok s' \<and> sent s' = sent s \<and>
        frag_is (hdr initial) f (fl0 initial) (mid initial (TypeCode cks)) (replicate (Checksum_Size cks) 0) [] \<and> 4 < room f"
    and flush_ok: "ok s \<Longrightarrow> frag_is (hdr (sent s = [])) f fl (mid (sent s = []) t) ck cs \<Longrightarrow>
      \<exists>s'. flushFragment ops f s = Ret (None, s') \<and> ok s' \<and> sent s' = sent s @ [out f]"
    and done_ok: "ok s \<Longrightarrow> \<exists>s'. doneSending ops s = Ret s' \<and> sent s' = sent s \<and> ended s'"

text \<open>Fragments sent so far: each is marked as followed by others and carries the running checksum.\<close>

definition sealed ::
  "(bool \<Rightarrow> Frame \<Rightarrow> bool) \<Rightarrow> (bool \<Rightarrow> ChecksumType \<Rightarrow> byte list) \<Rightarrow> Checksum \<Rightarrow> writableFragment list \<Rightarrow> byte list list list \<Rightarrow> bool" where
  "sealed hdr mid c0 fs css \<longleftrightarrow> length fs = length css \<and> (\<forall>cs \<in> set css. cs \<noteq> []) \<and>
     (\<forall>i < length fs. frag_is (hdr (i = 0)) (fs ! i) hasMoreFragmentsFlag (mid (i = 0) (TypeCode c0))
        (Checksum_Sum (Checksum_Add (concat (concat (take (Suc i) css))) c0)) (css ! i))"

lemma sealed_Nil: "sealed hdr mid c0 [] []"
  by (simp add: sealed_def)

lemma sealed_snoc:
  assumes "sealed hdr mid c0 fs css" and "cs \<noteq> []"
    and "frag_is (hdr (fs = [])) f hasMoreFragmentsFlag (mid (fs = []) (TypeCode c0))
      (Checksum_Sum (Checksum_Add (concat (concat css) @ concat cs) c0)) cs"
  shows "sealed hdr mid c0 (fs @ [f]) (css @ [cs])"
proof -
  have l: "length fs = length css" using assms(1) by (simp add: sealed_def)
  have "frag_is (hdr (i = 0)) ((fs @ [f]) ! i) hasMoreFragmentsFlag (mid (i = 0) (TypeCode c0))
        (Checksum_Sum (Checksum_Add (concat (concat (take (Suc i) (css @ [cs])))) c0)) ((css @ [cs]) ! i)"
    if "i < length (fs @ [f])" for i
  proof (cases "i < length fs")
    case True
    then show ?thesis using assms(1) l by (simp add: sealed_def nth_append)
  next
    case False
    then have "i = length fs" using that by simp
    moreover have "fs = [] \<longleftrightarrow> css = []" using l by (metis length_0_conv)
    ultimately show ?thesis using assms(3) l by (simp add: nth_append)
  qed
  then show ?thesis using assms l by (simp add: sealed_def)
qed

context fragment_sender
begin

text \<open>The writer inside an argument, and between arguments.\<close>

definition in_arg where
  "in_arg c0 w args d \<longleftrightarrow> fw_err w = None \<and> isWritingArgument (fw_state w) \<and> ok (fw_sender w) \<and>
     (\<exists>fs css cs d' f ch. sent (fw_sender w) = map out fs \<and> sealed hdr mid c0 fs css \<and>
        fw_curFragment w = Some f \<and> fw_curChunk w = Some ch \<and>
        frag_open (hdr (fs = [])) f ch (fl0 (fs = [])) (mid (fs = []) (TypeCode c0)) (replicate (Checksum_Size c0) 0) cs d' \<and>
        fw_checksum w = Checksum_Add (concat (concat css) @ concat cs @ d') c0 \<and>
        join_frags (css @ [cs @ [d']]) = args @ [d])"

definition between where
  "between c0 w args \<longleftrightarrow> fw_err w = None \<and> fw_state w = fragmentingWriteWaitingForArgument \<and> ok (fw_sender w) \<and>
     (\<exists>fs css cs f. sent (fw_sender w) = map out fs \<and> sealed hdr mid c0 fs css \<and>
        fw_curFragment w = Some f \<and> cs \<noteq> [] \<and> 2 < room f \<and>
        frag_is (hdr (fs = [])) f (fl0 (fs = [])) (mid (fs = []) (TypeCode c0)) (replicate (Checksum_Size c0) 0) cs \<and>
        fw_checksum w = Checksum_Add (concat (concat css) @ concat cs) c0 \<and>
        join_frags (css @ [cs]) = args)"

text \<open>What has been sent when the last argument is closed.\<close>

definition finished where
  "finished c0 w args \<longleftrightarrow> fw_err w = None \<and> fw_state w = fragmentingWriteComplete \<and> ended (fw_sender w) \<and>
     (\<exists>fs css cs f. sent (fw_sender w) = map out (fs @ [f]) \<and> sealed hdr mid c0 fs css \<and> cs \<noteq> [] \<and>
        frag_is (hdr (fs = [])) f (fl0 (fs = [])) (mid (fs = []) (TypeCode c0))
          (Checksum_Sum (Checksum_Add (concat (concat css) @ concat cs) c0)) cs \<and>
        join_frags (css @ [cs]) = args)"

lemma begin_first:
  assumes "ok s" and "sent s = []"
  shows "\<exists>w. fw_BeginArgument ops isLast (newFragmentingWriter s c0) = Ret (None, w) \<and> in_arg c0 w [] [] \<and>
    fw_state w = (if isLast then fragmentingWriteInLastArgument else fragmentingWriteInArgument)"
proof -
  obtain f s' where f: "newFragment ops True c0 s = Ret ((Some f, None), s')" "ok s'" "sent s' = []"
      "frag_is (hdr True) f (fl0 True) (mid True (TypeCode c0)) (replicate (Checksum_Size c0) 0) []" "4 < room f"
    using new_ok [OF assms(1), of True c0] assms(2) by auto
  obtain ch c where ch: "newWritableChunk (wf_contents f) = (ch, c)"
      "frag_open (hdr True) (f\<lparr>wf_contents := c\<rparr>) ch (fl0 True) (mid True (TypeCode c0)) (replicate (Checksum_Size c0) 0) [] []"
    using newWritableChunk_opens [OF f(4)] f(5) by (metis add_lessD1 numeral_Bit0)
  let ?w = "\<lparr>fw_sender = s', fw_checksum = c0, fw_curFragment = Some (f\<lparr>wf_contents := c\<rparr>),
      fw_curChunk = Some ch,
      fw_state = (if isLast then fragmentingWriteInLastArgument else fragmentingWriteInArgument), fw_err = None\<rparr>"
  have "fw_BeginArgument ops isLast (newFragmentingWriter s c0) = Ret (None, ?w)"
    using f ch by (simp add: fw_BeginArgument_def newFragmentingWriter_def isWritingArgument_def)
  moreover have "in_arg c0 ?w [] []"
    using f(2,3) ch(2)
    by (simp add: in_arg_def isWritingArgument_def) (rule exI [of _ "[]"], auto simp: sealed_Nil intro: exI [of _ "[]"])
  ultimately show ?thesis by auto
qed

lemma begin_next:
  assumes "between c0 w args"
  shows "\<exists>w'. fw_BeginArgument ops isLast w = Ret (None, w') \<and> in_arg c0 w' args [] \<and>
    fw_state w' = (if isLast then fragmentingWriteInLastArgument else fragmentingWriteInArgument)"
proof -
  obtain fs css cs f where w: "sent (fw_sender w) = map out fs" "sealed hdr mid c0 fs css"
      "fw_curFragment w = Some f" "cs \<noteq> []" "2 < room f" "fw_err w = None"
      "fw_state w = fragmentingWriteWaitingForArgument" "ok (fw_sender w)"
      "frag_is (hdr (fs = [])) f (fl0 (fs = [])) (mid (fs = []) (TypeCode c0)) (replicate (Checksum_Size c0) 0) cs"
      "fw_checksum w = Checksum_Add (concat (concat css) @ concat cs) c0" "join_frags (css @ [cs]) = args"
    using assms unfolding between_def by blast
  obtain ch c where ch: "newWritableChunk (wf_contents f) = (ch, c)"
      "frag_open (hdr (fs = [])) (f\<lparr>wf_contents := c\<rparr>) ch (fl0 (fs = [])) (mid (fs = []) (TypeCode c0)) (replicate (Checksum_Size c0) 0) cs []"
    using newWritableChunk_opens [OF w(9,5)] by metis
  let ?w = "w\<lparr>fw_curFragment := Some (f\<lparr>wf_contents := c\<rparr>), fw_curChunk := Some ch,
      fw_state := (if isLast then fragmentingWriteInLastArgument else fragmentingWriteInArgument)\<rparr>"
  have "fw_BeginArgument ops isLast w = Ret (None, ?w)"
    using w ch by (simp add: fw_BeginArgument_def isWritingArgument_def)
  moreover have "join_frags (css @ [cs @ [[]]]) = args @ [[]]"
    using w by (simp add: join_frags_begin sealed_def)
  then have "in_arg c0 ?w args []"
    unfolding in_arg_def
    by (intro conjI exI [of _ fs] exI [of _ css] exI [of _ cs] exI [of _ "[]"] exI [of _ "f\<lparr>wf_contents := c\<rparr>"]
        exI [of _ ch]) (use w ch in \<open>simp_all add: isWritingArgument_def\<close>)
  ultimately show ?thesis by auto
qed

text \<open>Handing on a fragment with all its chunks closed and getting the next one.\<close>

lemma hand_on:
  assumes "ok s" and "sent s = map out fs" and "sealed hdr mid c0 fs css" and "cs \<noteq> []"
    and "frag_is (hdr (fs = [])) f (fl0 (fs = [])) (mid (fs = []) (TypeCode c0)) (replicate (Checksum_Size c0) 0) cs"
    and "cks = Checksum_Add (concat (concat css) @ concat cs) c0"
  obtains f2 f' s1 s' where "writableFragment_finish True cks f = f2"
    and "flushFragment ops f2 s = Ret (None, s1)" and "newFragment ops False cks s1 = Ret ((Some f', None), s')"
    and "ok s'" and "sent s' = map out (fs @ [f2])" and "sealed hdr mid c0 (fs @ [f2]) (css @ [cs])"
    and "frag_is (hdr False) f' (fl0 False) (mid False (TypeCode c0)) (replicate (Checksum_Size c0) 0) []" and "4 < room f'"
proof -
  let ?f2 = "writableFragment_finish True cks f"
  have f2: "frag_is (hdr (fs = [])) ?f2 hasMoreFragmentsFlag (mid (fs = []) (TypeCode c0)) (Checksum_Sum cks) cs"
    using fragment_finish_seals(1) [OF assms(5), of cks True] assms(6) by simp
  obtain s1 where s1: "flushFragment ops ?f2 s = Ret (None, s1)" "ok s1" "sent s1 = map out (fs @ [?f2])"
    using flush_ok [OF assms(1), of ?f2 hasMoreFragmentsFlag "TypeCode c0" "Checksum_Sum cks" cs] f2 assms(2)
    by auto
  obtain f' s' where n: "newFragment ops False cks s1 = Ret ((Some f', None), s')" "ok s'" "sent s' = sent s1"
      "frag_is (hdr False) f' (fl0 False) (mid False (TypeCode cks)) (replicate (Checksum_Size cks) 0) []" "4 < room f'"
    using new_ok [OF s1(2), of False cks] s1(3) by auto
  have "sealed hdr mid c0 (fs @ [?f2]) (css @ [cs])"
    using assms(3,4,6) f2 by (intro sealed_snoc) simp_all
  then show ?thesis
    using that [OF refl s1(1) n(1,2)] n(3-5) s1(3) assms(6) by simp
qed

lemma flush_keeps:
  assumes "in_arg c0 w args d"
  shows "\<exists>w' f. fw_Flush ops w = Ret (None, w') \<and> in_arg c0 w' args d \<and> fw_state w' = fw_state w \<and>
    fw_curFragment w' = Some f \<and> 0 < room f"
proof -
  obtain fs css cs d' f ch where w: "sent (fw_sender w) = map out fs" "sealed hdr mid c0 fs css"
      "fw_curFragment w = Some f" "fw_curChunk w = Some ch" "fw_err w = None" "ok (fw_sender w)"
      "isWritingArgument (fw_state w)"
      "frag_open (hdr (fs = [])) f ch (fl0 (fs = [])) (mid (fs = []) (TypeCode c0)) (replicate (Checksum_Size c0) 0) cs d'"
      "fw_checksum w = Checksum_Add (concat (concat css) @ concat cs @ d') c0"
      "join_frags (css @ [cs @ [d']]) = args @ [d]"
    using assms unfolding in_arg_def by blast
  have cks: "fw_checksum w = Checksum_Add (concat (concat css) @ concat (cs @ [d'])) c0"
    using w(9) by simp
  obtain f2 f' s1 s' where h: "writableFragment_finish True (fw_checksum w)
        (f\<lparr>wf_contents := writableChunk_finish ch (wf_contents f)\<rparr>) = f2"
      "flushFragment ops f2 (fw_sender w) = Ret (None, s1)"
      "newFragment ops False (fw_checksum w) s1 = Ret ((Some f', None), s')" "ok s'"
      "sent s' = map out (fs @ [f2])" "sealed hdr mid c0 (fs @ [f2]) (css @ [cs @ [d']])"
      "frag_is (hdr False) f' (fl0 False) (mid False (TypeCode c0)) (replicate (Checksum_Size c0) 0) []" "4 < room f'"
    by (rule hand_on [OF w(6,1,2) _ chunk_finish_closes(1) [OF w(8)] cks]) simp_all
  have "2 < room f'" using h(8) by simp
  then obtain ch' c where ch: "newWritableChunk (wf_contents f') = (ch', c)"
      "frag_open (hdr False) (f'\<lparr>wf_contents := c\<rparr>) ch' (fl0 False) (mid False (TypeCode c0)) (replicate (Checksum_Size c0) 0) [] []"
      "wb_BytesRemaining c = room f' - 2"
    using newWritableChunk_opens [OF h(7)] by metis
  let ?w = "w\<lparr>fw_sender := s', fw_curFragment := Some (f'\<lparr>wf_contents := c\<rparr>), fw_err := None,
      fw_curChunk := Some ch'\<rparr>"
  have "fw_Flush ops w = Ret (None, ?w)"
    using w h(1-3) ch by (simp add: fw_Flush_def)
  moreover have "join_frags ((css @ [cs @ [d']]) @ [[] @ [[]]]) = args @ [d]"
    using join_frags_flush [of css "cs @ [d']"] w(2,10) by (simp add: sealed_def)
  then have "in_arg c0 ?w args d"
    unfolding in_arg_def
    by (intro conjI exI [of _ "fs @ [f2]"] exI [of _ "css @ [cs @ [d']]"] exI [of _ "[]"] exI [of _ "[]"]
        exI [of _ "f'\<lparr>wf_contents := c\<rparr>"] exI [of _ ch']) (use w h(4-6) ch cks in simp_all)
  ultimately show ?thesis using ch(3) h(8) by auto
qed

text \<open>The writer after one round of the loop, before the full fragment is flushed.\<close>

lemma write_round:
  assumes "in_arg c0 w args d"
  obtains f ch w1 where "fw_curFragment w = Some f" and "fw_curChunk w = Some ch"
    and "in_arg c0 w1 args (d @ take (room f) b)" and "fw_state w1 = fw_state w"
    and "fw_write_loop ops b n w =
      (if length b \<le> room f then Some (Ret ((n + length b, None), w1))
       else case fw_Flush ops w1 of
              Panic \<Rightarrow> Some Panic
            | Ret (Some e, w2) \<Rightarrow> Some (Ret ((n + room f, Some e), w2\<lparr>fw_err := Some e\<rparr>))
            | Ret (None, w2) \<Rightarrow> fw_write_loop ops (drop (room f) b) (n + room f) (w2\<lparr>fw_err := None\<rparr>))"
proof -
  obtain fs css cs d' f ch where w: "sent (fw_sender w) = map out fs" "sealed hdr mid c0 fs css"
      "fw_curFragment w = Some f" "fw_curChunk w = Some ch" "fw_err w = None" "ok (fw_sender w)"
      "isWritingArgument (fw_state w)"
      "frag_open (hdr (fs = [])) f ch (fl0 (fs = [])) (mid (fs = []) (TypeCode c0)) (replicate (Checksum_Size c0) 0) cs d'"
      "fw_checksum w = Checksum_Add (concat (concat css) @ concat cs @ d') c0"
      "join_frags (css @ [cs @ [d']]) = args @ [d]"
    using assms unfolding in_arg_def by blast
  obtain ch' c where fits: "writeAsFits b ch (fw_checksum w) (wf_contents f) =
      (min (length b) (room f), ch', Checksum_Add (take (room f) b) (fw_checksum w), c)"
    "frag_open (hdr (fs = [])) (f\<lparr>wf_contents := c\<rparr>) ch' (fl0 (fs = [])) (mid (fs = []) (TypeCode c0))
       (replicate (Checksum_Size c0) 0) cs (d' @ take (room f) b)"
    using writeAsFits_open [OF w(8)] by metis
  let ?w1 = "w\<lparr>fw_curChunk := Some ch', fw_checksum := Checksum_Add (take (room f) b) (fw_checksum w),
      fw_curFragment := Some (f\<lparr>wf_contents := c\<rparr>)\<rparr>"
  have "join_frags (css @ [cs @ [d' @ take (room f) b]]) = args @ [d @ take (room f) b]"
    using w(2,10) by (intro join_frags_extend) (simp_all add: sealed_def)
  moreover have "Checksum_Add (take (room f) b) (fw_checksum w) =
      Checksum_Add (concat (concat css) @ concat cs @ d' @ take (room f) b) c0"
    by (simp add: w(9) flip: Add_append)
  ultimately have "in_arg c0 ?w1 args (d @ take (room f) b)"
    unfolding in_arg_def
    by (intro conjI exI [of _ fs] exI [of _ css] exI [of _ cs] exI [of _ "d' @ take (room f) b"]
        exI [of _ "f\<lparr>wf_contents := c\<rparr>"] exI [of _ ch']) (use w fits in simp_all)
  then show ?thesis
    by (rule that [OF w(3,4)], simp)
      (subst fw_write_loop.simps, use w fits in \<open>simp add: min_def Let_def\<close>)
qed

lemma write_loop_ok:
  assumes "in_arg c0 w args d" and "fw_curFragment w = Some f"
  shows "\<exists>w'. fw_write_loop ops b n w = Some (Ret ((n + length b, None), w')) \<and>
    in_arg c0 w' args (d @ b) \<and> fw_state w' = fw_state w"
  using assms
proof (induction "length b + (if room f = 0 then 1 else 0)" arbitrary: b n w d f rule: less_induct)
  case less
  obtain f' ch w1 where r: "fw_curFragment w = Some f'" "in_arg c0 w1 args (d @ take (room f') b)"
      "fw_state w1 = fw_state w" "fw_write_loop ops b n w =
      (if length b \<le> room f' then Some (Ret ((n + length b, None), w1))
       else case fw_Flush ops w1 of
              Panic \<Rightarrow> Some Panic
            | Ret (Some e, w2) \<Rightarrow> Some (Ret ((n + room f', Some e), w2\<lparr>fw_err := Some e\<rparr>))
            | Ret (None, w2) \<Rightarrow> fw_write_loop ops (drop (room f') b) (n + room f') (w2\<lparr>fw_err := None\<rparr>))"
    by (rule write_round [OF less.prems(1), of b n])
  have [simp]: "f' = f" using r(1) less.prems(2) by simp
  show ?case
  proof (cases "length b \<le> room f")
    case True
    then show ?thesis using r(2-4) by auto
  next
    case False
    obtain w2 f2 where w2: "fw_Flush ops w1 = Ret (None, w2)" "in_arg c0 w2 args (d @ take (room f) b)"
        "fw_state w2 = fw_state w" "fw_curFragment w2 = Some f2" "0 < room f2"
      using flush_keeps [OF r(2)] r(3) by auto
    have "w2\<lparr>fw_err := None\<rparr> = w2" using w2(2) by (simp add: in_arg_def)
    moreover have "\<exists>w'. fw_write_loop ops (drop (room f) b) (n + room f) w2 =
        Some (Ret ((n + room f + length (drop (room f) b), None), w')) \<and>
        in_arg c0 w' args ((d @ take (room f) b) @ drop (room f) b) \<and> fw_state w' = fw_state w2"
      using False w2 by (intro less.hyps) auto
    ultimately show ?thesis using False r(4) w2(1,3) by auto
  qed
qed

lemma write_ok:
  assumes "in_arg c0 w args d"
  shows "\<exists>w'. fw_Write ops b w = Some (Ret ((length b, None), w')) \<and> in_arg c0 w' args (d @ b) \<and>
    fw_state w' = fw_state w"
proof -
  obtain f where "fw_curFragment w = Some f" "fw_err w = None" "isWritingArgument (fw_state w)"
    using assms unfolding in_arg_def by blast
  then show ?thesis
    using write_loop_ok [OF assms, of f b 0] by (simp add: fw_Write_def)
qed

lemma close_ok:
  assumes "in_arg c0 w args d" and "fw_state w = fragmentingWriteInArgument"
  shows "\<exists>w'. fw_Close ops w = Ret (None, w') \<and> between c0 w' (args @ [d])"
proof -
  obtain fs css cs d' f ch where w: "sent (fw_sender w) = map out fs" "sealed hdr mid c0 fs css"
      "fw_curFragment w = Some f" "fw_curChunk w = Some ch" "fw_err w = None" "ok (fw_sender w)"
      "isWritingArgument (fw_state w)"
      "frag_open (hdr (fs = [])) f ch (fl0 (fs = [])) (mid (fs = []) (TypeCode c0)) (replicate (Checksum_Size c0) 0) cs d'"
      "fw_checksum w = Checksum_Add (concat (concat css) @ concat cs @ d') c0"
      "join_frags (css @ [cs @ [d']]) = args @ [d]"
    using assms unfolding in_arg_def by blast
  let ?f1 = "f\<lparr>wf_contents := writableChunk_finish ch (wf_contents f)\<rparr>"
  have f1: "frag_is (hdr (fs = [])) ?f1 (fl0 (fs = [])) (mid (fs = []) (TypeCode c0)) (replicate (Checksum_Size c0) 0) (cs @ [d'])"
    by (rule chunk_finish_closes(1) [OF w(8)])
  have cks: "fw_checksum w = Checksum_Add (concat (concat css) @ concat (cs @ [d'])) c0"
    using w(9) by simp
  show ?thesis
  proof (cases "2 < room ?f1")
    case True
    let ?w = "w\<lparr>fw_state := fragmentingWriteWaitingForArgument, fw_curFragment := Some ?f1\<rparr>"
    have "fw_Close ops w = Ret (None, ?w)"
      using w assms(2) True by (simp add: fw_Close_def Let_def)
    moreover have "between c0 ?w (args @ [d])"
      unfolding between_def
      by (intro conjI exI [of _ fs] exI [of _ css] exI [of _ "cs @ [d']"] exI [of _ ?f1])
        (use w f1 True cks in simp_all)
    ultimately show ?thesis by blast
  next
    case False
    obtain f2 f' s1 s' where h: "writableFragment_finish True (fw_checksum w) ?f1 = f2"
        "flushFragment ops f2 (fw_sender w) = Ret (None, s1)"
        "newFragment ops False (fw_checksum w) s1 = Ret ((Some f', None), s')" "ok s'"
        "sent s' = map out (fs @ [f2])" "sealed hdr mid c0 (fs @ [f2]) (css @ [cs @ [d']])"
        "frag_is (hdr False) f' (fl0 False) (mid False (TypeCode c0)) (replicate (Checksum_Size c0) 0) []" "4 < room f'"
      by (rule hand_on [OF w(6,1,2) _ f1 cks]) simp_all
    let ?f3 = "f'\<lparr>wf_contents := WriteUint16 0 (wf_contents f')\<rparr>"
    let ?w = "w\<lparr>fw_state := fragmentingWriteWaitingForArgument, fw_sender := s', fw_err := None,
        fw_curChunk := Some (detached ch), fw_curFragment := Some ?f3\<rparr>"
    have "fw_Close ops w = Ret (None, ?w)"
      using w assms(2) False h(1-3) by (simp add: fw_Close_def Let_def)
    moreover have empty: "WriteUint16 0 (wf_contents f') = wb_append (PutUint16 0) (wf_contents f')"
      using h(7,8) by (intro uint16_codec.write_enc) (simp_all add: frag_is_def frag_body_def)
    have "frag_is (hdr False) ?f3 (fl0 False) (mid False (TypeCode c0)) (replicate (Checksum_Size c0) 0) [[]]" "2 < room ?f3"
      using h(7,8) unfolding empty by (simp_all add: frag_is_def frag_body_def enc_chunk_def)
    moreover have "join_frags ((css @ [cs @ [d']]) @ [[[]]]) = args @ [d]"
      using join_frags_flush [of css "cs @ [d']"] w(2,10) by (simp add: sealed_def)
    ultimately have "between c0 ?w (args @ [d])"
      unfolding between_def
      by (intro conjI exI [of _ "fs @ [f2]"] exI [of _ "css @ [cs @ [d']]"] exI [of _ "[[]]"] exI [of _ ?f3])
        (use w h(4-6) cks in simp_all)
    with \<open>fw_Close ops w = Ret (None, ?w)\<close> show ?thesis by blast
  qed
qed

lemma close_last_ok:
  assumes "in_arg c0 w args d" and "fw_state w = fragmentingWriteInLastArgument"
  shows "\<exists>w'. fw_Close ops w = Ret (None, w') \<and> finished c0 w' (args @ [d])"
proof -
  obtain fs css cs d' f ch where w: "sent (fw_sender w) = map out fs" "sealed hdr mid c0 fs css"
      "fw_curFragment w = Some f" "fw_curChunk w = Some ch" "fw_err w = None" "ok (fw_sender w)"
      "isWritingArgument (fw_state w)"
      "frag_open (hdr (fs = [])) f ch (fl0 (fs = [])) (mid (fs = []) (TypeCode c0)) (replicate (Checksum_Size c0) 0) cs d'"
      "fw_checksum w = Checksum_Add (concat (concat css) @ concat cs @ d') c0"
      "join_frags (css @ [cs @ [d']]) = args @ [d]"
    using assms unfolding in_arg_def by blast
  let ?f1 = "f\<lparr>wf_contents := writableChunk_finish ch (wf_contents f)\<rparr>"
  let ?f2 = "writableFragment_finish False (fw_checksum w) ?f1"
  have f1: "frag_is (hdr (fs = [])) ?f1 (fl0 (fs = [])) (mid (fs = []) (TypeCode c0)) (replicate (Checksum_Size c0) 0) (cs @ [d'])"
    by (rule chunk_finish_closes(1) [OF w(8)])
  have f2: "frag_is (hdr (fs = [])) ?f2 (fl0 (fs = [])) (mid (fs = []) (TypeCode c0)) (Checksum_Sum (fw_checksum w)) (cs @ [d'])"
    using fragment_finish_seals(1) [OF f1, of "fw_checksum w" False] w(9) by simp
  obtain s1 where s1: "flushFragment ops ?f2 (fw_sender w) = Ret (None, s1)" "sent s1 = map out (fs @ [?f2])" "ok s1"
    using flush_ok [OF w(6), of ?f2 "fl0 (fs = [])" "TypeCode c0" "Checksum_Sum (fw_checksum w)" "cs @ [d']"]
      f2 w(1) by auto
  obtain s2 where s2: "doneSending ops s1 = Ret s2" "sent s2 = sent s1" "ended s2"
    using done_ok [OF s1(3)] by blast
  let ?w = "w\<lparr>fw_state := fragmentingWriteComplete, fw_curFragment := Some ?f2, fw_err := None, fw_sender := s2\<rparr>"
  have "fw_Close ops w = Ret (None, ?w)"
    using w assms(2) s1 s2 by (simp add: fw_Close_def Let_def)
  moreover have "finished c0 ?w (args @ [d])"
    unfolding finished_def
    by (intro conjI exI [of _ fs] exI [of _ css] exI [of _ "cs @ [d']"] exI [of _ ?f2])
      (use w f2 s1(2) s2(2,3) in simp_all)
  ultimately show ?thesis by blast
qed

lemma pieces_ok:
  assumes "in_arg c0 w args d"
  shows "\<exists>w'. write_pieces ops xs w = Some (Ret (None, w')) \<and> in_arg c0 w' args (d @ arg_bytes xs) \<and>
    fw_state w' = fw_state w"
  using assms
proof (induction xs arbitrary: w d)
  case (Cons x xs)
  show ?case
  proof (cases x)
    case (OpWrite b)
    obtain w1 where w1: "fw_Write ops b w = Some (Ret ((length b, None), w1))" "in_arg c0 w1 args (d @ b)"
        "fw_state w1 = fw_state w"
      using write_ok [OF Cons.prems] by blast
    show ?thesis using Cons.IH [OF w1(2)] w1 OpWrite by auto
  next
    case OpFlush
    obtain w1 where w1: "fw_Flush ops w = Ret (None, w1)" "in_arg c0 w1 args d" "fw_state w1 = fw_state w"
      using flush_keeps [OF Cons.prems] by blast
    show ?thesis using Cons.IH [OF w1(2)] w1 OpFlush by auto
  qed
qed simp

lemma write_arg_rest:
  assumes "between c0 w args"
  shows "\<exists>w'. write_arg ops isLast xs w = Some (Ret (None, w')) \<and>
    (if isLast then finished c0 w' (args @ [arg_bytes xs]) else between c0 w' (args @ [arg_bytes xs]))"
proof -
  obtain w1 where w1: "fw_BeginArgument ops isLast w = Ret (None, w1)" "in_arg c0 w1 args []"
      "fw_state w1 = (if isLast then fragmentingWriteInLastArgument else fragmentingWriteInArgument)"
    using begin_next [OF assms] by blast
  obtain w2 where w2: "write_pieces ops xs w1 = Some (Ret (None, w2))" "in_arg c0 w2 args (arg_bytes xs)"
      "fw_state w2 = fw_state w1"
    using pieces_ok [OF w1(2)] by auto
  show ?thesis
    using close_ok [OF w2(2)] close_last_ok [OF w2(2)] w1 w2
    by (cases isLast) (auto simp: write_arg_def)
qed

lemma write_arg_first:
  assumes "ok s" and "sent s = []"
  shows "\<exists>w'. write_arg ops isLast xs (newFragmentingWriter s c0) = Some (Ret (None, w')) \<and>
    (if isLast then finished c0 w' [arg_bytes xs] else between c0 w' [arg_bytes xs])"
proof -
  obtain w1 where w1: "fw_BeginArgument ops isLast (newFragmentingWriter s c0) = Ret (None, w1)" "in_arg c0 w1 [] []"
      "fw_state w1 = (if isLast then fragmentingWriteInLastArgument else fragmentingWriteInArgument)"
    using begin_first [OF assms] by blast
  obtain w2 where w2: "write_pieces ops xs w1 = Some (Ret (None, w2))" "in_arg c0 w2 [] (arg_bytes xs)"
      "fw_state w2 = fw_state w1"
    using pieces_ok [OF w1(2)] by auto
  show ?thesis
    using close_ok [OF w2(2)] close_last_ok [OF w2(2)] w1 w2
    by (cases isLast) (auto simp: write_arg_def)
qed

lemma write_args_rest:
  assumes "between c0 w args" and "xss \<noteq> []"
  shows "\<exists>w'. write_args ops xss w = Some (Ret (None, w')) \<and> finished c0 w' (args @ map arg_bytes xss)"
  using assms
proof (induction xss arbitrary: w args)
  case (Cons xs xss)
  then show ?case
    using write_arg_rest [OF Cons.prems(1), of "xss = []" xs] by (cases "xss = []") fastforce+
qed simp

text \<open>All arguments together: no call fails or panics, and the fragments carry exactly the arguments.\<close>

lemma write_args_ok:
  assumes "ok s" and "sent s = []" and "xss \<noteq> []"
  shows "\<exists>w'. write_args ops xss (newFragmentingWriter s c0) = Some (Ret (None, w')) \<and>
    finished c0 w' (map arg_bytes xss)"
proof (cases xss)
  case (Cons xs yss)
  obtain w1 where w1: "write_arg ops (yss = []) xs (newFragmentingWriter s c0) = Some (Ret (None, w1))"
      "if yss = [] then finished c0 w1 [arg_bytes xs] else between c0 w1 [arg_bytes xs]"
    using write_arg_first [OF assms(1,2)] by blast
  show ?thesis
    using w1 Cons write_args_rest [of c0 w1 "[arg_bytes xs]" yss] by (cases "yss = []") auto
qed (use assms in simp)

end

end
