(* ===== verification/Fragmenting_Reader.thy ===== *)
theory Fragmenting_Reader
  imports Fragmenting_Writer
begin

text \<open>
  The fragmenting reader of \<^verbatim>\<open>fragmenting_reader.go\<close>: it takes fragments from a \<^verbatim>\<open>fragmentReceiver\<close>, checks
  their checksum, splits them into chunks and gives the caller the arguments one by one.
  A fragment is shared between the reader and its receiver; \<^verbatim>\<open>readableFragment.done\<close>, which tells the
  receiver once that the frame behind it is free, is an operation of the receiver's state.
\<close>

definition errMismatchedChecksumTypes :: gerror where
  "errMismatchedChecksumTypes = ErrorString ''peer returned different checksum types between fragments''"
definition errMismatchedChecksums :: gerror where
  "errMismatchedChecksums = ErrorString ''different checksums between peer and local''"
definition errChunkExceedsFragmentSize :: gerror where
  "errChunkExceedsFragmentSize = ErrorString ''peer chunk size exceeds remaining data in fragment''"
definition errEmptyFragment :: gerror where
  "errEmptyFragment = ErrorString ''peer fragment contained no chunks''"
definition errAlreadyReadingArgument :: gerror where
  "errAlreadyReadingArgument = ErrorString ''already reading argument''"
definition errNotReadingArgument :: gerror where
  "errNotReadingArgument = ErrorString ''not reading argument''"
definition errMoreDataInArgument :: gerror where
  "errMoreDataInArgument = ErrorString ''closed argument reader when there is more data available to read''"
definition errExpectedMoreArguments :: gerror where
  "errExpectedMoreArguments = ErrorString ''closed argument reader when there may be more data available to read''"
definition errNoMoreFragments :: gerror where
  "errNoMoreFragments = ErrorString ''no more fragments''"

section \<open>State\<close>

text \<open>\<open>rf_id\<close> is the identity of the fragment object.\<close>

record readableFragment =
  rf_id :: nat
  rf_flags :: byte
  rf_checksumType :: ChecksumType
  rf_checksum :: "byte list"
  rf_contents :: ReadBuffer

record 's fragmentReceiver =
  recvNextFragment :: "bool \<Rightarrow> 's \<Rightarrow> ((readableFragment option \<times> gerror option) \<times> 's) go"
  fragmentDone :: "readableFragment \<Rightarrow> 's \<Rightarrow> 's"
  doneReading :: "gerror option \<Rightarrow> 's \<Rightarrow> 's go"

datatype fragmentingReadState =
    fragmentingReadStart
  | fragmentingReadInArgument
  | fragmentingReadInLastArgument
  | fragmentingReadWaitingForArgument
  | fragmentingReadComplete

definition isReadingArgument :: "fragmentingReadState \<Rightarrow> bool" where
  "isReadingArgument s \<longleftrightarrow> s = fragmentingReadInArgument \<or> s = fragmentingReadInLastArgument"

record 's fragmentingReader =
  fr_state :: fragmentingReadState
  fr_remainingChunks :: "byte list list"
  fr_curChunk :: "byte list"
  fr_hasMoreFragments :: bool
  fr_receiver :: 's
  fr_curFragment :: "readableFragment option"
  fr_checksum :: "Checksum option"
  fr_err :: "gerror option"

definition newFragmentingReader :: "'s \<Rightarrow> 's fragmentingReader" where
  "newFragmentingReader receiver =
     \<lparr>fr_state = fragmentingReadStart, fr_remainingChunks = [], fr_curChunk = [], fr_hasMoreFragments = True,
      fr_receiver = receiver, fr_curFragment = None, fr_checksum = None, fr_err = None\<rparr>"

section \<open>Operations\<close>

definition fr_doneReading :: "'s fragmentReceiver \<Rightarrow> gerror option \<Rightarrow> 's fragmentingReader \<Rightarrow> 's fragmentingReader go" where
  "fr_doneReading ops err r = go_bind (doneReading ops err (fr_receiver r)) (\<lambda>s. Ret (r\<lparr>fr_receiver := s\<rparr>))"

text \<open>The loop that splits a fragment into chunks. It stops at the end of the buffer or at its first error.\<close>

function split_chunks ::
  "ReadBuffer \<Rightarrow> byte list list \<Rightarrow> Checksum \<Rightarrow> gerror option \<times> byte list list \<times> Checksum \<times> ReadBuffer" where
  "split_chunks r chunks checksum =
     (if rb_BytesRemaining r > 0 \<and> rb_err r = None then
        (case ReadUint16 r of (chunkSize, r1) \<Rightarrow>
           if chunkSize > of_nat (rb_BytesRemaining r1) then
             (Some errChunkExceedsFragmentSize, chunks, checksum, r1)
           else
             (case ReadBytes (unat chunkSize) r1 of (b, r2) \<Rightarrow>
                let chunkData = (case b of Some d \<Rightarrow> d | None \<Rightarrow> [])
                in split_chunks r2 (chunks @ [chunkData]) (Checksum_Add chunkData checksum)))
      else (None, chunks, checksum, r))"
  by pat_completeness auto
termination
proof (relation "measure (\<lambda>(r, _, _). if rb_err r = None then Suc (length (rb_remaining r)) else 0)", goal_cases)
  case (2 r chunks checksum chunkSize r1 b r2)
  then show ?case
    by (auto simp: ReadUint16_def ReadBytes_def rb_BytesRemaining_def Remaining_def
        split: if_splits option.splits prod.splits)
qed simp

declare split_chunks.simps [simp del]

definition recvAndParseNextFragment ::
  "'s fragmentReceiver \<Rightarrow> bool \<Rightarrow> 's fragmentingReader \<Rightarrow> (gerror option \<times> 's fragmentingReader) go" where
  "recvAndParseNextFragment ops initial r =
     (case fr_err r of
        Some e \<Rightarrow> Ret (Some e, r)
      | None \<Rightarrow>
          (let r1 = (case fr_curFragment r of
                       Some f \<Rightarrow> r\<lparr>fr_receiver := fragmentDone ops f (fr_receiver r)\<rparr>
                     | None \<Rightarrow> r)
           in case recvNextFragment ops initial (fr_receiver r1) of
                Panic \<Rightarrow> Panic
              | Ret ((f, e), s) \<Rightarrow>
                  (let r2 = r1\<lparr>fr_receiver := s, fr_curFragment := f, fr_err := e\<rparr>
                   in case e of
                        Some (ErrorMessage i code tracing msg) \<Rightarrow>
                          (let err = AsSystemError code msg
                           in go_bind (fr_doneReading ops (Some err) (r2\<lparr>fr_err := Some err\<rparr>))
                                (\<lambda>r3. Ret (Some err, r3)))
                      | Some err \<Rightarrow> Ret (Some err, r2)
                      | None \<Rightarrow>
                          (case f of
                             None \<Rightarrow> Panic
                           | Some frag \<Rightarrow>
                               (let checksum = (case fr_checksum r2 of
                                                  None \<Rightarrow> ChecksumType_New (rf_checksumType frag)
                                                | Some c \<Rightarrow> c)
                                in if fr_checksum r2 \<noteq> None \<and> TypeCode checksum \<noteq> rf_checksumType frag then
                                     Ret (Some errMismatchedChecksumTypes, r2)
                                   else
                                     (case split_chunks (rf_contents frag) [] checksum of
                                        (serr, chunks, checksum', contents) \<Rightarrow>
                                          (let r3 = r2\<lparr>fr_hasMoreFragments :=
                                                         (rf_flags frag AND hasMoreFragmentsFlag = hasMoreFragmentsFlag),
                                                       fr_remainingChunks := chunks,
                                                       fr_checksum := Some checksum',
                                                       fr_curFragment := Some (frag\<lparr>rf_contents := contents\<rparr>)\<rparr>
                                           in case serr of
                                                Some err \<Rightarrow> Ret (Some err, r3)
                                              | None \<Rightarrow>
                                                  (case rb_err contents of
                                                     Some err \<Rightarrow> Ret (Some err, r3)
                                                   | None \<Rightarrow>
                                                       if rf_checksum frag \<noteq> Checksum_Sum checksum' then
                                                         Ret (Some errMismatchedChecksums,
                                                              r3\<lparr>fr_err := Some errMismatchedChecksums\<rparr>)
                                                       else
                                                         (case chunks of
                                                            [] \<Rightarrow> Ret (Some errEmptyFragment,
                                                                    r3\<lparr>fr_err := Some errEmptyFragment\<rparr>)
                                                          | c # cs \<Rightarrow>
                                                              Ret (None, r3\<lparr>fr_curChunk := c,
                                                                             fr_remainingChunks := cs\<rparr>))))))))))"

definition fr_BeginArgument ::
  "'s fragmentReceiver \<Rightarrow> bool \<Rightarrow> 's fragmentingReader \<Rightarrow> (gerror option \<times> 's fragmentingReader) go" where
  "fr_BeginArgument ops isLast r =
     (case fr_err r of
        Some e \<Rightarrow> Ret (Some e, r)
      | None \<Rightarrow>
          if isReadingArgument (fr_state r) then
            Ret (Some errAlreadyReadingArgument, r\<lparr>fr_err := Some errAlreadyReadingArgument\<rparr>)
          else if fr_state r = fragmentingReadComplete then
            Ret (Some errComplete, r\<lparr>fr_err := Some errComplete\<rparr>)
          else
            go_bind (if fr_state r = fragmentingReadStart then recvAndParseNextFragment ops True r
                     else Ret (None, r))
              (\<lambda>(e, r1).
                case e of
                  Some err \<Rightarrow> Ret (Some err, r1\<lparr>fr_err := Some err\<rparr>)
                | None \<Rightarrow>
                    Ret (None, r1\<lparr>fr_err := None,
                      fr_state := (if isLast then fragmentingReadInLastArgument else fragmentingReadInArgument)\<rparr>)))"

text \<open>The loop of \<^verbatim>\<open>Read\<close> into a buffer of which \<open>n\<close> bytes are free; \<open>acc\<close> is what was copied before.
  A peer that keeps sending fragments with one empty chunk keeps it going.\<close>

partial_function (option) fr_read_loop ::
  "'s fragmentReceiver \<Rightarrow> nat \<Rightarrow> byte list \<Rightarrow> 's fragmentingReader \<Rightarrow>
   ((byte list \<times> gerror option) \<times> 's fragmentingReader) go option" where
  "fr_read_loop ops n acc r =
     (let k = min n (length (fr_curChunk r));
          acc' = acc @ take k (fr_curChunk r);
          r1 = r\<lparr>fr_curChunk := drop k (fr_curChunk r)\<rparr>
      in if n - k = 0 then Some (Ret ((acc', None), r1))
         else if fr_remainingChunks r1 \<noteq> [] then Some (Ret ((acc', Some ioEOF), r1))
         else if \<not> fr_hasMoreFragments r1 then Some (Ret ((acc', Some ioEOF), r1))
         else
           (case recvAndParseNextFragment ops False r1 of
              Panic \<Rightarrow> Some Panic
            | Ret (Some e, r2) \<Rightarrow> Some (Ret ((acc', Some e), r2\<lparr>fr_err := Some e\<rparr>))
            | Ret (None, r2) \<Rightarrow> fr_read_loop ops (n - k) acc' (r2\<lparr>fr_err := None\<rparr>)))"

definition fr_Read ::
  "'s fragmentReceiver \<Rightarrow> nat \<Rightarrow> 's fragmentingReader \<Rightarrow>
   ((byte list \<times> gerror option) \<times> 's fragmentingReader) go option" where
  "fr_Read ops n r =
     (case fr_err r of
        Some e \<Rightarrow> Some (Ret (([], Some e), r))
      | None \<Rightarrow>
          if \<not> isReadingArgument (fr_state r) then
            Some (Ret (([], Some errNotReadingArgument), r\<lparr>fr_err := Some errNotReadingArgument\<rparr>))
          else fr_read_loop ops n [] r)"

definition fr_Close ::
  "'s fragmentReceiver \<Rightarrow> 's fragmentingReader \<Rightarrow> (gerror option \<times> 's fragmentingReader) go" where
  "fr_Close ops r =
     (let isLast = (fr_state r = fragmentingReadInLastArgument)
      in case fr_err r of
           Some e \<Rightarrow> Ret (Some e, r)
         | None \<Rightarrow>
             if \<not> isReadingArgument (fr_state r) then
               Ret (Some errNotReadingArgument, r\<lparr>fr_err := Some errNotReadingArgument\<rparr>)
             else if fr_curChunk r \<noteq> [] then
               Ret (Some errMoreDataInArgument, r\<lparr>fr_err := Some errMoreDataInArgument\<rparr>)
             else if isLast then
               (if fr_remainingChunks r \<noteq> [] \<or> fr_hasMoreFragments r then
                  Ret (Some errExpectedMoreArguments, r\<lparr>fr_err := Some errExpectedMoreArguments\<rparr>)
                else
                  go_bind (fr_doneReading ops None r) (\<lambda>r1.
                    case fr_curFragment r1 of
                      None \<Rightarrow> Panic
                    | Some f \<Rightarrow>
                        Ret (None, r1\<lparr>fr_receiver := fragmentDone ops f (fr_receiver r1), fr_curChunk := [],
                                      fr_state := fragmentingReadComplete\<rparr>)))
             else
               (let r1 = r\<lparr>fr_state := fragmentingReadWaitingForArgument\<rparr>
                in case fr_remainingChunks r1 of
                     c # cs \<Rightarrow> Ret (None, r1\<lparr>fr_curChunk := c, fr_remainingChunks := cs\<rparr>)
                   | [] \<Rightarrow>
                       if \<not> fr_hasMoreFragments r1 then
                         Ret (Some errNoMoreFragments, r1\<lparr>fr_err := Some errNoMoreFragments\<rparr>)
                       else
                         (case recvAndParseNextFragment ops False r1 of
                            Panic \<Rightarrow> Panic
                          | Ret (Some e, r2) \<Rightarrow> Ret (Some e, r2\<lparr>fr_err := Some e\<rparr>)
                          | Ret (None, r2) \<Rightarrow> Ret (None, r2\<lparr>fr_err := None\<rparr>))))"

section \<open>Reading a whole argument\<close>

text \<open>\<^verbatim>\<open>ioutil.ReadAll\<close>: reads into buffers of the sizes \<open>sz\<close>, until the end of the argument.\<close>

partial_function (option) io_ReadAll ::
  "'s fragmentReceiver \<Rightarrow> (nat \<Rightarrow> nat) \<Rightarrow> nat \<Rightarrow> byte list \<Rightarrow> 's fragmentingReader \<Rightarrow>
   ((byte list \<times> gerror option) \<times> 's fragmentingReader) go option" where
  "io_ReadAll ops sz i acc r =
     (case fr_Read ops (sz i) r of
        None \<Rightarrow> None
      | Some Panic \<Rightarrow> Some Panic
      | Some (Ret ((b, None), r')) \<Rightarrow> io_ReadAll ops sz (Suc i) (acc @ b) r'
      | Some (Ret ((b, Some e), r')) \<Rightarrow>
          Some (Ret ((acc @ b, if e = ioEOF then None else Some e), r')))"

fun hex_digit :: "nat \<Rightarrow> char" where
  "hex_digit n = (''0123456789abcdef'' ! n)"

definition show_hex :: "byte list \<Rightarrow> string" where
  "show_hex bs = concat (map (\<lambda>b. [hex_digit (unat b div 16), hex_digit (unat b mod 16)]) bs)"

definition EnsureEmpty ::
  "'s fragmentReceiver \<Rightarrow> string \<Rightarrow> 's fragmentingReader \<Rightarrow> (gerror option \<times> 's fragmentingReader) go option" where
  "EnsureEmpty ops stage r =
     (case fr_Read ops 128 r of
        None \<Rightarrow> None
      | Some Panic \<Rightarrow> Some Panic
      | Some (Ret ((b, e), r')) \<Rightarrow>
          Some (Ret (if b \<noteq> [] then
              Some (ErrorString (''found unexpected bytes after '' @ stage @
                '', found (upto 128 bytes): '' @ show_hex b))
            else if e = Some ioEOF then None else e, r')))"

text \<open>
  \<^verbatim>\<open>ArgReadHelper.Read\<close> on the reader an \<^verbatim>\<open>ArgXReader\<close> call returned (\<open>None\<close> as the error), and
  \<^verbatim>\<open>ArgReader\<close> with it.
\<close>

definition ArgReadHelper_Read ::
  "'s fragmentReceiver \<Rightarrow> (nat \<Rightarrow> nat) \<Rightarrow> gerror option \<Rightarrow> 's fragmentingReader \<Rightarrow>
   ((byte list \<times> gerror option) \<times> 's fragmentingReader) go option" where
  "ArgReadHelper_Read ops sz err r =
     (case err of
        Some e \<Rightarrow> Some (Ret (([], Some e), r))
      | None \<Rightarrow>
          (case io_ReadAll ops sz 0 [] r of
             None \<Rightarrow> None
           | Some Panic \<Rightarrow> Some Panic
           | Some (Ret ((bs, Some e), r1)) \<Rightarrow> Some (Ret ((bs, Some e), r1))
           | Some (Ret ((bs, None), r1)) \<Rightarrow>
               (case EnsureEmpty ops ''read arg'' r1 of
                  None \<Rightarrow> None
                | Some Panic \<Rightarrow> Some Panic
                | Some (Ret (Some e, r2)) \<Rightarrow> Some (Ret ((bs, Some e), r2))
                | Some (Ret (None, r2)) \<Rightarrow>
                    (case fr_Close ops r2 of
                       Panic \<Rightarrow> Some Panic
                     | Ret (e, r3) \<Rightarrow> Some (Ret ((bs, e), r3))))))"

text \<open>A caller that reads all the arguments, the last one as the last.\<close>

fun read_args ::
  "'s fragmentReceiver \<Rightarrow> (nat \<Rightarrow> nat) \<Rightarrow> nat \<Rightarrow> byte list list \<Rightarrow> 's fragmentingReader \<Rightarrow>
   ((byte list list \<times> gerror option) \<times> 's fragmentingReader) go option" where
  "read_args ops sz 0 acc r = Some (Ret ((acc, None), r))"
| "read_args ops sz (Suc n) acc r =
     (case fr_BeginArgument ops (n = 0) r of
        Panic \<Rightarrow> Some Panic
      | Ret (err, r1) \<Rightarrow>
          (case ArgReadHelper_Read ops sz err r1 of
             None \<Rightarrow> None
           | Some Panic \<Rightarrow> Some Panic
           | Some (Ret ((bs, Some e), r2)) \<Rightarrow> Some (Ret ((acc, Some e), r2))
           | Some (Ret ((bs, None), r2)) \<Rightarrow> read_args ops sz n (acc @ [bs]) r2))"

section \<open>What a received fragment holds\<close>

definition rfrag :: "readableFragment \<Rightarrow> ChecksumType \<Rightarrow> bool \<Rightarrow> byte list \<Rightarrow> byte list list \<Rightarrow> bool" where
  "rfrag f t mr ck cs \<longleftrightarrow> rf_checksumType f = t \<and> rf_checksum f = ck \<and>
     (rf_flags f AND hasMoreFragmentsFlag = hasMoreFragmentsFlag) = mr \<and>
     rb_err (rf_contents f) = None \<and> rb_remaining (rf_contents f) = enc_chunks cs \<and>
     length (enc_chunks cs) < 65536"

lemma split_chunks_enc:
  assumes "rb_err r = None" and "rb_remaining r = enc_chunks cs" and "length (enc_chunks cs) < 65536"
  shows "split_chunks r chunks cks = (None, chunks @ cs, Checksum_Add (concat cs) cks, r\<lparr>rb_remaining := []\<rparr>)"
  using assms
proof (induction cs arbitrary: r chunks cks)
  case Nil
  then show ?case
    by (subst split_chunks.simps) (simp add: rb_BytesRemaining_def Remaining_def)
next
  case (Cons c cs)
  let ?n = "of_nat (length c) :: uint16"
  let ?r1 = "r\<lparr>rb_remaining := c @ enc_chunks cs\<rparr>" and ?r2 = "r\<lparr>rb_remaining := enc_chunks cs\<rparr>"
  have l: "length c + length (enc_chunks cs) < 65534"
    using Cons.prems(3) by (simp add: enc_chunk_def)
  have 1: "ReadUint16 r = (?n, ?r1)"
    using Cons.prems by (intro uint16_codec.read_enc) (simp_all add: enc_chunk_def)
  have n: "unat ?n = length c" using l by (simp add: unat_of_nat_fits)
  have m: "unat (of_nat (length c + length (enc_chunks cs)) :: uint16) = length c + length (enc_chunks cs)"
    using l by (subst unat_of_nat_fits) simp
  have 2: "\<not> of_nat (rb_BytesRemaining ?r1) < ?n"
    using m n by (simp add: rb_BytesRemaining_def Remaining_def word_less_nat_alt)
  have 3: "ReadBytes (unat ?n) ?r1 = (Some c, ?r2)"
    using ReadBytes_append [of ?r1 c "enc_chunks cs"] Cons.prems(1) by (simp add: n)
  have 4: "rb_BytesRemaining r > 0"
    using Cons.prems(2) by (simp add: rb_BytesRemaining_def Remaining_def enc_chunk_def)
  have "split_chunks r chunks cks = split_chunks ?r2 (chunks @ [c]) (Checksum_Add c cks)"
    using Cons.prems(1) 2 4 by (subst split_chunks.simps) (simp add: 1 3)
  also have "\<dots> = (None, chunks @ c # cs, Checksum_Add (concat (c # cs)) cks, r\<lparr>rb_remaining := []\<rparr>)"
    using Cons.IH [of ?r2] Cons.prems(1) l by (simp add: Add_append)
  finally show ?case .
qed

text \<open>A list of fragments that carry the chunk lists \<open>css\<close>, continuing the checksum \<open>c\<close>.\<close>

fun delivers :: "Checksum \<Rightarrow> readableFragment list \<Rightarrow> byte list list list \<Rightarrow> bool" where
  "delivers c [] [] = True"
| "delivers c (f # fs) (cs # css) =
     (cs \<noteq> [] \<and> rfrag f (TypeCode c) (fs \<noteq> []) (Checksum_Sum (Checksum_Add (concat cs) c)) cs \<and>
      delivers (Checksum_Add (concat cs) c) fs css)"
| "delivers c _ _ = False"

lemma delivers_Nil [simp]: "delivers c [] css \<longleftrightarrow> css = []" "delivers c fs [] \<longleftrightarrow> fs = []"
  by (cases css; simp) (cases fs; simp)

text \<open>How the first argument of a sequence of fragments continues.\<close>

lemma join_frags_hd:
  "join_frags ((c # d # ds) # css) = c # join_frags ((d # ds) # css)"
  "join_frags ([[]] # (d # ds) # css) = join_frags ((d # ds) # css)"
  "join_frags ([c] # (d # ds) # css) =
     (c @ hd (join_frags ((d # ds) # css))) # tl (join_frags ((d # ds) # css))"
  using join_frags_nonempty [of "d # ds" css]
  by (cases css; auto split: list.splits dest: join_frags_nonempty)+

lemma join_frags_drop:
  assumes "join_frags ((c # cs) # css) = p # ps" and "k \<le> length c"
  shows "join_frags ((drop k c # cs) # css) = drop k p # ps" and "take k p = take k c"
proof -
  obtain q where q: "p = c @ q" "join_frags ((drop k c # cs) # css) = (drop k c @ q) # ps"
    using assms by (cases css; cases cs) (auto split: list.splits)
  then show "join_frags ((drop k c # cs) # css) = drop k p # ps" "take k p = take k c"
    using assms(2) by simp_all
qed

section \<open>The contract of a fragment receiver\<close>

text \<open>
  \<open>pending\<close> are the fragments still to come; \<open>first\<close> holds until the first one has been taken.
\<close>

locale fragment_receiver =
  fixes ops :: "'s fragmentReceiver"
    and pending :: "'s \<Rightarrow> readableFragment list"
    and first :: "'s \<Rightarrow> bool"
    and ok :: "'s \<Rightarrow> bool"
    and ended :: "'s \<Rightarrow> bool"
  assumes recv_next: "ok s \<Longrightarrow> pending s = f # fs \<Longrightarrow> initial = first s \<Longrightarrow>
      \<exists>s'. recvNextFragment ops initial s = Ret ((Some f, None), s') \<and> ok s' \<and> pending s' = fs \<and> \<not> first s'"
    and done_keeps: "pending (fragmentDone ops f s) = pending s" "first (fragmentDone ops f s) = first s"
      "ok s \<Longrightarrow> ok (fragmentDone ops f s)" "ended s \<Longrightarrow> ended (fragmentDone ops f s)"
    and doneReading_ok: "ok s \<Longrightarrow> \<not> first s \<Longrightarrow> \<exists>s'. doneReading ops None s = Ret s' \<and> ended s'"
begin

text \<open>Inside an argument of which \<open>p\<close> is still unread, with the arguments \<open>ps\<close> after it.\<close>

definition holds where
  "holds r p ps \<longleftrightarrow> fr_err r = None \<and> ok (fr_receiver r) \<and> \<not> first (fr_receiver r) \<and>
     fr_curFragment r \<noteq> None \<and>
     (\<exists>c css. fr_checksum r = Some c \<and> delivers c (pending (fr_receiver r)) css \<and>
        fr_hasMoreFragments r = (pending (fr_receiver r) \<noteq> []) \<and>
        join_frags ((fr_curChunk r # fr_remainingChunks r) # css) = p # ps)"

definition at_end where
  "at_end r \<longleftrightarrow> fr_curChunk r = [] \<and> (fr_remainingChunks r \<noteq> [] \<or> pending (fr_receiver r) = [])"

lemma recv_ok:
  assumes "fr_err r = None" and "initial = first (fr_receiver r)"
    and "pending (fr_receiver r) = f # fs" and "delivers c (f # fs) (cs # css)" and "ok (fr_receiver r)"
    and "fr_checksum r = Some c \<or> fr_checksum r = None \<and> c = ChecksumType_New (TypeCode c)"
  obtains r' where "recvAndParseNextFragment ops initial r = Ret (None, r')"
    and "fr_err r' = None" and "fr_state r' = fr_state r" and "fr_curFragment r' \<noteq> None"
    and "\<not> first (fr_receiver r')" and "pending (fr_receiver r') = fs" and "ok (fr_receiver r')"
    and "fr_checksum r' = Some (Checksum_Add (concat cs) c)" and "fr_hasMoreFragments r' = (fs \<noteq> [])"
    and "fr_curChunk r' # fr_remainingChunks r' = cs"
proof -
  define r1 where "r1 = (case fr_curFragment r of
      Some f \<Rightarrow> r\<lparr>fr_receiver := fragmentDone ops f (fr_receiver r)\<rparr> | None \<Rightarrow> r)"
  have r1: "pending (fr_receiver r1) = f # fs" "first (fr_receiver r1) = first (fr_receiver r)"
      "fr_checksum r1 = fr_checksum r" "fr_state r1 = fr_state r" "ok (fr_receiver r1)"
    using assms(3,5) by (simp_all add: r1_def done_keeps split: option.split)
  obtain s' where s': "recvNextFragment ops initial (fr_receiver r1) = Ret ((Some f, None), s')"
      "pending s' = fs" "\<not> first s'" "ok s'"
    using recv_next [OF r1(5,1)] r1(2) assms(2) by auto
  have f: "rfrag f (TypeCode c) (fs \<noteq> []) (Checksum_Sum (Checksum_Add (concat cs) c)) cs" "cs \<noteq> []"
    using assms(4) by simp_all
  then have sp: "split_chunks (rf_contents f) [] c =
      (None, cs, Checksum_Add (concat cs) c, (rf_contents f)\<lparr>rb_remaining := []\<rparr>)"
    using split_chunks_enc [of "rf_contents f" cs "[]" c] by (simp add: rfrag_def)
  have ck: "(case fr_checksum r1 of None \<Rightarrow> ChecksumType_New (rf_checksumType f) | Some c \<Rightarrow> c) = c"
      "fr_checksum r1 \<noteq> None \<longrightarrow> TypeCode c = rf_checksumType f"
    using assms(6) f(1) r1(3) by (auto simp: rfrag_def)
  obtain d ds where cs: "cs = d # ds" using f(2) by (cases cs) auto
  let ?r' = "r1\<lparr>fr_receiver := s', fr_curFragment := Some (f\<lparr>rf_contents := (rf_contents f)\<lparr>rb_remaining := []\<rparr>\<rparr>),
      fr_err := None, fr_hasMoreFragments := fs \<noteq> [], fr_remainingChunks := ds,
      fr_checksum := Some (Checksum_Add (concat cs) c), fr_curChunk := d\<rparr>"
  have "recvAndParseNextFragment ops initial r = Ret (None, ?r')"
    using assms(1) f(1) ck(2) unfolding recvAndParseNextFragment_def
    by (simp add: s' ck(1) sp rfrag_def cs flip: r1_def)
  then show ?thesis
    by (rule that) (use s' cs r1(4) in simp_all)
qed

lemma read_loop_ok:
  assumes "holds r p ps"
  shows "\<exists>r'. fr_read_loop ops n acc r =
      Some (Ret ((acc @ take n p, if n \<le> length p then None else Some ioEOF), r')) \<and>
    holds r' (drop n p) ps \<and> fr_state r' = fr_state r \<and> (length p < n \<longrightarrow> at_end r')"
  using assms
proof (induction "length (pending (fr_receiver r))" arbitrary: n acc r p)
  case 0
  then obtain c where r: "fr_err r = None" "fr_checksum r = Some c" "pending (fr_receiver r) = []"
      "\<not> fr_hasMoreFragments r" "fr_curChunk r # fr_remainingChunks r = p # ps"
    by (auto simp: holds_def)
  let ?k = "min n (length p)" and ?r = "r\<lparr>fr_curChunk := drop (min n (length p)) p\<rparr>"
  have "fr_read_loop ops n acc r =
      Some (Ret ((acc @ take n p, if n \<le> length p then None else Some ioEOF), ?r))"
    using r by (subst fr_read_loop.simps) (simp add: Let_def min_def)
  moreover have "holds ?r (drop n p) ps"
    using 0 r by (auto simp: holds_def min_def)
  moreover have "length p < n \<longrightarrow> at_end ?r"
    using r by (simp add: at_end_def)
  ultimately show ?case by auto
next
  case (Suc m)
  obtain c css where r: "fr_err r = None" "fr_checksum r = Some c" "\<not> first (fr_receiver r)"
      "delivers c (pending (fr_receiver r)) css" "fr_hasMoreFragments r"
      "join_frags ((fr_curChunk r # fr_remainingChunks r) # css) = p # ps" "fr_curFragment r \<noteq> None" "ok (fr_receiver r)"
    using Suc(2,3) by (auto simp: holds_def)
  let ?c = "fr_curChunk r"
  let ?r1 = "r\<lparr>fr_curChunk := drop (min n (length ?c)) ?c\<rparr>"
  have h1: "holds ?r1 (drop (min n (length ?c)) p) ps"
    using Suc(2) r join_frags_drop(1) [OF r(6), of "min n (length ?c)"] by (auto simp: holds_def)
  have tk: "take (min n (length ?c)) p = take (min n (length ?c)) ?c"
    using join_frags_drop(2) [OF r(6)] by simp
  show ?case
  proof (cases "n \<le> length ?c")
    case True
    have "length (take (length ?c) p) = length ?c"
      using join_frags_drop(2) [OF r(6), of "length ?c"] by simp
    then have "n \<le> length p" using True by simp
    moreover have "fr_read_loop ops n acc r = Some (Ret ((acc @ take n ?c, None), ?r1))"
      using True by (subst fr_read_loop.simps) (simp add: Let_def min_def)
    ultimately show ?thesis using True h1 tk by (auto simp: min_def)
  next
    case False
    then have k: "min n (length ?c) = length ?c" by simp
    show ?thesis
    proof (cases "fr_remainingChunks r")
      case (Cons d ds)
      then have p: "p = ?c" using r(6) by (simp add: join_frags_hd)
      have "fr_read_loop ops n acc r = Some (Ret ((acc @ ?c, Some ioEOF), ?r1))"
        using False Cons by (subst fr_read_loop.simps) (simp add: Let_def)
      moreover have "at_end ?r1" using Cons k by (simp add: at_end_def)
      ultimately show ?thesis using False h1 p k by auto
    next
      case Nil
      obtain f fs where f: "pending (fr_receiver r) = f # fs" using Suc(2) by (cases "pending (fr_receiver r)") auto
      with r(4) obtain cs css' where css: "css = cs # css'" by (cases css) auto
      have rr: "fr_err ?r1 = None" "False = first (fr_receiver ?r1)" "pending (fr_receiver ?r1) = f # fs"
          "delivers c (f # fs) (cs # css')" "ok (fr_receiver ?r1)" "fr_checksum ?r1 = Some c \<or> fr_checksum ?r1 = None \<and> c = ChecksumType_New (TypeCode c)"
        using r f css by simp_all
      obtain r' where r': "recvAndParseNextFragment ops False ?r1 = Ret (None, r')" "fr_err r' = None"
          "fr_state r' = fr_state ?r1" "fr_curFragment r' \<noteq> None" "\<not> first (fr_receiver r')"
          "pending (fr_receiver r') = fs" "ok (fr_receiver r')" "fr_checksum r' = Some (Checksum_Add (concat cs) c)"
          "fr_hasMoreFragments r' = (fs \<noteq> [])" "fr_curChunk r' # fr_remainingChunks r' = cs"
        by (rule recv_ok [OF rr])
      obtain q where p: "p = ?c @ q" "join_frags (cs # css') = q # ps"
      proof -
        obtain d ds where cs: "cs = d # ds" using r(4) f css by (cases cs) auto
        then have "join_frags ([?c] # (d # ds) # css') = p # ps"
          using r(6) Nil css by (simp only:)
        then have "p = ?c @ hd (join_frags (cs # css'))" "ps = tl (join_frags (cs # css'))"
          unfolding join_frags_hd(3) cs by simp_all
        then show ?thesis
          using that [of "hd (join_frags (cs # css'))"] join_frags_nonempty [of cs css'] cs by simp
      qed
      have hr': "holds r' q ps"
        using r' r(4) f css p(2) by (auto simp: holds_def)
      have e: "r'\<lparr>fr_err := None\<rparr> = r'" using r'(2) by simp
      have step: "fr_read_loop ops n acc r = fr_read_loop ops (n - length ?c) (acc @ ?c) r'"
        using False Nil r(5) r'(1) e by (subst fr_read_loop.simps) (simp add: Let_def)
      have "m = length (pending (fr_receiver r'))" using Suc(2) f r'(6) by simp
      from Suc(1) [OF this hr', of "n - length ?c" "acc @ ?c"]
      show ?thesis using step p(1) False r'(3) by (auto simp: le_diff_conv2)
    qed
  qed
qed

lemma read_ok:
  assumes "holds r p ps" and "isReadingArgument (fr_state r)"
  shows "\<exists>r'. fr_Read ops n r = Some (Ret ((take n p, if n \<le> length p then None else Some ioEOF), r')) \<and>
    holds r' (drop n p) ps \<and> fr_state r' = fr_state r \<and> (length p < n \<longrightarrow> at_end r')"
  using read_loop_ok [OF assms(1), of n "[]"] assms by (auto simp: fr_Read_def holds_def)

lemma ReadAll_ok:
  assumes "holds r p ps" and "isReadingArgument (fr_state r)" and "\<forall>i. 0 < sz i"
  shows "\<exists>r'. io_ReadAll ops sz i acc r = Some (Ret ((acc @ p, None), r')) \<and>
    holds r' [] ps \<and> fr_state r' = fr_state r \<and> at_end r'"
  using assms(1,2)
proof (induction "length p" arbitrary: p i acc r rule: less_induct)
  case less
  obtain r1 where r1: "fr_Read ops (sz i) r =
      Some (Ret ((take (sz i) p, if sz i \<le> length p then None else Some ioEOF), r1))"
      "holds r1 (drop (sz i) p) ps" "fr_state r1 = fr_state r" "length p < sz i \<longrightarrow> at_end r1"
    using read_ok [OF less.prems] by blast
  show ?case
  proof (cases "sz i \<le> length p")
    case True
    have "length (drop (sz i) p) < length p" using True assms(3) [rule_format, of i] by simp
    from less.hyps [OF this r1(2)] obtain r' where
      "io_ReadAll ops sz (Suc i) (acc @ take (sz i) p) r1 = Some (Ret ((acc @ p, None), r'))"
      "holds r' [] ps" "fr_state r' = fr_state r1" "at_end r'"
      using less.prems(2) r1(3) by (metis append.assoc append_take_drop_id)
    then show ?thesis
      using True r1 by (subst io_ReadAll.simps) simp
  next
    case False
    then show ?thesis
      using r1 by (subst io_ReadAll.simps) auto
  qed
qed

lemma EnsureEmpty_ok:
  assumes "holds r [] ps" and "isReadingArgument (fr_state r)"
  shows "\<exists>r'. EnsureEmpty ops stage r = Some (Ret (None, r')) \<and> holds r' [] ps \<and>
    fr_state r' = fr_state r \<and> at_end r'"
  using read_ok [OF assms, of 128] by (auto simp: EnsureEmpty_def)

text \<open>Between arguments, \<open>ps\<close> to come.\<close>

definition waiting where
  "waiting r ps \<longleftrightarrow> fr_state r = fragmentingReadWaitingForArgument \<and> ps \<noteq> [] \<and> holds r (hd ps) (tl ps)"

lemma fr_close_ok:
  assumes "holds r [] ps" and "fr_state r = fragmentingReadInArgument" and "at_end r" and "ps \<noteq> []"
  shows "\<exists>r'. fr_Close ops r = Ret (None, r') \<and> waiting r' ps"
proof -
  obtain c css where r: "fr_err r = None" "\<not> first (fr_receiver r)" "fr_curFragment r \<noteq> None"
      "fr_checksum r = Some c" "delivers c (pending (fr_receiver r)) css"
      "fr_hasMoreFragments r = (pending (fr_receiver r) \<noteq> [])"
      "join_frags ((fr_curChunk r # fr_remainingChunks r) # css) = [] # ps"
    using assms(1) by (auto simp: holds_def)
  have "fr_remainingChunks r \<noteq> []"
    using assms(3,4) r(5,7) by (auto simp: at_end_def)
  then obtain d ds where d: "fr_remainingChunks r = d # ds" by (cases "fr_remainingChunks r") auto
  then have "join_frags ((d # ds) # css) = ps"
    using r(7) by (simp add: join_frags_hd)
  then show ?thesis
    using assms r d by (auto simp: fr_Close_def isReadingArgument_def waiting_def holds_def at_end_def)
qed

lemma fr_close_last_ok:
  assumes "holds r [] []" and "fr_state r = fragmentingReadInLastArgument" and "at_end r"
  shows "\<exists>r'. fr_Close ops r = Ret (None, r') \<and> fr_state r' = fragmentingReadComplete \<and> fr_err r' = None \<and>
    ended (fr_receiver r')"
proof -
  have "pending (fr_receiver r) = []" "fr_remainingChunks r = []"
    using assms(1,3) by (auto simp: holds_def at_end_def join_frags_hd neq_Nil_conv)
      (metis join_frags_nonempty list.distinct(1))+
  then show ?thesis
    using assms doneReading_ok [of "fr_receiver r"]
    by (auto simp: fr_Close_def isReadingArgument_def holds_def at_end_def fr_doneReading_def
        done_keeps)
qed

lemma fr_begin_next:
  assumes "waiting r ps"
  shows "\<exists>r'. fr_BeginArgument ops isLast r = Ret (None, r') \<and> holds r' (hd ps) (tl ps) \<and>
    fr_state r' = (if isLast then fragmentingReadInLastArgument else fragmentingReadInArgument)"
  using assms by (auto simp: fr_BeginArgument_def waiting_def holds_def isReadingArgument_def)

lemma fr_begin_first:
  assumes "first s" and "pending s = f # fs" and "delivers c (f # fs) (cs # css)" and "ok s"
    and "c = ChecksumType_New (TypeCode c)"
  shows "\<exists>r'. fr_BeginArgument ops isLast (newFragmentingReader s) = Ret (None, r') \<and>
    holds r' (hd (join_frags (cs # css))) (tl (join_frags (cs # css))) \<and>
    fr_state r' = (if isLast then fragmentingReadInLastArgument else fragmentingReadInArgument)"
proof -
  let ?r = "newFragmentingReader s"
  have rr: "fr_err ?r = None" "True = first (fr_receiver ?r)" "pending (fr_receiver ?r) = f # fs"
      "delivers c (f # fs) (cs # css)" "ok (fr_receiver ?r)"
      "fr_checksum ?r = Some c \<or> fr_checksum ?r = None \<and> c = ChecksumType_New (TypeCode c)"
    using assms by (simp_all add: newFragmentingReader_def)
  obtain r' where r': "recvAndParseNextFragment ops True ?r = Ret (None, r')" "fr_err r' = None"
      "fr_state r' = fr_state ?r" "fr_curFragment r' \<noteq> None" "\<not> first (fr_receiver r')"
      "pending (fr_receiver r') = fs" "ok (fr_receiver r')" "fr_checksum r' = Some (Checksum_Add (concat cs) c)"
      "fr_hasMoreFragments r' = (fs \<noteq> [])" "fr_curChunk r' # fr_remainingChunks r' = cs"
    by (rule recv_ok [OF rr])
  have "join_frags (cs # css) \<noteq> []" using assms(3) by (simp add: join_frags_nonempty)
  then have "holds (r'\<lparr>fr_state := (if isLast then fragmentingReadInLastArgument else fragmentingReadInArgument)\<rparr>)
      (hd (join_frags (cs # css))) (tl (join_frags (cs # css)))"
    using r' assms(3) by (auto simp: holds_def)
  moreover have "fr_BeginArgument ops isLast ?r = Ret (None, r'\<lparr>fr_err := None,
      fr_state := (if isLast then fragmentingReadInLastArgument else fragmentingReadInArgument)\<rparr>)"
    using r'(1) by (simp add: fr_BeginArgument_def newFragmentingReader_def isReadingArgument_def)
  moreover have "r'\<lparr>fr_err := None\<rparr> = r'" using r'(2) by simp
  ultimately show ?thesis by auto
qed

lemma helper_ok:
  assumes "holds r p ps" and "\<forall>i. 0 < sz i"
    and "fr_state r = (if ps = [] then fragmentingReadInLastArgument else fragmentingReadInArgument)"
  shows "\<exists>r'. ArgReadHelper_Read ops sz None r = Some (Ret ((p, None), r')) \<and>
    (if ps = [] then fr_state r' = fragmentingReadComplete \<and> fr_err r' = None \<and> ended (fr_receiver r') else waiting r' ps)"
proof -
  have st: "isReadingArgument (fr_state r)" using assms(3) by (simp add: isReadingArgument_def)
  obtain r1 where r1: "io_ReadAll ops sz 0 [] r = Some (Ret ((p, None), r1))" "holds r1 [] ps"
      "fr_state r1 = fr_state r"
    using ReadAll_ok [OF assms(1) st assms(2), where i = 0 and acc = "[]"] by auto
  obtain r2 where r2: "EnsureEmpty ops ''read arg'' r1 = Some (Ret (None, r2))" "holds r2 [] ps"
      "fr_state r2 = fr_state r" "at_end r2"
    using EnsureEmpty_ok [OF r1(2)] st r1(3) by metis
  show ?thesis
    using fr_close_ok [OF r2(2) _ r2(4)] fr_close_last_ok [of r2] r2 r1(1) assms(3)
    by (cases "ps = []") (auto simp: ArgReadHelper_Read_def)
qed

lemma read_args_rest:
  assumes "waiting r ps" and "\<forall>i. 0 < sz i"
  shows "\<exists>r'. read_args ops sz (length ps) acc r = Some (Ret ((acc @ ps, None), r')) \<and>
    fr_state r' = fragmentingReadComplete"
  using assms(1)
proof (induction ps arbitrary: r acc)
  case (Cons p ps)
  obtain r1 where r1: "fr_BeginArgument ops (length ps = 0) r = Ret (None, r1)" "holds r1 p ps"
      "fr_state r1 = (if ps = [] then fragmentingReadInLastArgument else fragmentingReadInArgument)"
    using fr_begin_next [OF Cons.prems, of "length ps = 0"] by auto
  obtain r2 where r2: "ArgReadHelper_Read ops sz None r1 = Some (Ret ((p, None), r2))"
      "if ps = [] then fr_state r2 = fragmentingReadComplete \<and> fr_err r2 = None \<and> ended (fr_receiver r2) else waiting r2 ps"
    using helper_ok [OF r1(2) assms(2) r1(3)] by blast
  show ?case
    using Cons.IH [of r2 "acc @ [p]"] r1(1) r2 by (cases "ps = []") auto
qed (simp add: waiting_def)

text \<open>Reading all the arguments: no error, and each is exactly what the fragments carry.\<close>

lemma read_args_ok:
  assumes "first s" and "pending s = fs" and "delivers c fs css" and "fs \<noteq> []" and "ok s"
    and "c = ChecksumType_New (TypeCode c)" and "\<forall>i. 0 < sz i"
  shows "\<exists>r'. read_args ops sz (length (join_frags css)) [] (newFragmentingReader s) =
      Some (Ret ((join_frags css, None), r')) \<and> fr_state r' = fragmentingReadComplete"
proof -
  obtain f fs' cs css' where fs: "fs = f # fs'" "css = cs # css'"
    using assms(3,4) by (cases fs; cases css) auto
  obtain p ps where p: "join_frags css = p # ps"
    using assms(3) fs join_frags_nonempty [of cs css'] by (cases "join_frags css") auto
  obtain r1 where r1: "fr_BeginArgument ops (length ps = 0) (newFragmentingReader s) = Ret (None, r1)"
      "holds r1 p ps" "fr_state r1 = (if ps = [] then fragmentingReadInLastArgument else fragmentingReadInArgument)"
    using fr_begin_first [of s f fs' c cs css' "length ps = 0"] assms fs p by auto
  obtain r2 where r2: "ArgReadHelper_Read ops sz None r1 = Some (Ret ((p, None), r2))"
      "if ps = [] then fr_state r2 = fragmentingReadComplete \<and> fr_err r2 = None \<and> ended (fr_receiver r2) else waiting r2 ps"
    using helper_ok [OF r1(2) assms(7) r1(3)] by blast
  show ?thesis
    using read_args_rest [of r2 ps sz "[p]"] assms(7) p r1(1) r2 by (cases "ps = []") auto
qed

text \<open>
  Closing an argument that was read to its last byte but not to its end, when the fragment is used up:
  the reader takes the next fragment, whose first chunk still belongs to the closed argument, and that
  chunk is what the next argument begins with.
\<close>

lemma fr_close_early:
  assumes "holds r [] ps" and "fr_state r = fragmentingReadInArgument" and "fr_curChunk r = []"
    and "\<not> at_end r"
  shows "\<exists>r'. fr_Close ops r = Ret (None, r') \<and> waiting r' ([] # ps)"
proof -
  obtain c css where r: "fr_err r = None" "\<not> first (fr_receiver r)"
      "fr_checksum r = Some c" "delivers c (pending (fr_receiver r)) css"
      "fr_hasMoreFragments r = (pending (fr_receiver r) \<noteq> [])"
      "join_frags ((fr_curChunk r # fr_remainingChunks r) # css) = [] # ps" "ok (fr_receiver r)"
    using assms(1) by (auto simp: holds_def)
  have e: "fr_remainingChunks r = []" "pending (fr_receiver r) \<noteq> []"
    using assms(3,4) by (auto simp: at_end_def)
  then obtain f fs cs css' where f: "pending (fr_receiver r) = f # fs" "css = cs # css'"
    using r(4) by (cases "pending (fr_receiver r)"; cases css) auto
  let ?r1 = "r\<lparr>fr_state := fragmentingReadWaitingForArgument\<rparr>"
  have rr: "fr_err ?r1 = None" "False = first (fr_receiver ?r1)" "pending (fr_receiver ?r1) = f # fs"
      "delivers c (f # fs) (cs # css')" "ok (fr_receiver ?r1)" "fr_checksum ?r1 = Some c \<or> fr_checksum ?r1 = None \<and> c = ChecksumType_New (TypeCode c)"
    using r f by simp_all
  obtain r' where r': "recvAndParseNextFragment ops False ?r1 = Ret (None, r')" "fr_err r' = None"
      "fr_state r' = fr_state ?r1" "fr_curFragment r' \<noteq> None" "\<not> first (fr_receiver r')"
      "pending (fr_receiver r') = fs" "ok (fr_receiver r')" "fr_checksum r' = Some (Checksum_Add (concat cs) c)"
      "fr_hasMoreFragments r' = (fs \<noteq> [])" "fr_curChunk r' # fr_remainingChunks r' = cs"
    by (rule recv_ok [OF rr])
  obtain d ds where cs: "cs = d # ds" using r(4) f by (cases cs) auto
  then have "join_frags ([[]] # (d # ds) # css') = [] # ps" using r(6) e(1) assms(3) f(2) by (simp only:)
  then have "join_frags (cs # css') = [] # ps" unfolding join_frags_hd(2) cs .
  then have "holds r' [] ps"
    using r' r(4) f by (auto simp: holds_def)
  moreover have "fr_Close ops r = Ret (None, r'\<lparr>fr_err := None\<rparr>)"
    using assms(2,3) r(1,5) e r'(1) by (simp add: fr_Close_def isReadingArgument_def Let_def)
  moreover have "r'\<lparr>fr_err := None\<rparr> = r'" using r'(2) by simp
  ultimately show ?thesis using r'(3) by (simp add: waiting_def)
qed

end

end
