(* ===== verification/Mex.thy ===== *)
theory Mex
  imports Frame
begin

text \<open>
  Message exchanges and exchange sets, from \<^verbatim>\<open>mex.go\<close>. The context of an exchange is the error it has
  now, if it is done, and the error it will be done with (every exchange is made with a deadline).
  The exchanges of a set are objects that the set and the calls share: they live in a heap \<open>ms_heap\<close> and
  a pointer is an index into it. Where the source selects over several channels, one function gives
  the outcome of each case that may be taken (\<open>None\<close> where it is not ready) and another the outcome of the
  whole wait; that the choice does not matter is proved below. The callbacks \<^verbatim>\<open>onAdded\<close> and \<^verbatim>\<open>onRemoved\<close> are
  closures of the connection; the operations return whether they call them.
\<close>

definition errDuplicateMex :: gerror where
  "errDuplicateMex = ErrorString ''multiple attempts to use the message id''"
definition errMexShutdown :: gerror where "errMexShutdown = ErrorString ''mex has been shutdown''"
definition errMexSetShutdown :: gerror where "errMexSetShutdown = ErrorString ''mexset has been shutdown''"
definition errUnexpectedFrameType :: gerror where
  "errUnexpectedFrameType = ErrorString ''unexpected frame received''"

definition mexChannelBufferSize :: nat where "mexChannelBufferSize = 2"

section \<open>Error notifier\<close>

text \<open>\<open>en_closed\<close>: the channel \<^verbatim>\<open>c\<close> is closed. Closing it twice would panic.\<close>

record errNotifier =
  en_closed :: bool
  en_err :: "gerror option"
  en_notified :: bool

definition newErrNotifier :: errNotifier where
  "newErrNotifier = \<lparr>en_closed = False, en_err = None, en_notified = False\<rparr>"

definition Notify :: "gerror \<Rightarrow> errNotifier \<Rightarrow> (gerror option \<times> errNotifier) go" where
  "Notify err e =
     (if en_notified e then
        Ret (Some (ErrorString (''cannot broadcast error: '' @ Error err @ '', already have: '' @
          (case en_err e of Some e' \<Rightarrow> Error e' | None \<Rightarrow> ''<nil>''))), e)
      else
        (let e1 = e\<lparr>en_notified := True, en_err := Some err\<rparr>
         in if en_closed e1 then Panic else Ret (None, e1\<lparr>en_closed := True\<rparr>)))"

definition checkErr :: "errNotifier \<Rightarrow> gerror option" where
  "checkErr e = (if en_closed e then en_err e else None)"

section \<open>One exchange\<close>

record messageExchange =
  mex_recvCh :: "Frame list"
  mex_recvCap :: nat
  mex_errCh :: errNotifier
  mex_ctx :: "gerror option"
  mex_ctxEnd :: gerror
  mex_msgID :: uint32
  mex_msgType :: byte
  mex_shutdownAtomic :: bool
  mex_errChNotified :: bool

definition checkError :: "messageExchange \<Rightarrow> gerror option" where
  "checkError mex =
     (case mex_ctx mex of
        Some err \<Rightarrow> Some (GetContextError err)
      | None \<Rightarrow> checkErr (mex_errCh mex))"

datatype select_case = CaseChan | CaseDone | CaseErr

text \<open>The cases of the select in \<^verbatim>\<open>forwardPeerFrame\<close>; the context may end during the wait.\<close>

definition forward_select :: "select_case \<Rightarrow> Frame \<Rightarrow> messageExchange \<Rightarrow> (gerror option \<times> messageExchange) option" where
  "forward_select c frame mex =
     (let space = (length (mex_recvCh mex) < mex_recvCap mex);
          put = (None, mex\<lparr>mex_recvCh := mex_recvCh mex @ [frame]\<rparr>)
      in case c of
           CaseChan \<Rightarrow> if space then Some put else None
         | CaseDone \<Rightarrow> Some (Some (GetContextError (mex_ctxEnd mex)), mex\<lparr>mex_ctx := Some (mex_ctxEnd mex)\<rparr>)
         | CaseErr \<Rightarrow>
             if en_closed (mex_errCh mex) then Some (if space then put else (en_err (mex_errCh mex), mex))
             else None)"

text \<open>
  \<^verbatim>\<open>forwardPeerFrame\<close> when its select takes the case \<open>c\<close>; \<open>None\<close> if that case is not ready. When none is, the goroutine waits, and
  takes a case of the state that the others have brought about by then.
\<close>

definition forward_case :: "select_case \<Rightarrow> Frame \<Rightarrow> messageExchange \<Rightarrow> (gerror option \<times> messageExchange) option" where
  "forward_case c frame mex =
     (case mex_ctx mex of
        Some err \<Rightarrow> Some (Some (GetContextError err), mex)
      | None \<Rightarrow> forward_select c frame mex)"

text \<open>
  \<^verbatim>\<open>forwardPeerFrame\<close> as the operation of one goroutine while the others stand still: an error case that is ready is taken before
  the channel, the context does not end while a case is ready, and without one the wait lasts until the context ends.
\<close>

definition mex_forwardPeerFrame :: "Frame \<Rightarrow> messageExchange \<Rightarrow> gerror option \<times> messageExchange" where
  "mex_forwardPeerFrame frame mex =
     (case forward_case CaseErr frame mex of
        Some r \<Rightarrow> r
      | None \<Rightarrow>
          (case forward_case CaseChan frame mex of
             Some r \<Rightarrow> r
           | None \<Rightarrow> the (forward_case CaseDone frame mex)))"

definition checkFrame :: "Frame \<Rightarrow> messageExchange \<Rightarrow> gerror option" where
  "checkFrame frame mex =
     (if fh_ID (fr_Header frame) \<noteq> mex_msgID mex then Some errUnexpectedFrameType else None)"

text \<open>A received frame, or the error of \<^verbatim>\<open>checkFrame\<close>; the frame is taken from the channel either way.\<close>

definition take_frame :: "messageExchange \<Rightarrow> ((gerror + Frame) \<times> messageExchange) option" where
  "take_frame mex =
     (case mex_recvCh mex of
        [] \<Rightarrow> None
      | f # fs \<Rightarrow>
          Some (case checkFrame f mex of Some e \<Rightarrow> Inl e | None \<Rightarrow> Inr f, mex\<lparr>mex_recvCh := fs\<rparr>))"

definition recv_select :: "select_case \<Rightarrow> messageExchange \<Rightarrow> ((gerror + Frame) \<times> messageExchange) option" where
  "recv_select c mex =
     (case c of
        CaseChan \<Rightarrow> take_frame mex
      | CaseDone \<Rightarrow> Some (Inl (GetContextError (mex_ctxEnd mex)), mex\<lparr>mex_ctx := Some (mex_ctxEnd mex)\<rparr>)
      | CaseErr \<Rightarrow>
          if en_closed (mex_errCh mex) then
            Some (case take_frame mex of
                    Some r \<Rightarrow> r
                  | None \<Rightarrow> (Inl (the (en_err (mex_errCh mex))), mex))
          else None)"

text \<open>\<^verbatim>\<open>recvPeerFrame\<close> when its select takes the case \<open>c\<close>, and as the operation of one goroutine, as above.\<close>

definition recv_case :: "select_case \<Rightarrow> messageExchange \<Rightarrow> ((gerror + Frame) \<times> messageExchange) option" where
  "recv_case c mex =
     (case mex_ctx mex of
        Some err \<Rightarrow> Some (Inl (GetContextError err), mex)
      | None \<Rightarrow> recv_select c mex)"

definition recvPeerFrame :: "messageExchange \<Rightarrow> (gerror + Frame) \<times> messageExchange" where
  "recvPeerFrame mex =
     (case recv_case CaseErr mex of
        Some r \<Rightarrow> r
      | None \<Rightarrow>
          (case recv_case CaseChan mex of
             Some r \<Rightarrow> r
           | None \<Rightarrow> the (recv_case CaseDone mex)))"

text \<open>The error frame is released here; the frame is returned to be put in the pool.\<close>

definition recvPeerFrameOfType ::
  "byte \<Rightarrow> messageExchange \<Rightarrow> ((gerror + Frame) \<times> Frame option \<times> messageExchange) go" where
  "recvPeerFrameOfType msgType mex =
     (case recvPeerFrame mex of
        (Inl e, mex') \<Rightarrow> Ret (Inl e, None, mex')
      | (Inr frame, mex') \<Rightarrow>
          if fh_messageType (fr_Header frame) = msgType then Ret (Inr frame, None, mex')
          else if fh_messageType (fr_Header frame) = messageTypeError then
            (let errMsg = \<lparr>em_id = fh_ID (fr_Header frame), em_errCode = 0, em_tracing = emptySpan, em_message = []\<rparr>
             in go_bind (SizedPayload frame) (\<lambda>p.
                  case errorMessage_read errMsg (NewReadBuffer p) of
                    (m, r) \<Rightarrow>
                      Ret (case rb_err r of Some e \<Rightarrow> Inl e | None \<Rightarrow> Inl (errorMessage_as_error m),
                           Some frame, mex')))
          else Ret (Inl errUnexpectedFrameType, None, mex'))"

text \<open>
  \<^verbatim>\<open>shutdown\<close>: the first call notifies the waiters and has the exchange removed from its set (\<open>True\<close>).
\<close>

definition mex_shutdown :: "messageExchange \<Rightarrow> (bool \<times> messageExchange) go" where
  "mex_shutdown mex =
     (if mex_shutdownAtomic mex then Ret (False, mex)
      else
        (let mex1 = mex\<lparr>mex_shutdownAtomic := True\<rparr>
         in if mex_errChNotified mex1 then Ret (True, mex1)
            else go_bind (Notify errMexShutdown (mex_errCh mex1)) (\<lambda>(_, e).
                   Ret (True, mex1\<lparr>mex_errChNotified := True, mex_errCh := e\<rparr>))))"

section \<open>Exchange sets\<close>

record messageExchangeSet =
  ms_exchanges :: "(uint32, nat) gomap"
  ms_expired :: "uint32 list"
  ms_shutdown :: bool
  ms_heap :: "messageExchange list"

definition newMessageExchangeSet :: messageExchangeSet where
  "newMessageExchangeSet = \<lparr>ms_exchanges = [], ms_expired = [], ms_shutdown = False, ms_heap = []\<rparr>"

definition addExchange :: "nat \<Rightarrow> messageExchangeSet \<Rightarrow> gerror option \<times> messageExchangeSet" where
  "addExchange p ms =
     (let i = mex_msgID (ms_heap ms ! p)
      in if ms_shutdown ms then (Some errMexSetShutdown, ms)
         else if map_of (ms_exchanges ms) i \<noteq> None then (Some errDuplicateMex, ms)
         else (None, ms\<lparr>ms_exchanges := AList.update i p (ms_exchanges ms)\<rparr>))"

text \<open>On success the pointer of the new exchange, and \<^verbatim>\<open>onAdded\<close> is called.\<close>

definition newExchange ::
  "gerror option \<Rightarrow> gerror \<Rightarrow> byte \<Rightarrow> uint32 \<Rightarrow> nat \<Rightarrow> messageExchangeSet \<Rightarrow> (gerror + nat) \<times> messageExchangeSet" where
  "newExchange ctx ctxEnd msgType msgID bufferSize ms =
     (let mex = \<lparr>mex_recvCh = [], mex_recvCap = bufferSize, mex_errCh = newErrNotifier, mex_ctx = ctx,
                  mex_ctxEnd = ctxEnd, mex_msgID = msgID, mex_msgType = msgType,
                  mex_shutdownAtomic = False, mex_errChNotified = False\<rparr>;
          p = length (ms_heap ms);
          ms1 = ms\<lparr>ms_heap := ms_heap ms @ [mex]\<rparr>
      in case addExchange p ms1 of
           (Some e, ms2) \<Rightarrow> (Inl e, ms2)
         | (None, ms2) \<Rightarrow> (Inr p, ms2))"

definition deleteExchange :: "uint32 \<Rightarrow> messageExchangeSet \<Rightarrow> (bool \<times> bool) \<times> messageExchangeSet" where
  "deleteExchange msgID ms =
     (if map_of (ms_exchanges ms) msgID \<noteq> None then
        ((True, False), ms\<lparr>ms_exchanges := AList.delete msgID (ms_exchanges ms)\<rparr>)
      else if msgID \<in> set (ms_expired ms) then
        ((False, True), ms\<lparr>ms_expired := removeAll msgID (ms_expired ms)\<rparr>)
      else ((False, False), ms))"

text \<open>The boolean says whether \<^verbatim>\<open>onRemoved\<close> is called.\<close>

definition removeExchange :: "uint32 \<Rightarrow> messageExchangeSet \<Rightarrow> bool \<times> messageExchangeSet" where
  "removeExchange msgID ms =
     (case deleteExchange msgID ms of
        ((found, expired), ms1) \<Rightarrow> if \<not> found \<and> \<not> expired then (False, ms1) else (True, ms1))"

definition expireExchange :: "uint32 \<Rightarrow> messageExchangeSet \<Rightarrow> bool \<times> messageExchangeSet" where
  "expireExchange msgID ms =
     (case deleteExchange msgID ms of
        ((found, expired), ms1) \<Rightarrow>
          (True, if found \<or> expired then ms1\<lparr>ms_expired := List.insert msgID (ms_expired ms1)\<rparr> else ms1))"

definition ms_count :: "messageExchangeSet \<Rightarrow> nat" where
  "ms_count ms = length (ms_exchanges ms)"

definition mexset_forward_case ::
  "select_case \<Rightarrow> Frame \<Rightarrow> messageExchangeSet \<Rightarrow> (gerror option \<times> messageExchangeSet) option" where
  "mexset_forward_case c frame ms =
     (case map_of (ms_exchanges ms) (fh_ID (fr_Header frame)) of
        None \<Rightarrow> Some (None, ms)
      | Some p \<Rightarrow>
          (case forward_case c frame (ms_heap ms ! p) of
             None \<Rightarrow> None
           | Some (e, mex') \<Rightarrow> Some (e, ms\<lparr>ms_heap := (ms_heap ms)[p := mex']\<rparr>)))"

definition mexset_forwardPeerFrame :: "Frame \<Rightarrow> messageExchangeSet \<Rightarrow> gerror option \<times> messageExchangeSet" where
  "mexset_forwardPeerFrame frame ms =
     (case map_of (ms_exchanges ms) (fh_ID (fr_Header frame)) of
        None \<Rightarrow> (None, ms)
      | Some p \<Rightarrow>
          (case mex_forwardPeerFrame frame (ms_heap ms ! p) of
             (e, mex') \<Rightarrow> (e, ms\<lparr>ms_heap := (ms_heap ms)[p := mex']\<rparr>)))"

definition copyExchanges :: "messageExchangeSet \<Rightarrow> bool \<times> (uint32, nat) gomap" where
  "copyExchanges ms = (if ms_shutdown ms then (True, []) else (False, ms_exchanges ms))"

fun stop_all :: "gerror \<Rightarrow> (uint32 \<times> nat) list \<Rightarrow> messageExchange list \<Rightarrow> messageExchange list go" where
  "stop_all err [] heap = Ret heap"
| "stop_all err ((_, p) # ps) heap =
     (let mex = heap ! p
      in if mex_errChNotified mex then stop_all err ps heap
         else go_bind (Notify err (mex_errCh mex)) (\<lambda>(_, e).
                stop_all err ps (heap[p := mex\<lparr>mex_errChNotified := True, mex_errCh := e\<rparr>])))"

definition stopExchanges :: "gerror \<Rightarrow> messageExchangeSet \<Rightarrow> messageExchangeSet go" where
  "stopExchanges err ms =
     (case copyExchanges ms of
        (shutdown, exchanges) \<Rightarrow>
          (let ms1 = ms\<lparr>ms_shutdown := True\<rparr>
           in if shutdown then Ret ms1
              else go_bind (stop_all err exchanges (ms_heap ms1)) (\<lambda>heap. Ret (ms1\<lparr>ms_heap := heap\<rparr>))))"

text \<open>\<^verbatim>\<open>shutdown\<close> and \<^verbatim>\<open>inboundExpired\<close> of the exchange at \<open>p\<close>, with their effect on the set.\<close>

definition shutdown_exchange :: "nat \<Rightarrow> messageExchangeSet \<Rightarrow> (bool \<times> messageExchangeSet) go" where
  "shutdown_exchange p ms =
     go_bind (mex_shutdown (ms_heap ms ! p)) (\<lambda>(remove, mex').
       let ms1 = ms\<lparr>ms_heap := (ms_heap ms)[p := mex']\<rparr>
       in Ret (if remove then removeExchange (mex_msgID mex') ms1 else (False, ms1)))"

definition inboundExpired :: "nat \<Rightarrow> messageExchangeSet \<Rightarrow> bool \<times> messageExchangeSet" where
  "inboundExpired p ms = expireExchange (mex_msgID (ms_heap ms ! p)) ms"

section \<open>The choice of select does not matter\<close>

text \<open>
  While the context is not done, whichever of the channel case and the error case the runtime takes,
  the outcome is that of the whole wait: the error case looks at the channel again.
\<close>

lemma forward_case_det:
  assumes "c \<noteq> CaseDone" and "forward_case c frame mex = Some r"
  shows "mex_forwardPeerFrame frame mex = r"
  using assms
  by (cases c) (auto simp: mex_forwardPeerFrame_def forward_case_def forward_select_def Let_def split: if_splits option.splits)

lemma recv_case_det:
  assumes "c \<noteq> CaseDone" and "recv_case c mex = Some r"
  shows "recvPeerFrame mex = r"
  using assms by (cases c) (auto simp: recvPeerFrame_def recv_case_def recv_select_def split: if_splits option.splits)

lemma mexset_forward_case_det:
  assumes "c \<noteq> CaseDone" and "mexset_forward_case c frame ms = Some r"
  shows "mexset_forwardPeerFrame frame ms = r"
  using assms
  by (auto simp: mexset_forwardPeerFrame_def mexset_forward_case_def dest: forward_case_det split: option.splits)

section \<open>Invariants\<close>

text \<open>
  An exchange notifies its error channel once, and holds at most as many frames as fit, all of them its own.
\<close>

definition mex_ok :: "messageExchange \<Rightarrow> bool" where
  "mex_ok m \<longleftrightarrow> en_closed (mex_errCh m) = mex_errChNotified m \<and> en_notified (mex_errCh m) = mex_errChNotified m \<and>
     (mex_errChNotified m \<longrightarrow> en_err (mex_errCh m) \<noteq> None) \<and>
     (mex_shutdownAtomic m \<longrightarrow> mex_errChNotified m) \<and>
     length (mex_recvCh m) \<le> mex_recvCap m \<and> (\<forall>f \<in> set (mex_recvCh m). fh_ID (fr_Header f) = mex_msgID m)"

text \<open>A set maps each id to an exchange of that id.\<close>

definition mexset_inv :: "messageExchangeSet \<Rightarrow> bool" where
  "mexset_inv ms \<longleftrightarrow> map_inv (ms_exchanges ms) \<and> distinct (ms_expired ms) \<and>
     (\<forall>(i, p) \<in> set (ms_exchanges ms). p < length (ms_heap ms) \<and> mex_msgID (ms_heap ms ! p) = i) \<and>
     (\<forall>m \<in> set (ms_heap ms). mex_ok m)"

lemma mexset_invD:
  assumes "mexset_inv ms" and "map_of (ms_exchanges ms) i = Some p"
  shows "p < length (ms_heap ms)" and "mex_msgID (ms_heap ms ! p) = i" and "mex_ok (ms_heap ms ! p)"
  using assms map_of_SomeD [OF assms(2)] by (auto simp: mexset_inv_def)

lemma heap_ok: "mexset_inv ms \<Longrightarrow> p < length (ms_heap ms) \<Longrightarrow> mex_ok (ms_heap ms ! p)"
  by (simp add: mexset_inv_def)

text \<open>Replacing an exchange by a later state of itself keeps the invariant.\<close>

lemma mexset_inv_update:
  assumes "mexset_inv ms" and "p < length (ms_heap ms)" and "mex_ok m'"
    and "mex_msgID m' = mex_msgID (ms_heap ms ! p)"
  shows "mexset_inv (ms\<lparr>ms_heap := (ms_heap ms)[p := m']\<rparr>)"
  using assms by (auto simp: mexset_inv_def nth_list_update dest: set_update_subset_insert [THEN subsetD])

lemma Notify_ok:
  assumes "mex_ok m" and "\<not> mex_errChNotified m"
  shows "Notify err (mex_errCh m) = Ret (None, \<lparr>en_closed = True, en_err = Some err, en_notified = True\<rparr>)"
  using assms by (simp add: Notify_def mex_ok_def Let_def)

lemma mex_shutdown_ok:
  assumes "mex_ok m"
  shows "\<exists>b m'. mex_shutdown m = Ret (b, m') \<and> mex_ok m' \<and> mex_msgID m' = mex_msgID m \<and> mex_shutdownAtomic m'"
proof (cases "mex_shutdownAtomic m")
  case True
  then show ?thesis using assms by (auto simp: mex_shutdown_def)
next
  case False
  let ?m = "m\<lparr>mex_shutdownAtomic := True\<rparr>"
  show ?thesis
  proof (cases "mex_errChNotified m")
    case True
    then show ?thesis using assms False by (auto simp: mex_shutdown_def mex_ok_def)
  next
    case not_notified: False
    have "Notify errMexShutdown (mex_errCh ?m) =
        Ret (None, \<lparr>en_closed = True, en_err = Some errMexShutdown, en_notified = True\<rparr>)"
      using Notify_ok [OF assms not_notified] by simp
    then show ?thesis using assms False not_notified by (auto simp: mex_shutdown_def mex_ok_def Let_def)
  qed
qed

lemma forward_select_ok:
  assumes "mex_ok m" and "forward_select c f m = Some (e, m')" and "fh_ID (fr_Header f) = mex_msgID m"
  shows "mex_ok m'" and "mex_msgID m' = mex_msgID m"
  using assms by (cases c; auto simp: forward_select_def Let_def mex_ok_def split: if_splits)+

lemma mex_forward_ok:
  assumes "mex_ok m" and "fh_ID (fr_Header f) = mex_msgID m"
  shows "mex_ok (snd (mex_forwardPeerFrame f m))" and "mex_msgID (snd (mex_forwardPeerFrame f m)) = mex_msgID m"
  using assms by (auto simp: mex_forwardPeerFrame_def forward_case_def forward_select_def Let_def mex_ok_def split: option.splits)

lemma recv_select_ok:
  assumes "mex_ok m" and "recv_select c m = Some (r, m')"
  shows "mex_ok m'" and "mex_msgID m' = mex_msgID m"
  using assms
  by (cases c; cases "mex_recvCh m"; auto simp: recv_select_def take_frame_def mex_ok_def split: if_splits)+

lemma mexset_inv_delete:
  assumes "mexset_inv ms"
  shows "mexset_inv (snd (deleteExchange i ms))"
proof -
  have "set (AList.delete i (ms_exchanges ms)) \<subseteq> set (ms_exchanges ms)"
    by (auto simp: AList.delete_eq)
  with assms show ?thesis
    by (auto simp: deleteExchange_def mexset_inv_def AList.distinct_delete distinct_removeAll)
qed

lemma mexset_inv_remove: "mexset_inv ms \<Longrightarrow> mexset_inv (snd (removeExchange i ms))"
  using mexset_inv_delete [of ms i] by (auto simp: removeExchange_def split: prod.split)

lemma mexset_inv_expire: "mexset_inv ms \<Longrightarrow> mexset_inv (snd (expireExchange i ms))"
  using mexset_inv_delete [of ms i] by (auto simp: expireExchange_def mexset_inv_def split: prod.split)

lemma mexset_inv_new:
  assumes "mexset_inv ms"
  shows "mexset_inv (snd (newExchange ctx ce mt i b ms))"
proof -
  let ?m = "\<lparr>mex_recvCh = [], mex_recvCap = b, mex_errCh = newErrNotifier, mex_ctx = ctx, mex_ctxEnd = ce,
      mex_msgID = i, mex_msgType = mt, mex_shutdownAtomic = False, mex_errChNotified = False\<rparr>"
  let ?ms = "ms\<lparr>ms_heap := ms_heap ms @ [?m]\<rparr>"
  have m: "mex_ok ?m" by (simp add: mex_ok_def newErrNotifier_def)
  have 1: "mexset_inv ?ms"
    using assms m by (fastforce simp: mexset_inv_def nth_append)
  moreover have "mexset_inv (?ms\<lparr>ms_exchanges := AList.update i (length (ms_heap ms)) (ms_exchanges ms)\<rparr>)"
    if "map_of (ms_exchanges ms) i = None"
  proof -
    have "AList.update i (length (ms_heap ms)) (ms_exchanges ms) = ms_exchanges ms @ [(i, length (ms_heap ms))]"
      using that put_all_fresh [of "ms_exchanges ms" "[(i, length (ms_heap ms))]"] assms
      by (simp add: mexset_inv_def map_of_eq_None_iff)
    then show ?thesis
      using 1 that by (auto simp: mexset_inv_def map_of_eq_None_iff)
  qed
  ultimately show ?thesis
    by (auto simp: newExchange_def addExchange_def Let_def)
qed

lemma mexset_inv_forward:
  assumes "mexset_inv ms"
  shows "mexset_inv (snd (mexset_forwardPeerFrame f ms))"
proof (cases "map_of (ms_exchanges ms) (fh_ID (fr_Header f))")
  case (Some p)
  note m = mexset_invD [OF assms Some]
  show ?thesis
    using mexset_inv_update [OF assms m(1)] mex_forward_ok [OF m(3), of f] m(2) Some
    by (simp add: mexset_forwardPeerFrame_def case_prod_unfold)
qed (use assms in \<open>simp add: mexset_forwardPeerFrame_def\<close>)

text \<open>What stopping does to the heap: the named exchanges are notified, and nothing else changes.\<close>

definition stopped :: "gerror \<Rightarrow> (uint32 \<times> nat) list \<Rightarrow> messageExchange list \<Rightarrow> messageExchange list \<Rightarrow> bool" where
  "stopped err ps heap heap' \<longleftrightarrow> length heap' = length heap \<and> (\<forall>m \<in> set heap'. mex_ok m) \<and>
     (\<forall>p < length heap. mex_msgID (heap' ! p) = mex_msgID (heap ! p) \<and>
        mex_recvCh (heap' ! p) = mex_recvCh (heap ! p) \<and> mex_ctx (heap' ! p) = mex_ctx (heap ! p) \<and>
        (mex_errChNotified (heap ! p) \<longrightarrow> heap' ! p = heap ! p)) \<and>
     (\<forall>(i, p) \<in> set ps. mex_errChNotified (heap' ! p) \<and>
        (\<not> mex_errChNotified (heap ! p) \<longrightarrow> en_err (mex_errCh (heap' ! p)) = Some err))"

lemma stop_all_ok:
  assumes "\<forall>m \<in> set heap. mex_ok m" and "\<forall>(i, p) \<in> set ps. p < length heap"
  shows "\<exists>heap'. stop_all err ps heap = Ret heap' \<and> stopped err ps heap heap'"
  using assms
proof (induction ps arbitrary: heap)
  case Nil
  then show ?case by (simp add: stopped_def)
next
  case (Cons ip ps)
  obtain i p where ip: "ip = (i, p)" by force
  have p: "p < length heap" "mex_ok (heap ! p)" using Cons.prems ip by auto
  show ?case
  proof (cases "mex_errChNotified (heap ! p)")
    case True
    obtain heap' where h: "stop_all err ps heap = Ret heap'" "stopped err ps heap heap'"
      using Cons.IH [of heap] Cons.prems by auto
    have "mex_errChNotified (heap' ! p)" using h(2) p(1) True by (simp add: stopped_def)
    with h True ip show ?thesis by (simp add: stopped_def)
  next
    case False
    let ?m = "(heap ! p)\<lparr>mex_errChNotified := True,
        mex_errCh := \<lparr>en_closed = True, en_err = Some err, en_notified = True\<rparr>\<rparr>"
    let ?heap = "heap[p := ?m]"
    have m: "mex_ok ?m" using p by (simp add: mex_ok_def)
    have all: "\<forall>m \<in> set ?heap. mex_ok m"
      using Cons.prems(1) m by (auto dest: set_update_subset_insert [THEN subsetD])
    have ptr: "\<forall>(i, q) \<in> set ps. q < length ?heap" using Cons.prems(2) by auto
    obtain heap' where h: "stop_all err ps ?heap = Ret heap'" "stopped err ps ?heap heap'"
      using Cons.IH [OF all ptr] by blast
    have same: "q < length heap \<Longrightarrow> q \<noteq> p \<Longrightarrow> ?heap ! q = heap ! q" for q by simp
    have hp: "heap' ! p = ?m" using h(2) p(1) by (simp add: stopped_def)
    have "stopped err (ip # ps) heap heap'"
      unfolding stopped_def
    proof (intro conjI allI impI, goal_cases)
      case 1
      then show ?case using h(2) by (simp add: stopped_def)
    next
      case 2
      then show ?case using h(2) by (simp add: stopped_def)
    next
      case (3 q)
      then show ?case using h(2) hp same [of q] by (cases "q = p") (simp_all add: stopped_def)
    next
      case (4 q)
      then show ?case using h(2) hp same [of q] by (cases "q = p") (simp_all add: stopped_def)
    next
      case (5 q)
      then show ?case using h(2) hp same [of q] by (cases "q = p") (simp_all add: stopped_def)
    next
      case (6 q)
      then show ?case using h(2) False same [of q] by (cases "q = p") (simp_all add: stopped_def)
    next
      case 7
      have "en_err (mex_errCh (heap' ! q)) = Some err" if "(j, q) \<in> set ps" "\<not> mex_errChNotified (heap ! q)" for j q
        using that h(2) hp Cons.prems(2) by (cases "q = p") (auto simp: stopped_def)
      then show ?case using h(2) hp ip by (auto simp: stopped_def)
    qed
    moreover have "stop_all err (ip # ps) heap = Ret heap'"
      using h(1) False ip by (simp add: Notify_ok [OF p(2) False] Let_def)
    ultimately show ?thesis by blast
  qed
qed

lemma stopExchanges_ok:
  assumes "mexset_inv ms"
  obtains ms' where "stopExchanges err ms = Ret ms'" and "mexset_inv ms'" and "ms_shutdown ms'"
    and "ms_exchanges ms' = ms_exchanges ms"
    and "\<not> ms_shutdown ms \<Longrightarrow> stopped err (ms_exchanges ms) (ms_heap ms) (ms_heap ms')"
proof (cases "ms_shutdown ms")
  case True
  then show ?thesis
    using that [of ms] assms by (simp add: stopExchanges_def copyExchanges_def)
next
  case False
  obtain heap' where h: "stop_all err (ms_exchanges ms) (ms_heap ms) = Ret heap'"
      "stopped err (ms_exchanges ms) (ms_heap ms) heap'"
    using stop_all_ok [of "ms_heap ms" "ms_exchanges ms" err] assms by (auto simp: mexset_inv_def)
  let ?ms = "ms\<lparr>ms_shutdown := True, ms_heap := heap'\<rparr>"
  have "stopExchanges err ms = Ret ?ms"
    using False h(1) by (simp add: stopExchanges_def copyExchanges_def Let_def)
  moreover have "mexset_inv ?ms"
    using assms h(2) by (auto simp: mexset_inv_def stopped_def)
  ultimately show ?thesis using that h(2) by simp
qed

lemma shutdown_exchange_ok:
  assumes "mexset_inv ms" and "p < length (ms_heap ms)"
  shows "\<exists>b ms'. shutdown_exchange p ms = Ret (b, ms') \<and> mexset_inv ms'"
proof -
  obtain b m' where m: "mex_shutdown (ms_heap ms ! p) = Ret (b, m')" "mex_ok m'"
      "mex_msgID m' = mex_msgID (ms_heap ms ! p)"
    using mex_shutdown_ok [OF heap_ok [OF assms]] by blast
  have "mexset_inv (ms\<lparr>ms_heap := (ms_heap ms)[p := m']\<rparr>)"
    using assms m by (intro mexset_inv_update)
  then show ?thesis
    using m(1) mexset_inv_remove [of "ms\<lparr>ms_heap := (ms_heap ms)[p := m']\<rparr>" "mex_msgID m'"]
    by (cases "removeExchange (mex_msgID m') (ms\<lparr>ms_heap := (ms_heap ms)[p := m']\<rparr>)"; cases b)
      (auto simp: shutdown_exchange_def Let_def)
qed

section \<open>Executions\<close>

text \<open>
  The steps that the goroutines of a connection take on one exchange set, in any order: the reader
  adds exchanges and forwards frames (any select case), callers receive, contexts end, handlers and
  callers shut exchanges down or let them expire, and a failing connection stops them all.
\<close>

inductive ms_step :: "messageExchangeSet \<Rightarrow> messageExchangeSet \<Rightarrow> bool" where
  step_new: "ms_step ms (snd (newExchange ctx ctxEnd mt i b ms))"
| step_forward: "map_of (ms_exchanges ms) (fh_ID (fr_Header f)) = Some p \<Longrightarrow>
    forward_select c f (ms_heap ms ! p) = Some (e, m') \<Longrightarrow>
    ms_step ms (ms\<lparr>ms_heap := (ms_heap ms)[p := m']\<rparr>)"
| step_forward_all: "ms_step ms (snd (mexset_forwardPeerFrame f ms))"
| step_recv: "p < length (ms_heap ms) \<Longrightarrow> recv_select c (ms_heap ms ! p) = Some (r, m') \<Longrightarrow>
    ms_step ms (ms\<lparr>ms_heap := (ms_heap ms)[p := m']\<rparr>)"
| step_done: "p < length (ms_heap ms) \<Longrightarrow>
    ms_step ms (ms\<lparr>ms_heap := (ms_heap ms)[p := (ms_heap ms ! p)\<lparr>mex_ctx := Some (mex_ctxEnd (ms_heap ms ! p))\<rparr>]\<rparr>)"
| step_shutdown: "p < length (ms_heap ms) \<Longrightarrow> shutdown_exchange p ms = Ret (b, ms') \<Longrightarrow> ms_step ms ms'"
| step_expired: "p < length (ms_heap ms) \<Longrightarrow> ms_step ms (snd (inboundExpired p ms))"
| step_remove: "ms_step ms (snd (removeExchange i ms))"
| step_stop: "stopExchanges err ms = Ret ms' \<Longrightarrow> ms_step ms ms'"

inductive ms_reach :: "messageExchangeSet \<Rightarrow> bool" where
  reach_new: "ms_reach newMessageExchangeSet"
| reach_step: "ms_reach ms \<Longrightarrow> ms_step ms ms' \<Longrightarrow> ms_reach ms'"

lemma ms_step_inv:
  assumes "ms_step ms ms'" and "mexset_inv ms"
  shows "mexset_inv ms'"
  using assms
proof (cases rule: ms_step.cases)
  case (step_forward f p c e m')
  note m = mexset_invD [OF assms(2) step_forward(2)]
  show ?thesis
    using mexset_inv_update [OF assms(2) m(1)] forward_select_ok [OF m(3) step_forward(3)] m(2)
    by (simp add: step_forward(1))
next
  case (step_recv p c r m')
  then show ?thesis
    using mexset_inv_update [OF assms(2)] recv_select_ok [OF heap_ok [OF assms(2)]] by metis
next
  case (step_done p)
  then show ?thesis
    using mexset_inv_update [OF assms(2) step_done(2)] heap_ok [OF assms(2) step_done(2)]
    by (simp add: mex_ok_def)
next
  case (step_shutdown p b)
  then show ?thesis using shutdown_exchange_ok [OF assms(2)] by fastforce
next
  case (step_stop err)
  obtain ms'' where "stopExchanges err ms = Ret ms''" "mexset_inv ms''"
    by (rule stopExchanges_ok [OF assms(2)])
  then show ?thesis using step_stop by simp
qed (use assms(2) in \<open>auto simp: mexset_inv_new mexset_inv_forward mexset_inv_expire mexset_inv_remove inboundExpired_def\<close>)

lemma ms_reach_inv: "ms_reach ms \<Longrightarrow> mexset_inv ms"
  by (induction rule: ms_reach.induct)
    (auto simp: newMessageExchangeSet_def mexset_inv_def [of "\<lparr>ms_exchanges = [], ms_expired = [], ms_shutdown = False, ms_heap = []\<rparr>"] dest: ms_step_inv)

text \<open>
  The outcomes of waits for a frame, one after the other, whose selects take the given cases; \<open>None\<close> if one of them takes a case that
  is not ready.
\<close>

fun recv_run :: "select_case list \<Rightarrow> messageExchange \<Rightarrow> (gerror + Frame) list option" where
  "recv_run [] m = Some []"
| "recv_run (c # cs) m =
     (case recv_case c m of
        None \<Rightarrow> None
      | Some (r, m') \<Rightarrow> map_option (\<lambda>rs. r # rs) (recv_run cs m'))"

text \<open>The frames that have arrived, and then the error of the exchange, whatever the selects choose.\<close>

lemma recv_case_notified:
  assumes "mex_ok m" and "mex_ctx m = None" and "mex_errChNotified m" and "c \<noteq> CaseDone"
  shows "recv_case c m =
    (case mex_recvCh m of
       [] \<Rightarrow> if c = CaseChan then None else Some (Inl (the (en_err (mex_errCh m))), m)
     | f # fs \<Rightarrow> Some (Inr f, m\<lparr>mex_recvCh := fs\<rparr>))"
  using assms by (cases c) (auto simp: recv_case_def recv_select_def take_frame_def mex_ok_def checkFrame_def split: list.splits)

lemma recv_run_drain:
  assumes "mex_ok m" and "mex_ctx m = None" and "mex_errChNotified m" and "CaseDone \<notin> set cs" and "recv_run cs m = Some rs"
  shows "rs = take (length cs) (map Inr (mex_recvCh m) @ replicate (length cs) (Inl (the (en_err (mex_errCh m)))))"
  using assms
proof (induction cs arbitrary: m rs)
  case (Cons c cs)
  have c: "c \<noteq> CaseDone" using Cons.prems(4) by auto
  note rc = recv_case_notified [OF Cons.prems(1-3) c]
  show ?case
  proof (cases "mex_recvCh m")
    case Nil
    with Cons.prems(5) rc obtain rs' where "recv_run cs m = Some rs'" "rs = Inl (the (en_err (mex_errCh m))) # rs'"
      by (auto split: if_splits)
    with Cons.IH [of m rs'] Cons.prems(1-4) Nil show ?thesis by (simp add: take_replicate)
  next
    case (Cons f fs)
    let ?m = "m\<lparr>mex_recvCh := fs\<rparr>"
    have ok: "mex_ok ?m" using Cons.prems(1) Cons by (simp add: mex_ok_def)
    from Cons.prems(5) rc Cons obtain rs' where "recv_run cs ?m = Some rs'" "rs = Inr f # rs'" by auto
    with Cons.IH [OF ok, of rs'] Cons.prems(2-4) Cons show ?thesis
      by (simp del: replicate_Suc add: take_replicate min_def)
  qed
qed simp

lemma recv_run_ready:
  assumes "mex_ok m" and "mex_ctx m = None" and "mex_errChNotified m"
  shows "\<exists>rs. recv_run (replicate n CaseErr) m = Some rs"
  using assms
proof (induction n arbitrary: m)
  case (Suc n)
  show ?case
  proof (cases "mex_recvCh m")
    case Nil
    then show ?thesis using recv_case_notified [OF Suc.prems, of CaseErr] Suc.IH [OF Suc.prems] by auto
  next
    case (Cons f fs)
    then have "mex_ok (m\<lparr>mex_recvCh := fs\<rparr>)" using Suc.prems(1) by (simp add: mex_ok_def)
    then show ?thesis using recv_case_notified [OF Suc.prems, of CaseErr] Suc.IH [of "m\<lparr>mex_recvCh := fs\<rparr>"] Suc.prems(2,3) Cons by auto
  qed
qed simp

section \<open>Properties\<close>

text \<open>
  C18: whatever the interleaving of the goroutines that use an exchange set, its invariant holds: every
  registered id leads to the exchange with that id, an exchange only ever holds frames of its own
  id and never more than its buffer takes, and its error channel is notified at most once. So
  neither shutting an exchange down nor stopping them all panics.
\<close>

theorem mexset_safe:
  assumes "ms_reach ms"
  shows "mexset_inv ms \<and> stopExchanges err ms \<noteq> Panic \<and>
    (\<forall>p < length (ms_heap ms). shutdown_exchange p ms \<noteq> Panic)"
proof -
  have inv: "mexset_inv ms" by (rule ms_reach_inv [OF assms])
  obtain ms' where "stopExchanges err ms = Ret ms'" by (rule stopExchanges_ok [OF inv])
  then show ?thesis
    using inv shutdown_exchange_ok [OF inv] by (metis go.distinct(1))
qed

theorem mexset_safe_witness:
  "mexset_inv (snd (newExchange None DeadlineExceeded messageTypeCallReq 1 2 newMessageExchangeSet)) \<and>
   stopExchanges ioEOF (snd (newExchange None DeadlineExceeded messageTypeCallReq 1 2 newMessageExchangeSet)) \<noteq> Panic"
  using mexset_safe [OF reach_step [OF reach_new step_new]] by blast


text \<open>
  C20: a connection failure loses no frame that had arrived. After the exchanges are stopped, the caller of any registered
  exchange whose context lasts never blocks; whichever ready cases its selects take, it receives the frames that were
  queued for it, in order, and then only the error, which is that of the failure unless the exchange had failed before. And
  no exchange can be added any more.
\<close>

theorem stop_drains:
  assumes "ms_reach ms" and "\<not> ms_shutdown ms" and "map_of (ms_exchanges ms) i = Some p"
    and "mex_ctx (ms_heap ms ! p) = None" and "stopExchanges err ms = Ret ms'"
  shows "(\<exists>e. (\<forall>cs rs. CaseDone \<notin> set cs \<and> recv_run cs (ms_heap ms' ! p) = Some rs \<longrightarrow>
          rs = take (length cs) (map Inr (mex_recvCh (ms_heap ms ! p)) @ replicate (length cs) (Inl e))) \<and>
        (\<not> mex_errChNotified (ms_heap ms ! p) \<longrightarrow> e = err)) \<and>
    (\<forall>n. recv_run (replicate n CaseErr) (ms_heap ms' ! p) \<noteq> None) \<and>
    fst (newExchange ctx ctxEnd mt j b ms') = Inl errMexSetShutdown"
proof -
  have inv: "mexset_inv ms" by (rule ms_reach_inv [OF assms(1)])
  obtain ms'' where "stopExchanges err ms = Ret ms''" "mexset_inv ms''" "ms_shutdown ms''"
      "\<not> ms_shutdown ms \<Longrightarrow> stopped err (ms_exchanges ms) (ms_heap ms) (ms_heap ms'')"
    using stopExchanges_ok [OF inv] by metis
  then have ms': "mexset_inv ms'" "ms_shutdown ms'" "stopped err (ms_exchanges ms) (ms_heap ms) (ms_heap ms')"
    using assms(2,5) by simp_all
  have p: "p < length (ms_heap ms)" using mexset_invD [OF inv assms(3)] by simp
  have "(i, p) \<in> set (ms_exchanges ms)" using assms(3) by (rule map_of_SomeD)
  then have m: "mex_ok (ms_heap ms' ! p)" "mex_ctx (ms_heap ms' ! p) = None" "mex_errChNotified (ms_heap ms' ! p)"
      "mex_recvCh (ms_heap ms' ! p) = mex_recvCh (ms_heap ms ! p)"
      "\<not> mex_errChNotified (ms_heap ms ! p) \<longrightarrow> en_err (mex_errCh (ms_heap ms' ! p)) = Some err"
    using ms'(3) p assms(4) by (auto simp: stopped_def)
  have new: "fst (newExchange ctx ctxEnd mt j b ms') = Inl errMexSetShutdown"
    using ms'(2) by (simp add: newExchange_def addExchange_def Let_def)
  have "recv_run (replicate n CaseErr) (ms_heap ms' ! p) \<noteq> None" for n using recv_run_ready [OF m(1-3), of n] by auto
  with new show ?thesis
    using recv_run_drain [OF m(1-3)] m(4,5) by (intro conjI exI [of _ "the (en_err (mex_errCh (ms_heap ms' ! p)))"]) auto
qed

text \<open>An exchange set with one exchange, id 1, into which one frame has been forwarded.\<close>

definition exampleFrame :: Frame where
  "exampleFrame = (NewFrame 0)\<lparr>fr_Header := zeroHeader\<lparr>fh_ID := 1, fh_messageType := messageTypeCallRes\<rparr>\<rparr>"

definition exampleSet :: messageExchangeSet where
  "exampleSet = snd (newExchange None DeadlineExceeded messageTypeCallReq 1 2 newMessageExchangeSet)"

lemma exampleSet_simps:
  "ms_exchanges exampleSet = [(1, 0)]" "\<not> ms_shutdown exampleSet" "mex_ctx (ms_heap exampleSet ! 0) = None"
  "mex_recvCh (ms_heap exampleSet ! 0) = []" "mex_recvCap (ms_heap exampleSet ! 0) = 2" "ms_reach exampleSet"
  using reach_step [OF reach_new step_new]
  by (simp_all add: exampleSet_def newExchange_def addExchange_def newMessageExchangeSet_def)

lemma exampleSet_forward:
  "mexset_forwardPeerFrame exampleFrame exampleSet =
     (None, exampleSet\<lparr>ms_heap := [(ms_heap exampleSet ! 0)\<lparr>mex_recvCh := [exampleFrame]\<rparr>]\<rparr>)"
  by (simp add: exampleFrame_def mexset_forwardPeerFrame_def mex_forwardPeerFrame_def forward_case_def forward_select_def
      exampleSet_def newExchange_def addExchange_def newMessageExchangeSet_def)


theorem stop_drains_witness:
  "\<exists>ms'. stopExchanges ioEOF (snd (mexset_forwardPeerFrame exampleFrame exampleSet)) = Ret ms' \<and>
    recv_run [CaseErr, CaseErr] (ms_heap ms' ! 0) = Some [Inr exampleFrame, Inl ioEOF]"
proof -
  let ?ms = "snd (mexset_forwardPeerFrame exampleFrame exampleSet)"
  have reach: "ms_reach ?ms" by (rule reach_step [OF exampleSet_simps(6) step_forward_all])
  have p: "map_of (ms_exchanges ?ms) 1 = Some 0" "\<not> ms_shutdown ?ms" "mex_ctx (ms_heap ?ms ! 0) = None"
      "mex_recvCh (ms_heap ?ms ! 0) = [exampleFrame]" "\<not> mex_errChNotified (ms_heap ?ms ! 0)"
    by (simp_all add: exampleSet_forward exampleSet_simps)
      (simp add: exampleSet_def newExchange_def addExchange_def newMessageExchangeSet_def)
  obtain ms' where ms': "stopExchanges ioEOF ?ms = Ret ms'"
    by (rule stopExchanges_ok [OF ms_reach_inv [OF reach]])
  note d = stop_drains [OF reach p(2,1,3) ms']
  then have "recv_run (replicate 2 CaseErr) (ms_heap ms' ! 0) \<noteq> None" by blast
  then obtain rs where rs: "recv_run [CaseErr, CaseErr] (ms_heap ms' ! 0) = Some rs" by (auto simp: numeral_2_eq_2)
  have "rs = [Inr exampleFrame, Inl ioEOF]"
    using d [THEN conjunct1] rs p(4,5) by (elim exE conjE allE [of _ "[CaseErr, CaseErr]"] allE [of _ rs]) simp
  with ms' rs show ?thesis by blast
qed

end
