(* ===== verification/Req_Res.thy ===== *)
theory Req_Res
  imports Fragmenting_Reader Mex
begin

text \<open>
  The request and response halves of a call, from \<^verbatim>\<open>reqres.go\<close>, with the argument helpers of \<^verbatim>\<open>arguments.go\<close>
  and the ends of \<^verbatim>\<open>InboundCall\<close>, \<^verbatim>\<open>InboundCallResponse\<close>, \<^verbatim>\<open>OutboundCall\<close> and \<^verbatim>\<open>OutboundCallResponse\<close>. A
  \<^verbatim>\<open>reqResWriter\<close> is the sender of its own fragmenting writer and a \<^verbatim>\<open>reqResReader\<close> the receiver of its own
  reader, so their other fields are the state of that sender and receiver.
  \<open>rs_sendCh\<close> are the frames this call has put into the connection's send channel. \<open>rs_wait\<close> says how a send
  ends: the channel takes the frame, or it stays full until the context ends or the exchange is notified
  of an error.
  \<open>rs_pool\<close> are the frames that the calls of \<^verbatim>\<open>FramePool.Get\<close> return, \<open>rs_gets\<close> counts these calls.
\<close>

section \<open>Writing\<close>

datatype send_wait = SendNow | SendDone | SendErr gerror

record reqResSender =
  rs_mex :: messageExchange
  rs_err :: "gerror option"
  rs_sendCh :: "Frame list"
  rs_wait :: send_wait
  rs_messageForFragment :: "bool \<Rightarrow> message"
  rs_pool :: "nat \<Rightarrow> Frame"
  rs_gets :: nat

definition sender_failed :: "gerror \<Rightarrow> reqResSender \<Rightarrow> (gerror \<times> reqResSender) go" where
  "sender_failed err w =
     (case rs_err w of
        Some e \<Rightarrow> Ret (e, w)
      | None \<Rightarrow> go_bind (mex_shutdown (rs_mex w)) (\<lambda>(_, m). Ret (err, w\<lparr>rs_mex := m, rs_err := Some err\<rparr>)))"

text \<open>The methods of the messages without a body return nil whatever the state of the buffer.\<close>

fun has_body :: "message \<Rightarrow> bool" where
  "has_body (CallReqContinue _) = False"
| "has_body (CallResContinue _) = False"
| "has_body (PingReq _) = False"
| "has_body (PingRes _) = False"
| "has_body _ = True"

definition reqRes_newFragment ::
  "bool \<Rightarrow> Checksum \<Rightarrow> reqResSender \<Rightarrow>
   ((writableFragment option \<times> gerror option) \<times> reqResSender) go" where
  "reqRes_newFragment initial checksum w =
     (case checkError (rs_mex w) of
        Some err \<Rightarrow> go_bind (sender_failed err w) (\<lambda>(e, w'). Ret ((None, Some e), w'))
      | None \<Rightarrow>
          (let message = rs_messageForFragment w initial;
               frame0 = rs_pool w (rs_gets w);
               w1 = w\<lparr>rs_gets := rs_gets w + 1\<rparr>;
               frame = frame0\<lparr>fr_Header := (fr_Header frame0)\<lparr>fh_ID := mex_msgID (rs_mex w),
                         fh_messageType := message_messageType message\<rparr>\<rparr>;
               (flagsRef, wbuf1) = DeferByte (NewWriteBuffer (fr_Payload frame));
               wbuf2 = message_write message wbuf1
           in if has_body message \<and> wb_err wbuf2 \<noteq> None then Ret ((None, wb_err wbuf2), w1)
              else
                (let wbuf3 = WriteSingleByte (TypeCode checksum) wbuf2;
                     (checksumRef, wbuf4) = DeferBytes (Checksum_Size checksum) wbuf3
                 in Ret ((Some \<lparr>wf_flagsRef = flagsRef, wf_checksumRef = checksumRef, wf_contents = wbuf4,
                                wf_frame = frame\<rparr>, wb_err wbuf4), w1))))"

text \<open>The frame that goes out for a fragment.\<close>

definition out_frame :: "writableFragment \<Rightarrow> Frame" where
  "out_frame f =
     (let frame = fragment_frame f
      in frame\<lparr>fr_Header := SetPayloadSize (of_nat (BytesWritten (wf_contents f))) (fr_Header frame)\<rparr>)"

definition reqRes_flushFragment :: "writableFragment \<Rightarrow> reqResSender \<Rightarrow> (gerror option \<times> reqResSender) go" where
  "reqRes_flushFragment fragment w =
     (case rs_err w of
        Some e \<Rightarrow> Ret (Some e, w)
      | None \<Rightarrow>
          (case checkError (rs_mex w) of
             Some err \<Rightarrow> go_bind (sender_failed err w) (\<lambda>(e, w'). Ret (Some e, w'))
           | None \<Rightarrow>
               (case rs_wait w of
                  SendNow \<Rightarrow> Ret (None, w\<lparr>rs_sendCh := rs_sendCh w @ [out_frame fragment]\<rparr>)
                | SendDone \<Rightarrow>
                    (let end = mex_ctxEnd (rs_mex w);
                         w1 = w\<lparr>rs_mex := (rs_mex w)\<lparr>mex_ctx := Some end\<rparr>\<rparr>
                     in go_bind (sender_failed (GetContextError end) w1) (\<lambda>(e, w'). Ret (Some e, w')))
                | SendErr err \<Rightarrow>
                    (let w1 = w\<lparr>rs_mex := (rs_mex w)\<lparr>mex_errChNotified := True,
                                mex_errCh := \<lparr>en_closed = True, en_err = Some err, en_notified = True\<rparr>\<rparr>\<rparr>
                     in go_bind (sender_failed err w1) (\<lambda>(e, w'). Ret (Some e, w'))))))"

text \<open>
  The end of sending: nothing for an outbound call. An inbound response cancels the context of the
  call and, if nothing failed, shuts its exchange down.
\<close>

definition OutboundCall_doneSending :: "reqResSender \<Rightarrow> reqResSender go" where
  "OutboundCall_doneSending w = Ret w"

definition cancel_ctx :: "messageExchange \<Rightarrow> messageExchange" where
  "cancel_ctx m = (if mex_ctx m = None then m\<lparr>mex_ctx := Some Canceled\<rparr> else m)"

definition InboundCallResponse_doneSending :: "reqResSender \<Rightarrow> reqResSender go" where
  "InboundCallResponse_doneSending w =
     (let m = cancel_ctx (rs_mex w)
      in if rs_err w = None then go_bind (mex_shutdown m) (\<lambda>(_, m'). Ret (w\<lparr>rs_mex := m'\<rparr>))
         else Ret (w\<lparr>rs_mex := m\<rparr>))"

definition reqRes_sender ::
  "(reqResSender \<Rightarrow> reqResSender go) \<Rightarrow> reqResSender fragmentSender" where
  "reqRes_sender done =
     \<lparr>newFragment = reqRes_newFragment, flushFragment = reqRes_flushFragment,
      doneSending = done\<rparr>"

record reqResWriter =
  rw_contents :: "reqResSender fragmentingWriter"
  rw_state :: reqResWriterState

abbreviation rw_failed :: "gerror \<Rightarrow> reqResWriter \<Rightarrow> (gerror option \<times> reqResWriter) go" where
  "rw_failed err w \<equiv>
     go_bind (sender_failed err (fw_sender (rw_contents w))) (\<lambda>(e, s).
       Ret (Some e, w\<lparr>rw_contents := (rw_contents w)\<lparr>fw_sender := s\<rparr>\<rparr>))"

definition argWriter ::
  "reqResSender fragmentSender \<Rightarrow> bool \<Rightarrow> reqResWriterState \<Rightarrow> reqResWriterState \<Rightarrow> reqResWriter \<Rightarrow>
   (gerror option \<times> reqResWriter) go" where
  "argWriter ops isLast inState outState w =
     (case rs_err (fw_sender (rw_contents w)) of
        Some e \<Rightarrow> Ret (Some e, w)
      | None \<Rightarrow>
          if rw_state w \<noteq> inState then rw_failed (ErrReqResWriterStateMismatch (rw_state w) inState) w
          else
            go_bind (fw_BeginArgument ops isLast (rw_contents w)) (\<lambda>(e, c).
              let w1 = w\<lparr>rw_contents := c\<rparr>
              in case e of
                   Some err \<Rightarrow> rw_failed err w1
                 | None \<Rightarrow> Ret (None, w1\<lparr>rw_state := outState\<rparr>)))"

definition arg1Writer where
  "arg1Writer ops w = argWriter ops False reqResWriterPreArg1 reqResWriterPreArg2 w"
definition arg2Writer where
  "arg2Writer ops w = argWriter ops False reqResWriterPreArg2 reqResWriterPreArg3 w"
definition arg3Writer where
  "arg3Writer ops w = argWriter ops True reqResWriterPreArg3 reqResWriterComplete w"

text \<open>\<^verbatim>\<open>ArgWriteHelper.Write\<close> on what an \<^verbatim>\<open>ArgXWriter\<close> call returned.\<close>

definition ArgWriteHelper_Write ::
  "reqResSender fragmentSender \<Rightarrow> byte list \<Rightarrow> (gerror option \<times> reqResWriter) go \<Rightarrow>
   (gerror option \<times> reqResWriter) go option" where
  "ArgWriteHelper_Write ops bs aw =
     (case aw of
        Panic \<Rightarrow> Some Panic
      | Ret (Some e, w) \<Rightarrow> Some (Ret (Some e, w))
      | Ret (None, w) \<Rightarrow>
          (case fw_Write ops bs (rw_contents w) of
             None \<Rightarrow> None
           | Some Panic \<Rightarrow> Some Panic
           | Some (Ret ((n, Some e), c)) \<Rightarrow> Some (Ret (Some e, w\<lparr>rw_contents := c\<rparr>))
           | Some (Ret ((n, None), c)) \<Rightarrow>
               Some (go_bind (fw_Close ops c) (\<lambda>(e, c'). Ret (e, w\<lparr>rw_contents := c'\<rparr>)))))"

text \<open>
  A call that writes its three arguments: arg1 in \<^verbatim>\<open>writeMethod\<close> or, for a response, in \<^verbatim>\<open>Arg2Writer\<close>;
  arg2 and arg3 as \<^verbatim>\<open>raw.WriteArgs\<close> and \<^verbatim>\<open>raw.WriteResponse\<close> write them.
\<close>

definition newReqResWriter :: "reqResSender \<Rightarrow> Checksum \<Rightarrow> reqResWriter" where
  "newReqResWriter s c = \<lparr>rw_contents = newFragmentingWriter s c, rw_state = reqResWriterPreArg1\<rparr>"

definition write_call ::
  "reqResSender fragmentSender \<Rightarrow> byte list \<Rightarrow> byte list \<Rightarrow> byte list \<Rightarrow> reqResWriter \<Rightarrow>
   (gerror option \<times> reqResWriter) go option" where
  "write_call ops arg1 arg2 arg3 w =
     (case ArgWriteHelper_Write ops arg1 (arg1Writer ops w) of
        Some (Ret (None, w1)) \<Rightarrow>
          (case ArgWriteHelper_Write ops arg2 (arg2Writer ops w1) of
             Some (Ret (None, w2)) \<Rightarrow> ArgWriteHelper_Write ops arg3 (arg3Writer ops w2)
           | res \<Rightarrow> res)
      | res \<Rightarrow> res)"

section \<open>Reading\<close>

text \<open>
  \<open>rcv_frames\<close> gives the frame behind each fragment object, \<open>rcv_done\<close> the fragments whose \<^verbatim>\<open>done\<close> was called and
  \<open>rcv_released\<close> the frames given back to the pool, in order. \<open>rcv_msg\<close> is the message that was read from the
  initial fragment: for a response, its \<^verbatim>\<open>callRes\<close>. \<open>rcv_arriving\<close> are the frames of this call that the
  goroutine which reads the connection has yet to forward to the exchange; it does so, as far as the
  channel of the exchange has room, before the call receives (\<open>arrive\<close>).
\<close>

record reqResReceiver =
  rcv_mex :: messageExchange
  rcv_err :: "gerror option"
  rcv_messageForFragment :: "bool \<Rightarrow> message"
  rcv_initialFragment :: "readableFragment option"
  rcv_previousFragment :: "readableFragment option"
  rcv_frames :: "Frame list"
  rcv_done :: "nat list"
  rcv_released :: "Frame list"
  rcv_msg :: message
  rcv_arriving :: "Frame list"

definition receiver_failed :: "gerror \<Rightarrow> reqResReceiver \<Rightarrow> (gerror \<times> reqResReceiver) go" where
  "receiver_failed err r =
     (case rcv_err r of
        Some e \<Rightarrow> Ret (e, r)
      | None \<Rightarrow> go_bind (mex_shutdown (rcv_mex r)) (\<lambda>(_, m). Ret (err, r\<lparr>rcv_mex := m, rcv_err := Some err\<rparr>)))"

definition parseInboundFragment :: "nat \<Rightarrow> Frame \<Rightarrow> message \<Rightarrow> ((gerror + readableFragment) \<times> message) go" where
  "parseInboundFragment i frame message =
     go_bind (SizedPayload frame) (\<lambda>p.
       (let (flags, r1) = ReadSingleByte (NewReadBuffer p);
            (m, r2) = message_read message r1
        in case (if has_body message then rb_err r2 else None) of
             Some err \<Rightarrow> Ret (Inl err, m)
           | None \<Rightarrow>
               (let (t, r3) = ReadSingleByte r2
                in if \<not> ChecksumType_valid t then Ret (Inl errInvalidChecksumType, m)
                   else
                     (let (ck, r4) = ReadBytes (ChecksumSize t) r3
                      in case rb_err r4 of
                           Some err \<Rightarrow> Ret (Inl err, m)
                         | None \<Rightarrow>
                             Ret (Inr \<lparr>rf_id = i, rf_flags = flags, rf_checksumType = t,
                                       rf_checksum = (case ck of Some b \<Rightarrow> b | None \<Rightarrow> []),
                                       rf_contents = r4\<rparr>, m)))))"

definition readableFragment_done :: "readableFragment \<Rightarrow> reqResReceiver \<Rightarrow> reqResReceiver" where
  "readableFragment_done f r =
     (if rf_id f \<in> set (rcv_done r) then r
      else r\<lparr>rcv_released := rcv_released r @ [rcv_frames r ! rf_id f], rcv_done := rf_id f # rcv_done r\<rparr>)"

definition reqRes_recvNextFragment ::
  "bool \<Rightarrow> reqResReceiver \<Rightarrow> ((readableFragment option \<times> gerror option) \<times> reqResReceiver) go" where
  "reqRes_recvNextFragment initial r =
     (case rcv_initialFragment r of
        Some fragment \<Rightarrow>
          Ret ((Some fragment, None), r\<lparr>rcv_initialFragment := None, rcv_previousFragment := Some fragment\<rparr>)
      | None \<Rightarrow>
          (let message = rcv_messageForFragment r initial
           in go_bind (recvPeerFrameOfType (message_messageType message) (rcv_mex r)) (\<lambda>(res, rel, m).
                let r1 = r\<lparr>rcv_mex := m,
                           rcv_released := rcv_released r @ (case rel of Some f \<Rightarrow> [f] | None \<Rightarrow> [])\<rparr>
                in case res of
                     Inl (ErrorMessage i code tracing msg) \<Rightarrow>
                       Ret ((None, Some (ErrorMessage i code tracing msg)),
                            r1\<lparr>rcv_err := Some (AsSystemError code msg)\<rparr>)
                   | Inl err \<Rightarrow> go_bind (receiver_failed err r1) (\<lambda>(e, r2). Ret ((None, Some e), r2))
                   | Inr frame \<Rightarrow>
                       go_bind (parseInboundFragment (length (rcv_frames r1)) frame message) (\<lambda>(pr, msg).
                         let r2 = r1\<lparr>rcv_frames := rcv_frames r1 @ [frame],
                                     rcv_msg := (if initial then msg else rcv_msg r1)\<rparr>
                         in case pr of
                              Inl err \<Rightarrow> go_bind (receiver_failed err r2) (\<lambda>(e, r3). Ret ((None, Some e), r3))
                            | Inr fragment \<Rightarrow>
                                Ret ((Some fragment, None), r2\<lparr>rcv_previousFragment := Some fragment\<rparr>)))))"

definition releasePreviousFragment :: "reqResReceiver \<Rightarrow> reqResReceiver" where
  "releasePreviousFragment r =
     (let r1 = r\<lparr>rcv_previousFragment := None\<rparr>
      in case rcv_previousFragment r of None \<Rightarrow> r1 | Some f \<Rightarrow> readableFragment_done f r1)"

text \<open>
  The end of reading: nothing for an inbound call. An outbound response shuts its exchange down;
  the statistics and the tracing span it also reports are not part of the model.
\<close>

definition InboundCall_doneReading :: "gerror option \<Rightarrow> reqResReceiver \<Rightarrow> reqResReceiver go" where
  "InboundCall_doneReading unexpected r = Ret r"

definition OutboundCallResponse_doneReading :: "gerror option \<Rightarrow> reqResReceiver \<Rightarrow> reqResReceiver go" where
  "OutboundCallResponse_doneReading unexpected r =
     go_bind (mex_shutdown (rcv_mex r)) (\<lambda>(_, m). Ret (r\<lparr>rcv_mex := m\<rparr>))"

fun forward_waiting :: "Frame list \<Rightarrow> messageExchange \<Rightarrow> Frame list \<times> messageExchange" where
  "forward_waiting [] m = ([], m)"
| "forward_waiting (f # fs) m =
     (if forward_case CaseChan f m = None \<and> forward_case CaseErr f m = None then (f # fs, m)
      else forward_waiting fs (snd (mex_forwardPeerFrame f m)))"

definition arrive :: "reqResReceiver \<Rightarrow> reqResReceiver" where
  "arrive r =
     (case forward_waiting (rcv_arriving r) (rcv_mex r) of
        (fs, m) \<Rightarrow> r\<lparr>rcv_arriving := fs, rcv_mex := m\<rparr>)"

definition reqRes_receiver ::
  "(gerror option \<Rightarrow> reqResReceiver \<Rightarrow> reqResReceiver go) \<Rightarrow> reqResReceiver fragmentReceiver" where
  "reqRes_receiver done =
     \<lparr>recvNextFragment = \<lambda>initial r. reqRes_recvNextFragment initial (arrive r), fragmentDone = readableFragment_done,
      doneReading = done\<rparr>"

record reqResReader =
  rr_contents :: "reqResReceiver fragmentingReader"
  rr_state :: reqResReaderState

abbreviation rr_failed :: "gerror \<Rightarrow> reqResReader \<Rightarrow> (gerror option \<times> reqResReader) go" where
  "rr_failed err r \<equiv>
     go_bind (receiver_failed err (fr_receiver (rr_contents r))) (\<lambda>(e, s).
       Ret (Some e, r\<lparr>rr_contents := (rr_contents r)\<lparr>fr_receiver := s\<rparr>\<rparr>))"

definition argReader ::
  "reqResReceiver fragmentReceiver \<Rightarrow> bool \<Rightarrow> reqResReaderState \<Rightarrow> reqResReaderState \<Rightarrow> reqResReader \<Rightarrow>
   (gerror option \<times> reqResReader) go" where
  "argReader ops isLast inState outState r =
     (if rr_state r \<noteq> inState then rr_failed (ErrReqResReaderStateMismatch (rr_state r) inState) r
      else
        go_bind (fr_BeginArgument ops isLast (rr_contents r)) (\<lambda>(e, c).
          let r1 = r\<lparr>rr_contents := c\<rparr>
          in case e of
               Some err \<Rightarrow> rr_failed err r1
             | None \<Rightarrow> Ret (None, r1\<lparr>rr_state := outState\<rparr>)))"

definition arg1Reader where
  "arg1Reader ops r = argReader ops False reqResReaderPreArg1 reqResReaderPreArg2 r"
definition arg2Reader where
  "arg2Reader ops r = argReader ops False reqResReaderPreArg2 reqResReaderPreArg3 r"
definition arg3Reader where
  "arg3Reader ops r = argReader ops True reqResReaderPreArg3 reqResReaderComplete r"

text \<open>\<^verbatim>\<open>NewArgReader(r.argXReader()).Read(&bs)\<close>.\<close>

definition read_arg ::
  "reqResReceiver fragmentReceiver \<Rightarrow> (nat \<Rightarrow> nat) \<Rightarrow> (gerror option \<times> reqResReader) go \<Rightarrow>
   ((byte list \<times> gerror option) \<times> reqResReader) go option" where
  "read_arg ops sz ar =
     (case ar of
        Panic \<Rightarrow> Some Panic
      | Ret (err, r) \<Rightarrow>
          (case ArgReadHelper_Read ops sz err (rr_contents r) of
             None \<Rightarrow> None
           | Some Panic \<Rightarrow> Some Panic
           | Some (Ret (res, c)) \<Rightarrow> Some (Ret (res, r\<lparr>rr_contents := c\<rparr>))))"

text \<open>
  The three arguments of a call read in turn, arg1 by \<^verbatim>\<open>readMethod\<close> or, for a response, by \<^verbatim>\<open>Arg2Reader\<close>,
  the others as \<^verbatim>\<open>raw.ReadArgsV2\<close> reads them.
\<close>

definition newReqResReader :: "reqResReceiver \<Rightarrow> reqResReader" where
  "newReqResReader s = \<lparr>rr_contents = newFragmentingReader s, rr_state = reqResReaderPreArg1\<rparr>"

definition read_call ::
  "reqResReceiver fragmentReceiver \<Rightarrow> (nat \<Rightarrow> nat) \<Rightarrow> reqResReader \<Rightarrow>
   ((byte list list \<times> gerror option) \<times> reqResReader) go option" where
  "read_call ops sz r =
     (case read_arg ops sz (arg1Reader ops r) of
        None \<Rightarrow> None | Some Panic \<Rightarrow> Some Panic
      | Some (Ret ((a1, Some e), r1)) \<Rightarrow> Some (Ret (([], Some e), r1))
      | Some (Ret ((a1, None), r1)) \<Rightarrow>
          (case read_arg ops sz (arg2Reader ops r1) of
             None \<Rightarrow> None | Some Panic \<Rightarrow> Some Panic
           | Some (Ret ((a2, Some e), r2)) \<Rightarrow> Some (Ret (([], Some e), r2))
           | Some (Ret ((a2, None), r2)) \<Rightarrow>
               (case read_arg ops sz (arg3Reader ops r2) of
                  None \<Rightarrow> None | Some Panic \<Rightarrow> Some Panic
                | Some (Ret ((a3, Some e), r3)) \<Rightarrow> Some (Ret (([], Some e), r3))
                | Some (Ret ((a3, None), r3)) \<Rightarrow> Some (Ret (([a1, a2, a3], None), r3)))))"

section \<open>A call in good order keeps the contract of a fragment sender\<close>

text \<open>
  \<open>sender_ok m mx\<close>: nothing has failed, the pool gives proper frames, and the messages \<open>m\<close> of the call
  with the exchange \<open>mx\<close> leave enough room for its arguments.
\<close>

definition sender_ok :: "(bool \<Rightarrow> message) \<Rightarrow> messageExchange \<Rightarrow> reqResSender \<Rightarrow> bool" where
  "sender_ok m mx s \<longleftrightarrow> rs_err s = None \<and> rs_mex s = mx \<and> mex_ok mx \<and> checkError mx = None \<and> rs_wait s = SendNow \<and>
     rs_messageForFragment s = m \<and> (\<forall>k. frame_inv (rs_pool s k)) \<and>
     (\<forall>b. valid_message (m b) \<and> length (enc_message (m b)) + 10 < MaxFramePayloadSize)"

definition frame_for :: "(bool \<Rightarrow> message) \<Rightarrow> uint32 \<Rightarrow> bool \<Rightarrow> Frame \<Rightarrow> bool" where
  "frame_for m i b f \<longleftrightarrow> frame_inv f \<and> fh_ID (fr_Header f) = i \<and>
     fh_messageType (fr_Header f) = message_messageType (m b)"

lemma DeferByte_fits:
  assumes "wb_inv w" and "0 < wb_BytesRemaining w"
  shows "DeferByte w = (Some (wb_pos w, wb_BytesRemaining w), wb_append [0] w)"
  using assms by (simp add: DeferByte_def wb_append_def)

lemma Checksum_Size_le: "Checksum_Size c \<le> 4"
  by (cases c) simp_all

lemma reqRes_newFragment_ok:
  assumes "sender_ok m mx s"
  shows "\<exists>f s'. reqRes_newFragment b cks s = Ret ((Some f, None), s') \<and> sender_ok m mx s' \<and>
    rs_sendCh s' = rs_sendCh s \<and>
    frag_is (frame_for m (mex_msgID mx) b) f 0 (enc_message (m b) @ [TypeCode cks]) (replicate (Checksum_Size cks) 0) [] \<and> 4 < room f"
proof -
  let ?f0 = "rs_pool s (rs_gets s)"
  let ?fr = "?f0\<lparr>fr_Header := (fr_Header ?f0)\<lparr>fh_ID := mex_msgID mx, fh_messageType := message_messageType (m b)\<rparr>\<rparr>"
  let ?w0 = "NewWriteBuffer (fr_Payload ?fr)" and ?e = "enc_message (m b)" and ?n = "Checksum_Size cks"
  have f0: "frame_inv ?f0" using assms by (simp add: sender_ok_def)
  then have fr: "frame_for m (mex_msgID mx) b ?fr" by (simp add: frame_for_def frame_inv_def)
  have len: "length (fr_Payload ?fr) = MaxFramePayloadSize" using frame_inv_length [OF f0] by simp
  have e: "valid_message (m b)" "length ?e + 10 < MaxFramePayloadSize" using assms by (auto simp: sender_ok_def)
  have n: "?n \<le> 4" by (rule Checksum_Size_le)
  have 1: "DeferByte ?w0 = (Some (0, MaxFramePayloadSize), wb_append [0] ?w0)"
  proof -
    have "0 < wb_BytesRemaining ?w0" using len e(2) by (simp del: length_greater_0_conv)
    from DeferByte_fits [OF wb_inv_New this] show ?thesis using len by simp
  qed
  have 2: "message_write (m b) (wb_append [0] ?w0) = wb_append ([0] @ ?e) ?w0"
    using message_write_enc [of "wb_append [0] ?w0" "m b"] e len by (simp add: wb_append_append)
  have w2: "wb_err (wb_append ([0] @ ?e) ?w0) = None" using e len by simp
  have 3: "WriteSingleByte t (wb_append ([0] @ ?e) ?w0) = wb_append ([0] @ ?e @ [t]) ?w0" for t
    using byte_codec.write_enc [of "wb_append ([0] @ ?e) ?w0" t] e len by (simp add: wb_append_append)
  have pos: "wb_pos (wb_append ([0] @ ?e @ [t]) ?w0) = length ?e + 2" for t by (simp add: wb_append_def)
  have 4: "DeferBytes ?n (wb_append ([0] @ ?e @ [t]) ?w0) =
      (Some (length ?e + 2, ?n), wb_append ([0] @ ?e @ [t] @ replicate ?n 0) ?w0)" for t
    using deferred_fits [of "wb_append ([0] @ ?e @ [t]) ?w0" ?n] e len n pos
    by (simp add: DeferBytes_def wb_append_append)
  let ?w4 = "wb_append ([0] @ ?e @ [TypeCode cks] @ replicate ?n 0) ?w0"
  let ?f = "\<lparr>wf_flagsRef = Some (0, MaxFramePayloadSize), wf_checksumRef = Some (length ?e + 2, ?n),
      wf_contents = ?w4, wf_frame = ?fr\<rparr>"
  have w4: "wb_inv ?w4" "wb_err ?w4 = None" "wb_written ?w4 = 0 # (?e @ [TypeCode cks]) @ replicate ?n 0"
      "length (wb_buffer ?w4) = MaxFramePayloadSize"
      "wb_BytesRemaining ?w4 = MaxFramePayloadSize - (length ?e + 2 + ?n)"
    using e len n by simp_all
  have "reqRes_newFragment b cks s = Ret ((Some ?f, None), s\<lparr>rs_gets := rs_gets s + 1\<rparr>)"
    using assms e len 1 2 w2 3 4 w4(2)
    by (simp add: reqRes_newFragment_def sender_ok_def Let_def)
  moreover have "frag_is (frame_for m (mex_msgID mx) b) ?f 0 (?e @ [TypeCode cks]) (replicate ?n 0) []"
    using w4 fr len e(2) by (auto simp: frag_is_def frag_body_def gr0_conv_Suc [symmetric])
  moreover have "4 < room ?f" using w4(5) e n by simp
  moreover have "sender_ok m mx (s\<lparr>rs_gets := rs_gets s + 1\<rparr>)" using assms by (simp add: sender_ok_def)
  ultimately show ?thesis by fastforce
qed

lemma reqRes_flushFragment_ok:
  assumes "sender_ok m mx s"
  shows "\<exists>s'. reqRes_flushFragment f s = Ret (None, s') \<and> sender_ok m mx s' \<and>
    rs_sendCh s' = rs_sendCh s @ [out_frame f]"
  using assms by (auto simp: reqRes_flushFragment_def sender_ok_def)

text \<open>What is left when a call has sent all: its exchange, maybe shut down.\<close>

definition sender_ended :: "uint32 \<Rightarrow> reqResSender \<Rightarrow> bool" where
  "sender_ended i s \<longleftrightarrow> mex_ok (rs_mex s) \<and> mex_msgID (rs_mex s) = i"

lemma InboundCallResponse_doneSending_ok:
  assumes "sender_ok m mx s"
  shows "\<exists>s'. InboundCallResponse_doneSending s = Ret s' \<and> rs_sendCh s' = rs_sendCh s \<and> sender_ended (mex_msgID mx) s'"
proof -
  have "mex_ok (cancel_ctx (rs_mex s))" "mex_msgID (cancel_ctx (rs_mex s)) = mex_msgID mx"
    using assms by (simp_all add: sender_ok_def cancel_ctx_def mex_ok_def)
  then show ?thesis
    using mex_shutdown_ok [of "cancel_ctx (rs_mex s)"] assms
    by (auto simp: InboundCallResponse_doneSending_def sender_ok_def sender_ended_def Let_def)
qed

text \<open>The contract with what the writers of a call also rely on, and the three arguments over it.\<close>

locale call_sender = fragment_sender ops ok sent out fl0 mid hdr ended
  for ops :: "reqResSender fragmentSender" and ok and sent :: "reqResSender \<Rightarrow> 'o list" and out fl0 mid hdr ended +
  assumes no_err: "ok s \<Longrightarrow> rs_err s = None"
begin

lemma between_sender: "between c0 w args \<Longrightarrow> ok (fw_sender w)"
  by (simp add: between_def)

lemma helper_write_ok:
  assumes "fw_BeginArgument ops isLast (rw_contents w) = Ret (None, c1)" and "in_arg c0 c1 args []"
    and "fw_state c1 = (if isLast then fragmentingWriteInLastArgument else fragmentingWriteInArgument)"
    and "ok (fw_sender (rw_contents w))" and "rw_state w = inState"
  shows "\<exists>w'. ArgWriteHelper_Write ops bs (argWriter ops isLast inState outState w) = Some (Ret (None, w')) \<and>
    rw_state w' = outState \<and>
    (if isLast then finished c0 (rw_contents w') (args @ [bs]) else between c0 (rw_contents w') (args @ [bs]))"
proof -
  obtain c2 where c2: "fw_Write ops bs c1 = Some (Ret ((length bs, None), c2))" "in_arg c0 c2 args bs"
      "fw_state c2 = fw_state c1"
    using write_ok [OF assms(2)] by auto
  obtain c3 where c3: "fw_Close ops c2 = Ret (None, c3)"
      "if isLast then finished c0 c3 (args @ [bs]) else between c0 c3 (args @ [bs])"
    using close_ok [OF c2(2)] close_last_ok [OF c2(2)] c2(3) assms(3) by (cases isLast) auto
  show ?thesis
    using assms no_err [OF assms(4)] c2 c3 by (simp add: ArgWriteHelper_Write_def argWriter_def)
qed

lemma write_arg1_ok:
  assumes "ok s" and "sent s = []"
  shows "\<exists>w'. ArgWriteHelper_Write ops arg1 (arg1Writer ops (newReqResWriter s c0)) = Some (Ret (None, w')) \<and>
    rw_state w' = reqResWriterPreArg2 \<and> between c0 (rw_contents w') [arg1]"
proof -
  let ?w = "newReqResWriter s c0"
  obtain c1 where c1: "fw_BeginArgument ops False (rw_contents ?w) = Ret (None, c1)" "in_arg c0 c1 [] []"
      "fw_state c1 = fragmentingWriteInArgument"
    using begin_first [OF assms, of False c0] by (auto simp: newReqResWriter_def)
  then show ?thesis
    using helper_write_ok [OF c1(1,2), of reqResWriterPreArg1 arg1] assms(1)
    by (auto simp: arg1Writer_def newReqResWriter_def newFragmentingWriter_def)
qed

lemma write_arg2_ok:
  assumes "rw_state w = reqResWriterPreArg2" and "between c0 (rw_contents w) args"
  shows "\<exists>w'. ArgWriteHelper_Write ops arg2 (arg2Writer ops w) = Some (Ret (None, w')) \<and>
    rw_state w' = reqResWriterPreArg3 \<and> between c0 (rw_contents w') (args @ [arg2])"
proof -
  obtain c2 where c2: "fw_BeginArgument ops False (rw_contents w) = Ret (None, c2)" "in_arg c0 c2 args []"
      "fw_state c2 = fragmentingWriteInArgument"
    using begin_next [OF assms(2), of False] by auto
  then show ?thesis
    using helper_write_ok [OF c2(1,2), of reqResWriterPreArg2 arg2 reqResWriterPreArg3] assms(1)
      between_sender [OF assms(2)] by (auto simp: arg2Writer_def)
qed

lemma write_arg3_ok:
  assumes "rw_state w = reqResWriterPreArg3" and "between c0 (rw_contents w) args"
  shows "\<exists>w'. ArgWriteHelper_Write ops arg3 (arg3Writer ops w) = Some (Ret (None, w')) \<and>
    rw_state w' = reqResWriterComplete \<and> finished c0 (rw_contents w') (args @ [arg3])"
proof -
  obtain c3 where c3: "fw_BeginArgument ops True (rw_contents w) = Ret (None, c3)" "in_arg c0 c3 args []"
      "fw_state c3 = fragmentingWriteInLastArgument"
    using begin_next [OF assms(2), of True] by auto
  then show ?thesis
    using helper_write_ok [OF c3(1,2), of reqResWriterPreArg3 arg3 reqResWriterComplete] assms(1)
      between_sender [OF assms(2)] by (auto simp: arg3Writer_def)
qed

text \<open>Between two arguments other goroutines may change the sender, as long as it keeps what was sent.\<close>

lemma between_swap:
  assumes "between c0 w args" and "ok s" and "sent s = sent (fw_sender w)"
  shows "between c0 (w\<lparr>fw_sender := s\<rparr>) args"
  using assms unfolding between_def by simp

lemma write_call_ok:
  assumes "ok s" and "sent s = []"
  shows "\<exists>w'. write_call ops arg1 arg2 arg3 (newReqResWriter s c0) = Some (Ret (None, w')) \<and>
    rw_state w' = reqResWriterComplete \<and> finished c0 (rw_contents w') [arg1, arg2, arg3]"
proof -
  obtain w1 where w1: "ArgWriteHelper_Write ops arg1 (arg1Writer ops (newReqResWriter s c0)) = Some (Ret (None, w1))"
      "rw_state w1 = reqResWriterPreArg2" "between c0 (rw_contents w1) [arg1]"
    using write_arg1_ok [OF assms] by blast
  obtain w2 where w2: "ArgWriteHelper_Write ops arg2 (arg2Writer ops w1) = Some (Ret (None, w2))"
      "rw_state w2 = reqResWriterPreArg3" "between c0 (rw_contents w2) ([arg1] @ [arg2])"
    using write_arg2_ok [OF w1(2,3)] by blast
  show ?thesis using w1 w2 write_arg3_ok [OF w2(2,3)] by (auto simp: write_call_def)
qed

end

interpretation outbound_call: call_sender "reqRes_sender OutboundCall_doneSending" "sender_ok m mx"
  rs_sendCh out_frame "\<lambda>_. 0" "\<lambda>b t. enc_message (m b) @ [t]" "frame_for m (mex_msgID mx)" "sender_ok m mx" for m mx
  by unfold_locales
    (simp_all add: reqRes_sender_def reqRes_newFragment_ok reqRes_flushFragment_ok OutboundCall_doneSending_def,
     simp add: sender_ok_def)

interpretation inbound_response: call_sender "reqRes_sender InboundCallResponse_doneSending" "sender_ok m mx"
  rs_sendCh out_frame "\<lambda>_. 0" "\<lambda>b t. enc_message (m b) @ [t]" "frame_for m (mex_msgID mx)" "sender_ended (mex_msgID mx)" for m mx
  by unfold_locales
    (simp_all add: reqRes_sender_def reqRes_newFragment_ok reqRes_flushFragment_ok InboundCallResponse_doneSending_ok,
     simp add: sender_ok_def)

section \<open>From fragments to frames and back\<close>

text \<open>The frame of a fragment holds exactly its bytes, and parsing it gives them back.\<close>

lemma out_frame_ok:
  assumes "frag_is (frame_for m i b) f fl mid ck cs"
  shows "SizedPayload (out_frame f) = Ret (fl # mid @ ck @ enc_chunks cs)"
    and "frame_for m i b (out_frame f)" and "length (enc_chunks cs) < 65536"
    and "16 \<le> unat (fh_size (fr_Header (out_frame f)))"
proof -
  let ?c = "wf_contents f" and ?bs = "fl # mid @ ck @ enc_chunks cs"
  have c: "wb_inv ?c" "wb_written ?c = ?bs" "length (wb_buffer ?c) = MaxFramePayloadSize"
    and fr: "frame_for m i b (wf_frame f)" "frame_inv (wf_frame f)"
    using assms frame_inv_length [of "wf_frame f"]
    by (auto simp: frag_is_def frag_body_def frame_for_def)
  have pl: "fr_Payload (fragment_frame f) = wb_buffer ?c" "fr_Header (fragment_frame f) = fr_Header (wf_frame f)"
    using fr(2) by (simp_all add: fragment_frame_def)
  have n: "BytesWritten ?c = length ?bs" "length ?bs \<le> MaxFramePayloadSize"
    using c written_pos [OF c(1)] by (simp_all add: BytesWritten_pos wb_inv_def)
  then have u: "unat (of_nat (length ?bs) :: uint16) = length ?bs"
    by (subst unat_of_nat_fits) (simp add: MaxFramePayloadSize_def MaxFrameSize_def)
  have "take (length ?bs) (wb_buffer ?c) = ?bs"
    using c written_pos [OF c(1)] by (metis wb_written_def)
  then show "SizedPayload (out_frame f) = Ret ?bs"
    using n c(3) u pl by (simp add: SizedPayload_def out_frame_def Let_def PayloadSize_Set del: of_nat_Suc)
  have "frame_inv (fragment_frame f)"
    using fr(2) c(3) by (simp add: fragment_frame_def frame_inv_set_Payload)
  then show "frame_for m i b (out_frame f)"
    using fr(1) pl(2) by (simp add: frame_for_def frame_inv_def out_frame_def Let_def SetPayloadSize_def)
  show "length (enc_chunks cs) < 65536" using n by (simp add: MaxFramePayloadSize_def MaxFrameSize_def)
  have "unat (of_nat (length ?bs) + 16 :: uint16) = length ?bs + 16"
    using n(2) u unat_add_lem [of "of_nat (length ?bs)" "16 :: uint16"]
    by (simp add: MaxFramePayloadSize_def MaxFrameSize_def del: of_nat_Suc)
  then show "16 \<le> unat (fh_size (fr_Header (out_frame f)))"
    using n(1) by (simp add: out_frame_def Let_def SetPayloadSize_def del: of_nat_Suc)
qed

lemma parse_ok:
  assumes "SizedPayload fr = Ret (fl # (enc_message m @ [t]) @ ck @ enc_chunks cs)"
    and "valid_message m" and "message_messageType m0 = message_messageType m"
    and "ChecksumType_valid t" and "length ck = ChecksumSize t" and "length (enc_chunks cs) < 65536"
  shows "\<exists>f. parseInboundFragment k fr m0 = Ret (Inr f, message_view m0 m) \<and>
    rfrag f t (fl AND hasMoreFragmentsFlag = hasMoreFragmentsFlag) ck cs \<and> rf_id f = k"
proof -
  let ?p = "fl # (enc_message m @ [t]) @ ck @ enc_chunks cs"
  let ?r = "NewReadBuffer ?p"
  let ?r1 = "?r\<lparr>rb_remaining := enc_message m @ [t] @ ck @ enc_chunks cs\<rparr>"
  let ?r2 = "?r\<lparr>rb_remaining := [t] @ ck @ enc_chunks cs\<rparr>"
  let ?r3 = "?r\<lparr>rb_remaining := ck @ enc_chunks cs\<rparr>"
  have 1: "ReadSingleByte ?r = (fl, ?r1)"
    by (subst byte_codec.read_enc [of ?r fl "enc_message m @ [t] @ ck @ enc_chunks cs"]) simp_all
  have 2: "message_read m0 ?r1 = (message_view m0 m, ?r2)"
    using message_read_enc [of ?r1 m "[t] @ ck @ enc_chunks cs" m0] assms(2,3) by simp
  have 3: "ReadSingleByte ?r2 = (t, ?r3)"
    using byte_codec.read_enc [of ?r2 t "ck @ enc_chunks cs"] by simp
  have 4: "ReadBytes (ChecksumSize t) ?r3 = (Some ck, ?r\<lparr>rb_remaining := enc_chunks cs\<rparr>)"
    using ReadBytes_append [of ?r3 ck "enc_chunks cs"] assms(5) by simp
  show ?thesis
    using assms(1,4,6) 1 2 3 4 by (simp add: parseInboundFragment_def rfrag_def Let_def)
qed

section \<open>A call in good order keeps the contract of a fragment receiver\<close>

text \<open>The fragments that a sequence of frames of the call \<open>i\<close> gives, up to the first that is not one.\<close>

fun parse_frames :: "(bool \<Rightarrow> message) \<Rightarrow> uint32 \<Rightarrow> bool \<Rightarrow> nat \<Rightarrow> Frame list \<Rightarrow> readableFragment list" where
  "parse_frames m i b k [] = []"
| "parse_frames m i b k (fr # frs) =
     (if fh_ID (fr_Header fr) = i \<and> fh_messageType (fr_Header fr) = message_messageType (m b) then
        (case parseInboundFragment k fr (m b) of
           Ret (Inr f, _) \<Rightarrow> f # parse_frames m i False (Suc k) frs
         | _ \<Rightarrow> [])
      else [])"

definition receiver_pending :: "reqResReceiver \<Rightarrow> readableFragment list" where
  "receiver_pending r =
     (let parse = \<lambda>b. parse_frames (rcv_messageForFragment r) (mex_msgID (rcv_mex r)) b (length (rcv_frames r))
                        (mex_recvCh (rcv_mex r) @ rcv_arriving r)
      in case rcv_initialFragment r of
           Some f \<Rightarrow> f # parse False
         | None \<Rightarrow> parse (rcv_frames r = []))"

definition receiver_first :: "reqResReceiver \<Rightarrow> bool" where
  "receiver_first r \<longleftrightarrow> rcv_initialFragment r \<noteq> None \<or> rcv_frames r = []"

text \<open>The message that the initial fragment has, or that its frame will give.\<close>

definition receiver_msg :: "reqResReceiver \<Rightarrow> message" where
  "receiver_msg r =
     (if rcv_frames r = [] then
        (case mex_recvCh (rcv_mex r) @ rcv_arriving r of
           fr # _ \<Rightarrow> (case parseInboundFragment 0 fr (rcv_messageForFragment r True) of Ret (_, m) \<Rightarrow> m | Panic \<Rightarrow> rcv_msg r)
         | [] \<Rightarrow> rcv_msg r)
      else rcv_msg r)"

text \<open>What is left when a call has read all: its exchange, maybe shut down, and the message.\<close>

definition receiver_ended :: "message \<Rightarrow> uint32 \<Rightarrow> reqResReceiver \<Rightarrow> bool" where
  "receiver_ended msg i r \<longleftrightarrow> rcv_err r = None \<and> rcv_msg r = msg \<and> mex_ok (rcv_mex r) \<and> mex_msgID (rcv_mex r) = i"

definition receiver_ok :: "message \<Rightarrow> uint32 \<Rightarrow> reqResReceiver \<Rightarrow> bool" where
  "receiver_ok msg i r \<longleftrightarrow> rcv_err r = None \<and> mex_msgID (rcv_mex r) = i \<and> receiver_msg r = msg \<and> mex_ok (rcv_mex r) \<and> mex_ctx (rcv_mex r) = None \<and> 0 < mex_recvCap (rcv_mex r) \<and>
     \<not> en_closed (mex_errCh (rcv_mex r)) \<and> (\<forall>f \<in> set (rcv_arriving r). fh_ID (fr_Header f) = mex_msgID (rcv_mex r)) \<and>
     (rcv_initialFragment r \<noteq> None \<longrightarrow> rcv_frames r \<noteq> [])"

lemma forward_waiting_eq:
  assumes "mex_ctx m = None" and "\<not> en_closed (mex_errCh m)"
  shows "forward_waiting fs m =
    (drop (mex_recvCap m - length (mex_recvCh m)) fs,
     m\<lparr>mex_recvCh := mex_recvCh m @ take (mex_recvCap m - length (mex_recvCh m)) fs\<rparr>)"
  using assms
proof (induction fs arbitrary: m)
  case (Cons f fs)
  show ?case
  proof (cases "length (mex_recvCh m) < mex_recvCap m")
    case True
    then obtain k where k: "mex_recvCap m - length (mex_recvCh m) = Suc k" by (metis Suc_diff_Suc)
    then have "mex_recvCap m - Suc (length (mex_recvCh m)) = k" by simp
    then show ?thesis
      using True k Cons.IH [of "m\<lparr>mex_recvCh := mex_recvCh m @ [f]\<rparr>"] Cons.prems
      by (simp add: forward_case_def forward_select_def mex_forwardPeerFrame_def)
  next
    case False
    then show ?thesis using Cons.prems by (simp add: forward_case_def forward_select_def)
  qed
qed simp

lemma arrive_eq:
  assumes "receiver_ok msg i r"
  shows "\<exists>k. arrive r = r\<lparr>rcv_arriving := drop k (rcv_arriving r),
      rcv_mex := (rcv_mex r)\<lparr>mex_recvCh := mex_recvCh (rcv_mex r) @ take k (rcv_arriving r)\<rparr>\<rparr> \<and>
    k + length (mex_recvCh (rcv_mex r)) = mex_recvCap (rcv_mex r)"
proof -
  have "mex_ctx (rcv_mex r) = None" "\<not> en_closed (mex_errCh (rcv_mex r))"
      "length (mex_recvCh (rcv_mex r)) \<le> mex_recvCap (rcv_mex r)"
    using assms by (auto simp: receiver_ok_def mex_ok_def)
  then show ?thesis
    by (intro exI [of _ "mex_recvCap (rcv_mex r) - length (mex_recvCh (rcv_mex r))"])
      (simp add: arrive_def forward_waiting_eq)
qed

lemma receiver_msg_arrive [simp]:
  "receiver_msg (r\<lparr>rcv_arriving := drop k (rcv_arriving r),
     rcv_mex := (rcv_mex r)\<lparr>mex_recvCh := mex_recvCh (rcv_mex r) @ take k (rcv_arriving r)\<rparr>\<rparr>) = receiver_msg r"
  by (simp add: receiver_msg_def cong: list.case_cong go.case_cong)

lemma arrive_ok:
  assumes "receiver_ok msg i r"
  shows "receiver_ok msg i (arrive r)" and "receiver_pending (arrive r) = receiver_pending r"
    and "receiver_first (arrive r) = receiver_first r"
    and "mex_recvCh (rcv_mex (arrive r)) = [] \<Longrightarrow> rcv_arriving (arrive r) = []"
proof -
  obtain k where k: "arrive r = r\<lparr>rcv_arriving := drop k (rcv_arriving r),
      rcv_mex := (rcv_mex r)\<lparr>mex_recvCh := mex_recvCh (rcv_mex r) @ take k (rcv_arriving r)\<rparr>\<rparr>"
      "k + length (mex_recvCh (rcv_mex r)) = mex_recvCap (rcv_mex r)"
    using arrive_eq [OF assms] by blast
  show "receiver_ok msg i (arrive r)"
    using assms k(2) unfolding k(1)
    by (auto simp: receiver_ok_def mex_ok_def dest: in_set_dropD in_set_takeD)
  show "receiver_pending (arrive r) = receiver_pending r"
    unfolding k(1) by (simp add: receiver_pending_def split: option.split)
  show "receiver_first (arrive r) = receiver_first r" unfolding k(1) by (simp add: receiver_first_def)
  show "rcv_arriving (arrive r) = []" if "mex_recvCh (rcv_mex (arrive r)) = []"
    using that k(2) assms unfolding k(1) by (auto simp: receiver_ok_def)
qed

lemma recvPeerFrameOfType_next:
  assumes "mex_ctx m = None" and "mex_recvCh m = f # fs" and "fh_ID (fr_Header f) = mex_msgID m"
    and "fh_messageType (fr_Header f) = t"
  shows "recvPeerFrameOfType t m = Ret (Inr f, None, m\<lparr>mex_recvCh := fs\<rparr>)"
  using assms by (simp add: recvPeerFrameOfType_def recvPeerFrame_def recv_case_def recv_select_def take_frame_def checkFrame_def)

lemma reqRes_recvNextFragment_ok:
  assumes "receiver_ok msg i r0" and "receiver_pending r0 = f # fs" and "initial = receiver_first r0"
  shows "\<exists>r'. reqRes_recvNextFragment initial (arrive r0) = Ret ((Some f, None), r') \<and> receiver_ok msg i r' \<and>
    receiver_pending r' = fs \<and> \<not> receiver_first r'"
proof -
  define r where "r = arrive r0"
  have r: "receiver_ok msg i r" "receiver_pending r = f # fs" "initial = receiver_first r"
      "mex_recvCh (rcv_mex r) = [] \<Longrightarrow> rcv_arriving r = []"
    using assms arrive_ok [OF assms(1)] by (simp_all add: r_def)
  show ?thesis
  proof (cases "rcv_initialFragment r")
    case None
    let ?m = "rcv_messageForFragment r initial"
    have b: "initial = (rcv_frames r = [])" using r(3) None by (simp add: receiver_first_def)
    obtain fr frs where fr: "mex_recvCh (rcv_mex r) = fr # frs"
      using r(2,4) None by (cases "mex_recvCh (rcv_mex r)") (auto simp: receiver_pending_def)
    obtain msg' where p: "fh_ID (fr_Header fr) = mex_msgID (rcv_mex r)"
        "fh_messageType (fr_Header fr) = message_messageType ?m"
        "parseInboundFragment (length (rcv_frames r)) fr ?m = Ret (Inr f, msg')"
        "parse_frames (rcv_messageForFragment r) (mex_msgID (rcv_mex r)) False (Suc (length (rcv_frames r)))
          (frs @ rcv_arriving r) = fs"
      using r(2) None fr b
      by (auto simp: receiver_pending_def split: if_splits go.splits sum.splits prod.splits)
    have c: "mex_ctx (rcv_mex r) = None" using r(1) by (simp add: receiver_ok_def)
    show ?thesis
      unfolding r_def [symmetric]
      using r(1) None p fr b recvPeerFrameOfType_next [OF c fr p(1,2)]
      by (auto simp: reqRes_recvNextFragment_def receiver_ok_def receiver_pending_def receiver_first_def receiver_msg_def mex_ok_def Let_def)
  next
    case (Some g)
    then show ?thesis
      unfolding r_def [symmetric]
      using r by (auto simp: reqRes_recvNextFragment_def receiver_ok_def receiver_pending_def receiver_first_def receiver_msg_def)
  qed
qed

lemma readableFragment_done_keeps [simp]:
  "receiver_pending (readableFragment_done f r) = receiver_pending r"
  "receiver_first (readableFragment_done f r) = receiver_first r"
  "receiver_ok msg i (readableFragment_done f r) = receiver_ok msg i r"
  "receiver_ended msg i (readableFragment_done f r) = receiver_ended msg i r"
  by (simp_all add: readableFragment_done_def receiver_pending_def receiver_first_def receiver_ok_def receiver_ended_def
      receiver_msg_def split: option.split cong: list.case_cong go.case_cong)

lemma receiver_ok_ended: "receiver_ok msg i r \<Longrightarrow> \<not> receiver_first r \<Longrightarrow> receiver_ended msg i r"
  by (auto simp: receiver_ok_def receiver_first_def receiver_ended_def receiver_msg_def)

text \<open>The three arguments over a receiver that keeps the contract.\<close>

locale call_receiver = fragment_receiver ops pending first ok ended
  for ops :: "reqResReceiver fragmentReceiver" and pending first ok ended
begin

lemma helper_read_ok:
  assumes "fr_BeginArgument ops (ps = []) (rr_contents r) = Ret (None, c1)" and "holds c1 p ps"
    and "fr_state c1 = (if ps = [] then fragmentingReadInLastArgument else fragmentingReadInArgument)"
    and "rr_state r = inState" and "\<forall>i. 0 < sz i"
  shows "\<exists>r'. read_arg ops sz (argReader ops (ps = []) inState outState r) = Some (Ret ((p, None), r')) \<and>
    rr_state r' = outState \<and>
    (if ps = [] then ended (fr_receiver (rr_contents r')) else waiting (rr_contents r') ps)"
  using helper_ok [OF assms(2,5,3)] assms(1,4) by (auto simp: read_arg_def argReader_def)

lemma read_arg1_ok:
  assumes "first s" and "pending s = fs" and "delivers c fs css" and "fs \<noteq> []" and "ok s"
    and "c = ChecksumType_New (TypeCode c)" and "\<forall>i. 0 < sz i" and "join_frags css = a1 # as" and "as \<noteq> []"
  shows "\<exists>r'. read_arg ops sz (arg1Reader ops (newReqResReader s)) = Some (Ret ((a1, None), r')) \<and>
    rr_state r' = reqResReaderPreArg2 \<and> waiting (rr_contents r') as"
proof -
  obtain f fs' cs css' where fs: "fs = f # fs'" "css = cs # css'"
    using assms(3,4) by (cases fs; cases css) auto
  obtain c1 where c1: "fr_BeginArgument ops (as = []) (rr_contents (newReqResReader s)) = Ret (None, c1)"
      "holds c1 a1 as" "fr_state c1 = fragmentingReadInArgument"
    using fr_begin_first [of s f fs' c cs css' False] assms fs by (auto simp: newReqResReader_def)
  then show ?thesis
    using helper_read_ok [OF c1(1,2) _ _ assms(7), of reqResReaderPreArg1 reqResReaderPreArg2] assms(9)
    by (auto simp: arg1Reader_def newReqResReader_def)
qed

lemma read_arg2_ok:
  assumes "rr_state r = reqResReaderPreArg2" and "waiting (rr_contents r) (a2 # as)" and "as \<noteq> []" and "\<forall>i. 0 < sz i"
  shows "\<exists>r'. read_arg ops sz (arg2Reader ops r) = Some (Ret ((a2, None), r')) \<and>
    rr_state r' = reqResReaderPreArg3 \<and> waiting (rr_contents r') as"
proof -
  obtain c2 where c2: "fr_BeginArgument ops (as = []) (rr_contents r) = Ret (None, c2)"
      "holds c2 a2 as" "fr_state c2 = fragmentingReadInArgument"
    using fr_begin_next [OF assms(2), of False] assms(3) by auto
  then show ?thesis
    using helper_read_ok [OF c2(1,2) _ assms(1,4), of reqResReaderPreArg3] assms(3)
    by (auto simp: arg2Reader_def)
qed

lemma read_arg3_ok:
  assumes "rr_state r = reqResReaderPreArg3" and "waiting (rr_contents r) [a3]" and "\<forall>i. 0 < sz i"
  shows "\<exists>r'. read_arg ops sz (arg3Reader ops r) = Some (Ret ((a3, None), r')) \<and>
    rr_state r' = reqResReaderComplete \<and> ended (fr_receiver (rr_contents r'))"
proof -
  obtain c3 where c3: "fr_BeginArgument ops ([] = ([] :: byte list list)) (rr_contents r) = Ret (None, c3)"
      "holds c3 a3 []" "fr_state c3 = fragmentingReadInLastArgument"
    using fr_begin_next [OF assms(2), of True] by auto
  then show ?thesis
    using helper_read_ok [OF c3(1,2) _ assms(1,3), of reqResReaderComplete] by (auto simp: arg3Reader_def)
qed

lemma read_call_ok:
  assumes "first s" and "pending s = fs" and "delivers c fs css" and "fs \<noteq> []" and "ok s"
    and "c = ChecksumType_New (TypeCode c)" and "\<forall>i. 0 < sz i" and "join_frags css = [a1, a2, a3]"
  shows "\<exists>r'. read_call ops sz (newReqResReader s) = Some (Ret (([a1, a2, a3], None), r')) \<and>
    rr_state r' = reqResReaderComplete \<and> ended (fr_receiver (rr_contents r'))"
proof -
  obtain r1 where r1: "read_arg ops sz (arg1Reader ops (newReqResReader s)) = Some (Ret ((a1, None), r1))"
      "rr_state r1 = reqResReaderPreArg2" "waiting (rr_contents r1) [a2, a3]"
    using read_arg1_ok [OF assms] by auto
  obtain r2 where r2: "read_arg ops sz (arg2Reader ops r1) = Some (Ret ((a2, None), r2))"
      "rr_state r2 = reqResReaderPreArg3" "waiting (rr_contents r2) [a3]"
    using read_arg2_ok [OF r1(2,3) _ assms(7)] by auto
  show ?thesis using r1 r2 read_arg3_ok [OF r2(2,3) assms(7)] by (auto simp: read_call_def)
qed

lemma waiting_ok: "waiting r ps \<Longrightarrow> ok (fr_receiver r)"
  by (simp add: waiting_def holds_def)

end

interpretation inbound_call: call_receiver "reqRes_receiver InboundCall_doneReading"
  receiver_pending receiver_first "receiver_ok msg i" "receiver_ok msg i" for msg i
  by unfold_locales
    (simp_all add: reqRes_receiver_def reqRes_recvNextFragment_ok InboundCall_doneReading_def)

interpretation outbound_response: call_receiver "reqRes_receiver OutboundCallResponse_doneReading"
  receiver_pending receiver_first "receiver_ok msg i" "receiver_ended msg i" for msg i
proof unfold_locales
  fix s assume "receiver_ok msg i s" "\<not> receiver_first s"
  then show "\<exists>s'. doneReading (reqRes_receiver OutboundCallResponse_doneReading) None s = Ret s' \<and> receiver_ended msg i s'"
    using mex_shutdown_ok [of "rcv_mex s"] receiver_ok_ended [of msg i s]
    by (auto simp: reqRes_receiver_def OutboundCallResponse_doneReading_def receiver_ended_def)
qed (simp_all add: reqRes_receiver_def reqRes_recvNextFragment_ok)

section \<open>The frames of a call carry its arguments\<close>

text \<open>
  \<open>carries m i c b frs css\<close>: the frames \<open>frs\<close> of the call \<open>i\<close> hold the messages \<open>m\<close>, then the chunks
  \<open>css\<close>, with the checksum \<open>c\<close> continued over them; all but the last announce another one.
\<close>

fun carries :: "(bool \<Rightarrow> message) \<Rightarrow> uint32 \<Rightarrow> Checksum \<Rightarrow> bool \<Rightarrow> Frame list \<Rightarrow> byte list list list \<Rightarrow> bool" where
  "carries m i c b [] [] = True"
| "carries m i c b (fr # frs) (cs # css) =
     (cs \<noteq> [] \<and> length (enc_chunks cs) < 65536 \<and> fh_ID (fr_Header fr) = i \<and>
      fh_messageType (fr_Header fr) = message_messageType (m b) \<and>
      SizedPayload fr = Ret ((if frs = [] then 0 else hasMoreFragmentsFlag) # (enc_message (m b) @ [TypeCode c]) @
        Checksum_Sum (Checksum_Add (concat cs) c) @ enc_chunks cs) \<and>
      carries m i (Checksum_Add (concat cs) c) False frs css)"
| "carries m i c b _ _ = False"

lemma carries_Nil [simp]: "carries m i c b [] css \<longleftrightarrow> css = []"
  by (cases css) simp_all

lemma carries_nth:
  assumes "length fs = length css" and "\<forall>cs \<in> set css. cs \<noteq> []"
    and "\<And>j. j < length fs \<Longrightarrow>
      frag_is (frame_for m i (b \<and> j = 0)) (fs ! j) (if Suc j = length fs then 0 else hasMoreFragmentsFlag)
        (enc_message (m (b \<and> j = 0)) @ [TypeCode c])
        (Checksum_Sum (Checksum_Add (concat (concat (take (Suc j) css))) c)) (css ! j)"
  shows "carries m i c b (map out_frame fs) css"
  using assms
proof (induction css arbitrary: fs c b)
  case (Cons cs css)
  then obtain f fs' where fs: "fs = f # fs'" by (cases fs) auto
  have "carries m i (Checksum_Add (concat cs) c) False (map out_frame fs') css"
  proof (rule Cons.IH)
    fix j assume "j < length fs'"
    then show "frag_is (frame_for m i (False \<and> j = 0)) (fs' ! j)
        (if Suc j = length fs' then 0 else hasMoreFragmentsFlag)
        (enc_message (m (False \<and> j = 0)) @ [TypeCode (Checksum_Add (concat cs) c)])
        (Checksum_Sum (Checksum_Add (concat (concat (take (Suc j) css))) (Checksum_Add (concat cs) c))) (css ! j)"
      using Cons.prems(3) [of "Suc j"] fs by (simp add: Add_append)
  qed (use Cons.prems fs in auto)
  moreover have "frag_is (frame_for m i b) f (if fs' = [] then 0 else hasMoreFragmentsFlag)
      (enc_message (m b) @ [TypeCode c]) (Checksum_Sum (Checksum_Add (concat cs) c)) cs"
    using Cons.prems(3) [of 0] fs by simp
  ultimately show ?case
    using out_frame_ok [of m i b f] Cons.prems(2) fs by (simp add: frame_for_def)
qed simp

lemma parse_carries:
  assumes "carries m i c b frs css" and "\<And>b. valid_message (m b)"
    and "\<And>b. message_messageType (m' b) = message_messageType (m b)"
    and "ChecksumType_valid (TypeCode c)" and "Checksum_Size c = ChecksumSize (TypeCode c)"
  shows "delivers c (parse_frames m' i b k frs) css" and "frs \<noteq> [] \<Longrightarrow> parse_frames m' i b k frs \<noteq> []"
proof -
  have "delivers c (parse_frames m' i b k frs) css \<and> (parse_frames m' i b k frs = [] \<longleftrightarrow> frs = [])"
    using assms(1,4,5)
  proof (induction frs arbitrary: c b css k)
    case (Cons fr frs)
    then obtain cs css' where css: "css = cs # css'" by (cases css) auto
    note h = Cons.prems [unfolded css]
    have "\<exists>f. parseInboundFragment k fr (m' b) = Ret (Inr f, message_view (m' b) (m b)) \<and>
      rfrag f (TypeCode c) ((if frs = [] then 0 else hasMoreFragmentsFlag) AND hasMoreFragmentsFlag = hasMoreFragmentsFlag)
        (Checksum_Sum (Checksum_Add (concat cs) c)) cs \<and> rf_id f = k"
      by (rule parse_ok) (use h assms(2,3) in simp_all)
    then obtain f where f: "parseInboundFragment k fr (m' b) = Ret (Inr f, message_view (m' b) (m b))"
      "rfrag f (TypeCode c) (frs \<noteq> []) (Checksum_Sum (Checksum_Add (concat cs) c)) cs"
      by (auto split: if_splits)
    show ?case using Cons.IH [of "Checksum_Add (concat cs) c" False css' "Suc k"] h f assms(3) css by simp
  qed simp
  then show "delivers c (parse_frames m' i b k frs) css" "frs \<noteq> [] \<Longrightarrow> parse_frames m' i b k frs \<noteq> []"
    by simp_all
qed

lemma sealed_carries:
  assumes "sealed (frame_for m i) (\<lambda>b t. enc_message (m b) @ [t]) c0 fs css" and "cs \<noteq> []"
    and "frag_is (frame_for m i (fs = [])) f 0 (enc_message (m (fs = [])) @ [TypeCode c0])
      (Checksum_Sum (Checksum_Add (concat (concat css) @ concat cs) c0)) cs"
  shows "carries m i c0 True (map out_frame (fs @ [f])) (css @ [cs])"
proof (rule carries_nth)
  show "length (fs @ [f]) = length (css @ [cs])" "\<forall>cs \<in> set (css @ [cs]). cs \<noteq> []"
    using assms by (auto simp: sealed_def)
  have e: "fs = [] \<longleftrightarrow> css = []" using assms(1) by (auto simp: sealed_def)
  fix j assume "j < length (fs @ [f])"
  then show "frag_is (frame_for m i (True \<and> j = 0)) ((fs @ [f]) ! j)
      (if Suc j = length (fs @ [f]) then 0 else hasMoreFragmentsFlag)
      (enc_message (m (True \<and> j = 0)) @ [TypeCode c0])
      (Checksum_Sum (Checksum_Add (concat (concat (take (Suc j) (css @ [cs])))) c0)) ((css @ [cs]) ! j)"
    using assms e by (cases "j < length fs") (auto simp: sealed_def nth_append less_Suc_eq)
qed

text \<open>What a call has put into the send channel once its last argument is closed.\<close>

lemma finished_carries:
  assumes "inbound_response.finished m mx c0 w args"
  obtains css where "carries m (mex_msgID mx) c0 True (rs_sendCh (fw_sender w)) css" and "join_frags css = args"
    and "rs_sendCh (fw_sender w) \<noteq> []" and "sender_ended (mex_msgID mx) (fw_sender w)"
    and "\<And>fr. fr \<in> set (rs_sendCh (fw_sender w)) \<Longrightarrow> frame_inv fr \<and> 16 \<le> unat (fh_size (fr_Header fr))"
proof -
  obtain fs css cs f where w: "rs_sendCh (fw_sender w) = map out_frame (fs @ [f])"
      "sealed (frame_for m (mex_msgID mx)) (\<lambda>b t. enc_message (m b) @ [t]) c0 fs css" "cs \<noteq> []"
      "frag_is (frame_for m (mex_msgID mx) (fs = [])) f 0 (enc_message (m (fs = [])) @ [TypeCode c0])
        (Checksum_Sum (Checksum_Add (concat (concat css) @ concat cs) c0)) cs"
      "join_frags (css @ [cs]) = args" "sender_ended (mex_msgID mx) (fw_sender w)"
    using assms unfolding inbound_response.finished_def by blast
  have frames: "frame_inv (out_frame g) \<and> 16 \<le> unat (fh_size (fr_Header (out_frame g)))" if "g \<in> set (fs @ [f])" for g
  proof -
    have "\<exists>b fl mid ck cs'. frag_is (frame_for m (mex_msgID mx) b) g fl mid ck cs'"
    proof (cases "g = f")
      case False
      then have "g \<in> set fs" using that by simp
      then obtain j where "j < length fs" "g = fs ! j" by (auto simp: in_set_conv_nth)
      then show ?thesis using w(2) unfolding sealed_def by blast
    qed (use w(4) in blast)
    then obtain b fl mid ck cs' where "frag_is (frame_for m (mex_msgID mx) b) g fl mid ck cs'" by blast
    from out_frame_ok(2,4) [OF this] show ?thesis by (simp add: frame_for_def)
  qed
  show ?thesis
    by (rule that [of "css @ [cs]"]) (use w sealed_carries [OF w(2,3,4)] frames in auto)
qed

lemma outbound_finished:
  assumes "outbound_call.finished m mx c0 w args"
  shows "inbound_response.finished m mx c0 w args" and "sender_ok m mx (fw_sender w)"
  using assms unfolding outbound_call.finished_def inbound_response.finished_def
  by (auto simp: sender_ok_def sender_ended_def)

end
