(* ===== verification/Connection.thy ===== *)
theory Connection
  imports Req_Res
begin

text \<open>
  A connection, from \<^verbatim>\<open>connection.go\<close>: its state, the exchange sets of both directions, sending and receiving
  of control messages, errors, and the graceful close. Each operation is one transition of the whole
  connection. What the steps of several goroutines may do between each other is in \<^verbatim>\<open>Close_Protocol\<close>.
  \<open>c_relay\<close> is \<open>None\<close> for a connection without a relayer, otherwise the number of its pending relay items.
  \<open>c_out\<close> are the frames that the writing goroutine has taken from the send channel, in order.
  The callbacks of the channel are recorded in \<open>c_events\<close>, the frames given back to the pool in
  \<open>c_released\<close>; \<open>c_pool\<close> are the frames that the calls of \<^verbatim>\<open>FramePool.Get\<close> return, counted by \<open>c_gets\<close>.
  Logging and statistics are left out.
\<close>

section \<open>State\<close>

definition ErrConnectionClosed :: gerror where
  "ErrConnectionClosed = ErrorString ''connection is closed''"
definition ErrSendBufferFull :: gerror where
  "ErrSendBufferFull = ErrorString ''connection send buffer is full, cannot send frame''"
definition errInboundRequestAlreadyActive :: gerror where
  "errInboundRequestAlreadyActive =
     ErrorString ''inbound request is already active; possible duplicate client id''"

definition CurrentProtocolVersion :: uint16 where "CurrentProtocolVersion = 0x02"
definition DefaultConnectionBufferSize :: int where "DefaultConnectionBufferSize = 512"

text \<open>Options: the part of \<^verbatim>\<open>ConnectionOptions\<close> that the connection acts on.\<close>

record HealthCheckOptions =
  hco_Interval :: duration
  hco_Timeout :: duration
  hco_FailuresToClose :: int

definition defaultHealthCheckTimeout :: duration where "defaultHealthCheckTimeout = Second"
definition defaultHealthCheckFailuresToClose :: int where "defaultHealthCheckFailuresToClose = 5"

definition hco_enabled :: "HealthCheckOptions \<Rightarrow> bool" where
  "hco_enabled hco \<longleftrightarrow> hco_Interval hco > 0"

definition hco_withDefaults :: "HealthCheckOptions \<Rightarrow> HealthCheckOptions" where
  "hco_withDefaults hco =
     (let hco1 = (if hco_Timeout hco = 0 then hco\<lparr>hco_Timeout := defaultHealthCheckTimeout\<rparr> else hco)
      in if hco_FailuresToClose hco1 = 0
         then hco1\<lparr>hco_FailuresToClose := defaultHealthCheckFailuresToClose\<rparr> else hco1)"

record ConnectionOptions =
  co_SendBufferSize :: int
  co_SendBufferSizeOverrides :: "(string \<times> int) list"
  co_ChecksumType :: ChecksumType
  co_HealthChecks :: HealthCheckOptions

definition co_withDefaults :: "ConnectionOptions \<Rightarrow> ConnectionOptions" where
  "co_withDefaults co =
     (let co1 = (if co_ChecksumType co = ChecksumTypeNone then co\<lparr>co_ChecksumType := ChecksumTypeCrc32\<rparr> else co);
          co2 = (if co_SendBufferSize co1 \<le> 0 then co1\<lparr>co_SendBufferSize := DefaultConnectionBufferSize\<rparr> else co1)
      in co2\<lparr>co_HealthChecks := hco_withDefaults (co_HealthChecks co2)\<rparr>)"

definition getSendBufferSize :: "ConnectionOptions \<Rightarrow> string \<Rightarrow> int" where
  "getSendBufferSize co processName =
     (case find (\<lambda>(prefix, _). strip_prefix prefix processName \<noteq> None) (co_SendBufferSizeOverrides co) of
        Some (_, n) \<Rightarrow> n
      | None \<Rightarrow> co_SendBufferSize co)"

datatype connEvent = OnActive | OnCloseStateChange | OnExchangeUpdated

text \<open>
  The health check goroutine: \<open>hc_quit\<close> once its context is cancelled, \<open>hc_done\<close> once it has ended.
\<close>

record healthCheckState =
  hc_quit :: bool
  hc_done :: bool

record Connection =
  c_opts :: ConnectionOptions
  c_sendCh :: "Frame list"
  c_out :: "Frame list"
  c_sendCap :: nat
  c_stopCh :: bool
  c_state :: connectionState
  c_inbound :: messageExchangeSet
  c_outbound :: messageExchangeSet
  c_nextMessageID :: uint32
  c_relay :: "nat option"
  c_closeNetworkCalled :: bool
  c_stoppedExchanges :: bool
  c_health :: "healthCheckState option"
  c_lastActivityRead :: int
  c_lastActivityWrite :: int
  c_events :: "connEvent list"
  c_pool :: "nat \<Rightarrow> Frame"
  c_gets :: nat
  c_released :: "Frame list"

text \<open>
  \<^verbatim>\<open>newConnection\<close>: a connection is active from the start. A negative size of the send buffer, which only
  an override can give, makes the runtime panic.
\<close>

definition newConnection ::
  "ConnectionOptions \<Rightarrow> string \<Rightarrow> uint32 \<Rightarrow> bool \<Rightarrow> int \<Rightarrow> (nat \<Rightarrow> Frame) \<Rightarrow> nat \<Rightarrow> Connection go" where
  "newConnection options processName initialID relaying now pool gets =
     (let opts = co_withDefaults options;
          n = getSendBufferSize opts processName
      in if n < 0 then Panic
         else Ret \<lparr>c_opts = opts, c_sendCh = [], c_out = [], c_sendCap = nat n, c_stopCh = False, c_state = connectionActive,
                   c_inbound = newMessageExchangeSet, c_outbound = newMessageExchangeSet,
                   c_nextMessageID = initialID, c_relay = (if relaying then Some 0 else None),
                   c_closeNetworkCalled = False, c_stoppedExchanges = False,
                   c_health = (if hco_enabled (co_HealthChecks opts)
                               then Some \<lparr>hc_quit = False, hc_done = False\<rparr> else None),
                   c_lastActivityRead = now, c_lastActivityWrite = now, c_events = [OnActive],
                   c_pool = pool, c_gets = gets, c_released = []\<rparr>)"

definition c_event :: "connEvent \<Rightarrow> Connection \<Rightarrow> Connection" where
  "c_event e c = c\<lparr>c_events := c_events c @ [e]\<rparr>"

definition pool_Get :: "Connection \<Rightarrow> Frame \<times> Connection" where
  "pool_Get c = (c_pool c (c_gets c), c\<lparr>c_gets := c_gets c + 1\<rparr>)"

definition pool_Release :: "Frame \<Rightarrow> Connection \<Rightarrow> Connection" where
  "pool_Release f c = c\<lparr>c_released := c_released c @ [f]\<rparr>"

definition IsActive :: "Connection \<Rightarrow> bool" where
  "IsActive c \<longleftrightarrow> c_state c = connectionActive"

definition NextMessageID :: "Connection \<Rightarrow> uint32 \<times> Connection" where
  "NextMessageID c = (c_nextMessageID c + 1, c\<lparr>c_nextMessageID := c_nextMessageID c + 1\<rparr>)"

definition relay_canClose :: "Connection \<Rightarrow> bool" where
  "relay_canClose c = (case c_relay c of None \<Rightarrow> True | Some n \<Rightarrow> n = 0)"

definition hasPendingCalls :: "Connection \<Rightarrow> bool" where
  "hasPendingCalls c =
     (if ms_count (c_inbound c) > 0 \<or> ms_count (c_outbound c) > 0 then True
      else if \<not> relay_canClose c then True else False)"

definition isMessageTypeCall :: "Frame \<Rightarrow> bool" where
  "isMessageTypeCall frame \<longleftrightarrow> fh_messageType (fr_Header frame) \<in>
     {messageTypeCallReq, messageTypeCallReqContinue, messageTypeCallRes, messageTypeCallResContinue, messageTypeError}"

definition updateLastActivityRead :: "int \<Rightarrow> Frame \<Rightarrow> Connection \<Rightarrow> Connection" where
  "updateLastActivityRead now frame c = (if isMessageTypeCall frame then c\<lparr>c_lastActivityRead := now\<rparr> else c)"

definition updateLastActivityWrite :: "int \<Rightarrow> Frame \<Rightarrow> Connection \<Rightarrow> Connection" where
  "updateLastActivityWrite now frame c = (if isMessageTypeCall frame then c\<lparr>c_lastActivityWrite := now\<rparr> else c)"

section \<open>Closing\<close>

text \<open>\<^verbatim>\<open>moveState\<close>, and \<^verbatim>\<open>close(c.stopCh)\<close>, which panics when the channel is already closed.\<close>

definition moveState :: "connectionState \<Rightarrow> connectionState \<Rightarrow> Connection \<Rightarrow> bool \<times> Connection" where
  "moveState from to c = (if c_state c \<noteq> from then (False, c) else (True, c\<lparr>c_state := to\<rparr>))"

definition close_stopCh :: "Connection \<Rightarrow> Connection go" where
  "close_stopCh c = (if c_stopCh c then Panic else Ret (c\<lparr>c_stopCh := True\<rparr>))"

text \<open>The last part of \<^verbatim>\<open>checkExchanges\<close>, after the state has been moved as far as it goes.\<close>

definition check_finish :: "connectionState \<Rightarrow> connectionState \<Rightarrow> Connection \<Rightarrow> Connection go" where
  "check_finish origState curState c =
     (if curState \<noteq> origState then
        go_bind (if curState = connectionClosed then close_stopCh c else Ret c) (\<lambda>c'.
          Ret (c_event OnCloseStateChange c'))
      else Ret c)"

definition check_inboundClosed :: "connectionState \<Rightarrow> connectionState \<Rightarrow> Connection \<Rightarrow> Connection go" where
  "check_inboundClosed origState curState c =
     (if curState = connectionInboundClosed then
        if \<not> relay_canClose c then Ret c
        else
          (case (if ms_count (c_outbound c) = 0 then moveState connectionInboundClosed connectionClosed c
                 else (False, c)) of
             (moved, c') \<Rightarrow> check_finish origState (if moved then connectionClosed else curState) c')
      else check_finish origState curState c)"

definition check_startClose :: "connectionState \<Rightarrow> connectionState \<Rightarrow> Connection \<Rightarrow> Connection go" where
  "check_startClose origState curState c =
     (if curState = connectionStartClose then
        if \<not> relay_canClose c then Ret c
        else
          (case (if ms_count (c_inbound c) = 0 then moveState connectionStartClose connectionInboundClosed c
                 else (False, c)) of
             (moved, c') \<Rightarrow> check_inboundClosed origState (if moved then connectionInboundClosed else curState) c')
      else check_inboundClosed origState curState c)"

definition checkExchanges :: "Connection \<Rightarrow> Connection go" where
  "checkExchanges c0 =
     (let c = c_event OnExchangeUpdated c0;
          origState = c_state c
      in case (if origState \<noteq> connectionClosed \<and> c_stoppedExchanges c
               then moveState origState connectionClosed c else (False, c)) of
           (moved, c') \<Rightarrow> check_startClose origState (if moved then connectionClosed else origState) c')"

text \<open>\<^verbatim>\<open>close\<close>; the read deadline that \<^verbatim>\<open>MaxCloseTime\<close> sets belongs to the network connection.\<close>

definition conn_close :: "Connection \<Rightarrow> (gerror option \<times> Connection) go" where
  "conn_close c =
     (if c_state c = connectionActive then
        go_bind (checkExchanges (c_event OnCloseStateChange (c\<lparr>c_state := connectionStartClose\<rparr>))) (\<lambda>c'.
          Ret (None, c'))
      else Ret (Some (ErrorString (''connection must be Active to Close, but it is '' @
                  connectionState_String (c_state c))), c))"

definition conn_Close :: "Connection \<Rightarrow> (gerror option \<times> Connection) go" where
  "conn_Close c = conn_close c"

section \<open>Errors\<close>

text \<open>
  \<^verbatim>\<open>stopHealthCheck\<close> cancels the health check and waits for its goroutine to end. \<open>self\<close> says that the caller is
  this goroutine: it then waits for itself, and the call never returns (\<open>None\<close>).
\<close>

definition stopHealthCheck :: "bool \<Rightarrow> Connection \<Rightarrow> Connection option" where
  "stopHealthCheck self c =
     (case c_health c of
        None \<Rightarrow> Some c
      | Some h \<Rightarrow>
          if hc_quit h then Some c
          else if self then None
          else Some (c\<lparr>c_health := Some \<lparr>hc_quit = True, hc_done = True\<rparr>\<rparr>))"

definition logConnectionError :: "gerror \<Rightarrow> gerror" where
  "logConnectionError err =
     NewWrappedSystemError
       (if err = ioEOF then ErrCodeNetwork
        else (case err of
                SystemError code _ _ \<Rightarrow> if code \<noteq> ErrCodeNetwork then code else ErrCodeNetwork
              | _ \<Rightarrow> ErrCodeNetwork)) err"

definition stop_both :: "gerror \<Rightarrow> Connection \<Rightarrow> Connection go" where
  "stop_both err c =
     (if c_stoppedExchanges c then Ret c
      else
        go_bind (stopExchanges err (c_outbound c)) (\<lambda>out.
          go_bind (stopExchanges err (c_inbound c)) (\<lambda>inb.
            Ret (c\<lparr>c_stoppedExchanges := True, c_outbound := out, c_inbound := inb\<rparr>))))"

definition connectionError :: "bool \<Rightarrow> gerror \<Rightarrow> Connection \<Rightarrow> (gerror \<times> Connection) go option" where
  "connectionError self err0 c0 =
     (case stopHealthCheck self c0 of
        None \<Rightarrow> None
      | Some c1 \<Rightarrow>
          Some (let err = logConnectionError err0
                in go_bind (conn_close c1) (\<lambda>(_, c2).
                     go_bind (stop_both err c2) (\<lambda>c3.
                       go_bind (checkExchanges c3) (\<lambda>c4. Ret (err, c4))))))"

definition SendSystemError :: "uint32 \<Rightarrow> Span \<Rightarrow> gerror \<Rightarrow> Connection \<Rightarrow> gerror option \<times> Connection" where
  "SendSystemError i span err c =
     (let (frame, c1) = pool_Get c
      in case Frame_write (ErrorMsg \<lparr>em_id = i, em_errCode = GetSystemErrorCode (Some err), em_tracing = span,
                                    em_message = GetSystemErrorMessage err\<rparr>) frame of
           (Some e, _) \<Rightarrow> (Some (ErrorString (''failed to create outbound error frame: '' @ Error e)), c1)
         | (None, frame') \<Rightarrow>
             if c_state c1 = connectionClosed then
               (Some (ErrorString (''failed to send error frame, connection state '' @
                  connectionState_String (c_state c1))), c1)
             else if length (c_sendCh c1) < c_sendCap c1 then (None, c1\<lparr>c_sendCh := c_sendCh c1 @ [frame']\<rparr>)
             else (Some (ErrorString ''failed to send error frame, buffer full''), c1))"

definition protocolError :: "uint32 \<Rightarrow> gerror \<Rightarrow> Connection \<Rightarrow> (gerror \<times> Connection) go" where
  "protocolError i err c =
     (let sysErr = NewWrappedSystemError ErrCodeProtocol err;
          c1 = snd (SendSystemError i emptySpan sysErr c)
      in go_bind (conn_close c1) (\<lambda>(_, c2).
           go_bind (stop_both sysErr c2) (\<lambda>c3. Ret (sysErr, c3))))"

text \<open>\<^verbatim>\<open>closeNetwork\<close>, called by the goroutine that writes frames.\<close>

definition closeNetwork :: "Connection \<Rightarrow> Connection option" where
  "closeNetwork c =
     (case stopHealthCheck False c of
        None \<Rightarrow> None
      | Some c' \<Rightarrow> Some (c'\<lparr>c_closeNetworkCalled := True\<rparr>))"

section \<open>Exchanges of the connection\<close>

text \<open>The callbacks of the exchange sets: adding announces the change, removing checks the close.\<close>

definition onExchangeAdded :: "Connection \<Rightarrow> Connection" where
  "onExchangeAdded c = c_event OnExchangeUpdated c"

datatype set_name = Inbound | Outbound

definition c_set :: "set_name \<Rightarrow> Connection \<Rightarrow> messageExchangeSet" where
  "c_set d c = (case d of Inbound \<Rightarrow> c_inbound c | Outbound \<Rightarrow> c_outbound c)"

definition set_c_set :: "set_name \<Rightarrow> messageExchangeSet \<Rightarrow> Connection \<Rightarrow> Connection" where
  "set_c_set d ms c = (case d of Inbound \<Rightarrow> c\<lparr>c_inbound := ms\<rparr> | Outbound \<Rightarrow> c\<lparr>c_outbound := ms\<rparr>)"

definition conn_newExchange ::
  "set_name \<Rightarrow> gerror option \<Rightarrow> gerror \<Rightarrow> byte \<Rightarrow> uint32 \<Rightarrow> nat \<Rightarrow> Connection \<Rightarrow> (gerror + nat) \<times> Connection" where
  "conn_newExchange d ctx ctxEnd msgType i n c =
     (case newExchange ctx ctxEnd msgType i n (c_set d c) of
        (Inl e, ms) \<Rightarrow> (Inl e, set_c_set d ms c)
      | (Inr p, ms) \<Rightarrow> (Inr p, onExchangeAdded (set_c_set d ms c)))"

text \<open>An operation on a set that may call \<^verbatim>\<open>onRemoved\<close>.\<close>

definition on_removed :: "set_name \<Rightarrow> bool \<times> messageExchangeSet \<Rightarrow> Connection \<Rightarrow> Connection go" where
  "on_removed d r c =
     (case r of (called, ms) \<Rightarrow> if called then checkExchanges (set_c_set d ms c) else Ret (set_c_set d ms c))"

definition conn_removeExchange :: "set_name \<Rightarrow> uint32 \<Rightarrow> Connection \<Rightarrow> Connection go" where
  "conn_removeExchange d i c = on_removed d (removeExchange i (c_set d c)) c"

definition conn_shutdown :: "set_name \<Rightarrow> nat \<Rightarrow> Connection \<Rightarrow> Connection go" where
  "conn_shutdown d p c = go_bind (shutdown_exchange p (c_set d c)) (\<lambda>r. on_removed d r c)"

definition conn_inboundExpired :: "nat \<Rightarrow> Connection \<Rightarrow> Connection go" where
  "conn_inboundExpired p c = on_removed Inbound (inboundExpired p (c_inbound c)) c"

section \<open>Control messages\<close>

definition sendMessage :: "message \<Rightarrow> Connection \<Rightarrow> gerror option \<times> Connection" where
  "sendMessage msg c =
     (let (frame, c1) = pool_Get c
      in case Frame_write msg frame of
           (Some e, frame') \<Rightarrow> (Some e, pool_Release frame' c1)
         | (None, frame') \<Rightarrow>
             if length (c_sendCh c1) < c_sendCap c1 then (None, c1\<lparr>c_sendCh := c_sendCh c1 @ [frame']\<rparr>)
             else (Some ErrSendBufferFull, c1))"

definition recvMessage :: "message \<Rightarrow> nat \<Rightarrow> Connection \<Rightarrow> (gerror option \<times> message \<times> Connection) go" where
  "recvMessage msg p c =
     go_bind (recvPeerFrameOfType (message_messageType msg) (ms_heap (c_outbound c) ! p)) (\<lambda>(res, rel, mex).
       let c1 = c\<lparr>c_outbound := (c_outbound c)\<lparr>ms_heap := (ms_heap (c_outbound c))[p := mex]\<rparr>,
                  c_released := c_released c @ (case rel of Some f \<Rightarrow> [f] | None \<Rightarrow> [])\<rparr>
       in case res of
            Inl (ErrorMessage _ code _ text) \<Rightarrow> Ret (Some (AsSystemError code text), msg, c1)
          | Inl e \<Rightarrow> Ret (Some e, msg, c1)
          | Inr frame \<Rightarrow>
              go_bind (Frame_read msg frame) (\<lambda>(e, msg'). Ret (e, msg', pool_Release frame c1)))"

text \<open>
  \<^verbatim>\<open>ping\<close>: \<open>env\<close> is what the other goroutines do to the connection while it waits for the answer.
\<close>

definition ping ::
  "bool \<Rightarrow> gerror option \<Rightarrow> gerror \<Rightarrow> (Connection \<Rightarrow> Connection) \<Rightarrow> Connection \<Rightarrow>
   (gerror option \<times> Connection) go option" where
  "ping self ctx ctxEnd env c0 =
     (let (i, c1) = NextMessageID c0
      in case conn_newExchange Outbound ctx ctxEnd messageTypePingReq i 1 c1 of
           (Inl e, c2) \<Rightarrow>
             (case connectionError self e c2 of
                None \<Rightarrow> None
              | Some res \<Rightarrow> Some (go_bind res (\<lambda>(err, c3). Ret (Some err, c3))))
         | (Inr p, c2) \<Rightarrow>
             (case sendMessage (PingReq i) c2 of
                (Some e, c3) \<Rightarrow>
                  (case connectionError self e c3 of
                     None \<Rightarrow> None
                   | Some res \<Rightarrow>
                       Some (go_bind res (\<lambda>(err, c4).
                         go_bind (conn_removeExchange Outbound i c4) (\<lambda>c5. Ret (Some err, c5)))))
              | (None, c3) \<Rightarrow>
                  Some (go_bind (recvMessage (PingRes 0) p (env c3)) (\<lambda>(err, _, c4).
                    go_bind (conn_removeExchange Outbound i c4) (\<lambda>c5. Ret (err, c5))))))"

text \<open>The handlers return whether the frame is to be released.\<close>

definition forward_outbound :: "Frame \<Rightarrow> Connection \<Rightarrow> bool \<times> Connection" where
  "forward_outbound frame c =
     (case mexset_forwardPeerFrame frame (c_outbound c) of
        (e, ms) \<Rightarrow> (e \<noteq> None, c\<lparr>c_outbound := ms\<rparr>))"

definition handlePingRes :: "Frame \<Rightarrow> Connection \<Rightarrow> bool \<times> Connection" where
  "handlePingRes frame c = forward_outbound frame c"

definition handlePingReq :: "Frame \<Rightarrow> Connection \<Rightarrow> Connection go option" where
  "handlePingReq frame c =
     (if c_state c \<noteq> connectionActive then
        Some (go_bind (protocolError (fh_ID (fr_Header frame)) (ErrConnNotActive ''ping on incoming'' (c_state c)) c)
          (\<lambda>(_, c'). Ret c'))
      else
        (case sendMessage (PingRes (fh_ID (fr_Header frame))) c of
           (None, c1) \<Rightarrow> Some (Ret c1)
         | (Some e, c1) \<Rightarrow>
             (case connectionError False e c1 of
                None \<Rightarrow> None
              | Some res \<Rightarrow> Some (go_bind res (\<lambda>(_, c2). Ret c2)))))"

definition handleCallRes :: "Frame \<Rightarrow> Connection \<Rightarrow> bool \<times> Connection" where
  "handleCallRes frame c = forward_outbound frame c"

definition handleCallResContinue :: "Frame \<Rightarrow> Connection \<Rightarrow> bool \<times> Connection" where
  "handleCallResContinue frame c = forward_outbound frame c"

definition handleCallReqContinue :: "Frame \<Rightarrow> Connection \<Rightarrow> bool \<times> Connection" where
  "handleCallReqContinue frame c =
     (case mexset_forwardPeerFrame frame (c_inbound c) of
        (e, ms) \<Rightarrow> (e \<noteq> None, c\<lparr>c_inbound := ms\<rparr>))"

definition handleError :: "Frame \<Rightarrow> Connection \<Rightarrow> (bool \<times> Connection) go option" where
  "handleError frame c =
     (let fatal = \<lambda>e. (case connectionError False e c of
                         None \<Rightarrow> None
                       | Some res \<Rightarrow> Some (go_bind res (\<lambda>(_, c'). Ret (True, c'))))
      in case SizedPayload frame of
           Panic \<Rightarrow> Some Panic
         | Ret p \<Rightarrow>
             (case errorMessage_read \<lparr>em_id = fh_ID (fr_Header frame), em_errCode = 0, em_tracing = emptySpan,
                                       em_message = []\<rparr> (NewReadBuffer p) of
                (errMsg, r) \<Rightarrow>
                  (case rb_err r of
                     Some e \<Rightarrow> fatal e
                   | None \<Rightarrow>
                       if em_errCode errMsg = ErrCodeProtocol then
                         fatal (AsSystemError (em_errCode errMsg) (em_message errMsg))
                       else Some (Ret (forward_outbound frame c)))))"

section \<open>What the check of the exchanges does\<close>

text \<open>The channel \<^verbatim>\<open>stopCh\<close> is closed exactly in the closed state, and both exchange sets are in order.\<close>

definition conn_inv :: "Connection \<Rightarrow> bool" where
  "conn_inv c \<longleftrightarrow> c_stopCh c = (c_state c = connectionClosed) \<and> mexset_inv (c_inbound c) \<and> mexset_inv (c_outbound c)"

text \<open>How far a connection can go on with its close, as a function of what is pending.\<close>

definition settled :: "Connection \<Rightarrow> connectionState" where
  "settled c =
     (if c_state c = connectionClosed \<or> c_stoppedExchanges c then connectionClosed
      else if c_state c = connectionActive \<or> \<not> relay_canClose c then c_state c
      else if c_state c = connectionStartClose \<and> 0 < ms_count (c_inbound c) then connectionStartClose
      else if 0 < ms_count (c_outbound c) then connectionInboundClosed
      else connectionClosed)"

definition check_events :: "Connection \<Rightarrow> connEvent list" where
  "check_events c = c_events c @ OnExchangeUpdated # (if settled c = c_state c then [] else [OnCloseStateChange])"

lemma checkExchanges_eq:
  assumes "conn_inv c"
  shows "checkExchanges c = Ret (c\<lparr>c_state := settled c, c_stopCh := (settled c = connectionClosed),
           c_events := check_events c\<rparr>)"
  using assms
  by (cases "c_state c")
    (auto simp: checkExchanges_def check_startClose_def check_inboundClosed_def check_finish_def moveState_def
      close_stopCh_def settled_def check_events_def c_event_def relay_canClose_def conn_inv_def Let_def
      split: option.splits)

lemma conn_inv_check:
  assumes "conn_inv c"
  shows "conn_inv (c\<lparr>c_state := settled c, c_stopCh := (settled c = connectionClosed)\<rparr>)"
  using assms by (simp add: conn_inv_def)

lemma conn_inv_simps [simp]:
  "conn_inv (c\<lparr>c_events := e\<rparr>) = conn_inv c"
  "conn_inv (c\<lparr>c_sendCh := fs\<rparr>) = conn_inv c"
  "conn_inv (c\<lparr>c_gets := n\<rparr>) = conn_inv c"
  "conn_inv (c\<lparr>c_released := fs\<rparr>) = conn_inv c"
  "conn_inv (c\<lparr>c_health := h\<rparr>) = conn_inv c"
  "conn_inv (c\<lparr>c_stoppedExchanges := b\<rparr>) = conn_inv c"
  "conn_inv (c\<lparr>c_closeNetworkCalled := b\<rparr>) = conn_inv c"
  "conn_inv (c\<lparr>c_nextMessageID := i\<rparr>) = conn_inv c"
  "conn_inv (c\<lparr>c_relay := rl\<rparr>) = conn_inv c"
  "conn_inv (c\<lparr>c_lastActivityRead := t\<rparr>) = conn_inv c"
  "conn_inv (c\<lparr>c_lastActivityWrite := t\<rparr>) = conn_inv c"
  "conn_inv (c_event e' c) = conn_inv c"
  by (simp_all add: conn_inv_def c_event_def)

lemma conn_inv_inbound: "conn_inv c \<Longrightarrow> mexset_inv ms \<Longrightarrow> conn_inv (c\<lparr>c_inbound := ms\<rparr>)"
  by (simp add: conn_inv_def)

lemma conn_inv_outbound: "conn_inv c \<Longrightarrow> mexset_inv ms \<Longrightarrow> conn_inv (c\<lparr>c_outbound := ms\<rparr>)"
  by (simp add: conn_inv_def)

lemma conn_invD: "conn_inv c \<Longrightarrow> mexset_inv (c_inbound c)" "conn_inv c \<Longrightarrow> mexset_inv (c_outbound c)"
  by (simp_all add: conn_inv_def)

text \<open>The order in which the states are passed.\<close>

fun state_no :: "connectionState \<Rightarrow> nat" where
  "state_no connectionActive = 1"
| "state_no connectionStartClose = 2"
| "state_no connectionInboundClosed = 3"
| "state_no connectionClosed = 4"

lemma state_no_settled: "state_no (c_state c) \<le> state_no (settled c)"
  by (cases "c_state c") (auto simp: settled_def)

section \<open>Every operation keeps the invariant and does not panic\<close>

definition keeps :: "Connection \<Rightarrow> Connection go \<Rightarrow> bool" where
  "keeps c r \<longleftrightarrow> (\<exists>c'. r = Ret c' \<and> conn_inv c' \<and> state_no (c_state c) \<le> state_no (c_state c'))"

lemma keepsI: "conn_inv c' \<Longrightarrow> state_no (c_state c) \<le> state_no (c_state c') \<Longrightarrow> keeps c (Ret c')"
  by (simp add: keeps_def)

lemma keeps_bind:
  assumes "keeps c r" and "\<And>c'. conn_inv c' \<Longrightarrow> state_no (c_state c) \<le> state_no (c_state c') \<Longrightarrow> keeps c' (k c')"
  shows "keeps c (go_bind r k)"
  using assms unfolding keeps_def by (fastforce dest: le_trans)

lemma keeps_state: "c_state c = c_state c0 \<Longrightarrow> keeps c r \<Longrightarrow> keeps c0 r"
  by (simp add: keeps_def)

lemma checkExchanges_keeps: "conn_inv c \<Longrightarrow> keeps c (checkExchanges c)"
  using state_no_settled [of c] by (simp add: checkExchanges_eq keeps_def conn_inv_check)

lemma conn_close_keeps: "conn_inv c \<Longrightarrow> keeps c (go_bind (conn_close c) (\<lambda>(_, c'). Ret c'))"
proof (cases "c_state c = connectionActive")
  case True
  assume "conn_inv c"
  let ?c = "c_event OnCloseStateChange (c\<lparr>c_state := connectionStartClose\<rparr>)"
  have "conn_inv ?c" using \<open>conn_inv c\<close> True by (simp add: conn_inv_def c_event_def)
  then have "keeps ?c (checkExchanges ?c)" by (rule checkExchanges_keeps)
  then show ?thesis using True by (auto simp: conn_close_def keeps_def c_event_def)
qed (auto simp: conn_close_def keeps_def)

lemma stop_both_keeps: "conn_inv c \<Longrightarrow> keeps c (stop_both err c)"
proof (cases "c_stoppedExchanges c")
  case False
  assume "conn_inv c"
  obtain out where "stopExchanges err (c_outbound c) = Ret out" "mexset_inv out"
    by (rule stopExchanges_ok [OF conn_invD(2) [OF \<open>conn_inv c\<close>]])
  moreover obtain inb where "stopExchanges err (c_inbound c) = Ret inb" "mexset_inv inb"
    by (rule stopExchanges_ok [OF conn_invD(1) [OF \<open>conn_inv c\<close>]])
  ultimately show ?thesis
    using False \<open>conn_inv c\<close> by (simp add: stop_both_def keeps_def conn_inv_def)
qed (simp add: stop_both_def keeps_def)

lemma go_bindE:
  assumes "keeps c (go_bind r (\<lambda>(x, c'). Ret c'))"
  obtains x c' where "r = Ret (x, c')" and "conn_inv c'" and "state_no (c_state c) \<le> state_no (c_state c')"
  using assms by (cases r) (auto simp: keeps_def)

lemma keepsE:
  assumes "keeps c r"
  obtains c' where "r = Ret c'" and "conn_inv c'" and "state_no (c_state c) \<le> state_no (c_state c')"
  using assms by (auto simp: keeps_def)

abbreviation health_running :: "Connection \<Rightarrow> bool" where
  "health_running c \<equiv> (case c_health c of None \<Rightarrow> False | Some h \<Rightarrow> \<not> hc_quit h)"

lemma stopHealthCheck_None: "stopHealthCheck self c = None \<longleftrightarrow> self \<and> health_running c"
  by (auto simp: stopHealthCheck_def split: option.splits)

lemma stopHealthCheck_Some:
  assumes "\<not> (self \<and> health_running c)"
  obtains h where "stopHealthCheck self c = Some (c\<lparr>c_health := h\<rparr>)"
proof (cases "c_health c")
  case None
  then show ?thesis using that [of None] by (simp add: stopHealthCheck_def)
next
  case (Some h)
  then show ?thesis
    using assms that [of "if hc_quit h then Some h else Some \<lparr>hc_quit = True, hc_done = True\<rparr>"]
    by (auto simp: stopHealthCheck_def split: if_splits)
qed

lemma settled_stopped [simp]: "c_stoppedExchanges c \<Longrightarrow> settled c = connectionClosed"
  by (simp add: settled_def)

lemma stop_both_stops: "stop_both err c = Ret c' \<Longrightarrow> c_stoppedExchanges c'"
  by (auto simp: stop_both_def go_bind_Ret_iff split: if_splits)

lemma connectionError_ok:
  assumes "conn_inv c" and "\<not> (self \<and> health_running c)"
  obtains c' where "connectionError self err c = Some (Ret (logConnectionError err, c'))" and "conn_inv c'"
    and "c_state c' = connectionClosed" and "c_stopCh c'"
proof -
  obtain h where h: "stopHealthCheck self c = Some (c\<lparr>c_health := h\<rparr>)" (is "_ = Some ?c1")
    by (rule stopHealthCheck_Some [OF assms(2)])
  have "conn_inv ?c1" using assms(1) by simp
  then obtain x c2 where c2: "conn_close ?c1 = Ret (x, c2)" "conn_inv c2"
    by (rule go_bindE [OF conn_close_keeps])
  obtain c3 where c3: "stop_both (logConnectionError err) c2 = Ret c3" "conn_inv c3"
    by (rule keepsE [OF stop_both_keeps [OF c2(2)]])
  let ?c4 = "c3\<lparr>c_state := connectionClosed, c_stopCh := True, c_events := check_events c3\<rparr>"
  have c4: "checkExchanges c3 = Ret ?c4" "conn_inv ?c4"
    using checkExchanges_eq [OF c3(2)] stop_both_stops [OF c3(1)] conn_inv_check [OF c3(2)] by simp_all
  show ?thesis
    using that [of ?c4] c4 by (simp add: connectionError_def h c2(1) c3(1) Let_def)
qed

lemma SendSystemError_keeps:
  assumes "conn_inv c"
  shows "conn_inv (snd (SendSystemError i sp err c))" and "c_state (snd (SendSystemError i sp err c)) = c_state c"
  using assms
  by (auto simp: SendSystemError_def pool_Get_def Let_def split: prod.splits option.splits)

lemma protocolError_keeps: "conn_inv c \<Longrightarrow> keeps c (go_bind (protocolError i err c) (\<lambda>(_, c'). Ret c'))"
proof -
  assume inv: "conn_inv c"
  let ?e = "NewWrappedSystemError ErrCodeProtocol err"
  let ?c1 = "snd (SendSystemError i emptySpan ?e c)"
  note c1 = SendSystemError_keeps [OF inv, of i emptySpan ?e]
  obtain x c2 where c2: "conn_close ?c1 = Ret (x, c2)" "conn_inv c2" "state_no (c_state ?c1) \<le> state_no (c_state c2)"
    by (rule go_bindE [OF conn_close_keeps [OF c1(1)]])
  obtain c3 where c3: "stop_both ?e c2 = Ret c3" "conn_inv c3" "state_no (c_state c2) \<le> state_no (c_state c3)"
    by (rule keepsE [OF stop_both_keeps [OF c2(2)]])
  show ?thesis using c1(2) c2 c3 by (simp add: protocolError_def keeps_def Let_def)
qed

lemma sendMessage_keeps:
  assumes "conn_inv c"
  shows "conn_inv (snd (sendMessage m c))" and "c_state (snd (sendMessage m c)) = c_state c"
    and "c_health (snd (sendMessage m c)) = c_health c"
  using assms by (auto simp: sendMessage_def pool_Get_def pool_Release_def Let_def split: prod.splits option.splits)

lemma set_c_set_simps [simp]:
  "c_state (set_c_set d ms c) = c_state c" "c_health (set_c_set d ms c) = c_health c"
  "c_sendCh (set_c_set d ms c) = c_sendCh c" "c_sendCap (set_c_set d ms c) = c_sendCap c"
  "c_stoppedExchanges (set_c_set d ms c) = c_stoppedExchanges c" "c_set d (set_c_set d ms c) = ms"
  by (cases d; simp add: set_c_set_def c_set_def)+

lemma conn_inv_set: "conn_inv c \<Longrightarrow> mexset_inv ms \<Longrightarrow> conn_inv (set_c_set d ms c)"
  by (cases d) (simp_all add: set_c_set_def conn_inv_def)

lemma conn_inv_c_set: "conn_inv c \<Longrightarrow> mexset_inv (c_set d c)"
  by (cases d) (simp_all add: c_set_def conn_inv_def)

lemma on_removed_keeps: "conn_inv c \<Longrightarrow> mexset_inv (snd r) \<Longrightarrow> keeps c (on_removed d r c)"
  by (cases r) (auto simp: on_removed_def conn_inv_set intro: keeps_state [OF _ checkExchanges_keeps] keepsI)

lemma conn_removeExchange_keeps: "conn_inv c \<Longrightarrow> keeps c (conn_removeExchange d i c)"
  unfolding conn_removeExchange_def by (intro on_removed_keeps mexset_inv_remove conn_inv_c_set)

lemma conn_inboundExpired_keeps: "conn_inv c \<Longrightarrow> keeps c (conn_inboundExpired p c)"
  unfolding conn_inboundExpired_def inboundExpired_def
  by (intro on_removed_keeps mexset_inv_expire conn_invD)

lemma conn_shutdown_keeps:
  assumes "conn_inv c" and "p < length (ms_heap (c_set d c))"
  shows "keeps c (conn_shutdown d p c)"
  using shutdown_exchange_ok [OF conn_inv_c_set [OF assms(1)] assms(2)] on_removed_keeps [OF assms(1)]
  by (fastforce simp: conn_shutdown_def)

lemma conn_newExchange_keeps:
  assumes "conn_inv c"
  shows "conn_inv (snd (conn_newExchange d ctx ce mt i n c))"
    and "c_state (snd (conn_newExchange d ctx ce mt i n c)) = c_state c"
  using mexset_inv_new [OF conn_inv_c_set [OF assms], of ctx ce mt i n d] conn_inv_set [OF assms]
  by (auto simp: conn_newExchange_def onExchangeAdded_def c_event_def split: prod.splits sum.splits)

text \<open>A connection with the default options, for the examples.\<close>

definition new_conn :: Connection where
  "new_conn =
     (case newConnection \<lparr>co_SendBufferSize = 0, co_SendBufferSizeOverrides = [], co_ChecksumType = 0,
        co_HealthChecks = \<lparr>hco_Interval = 0, hco_Timeout = 0, hco_FailuresToClose = 0\<rparr>\<rparr> [] 0 False 0
        (\<lambda>_. NewFrame MaxFramePayloadSize) 0 of
        Ret c \<Rightarrow> c)"

end
