(* ===== verification/Call_Context.thy ===== *)
theory Call_Context
  imports Messages
begin

text \<open>
  Call options, contexts and retries, from \<^verbatim>\<open>calloptions.go\<close>, \<^verbatim>\<open>context.go\<close>, \<^verbatim>\<open>context_builder.go\<close>,
  \<^verbatim>\<open>context_header.go\<close> and \<^verbatim>\<open>retry.go\<close>. A context is its deadline, the error it is done with, and the two
  values that TChannel stores in it; the part of Go's \<^verbatim>\<open>context\<close> package that the sources use is modelled
  here. Times are nanoseconds. A nil map is an empty one, as reading cannot tell them apart.
\<close>

section \<open>Call options\<close>

definition Raw :: string where "Raw = ''raw''"

record CallOptions =
  cop_Format :: string
  cop_ShardKey :: string
  cop_RoutingKey :: string
  cop_RoutingDelegate :: string
  cop_CallerName :: string

definition defaultCallOptions :: CallOptions where
  "defaultCallOptions = \<lparr>cop_Format = [], cop_ShardKey = [], cop_RoutingKey = [], cop_RoutingDelegate = [],
     cop_CallerName = []\<rparr>"

definition overrideHeaders :: "CallOptions \<Rightarrow> transportHeaders \<Rightarrow> transportHeaders" where
  "overrideHeaders c h =
     (let h1 = (if cop_Format c \<noteq> [] then AList.update ArgScheme (cop_Format c) h else h);
          h2 = (if cop_ShardKey c \<noteq> [] then AList.update ShardKey (cop_ShardKey c) h1 else h1);
          h3 = (if cop_RoutingKey c \<noteq> [] then AList.update RoutingKey (cop_RoutingKey c) h2 else h2);
          h4 = (if cop_RoutingDelegate c \<noteq> [] then AList.update RoutingDelegate (cop_RoutingDelegate c) h3 else h3)
      in if cop_CallerName c \<noteq> [] then AList.update CallerName (cop_CallerName c) h4 else h4)"

definition setHeaders :: "CallOptions \<Rightarrow> transportHeaders \<Rightarrow> transportHeaders" where
  "setHeaders c h = overrideHeaders c (AList.update ArgScheme Raw h)"

text \<open>Reading a header that is not there gives the empty string.\<close>

definition header_get :: "transportHeaders \<Rightarrow> string \<Rightarrow> string" where
  "header_get h k = (case map_of h k of Some v \<Rightarrow> v | None \<Rightarrow> [])"

definition setResponseHeaders :: "transportHeaders \<Rightarrow> transportHeaders \<Rightarrow> transportHeaders" where
  "setResponseHeaders reqHeaders respHeaders = AList.update ArgScheme (header_get reqHeaders ArgScheme) respHeaders"

section \<open>Retry options\<close>

datatype RetryOn =
  RetryDefault | RetryConnectionError | RetryNever | RetryNonIdempotent | RetryUnexpected | RetryIdempotent

fun RetryOn_String :: "RetryOn \<Rightarrow> string" where
  "RetryOn_String RetryDefault = ''RetryDefault''"
| "RetryOn_String RetryConnectionError = ''RetryConnectionError''"
| "RetryOn_String RetryNever = ''RetryNever''"
| "RetryOn_String RetryNonIdempotent = ''RetryNonIdempotent''"
| "RetryOn_String RetryUnexpected = ''RetryUnexpected''"
| "RetryOn_String RetryIdempotent = ''RetryIdempotent''"

record RetryOptions =
  ro_MaxAttempts :: int
  ro_RetryOn :: RetryOn
  ro_TimeoutPerAttempt :: duration

definition defaultRetryOptions :: RetryOptions where
  "defaultRetryOptions = \<lparr>ro_MaxAttempts = 5, ro_RetryOn = RetryDefault, ro_TimeoutPerAttempt = 0\<rparr>"

section \<open>Contexts\<close>

text \<open>The properties that \<^verbatim>\<open>IncomingCall\<close> exposes.\<close>

record incomingCall =
  in_CallerName :: string
  in_CallOptions :: CallOptions

record baseContext =
  bc_deadline :: "int option"
  bc_err :: "gerror option"

record tchannelCtxParams =
  tp_tracingDisabled :: bool
  tp_hideListeningOnOutbound :: bool
  tp_call :: "incomingCall option"
  tp_options :: "CallOptions option"
  tp_retryOptions :: "RetryOptions option"
  tp_connectTimeout :: duration
  tp_connectBaseContext :: "baseContext option"

record headersContainer =
  hc_reqHeaders :: "(string, string) gomap"
  hc_respHeaders :: "(string, string) gomap"

record Context = baseContext +
  ctx_params :: "tchannelCtxParams option"
  ctx_headers :: "headersContainer option"

definition context_Background :: Context where
  "context_Background = \<lparr>bc_deadline = None, bc_err = None, ctx_params = None, ctx_headers = None\<rparr>"

text \<open>\<^verbatim>\<open>context.WithCancel\<close>, its cancel function, and \<^verbatim>\<open>context.WithTimeout\<close> at the time \<open>now\<close>.\<close>

definition WithCancel :: "Context \<Rightarrow> Context" where
  "WithCancel parent = parent"

definition cancel :: "Context \<Rightarrow> Context" where
  "cancel c = (if bc_err c = None then c\<lparr>bc_err := Some Canceled\<rparr> else c)"

definition WithTimeout :: "int \<Rightarrow> Context \<Rightarrow> duration \<Rightarrow> Context" where
  "WithTimeout now parent timeout =
     (if (case bc_deadline parent of Some d \<Rightarrow> d < now + timeout | None \<Rightarrow> False) then WithCancel parent
      else
        (let c = parent\<lparr>bc_deadline := Some (now + timeout)\<rparr>
         in if timeout \<le> 0 \<and> bc_err c = None then c\<lparr>bc_err := Some DeadlineExceeded\<rparr> else c))"

text \<open>The error of a context at a later time: its deadline may have passed.\<close>

definition ctx_Err :: "int \<Rightarrow> Context \<Rightarrow> gerror option" where
  "ctx_Err now c =
     (case bc_err c of
        Some e \<Rightarrow> Some e
      | None \<Rightarrow> (case bc_deadline c of Some d \<Rightarrow> if d \<le> now then Some DeadlineExceeded else None | None \<Rightarrow> None))"

definition CurrentCall :: "Context \<Rightarrow> incomingCall option" where
  "CurrentCall ctx = (case ctx_params ctx of Some p \<Rightarrow> tp_call p | None \<Rightarrow> None)"

definition currentCallOptions :: "Context \<Rightarrow> CallOptions option" where
  "currentCallOptions ctx = (case ctx_params ctx of Some p \<Rightarrow> tp_options p | None \<Rightarrow> None)"

definition isTracingDisabled :: "Context \<Rightarrow> bool" where
  "isTracingDisabled ctx = (case ctx_params ctx of Some p \<Rightarrow> tp_tracingDisabled p | None \<Rightarrow> False)"

section \<open>Contexts with headers\<close>

definition ctx_Headers :: "Context \<Rightarrow> (string, string) gomap" where
  "ctx_Headers c = (case ctx_headers c of Some h \<Rightarrow> hc_reqHeaders h | None \<Rightarrow> [])"

definition ctx_ResponseHeaders :: "Context \<Rightarrow> (string, string) gomap" where
  "ctx_ResponseHeaders c = (case ctx_headers c of Some h \<Rightarrow> hc_respHeaders h | None \<Rightarrow> [])"

definition SetResponseHeaders :: "(string, string) gomap \<Rightarrow> Context \<Rightarrow> Context go" where
  "SetResponseHeaders headers c =
     (case ctx_headers c of
        Some h \<Rightarrow> Ret (c\<lparr>ctx_headers := Some (h\<lparr>hc_respHeaders := headers\<rparr>)\<rparr>)
      | None \<Rightarrow> Panic)"

definition WrapWithHeaders :: "Context \<Rightarrow> (string, string) gomap \<Rightarrow> Context" where
  "WrapWithHeaders ctx headers = ctx\<lparr>ctx_headers := Some \<lparr>hc_reqHeaders = headers, hc_respHeaders = []\<rparr>\<rparr>"

definition Wrap :: "Context \<Rightarrow> Context" where
  "Wrap ctx = (if ctx_headers ctx \<noteq> None then ctx else WrapWithHeaders ctx [])"

definition ctx_Child :: "Context \<Rightarrow> Context" where
  "ctx_Child c =
     Wrap (c\<lparr>ctx_headers := Some (case ctx_headers c of
                                    Some h \<Rightarrow> h
                                  | None \<Rightarrow> \<lparr>hc_reqHeaders = [], hc_respHeaders = []\<rparr>)\<rparr>)"

definition WithoutHeaders :: "Context \<Rightarrow> Context" where
  "WithoutHeaders ctx = ctx\<lparr>ctx_params := None, ctx_headers := None\<rparr>"

section \<open>The builder\<close>

record ContextBuilder =
  cb_TracingDisabled :: bool
  cb_hideListeningOnOutbound :: bool
  cb_replaceParentHeaders :: bool
  cb_Timeout :: duration
  cb_Headers :: "(string, string) gomap"
  cb_CallOptions :: "CallOptions option"
  cb_RetryOptions :: "RetryOptions option"
  cb_ConnectTimeout :: duration
  cb_ConnectBaseContext :: "baseContext option"
  cb_ParentContext :: "Context option"
  cb_incomingCall :: "incomingCall option"

definition NewContextBuilder :: "duration \<Rightarrow> ContextBuilder" where
  "NewContextBuilder timeout =
     \<lparr>cb_TracingDisabled = False, cb_hideListeningOnOutbound = False, cb_replaceParentHeaders = False,
      cb_Timeout = timeout, cb_Headers = [], cb_CallOptions = None, cb_RetryOptions = None, cb_ConnectTimeout = 0,
      cb_ConnectBaseContext = None, cb_ParentContext = None, cb_incomingCall = None\<rparr>"

definition SetTimeout where "SetTimeout timeout cb = cb\<lparr>cb_Timeout := timeout\<rparr>"

definition AddHeader :: "string \<Rightarrow> string \<Rightarrow> ContextBuilder \<Rightarrow> ContextBuilder" where
  "AddHeader k v cb = cb\<lparr>cb_Headers := AList.update k v (cb_Headers cb)\<rparr>"

definition SetHeaders :: "(string, string) gomap \<Rightarrow> ContextBuilder \<Rightarrow> ContextBuilder" where
  "SetHeaders headers cb = cb\<lparr>cb_Headers := headers, cb_replaceParentHeaders := True\<rparr>"

definition cb_options :: "ContextBuilder \<Rightarrow> CallOptions" where
  "cb_options cb = (case cb_CallOptions cb of Some o1 \<Rightarrow> o1 | None \<Rightarrow> defaultCallOptions)"

definition SetShardKey :: "string \<Rightarrow> ContextBuilder \<Rightarrow> ContextBuilder" where
  "SetShardKey sk cb = cb\<lparr>cb_CallOptions := Some ((cb_options cb)\<lparr>cop_ShardKey := sk\<rparr>)\<rparr>"
definition SetFormat :: "string \<Rightarrow> ContextBuilder \<Rightarrow> ContextBuilder" where
  "SetFormat f cb = cb\<lparr>cb_CallOptions := Some ((cb_options cb)\<lparr>cop_Format := f\<rparr>)\<rparr>"
definition SetRoutingKey :: "string \<Rightarrow> ContextBuilder \<Rightarrow> ContextBuilder" where
  "SetRoutingKey rk cb = cb\<lparr>cb_CallOptions := Some ((cb_options cb)\<lparr>cop_RoutingKey := rk\<rparr>)\<rparr>"
definition SetRoutingDelegate :: "string \<Rightarrow> ContextBuilder \<Rightarrow> ContextBuilder" where
  "SetRoutingDelegate rd cb = cb\<lparr>cb_CallOptions := Some ((cb_options cb)\<lparr>cop_RoutingDelegate := rd\<rparr>)\<rparr>"
definition SetConnectTimeout where "SetConnectTimeout d cb = cb\<lparr>cb_ConnectTimeout := d\<rparr>"
definition SetConnectBaseContext where "SetConnectBaseContext ctx cb = cb\<lparr>cb_ConnectBaseContext := Some ctx\<rparr>"
definition HideListeningOnOutbound where "HideListeningOnOutbound cb = cb\<lparr>cb_hideListeningOnOutbound := True\<rparr>"
definition DisableTracing where "DisableTracing cb = cb\<lparr>cb_TracingDisabled := True\<rparr>"
definition SetRetryOptions where "SetRetryOptions retryOptions cb = cb\<lparr>cb_RetryOptions := Some retryOptions\<rparr>"
definition SetTimeoutPerAttempt :: "duration \<Rightarrow> ContextBuilder \<Rightarrow> ContextBuilder" where
  "SetTimeoutPerAttempt t cb =
     cb\<lparr>cb_RetryOptions := Some ((case cb_RetryOptions cb of
            Some ro \<Rightarrow> ro
          | None \<Rightarrow> \<lparr>ro_MaxAttempts = 0, ro_RetryOn = RetryDefault, ro_TimeoutPerAttempt = 0\<rparr>)
          \<lparr>ro_TimeoutPerAttempt := t\<rparr>)\<rparr>"
definition SetParentContext where "SetParentContext ctx cb = cb\<lparr>cb_ParentContext := Some ctx\<rparr>"
definition setIncomingCall where "setIncomingCall call cb = cb\<lparr>cb_incomingCall := Some call\<rparr>"

definition getHeaders :: "ContextBuilder \<Rightarrow> (string, string) gomap" where
  "getHeaders cb =
     (case (cb_ParentContext cb, cb_replaceParentHeaders cb) of
        (Some parent, False) \<Rightarrow>
          (case ctx_headers parent of
             Some h \<Rightarrow>
               if hc_reqHeaders h = [] then cb_Headers cb
               else fold (\<lambda>(k, v). AList.update k v) (cb_Headers cb)
                      (fold (\<lambda>(k, v). AList.update k v) (hc_reqHeaders h) [])
           | None \<Rightarrow> cb_Headers cb)
      | _ \<Rightarrow> cb_Headers cb)"

definition Build :: "int \<Rightarrow> ContextBuilder \<Rightarrow> Context" where
  "Build now cb =
     (let params = \<lparr>tp_tracingDisabled = cb_TracingDisabled cb, tp_hideListeningOnOutbound = cb_hideListeningOnOutbound cb,
            tp_call = cb_incomingCall cb, tp_options = cb_CallOptions cb, tp_retryOptions = cb_RetryOptions cb,
            tp_connectTimeout = cb_ConnectTimeout cb, tp_connectBaseContext = cb_ConnectBaseContext cb\<rparr>;
          parent = (case cb_ParentContext cb of Some p \<Rightarrow> p | None \<Rightarrow> context_Background);
          ctx = (if cb_Timeout cb = 0 \<and> bc_deadline parent \<noteq> None then WithCancel parent
                 else WithTimeout now parent (cb_Timeout cb))
      in WrapWithHeaders (ctx\<lparr>ctx_params := Some params\<rparr>) (getHeaders cb))"

definition NewContext :: "int \<Rightarrow> duration \<Rightarrow> Context" where
  "NewContext now timeout = Build now (NewContextBuilder timeout)"

definition newIncomingContext :: "int \<Rightarrow> Context \<Rightarrow> incomingCall \<Rightarrow> duration \<Rightarrow> Context" where
  "newIncomingContext now ctx call timeout =
     Build now (setIncomingCall call (SetParentContext ctx (NewContextBuilder timeout)))"

section \<open>Retries\<close>

text \<open>
  \<^verbatim>\<open>context.DeadlineExceeded\<close> has the methods of a \<^verbatim>\<open>net.Error\<close>, so the type test succeeds on it too.
\<close>

fun isNetError :: "gerror option \<Rightarrow> bool" where
  "isNetError (Some (NetError _ _)) = True"
| "isNetError (Some DeadlineExceeded) = True"
| "isNetError _ = False"

definition getErrCode :: "gerror option \<Rightarrow> SystemErrCode" where
  "getErrCode err = (if isNetError err then ErrCodeNetwork else GetSystemErrorCode err)"

definition CanRetry :: "RetryOn \<Rightarrow> gerror option \<Rightarrow> bool" where
  "CanRetry r0 err =
     (if r0 = RetryNever then False
      else
        (let r = (if r0 = RetryDefault then RetryConnectionError else r0);
             code = getErrCode err
         in if code = ErrCodeBusy \<or> code = ErrCodeDeclined then True
            else if code = ErrCodeBadRequest then False
            else (case r of
                    RetryConnectionError \<Rightarrow> code = ErrCodeNetwork
                  | RetryUnexpected \<Rightarrow> code = ErrCodeUnexpected
                  | RetryIdempotent \<Rightarrow> True
                  | _ \<Rightarrow> False)))"

definition getRetryOptions :: "Context \<Rightarrow> RetryOptions" where
  "getRetryOptions ctx =
     (case ctx_params ctx of
        None \<Rightarrow> defaultRetryOptions
      | Some params \<Rightarrow>
          (case tp_retryOptions params of
             None \<Rightarrow> defaultRetryOptions
           | Some opts \<Rightarrow>
               if ro_MaxAttempts opts = 0 then opts\<lparr>ro_MaxAttempts := ro_MaxAttempts defaultRetryOptions\<rparr>
               else opts))"

record RequestState =
  rq_Start :: int
  rq_SelectedPeers :: "string list"
  rq_Attempt :: int
  rq_retryOpts :: RetryOptions

definition getRequestState :: "int \<Rightarrow> RetryOptions \<Rightarrow> RequestState" where
  "getRequestState now opts = \<lparr>rq_Start = now, rq_SelectedPeers = [], rq_Attempt = 0, rq_retryOpts = opts\<rparr>"

text \<open>The methods accept a nil request state.\<close>

definition HasRetries :: "RequestState option \<Rightarrow> gerror option \<Rightarrow> bool" where
  "HasRetries rs err =
     (case rs of
        None \<Rightarrow> False
      | Some r \<Rightarrow> rq_Attempt r < ro_MaxAttempts (rq_retryOpts r) \<and> CanRetry (ro_RetryOn (rq_retryOpts r)) err)"

definition SinceStart :: "RequestState option \<Rightarrow> int \<Rightarrow> duration \<Rightarrow> duration" where
  "SinceStart rs now fallback = (case rs of None \<Rightarrow> fallback | Some r \<Rightarrow> now - rq_Start r)"

definition PrevSelectedPeers :: "RequestState option \<Rightarrow> string list" where
  "PrevSelectedPeers rs = (case rs of None \<Rightarrow> [] | Some r \<Rightarrow> rq_SelectedPeers r)"

fun getHost :: "string \<Rightarrow> string" where
  "getHost [] = []"
| "getHost (c # s) = (if c = CHR '':'' then [] else c # getHost s)"

definition AddSelectedPeer :: "string \<Rightarrow> RequestState option \<Rightarrow> RequestState option" where
  "AddSelectedPeer hostPort rs =
     (case rs of
        None \<Rightarrow> None
      | Some r \<Rightarrow> Some (r\<lparr>rq_SelectedPeers := List.insert (getHost hostPort) (List.insert hostPort (rq_SelectedPeers r))\<rparr>))"

definition RetryCount :: "RequestState option \<Rightarrow> int" where
  "RetryCount rs = (case rs of None \<Rightarrow> 0 | Some r \<Rightarrow> rq_Attempt r - 1)"

text \<open>
  \<^verbatim>\<open>RunWithRetry\<close> calls \<open>f\<close>, which acts on a state \<open>'s\<close> and may add to the request state. \<open>clock\<close> gives the time at
  which each attempt starts.
\<close>

type_synonym 's retriable = "Context \<Rightarrow> RequestState \<Rightarrow> 's \<Rightarrow> gerror option \<times> RequestState \<times> 's"

definition attempt :: "'s retriable \<Rightarrow> int \<Rightarrow> RetryOptions \<Rightarrow> Context \<Rightarrow> RequestState \<Rightarrow> 's \<Rightarrow> gerror option \<times> RequestState \<times> 's" where
  "attempt f now opts ctx rs s =
     (let rs1 = rs\<lparr>rq_Attempt := rq_Attempt rs + 1\<rparr>
      in if ro_TimeoutPerAttempt opts = 0 then f ctx rs1 s
         else f (WithTimeout now ctx (ro_TimeoutPerAttempt opts)) rs1 s)"

fun retry_loop ::
  "'s retriable \<Rightarrow> (int \<Rightarrow> int) \<Rightarrow> RetryOptions \<Rightarrow> Context \<Rightarrow> nat \<Rightarrow> gerror option \<Rightarrow> RequestState \<Rightarrow> 's \<Rightarrow>
   gerror option \<times> RequestState \<times> 's" where
  "retry_loop f clock opts ctx 0 err rs s = (err, rs, s)"
| "retry_loop f clock opts ctx (Suc n) err rs s =
     (case attempt f (clock (rq_Attempt rs)) opts ctx rs s of
        (err', rs', s') \<Rightarrow>
          if err' = None then (None, rs', s')
          else if \<not> CanRetry (ro_RetryOn opts) err' then (err', rs', s')
          else retry_loop f clock opts ctx n err' rs' s')"

definition RunWithRetry :: "'s retriable \<Rightarrow> (int \<Rightarrow> int) \<Rightarrow> Context \<Rightarrow> 's \<Rightarrow> gerror option \<times> RequestState \<times> 's" where
  "RunWithRetry f clock ctx s =
     (let opts = getRetryOptions ctx
      in retry_loop f clock opts ctx (nat (ro_MaxAttempts opts)) None (getRequestState (clock 0) opts) s)"

section \<open>Headers of a call and of a context\<close>

lemma map_of_fold_update:
  "map_of (fold (\<lambda>(k, v). AList.update k v) xs m) k =
     (case map_of (rev xs) k of Some v \<Rightarrow> Some v | None \<Rightarrow> map_of m k)"
  by (induction xs arbitrary: m) (auto simp: map_add_def update_conv' split: option.splits)

lemma map_of_rev_distinct: "distinct (map fst xs) \<Longrightarrow> map_of (rev xs) = map_of xs"
proof (induction xs)
  case (Cons x xs)
  then have "map_of xs (fst x) = None" by (simp add: map_of_eq_None_iff)
  then show ?case using Cons by (auto simp: map_add_def fun_eq_iff split: option.splits)
qed simp

section \<open>Properties\<close>

text \<open>
  C36: the headers of a context that the builder makes: a header set on the builder wins, then comes the
  header of the parent context, unless \<^verbatim>\<open>SetHeaders\<close> was called, after which the parent's are ignored.
\<close>

theorem build_headers:
  assumes "map_inv (cb_Headers cb)"
    and "\<And>p h. cb_ParentContext cb = Some p \<Longrightarrow> ctx_headers p = Some h \<Longrightarrow> map_inv (hc_reqHeaders h)"
  shows "map_of (ctx_Headers (Build now cb)) k =
    (case map_of (cb_Headers cb) k of
       Some v \<Rightarrow> Some v
     | None \<Rightarrow> (case cb_ParentContext cb of
                 Some p \<Rightarrow> if cb_replaceParentHeaders cb then None else map_of (ctx_Headers p) k
               | None \<Rightarrow> None))"
  using assms
  by (auto simp: Build_def ctx_Headers_def WrapWithHeaders_def getHeaders_def map_of_fold_update map_of_rev_distinct
      Let_def split: option.splits bool.splits)

theorem build_headers_witness:
  "map_of (ctx_Headers (Build 0 (AddHeader ''a'' ''2'' (SetParentContext
     (Build 0 (SetHeaders [(''a'', ''1''), (''b'', ''3'')] (NewContextBuilder 5))) (NewContextBuilder 5))))) ''b'' = Some ''3''"
  by (subst build_headers)
    (auto simp: AddHeader_def SetHeaders_def SetParentContext_def NewContextBuilder_def Build_def
      WrapWithHeaders_def getHeaders_def ctx_Headers_def WithTimeout_def context_Background_def Let_def)

text \<open>
  C38: a builder without a timeout takes over the deadline of its parent, and the context is done only if the parent is. If there is no
  parent, or one without a deadline, there is no default either: the deadline is the present, so the context is done from the start,
  with the error of its parent or else that of an exceeded deadline.
\<close>

theorem build_zero_timeout:
  assumes "cb_Timeout cb = 0"
  shows "case cb_ParentContext cb of
      None \<Rightarrow> bc_deadline (Build now cb) = Some now \<and> bc_err (Build now cb) = Some DeadlineExceeded
    | Some p \<Rightarrow>
        (case bc_deadline p of
           Some d \<Rightarrow> bc_deadline (Build now cb) = Some d \<and> bc_err (Build now cb) = bc_err p
         | None \<Rightarrow> bc_deadline (Build now cb) = Some now \<and>
             bc_err (Build now cb) = Some (case bc_err p of Some e \<Rightarrow> e | None \<Rightarrow> DeadlineExceeded))"
  using assms
  by (auto simp: Build_def WrapWithHeaders_def WithTimeout_def WithCancel_def context_Background_def Let_def split: option.splits)

theorem build_zero_timeout_witness:
  "bc_err (NewContext 7 0) = Some DeadlineExceeded \<and>
   bc_deadline (Build 7 (SetParentContext (NewContext 0 20) (NewContextBuilder 0))) = Some 20"
  using build_zero_timeout [of "NewContextBuilder 0" 7]
    build_zero_timeout [of "SetParentContext (NewContext 0 20) (NewContextBuilder 0)" 7]
  by (simp add: NewContextBuilder_def SetParentContext_def NewContext_def Build_def [of 0] WrapWithHeaders_def WithTimeout_def
      context_Background_def Let_def)

text \<open>
  \<open>run_attempts n\<close>: \<open>n\<close> attempts made one after the other whatever they return; of each its error and the request state that it
  leaves behind.
\<close>

fun run_attempts ::
  "'s retriable \<Rightarrow> (int \<Rightarrow> int) \<Rightarrow> RetryOptions \<Rightarrow> Context \<Rightarrow> nat \<Rightarrow> RequestState \<Rightarrow> 's \<Rightarrow>
   (gerror option \<times> RequestState) list \<times> 's" where
  "run_attempts f clock opts ctx 0 rs s = ([], s)"
| "run_attempts f clock opts ctx (Suc n) rs s =
     (case attempt f (clock (rq_Attempt rs)) opts ctx rs s of
        (err, rs', s') \<Rightarrow>
          (case run_attempts f clock opts ctx n rs' s' of (tr, s'') \<Rightarrow> ((err, rs') # tr, s'')))"

text \<open>A function that leaves the number of the attempt and the options to \<^verbatim>\<open>RunWithRetry\<close>.\<close>

definition keeps_attempt :: "'s retriable \<Rightarrow> bool" where
  "keeps_attempt f \<longleftrightarrow> (\<forall>ctx rs s err rs' s'. f ctx rs s = (err, rs', s') \<longrightarrow>
     rq_Attempt rs' = rq_Attempt rs \<and> rq_retryOpts rs' = rq_retryOpts rs)"

lemma attempt_state:
  assumes "keeps_attempt f" and "attempt f now opts ctx rs s = (err, rs', s')"
  shows "rq_Attempt rs' = rq_Attempt rs + 1" and "rq_retryOpts rs' = rq_retryOpts rs"
  using assms by (fastforce simp: keeps_attempt_def attempt_def Let_def split: if_splits)+

lemma run_attempts_states:
  assumes "keeps_attempt f" and "run_attempts f clock opts ctx n rs s = (tr, s')" and "j < n"
  shows "rq_Attempt (snd (tr ! j)) = rq_Attempt rs + int j + 1 \<and> rq_retryOpts (snd (tr ! j)) = rq_retryOpts rs"
  using assms(2,3)
proof (induction n arbitrary: rs s tr j)
  case (Suc n)
  obtain err rs1 s1 where a: "attempt f (clock (rq_Attempt rs)) opts ctx rs s = (err, rs1, s1)"
    by (cases "attempt f (clock (rq_Attempt rs)) opts ctx rs s")
  obtain tr1 s2 where r: "run_attempts f clock opts ctx n rs1 s1 = (tr1, s2)" by force
  have tr: "tr = (err, rs1) # tr1" "s2 = s'" using Suc.prems(1) a r by simp_all
  note st = attempt_state [OF assms(1) a]
  show ?case
  proof (cases j)
    case 0
    then show ?thesis using st by (simp add: tr)
  next
    case (Suc i)
    then show ?thesis using Suc.IH [OF r [unfolded tr(2)], of i] Suc.prems(2) st by (simp add: tr)
  qed
qed simp

lemma retry_loop_runs:
  assumes "0 < n"
  shows "\<exists>k tr s'. 0 < k \<and> k \<le> n \<and> run_attempts f clock opts ctx k rs s = (tr, s') \<and>
    retry_loop f clock opts ctx n e rs s = (fst (last tr), snd (last tr), s') \<and> length tr = k \<and>
    (\<forall>j < k - 1. fst (tr ! j) \<noteq> None \<and> CanRetry (ro_RetryOn opts) (fst (tr ! j))) \<and>
    (fst (last tr) = None \<or> \<not> CanRetry (ro_RetryOn opts) (fst (last tr)) \<or> k = n)"
  using assms
proof (induction n arbitrary: e rs s)
  case (Suc n)
  obtain err rs1 s1 where a: "attempt f (clock (rq_Attempt rs)) opts ctx rs s = (err, rs1, s1)"
    by (cases "attempt f (clock (rq_Attempt rs)) opts ctx rs s")
  show ?case
  proof (cases "err = None \<or> \<not> CanRetry (ro_RetryOn opts) err \<or> n = 0")
    case True
    then show ?thesis using a by (intro exI [of _ 1] exI [of _ "[(err, rs1)]"] exI [of _ s1]) auto
  next
    case False
    then have n: "0 < n" by simp
    obtain k tr s' where k: "0 < k" "k \<le> n" "run_attempts f clock opts ctx k rs1 s1 = (tr, s')"
        "retry_loop f clock opts ctx n err rs1 s1 = (fst (last tr), snd (last tr), s')" "length tr = k"
        "\<forall>j < k - 1. fst (tr ! j) \<noteq> None \<and> CanRetry (ro_RetryOn opts) (fst (tr ! j))"
        "fst (last tr) = None \<or> \<not> CanRetry (ro_RetryOn opts) (fst (last tr)) \<or> k = n"
      using Suc.IH [OF n, of rs1 s1 err] by blast
    have "\<forall>j < Suc k - 1. fst (((err, rs1) # tr) ! j) \<noteq> None \<and> CanRetry (ro_RetryOn opts) (fst (((err, rs1) # tr) ! j))"
    proof (intro allI impI)
      fix j assume "j < Suc k - 1"
      then show "fst (((err, rs1) # tr) ! j) \<noteq> None \<and> CanRetry (ro_RetryOn opts) (fst (((err, rs1) # tr) ! j))"
        using k(6) False by (cases j) auto
    qed
    moreover have "tr \<noteq> []" using k(1,5) by auto
    ultimately show ?thesis
      using a k False by (intro exI [of _ "Suc k"] exI [of _ "(err, rs1) # tr"] exI [of _ s']) auto
  qed
qed simp

text \<open>
  C37: a retried request is attempted at least once and at most \<^verbatim>\<open>MaxAttempts\<close> times. The request state that each attempt is given and
  passes on has the number of the attempt; after a failed attempt another follows exactly when \<^verbatim>\<open>HasRetries\<close> of that
  very state says so; and the result and the state are those of the last attempt made. The function that makes the call is
  any one that does not itself change the number of the attempt or the options.
\<close>

theorem retry_attempts:
  assumes "opts = getRetryOptions ctx" and "0 < ro_MaxAttempts opts" and "keeps_attempt f"
  shows "\<exists>k tr s'. 0 < k \<and> int k \<le> ro_MaxAttempts opts \<and> length tr = k \<and>
    run_attempts f clock opts ctx k (getRequestState (clock 0) opts) s = (tr, s') \<and>
    RunWithRetry f clock ctx s = (fst (last tr), snd (last tr), s') \<and>
    (\<forall>j < k. RetryCount (Some (snd (tr ! j))) = int j \<and>
       (fst (tr ! j) \<noteq> None \<and> HasRetries (Some (snd (tr ! j))) (fst (tr ! j))) = (j < k - 1))"
proof -
  let ?rs = "getRequestState (clock 0) opts"
  have n: "0 < nat (ro_MaxAttempts opts)" using assms(2) by simp
  obtain k tr s' where k: "0 < k" "k \<le> nat (ro_MaxAttempts opts)"
      "run_attempts f clock opts ctx k ?rs s = (tr, s')"
      "retry_loop f clock opts ctx (nat (ro_MaxAttempts opts)) None ?rs s = (fst (last tr), snd (last tr), s')"
      "length tr = k" "\<forall>j < k - 1. fst (tr ! j) \<noteq> None \<and> CanRetry (ro_RetryOn opts) (fst (tr ! j))"
      "fst (last tr) = None \<or> \<not> CanRetry (ro_RetryOn opts) (fst (last tr)) \<or> k = nat (ro_MaxAttempts opts)"
    using retry_loop_runs [OF n, of f clock opts ctx ?rs s None] by blast
  have l: "last tr = tr ! (k - 1)" using k(1,5) by (metis last_conv_nth length_greater_0_conv)
  have st: "rq_Attempt (snd (tr ! j)) = int j + 1" "rq_retryOpts (snd (tr ! j)) = opts" if "j < k" for j
    using run_attempts_states [OF assms(3) k(3) that] by (simp_all add: getRequestState_def)
  have "(fst (tr ! j) \<noteq> None \<and> HasRetries (Some (snd (tr ! j))) (fst (tr ! j))) = (j < k - 1)" if "j < k" for j
  proof (cases "j < k - 1")
    case True
    then show ?thesis using k(2,6) st [OF that] by (auto simp: HasRetries_def)
  next
    case False
    then have "j = k - 1" using that by simp
    then show ?thesis using k(1,2,7) l st [OF that] by (auto simp: HasRetries_def of_nat_diff)
  qed
  moreover have "RetryCount (Some (snd (tr ! j))) = int j" if "j < k" for j using st [OF that] by (simp add: RetryCount_def)
  moreover have "int k \<le> ro_MaxAttempts opts" using k(1,2) by linarith
  ultimately show ?thesis
    using k assms(1) unfolding RunWithRetry_def Let_def
    by (intro exI [of _ k] exI [of _ tr] exI [of _ s']) simp
qed

text \<open>Two attempts that find the server busy, then a success.\<close>

definition busyTwice :: "nat retriable" where
  "busyTwice ctx rs n = (if n < 2 then Some ErrServerBusy else None, rs, n + 1)"

theorem retry_attempts_witness:
  "\<exists>k tr s'. 0 < k \<and> int k \<le> 5 \<and> length tr = k \<and>
    run_attempts busyTwice id defaultRetryOptions (NewContext 0 9) k (getRequestState 0 defaultRetryOptions) 0 = (tr, s') \<and>
    RunWithRetry busyTwice id (NewContext 0 9) 0 = (fst (last tr), snd (last tr), s') \<and>
    (\<forall>j < k. RetryCount (Some (snd (tr ! j))) = int j)"
proof -
  have "defaultRetryOptions = getRetryOptions (NewContext 0 9)"
    by (simp add: NewContext_def Build_def NewContextBuilder_def getRetryOptions_def WrapWithHeaders_def Let_def)
  moreover have "keeps_attempt busyTwice" by (simp add: keeps_attempt_def busyTwice_def)
  moreover have "0 < ro_MaxAttempts defaultRetryOptions" "ro_MaxAttempts defaultRetryOptions = 5" by (simp_all add: defaultRetryOptions_def)
  ultimately show ?thesis using retry_attempts [of defaultRetryOptions "NewContext 0 9" busyTwice id 0] by auto
qed

text \<open>
  C39: with a negative maximum of attempts the request is not attempted at all, and the result is
  that of a success.
\<close>

theorem retry_negative:
  assumes "ro_MaxAttempts (getRetryOptions ctx) < 0"
  shows "fst (RunWithRetry f clock ctx s) = None \<and> snd (snd (RunWithRetry f clock ctx s)) = s"
  using assms by (simp add: RunWithRetry_def Let_def)

theorem retry_negative_witness:
  "fst (RunWithRetry (\<lambda>_ rs s. (Some ErrServerBusy, rs, s)) id (Build 0 (SetRetryOptions
     \<lparr>ro_MaxAttempts = - 1, ro_RetryOn = RetryDefault, ro_TimeoutPerAttempt = 0\<rparr> (NewContextBuilder 9))) ()) = None"
  by (rule retry_negative [THEN conjunct1])
    (simp add: getRetryOptions_def Build_def SetRetryOptions_def NewContextBuilder_def WrapWithHeaders_def Let_def)

end
