(* ===== verification/Calls.thy ===== *)
theory Calls
  imports Connection Call_Context
begin

text \<open>
  Inbound and outbound calls over a connection (\<^verbatim>\<open>inbound.go\<close>, \<^verbatim>\<open>outbound.go\<close>, \<^verbatim>\<open>raw/\<close>), and the goroutines
  that read and write the frames of a connection. The halves of a call share its message exchange,
  which lives in the exchange set of the connection: an operation of a call takes it from there, works on
  it with the definitions of \<^verbatim>\<open>Req_Res\<close> and puts it back; when it shut the exchange down, the exchange is removed
  from the set and the close of the connection is checked. Statistics and tracing are left out.
\<close>

section \<open>A call on its connection\<close>

text \<open>A blocking send: when the channel is full, the writing goroutine takes a frame first.\<close>

definition enqueue :: "Frame \<Rightarrow> Connection \<Rightarrow> Connection" where
  "enqueue f c =
     (if length (c_sendCh c) < c_sendCap c then c\<lparr>c_sendCh := c_sendCh c @ [f]\<rparr>
      else (case c_sendCh c of
              [] \<Rightarrow> c\<lparr>c_out := c_out c @ [f]\<rparr>
            | g # gs \<Rightarrow> c\<lparr>c_out := c_out c @ [g], c_sendCh := gs @ [f]\<rparr>))"

definition sync_mex :: "set_name \<Rightarrow> nat \<Rightarrow> messageExchange \<Rightarrow> Connection \<Rightarrow> Connection go" where
  "sync_mex d p m c =
     (let ms = c_set d c;
          c1 = set_c_set d (ms\<lparr>ms_heap := (ms_heap ms)[p := m]\<rparr>) c
      in if mex_shutdownAtomic m \<and> \<not> mex_shutdownAtomic (ms_heap ms ! p)
         then conn_removeExchange d (mex_msgID m) c1 else Ret c1)"

definition load_sender :: "set_name \<Rightarrow> nat \<Rightarrow> Connection \<Rightarrow> reqResWriter \<Rightarrow> reqResWriter" where
  "load_sender d p c w =
     w\<lparr>rw_contents := (rw_contents w)\<lparr>fw_sender := (fw_sender (rw_contents w))
         \<lparr>rs_mex := ms_heap (c_set d c) ! p, rs_pool := c_pool c, rs_gets := c_gets c\<rparr>\<rparr>\<rparr>"

definition on_writer ::
  "set_name \<Rightarrow> nat \<Rightarrow> (reqResWriter \<Rightarrow> (gerror option \<times> reqResWriter) go option) \<Rightarrow> reqResWriter \<Rightarrow> Connection \<Rightarrow>
   (gerror option \<times> reqResWriter \<times> Connection) go option" where
  "on_writer d p f w c =
     (case f (load_sender d p c w) of
        None \<Rightarrow> None
      | Some Panic \<Rightarrow> Some Panic
      | Some (Ret (e, w1)) \<Rightarrow>
          (let s = fw_sender (rw_contents w1);
               new = drop (length (rs_sendCh (fw_sender (rw_contents w)))) (rs_sendCh s)
           in Some (go_bind (sync_mex d p (rs_mex s) (fold enqueue new (c\<lparr>c_gets := rs_gets s\<rparr>)))
                     (\<lambda>c'. Ret (e, w1, c')))))"

definition load_receiver :: "set_name \<Rightarrow> nat \<Rightarrow> Connection \<Rightarrow> Frame list \<Rightarrow> reqResReader \<Rightarrow> reqResReader" where
  "load_receiver d p c arriving r =
     r\<lparr>rr_contents := (rr_contents r)\<lparr>fr_receiver := (fr_receiver (rr_contents r))
         \<lparr>rcv_mex := ms_heap (c_set d c) ! p, rcv_arriving := rcv_arriving (fr_receiver (rr_contents r)) @ arriving\<rparr>\<rparr>\<rparr>"

definition on_reader ::
  "set_name \<Rightarrow> nat \<Rightarrow> Frame list \<Rightarrow> (reqResReader \<Rightarrow> ('a \<times> reqResReader) go option) \<Rightarrow> reqResReader \<Rightarrow> Connection \<Rightarrow>
   ('a \<times> reqResReader \<times> Connection) go option" where
  "on_reader d p arriving f r c =
     (case f (load_receiver d p c arriving r) of
        None \<Rightarrow> None
      | Some Panic \<Rightarrow> Some Panic
      | Some (Ret (x, r1)) \<Rightarrow>
          (let s = fr_receiver (rr_contents r1);
               new = drop (length (rcv_released (fr_receiver (rr_contents r)))) (rcv_released s)
           in Some (go_bind (sync_mex d p (rcv_mex s) (c\<lparr>c_released := c_released c @ new\<rparr>))
                     (\<lambda>c'. Ret (x, r1, c')))))"

section \<open>Inbound calls\<close>

record InboundCall =
  ic_mex :: nat
  ic_frame :: Frame
  ic_reader :: reqResReader
  ic_response :: reqResWriter
  ic_applicationError :: bool
  ic_systemError :: bool
  ic_responseHeaders :: transportHeaders
  ic_serviceName :: string
  ic_method :: "byte list"
  ic_headers :: transportHeaders

definition InboundCall_Format :: "InboundCall \<Rightarrow> string" where
  "InboundCall_Format call = header_get (ic_headers call) ArgScheme"
definition InboundCall_CallerName :: "InboundCall \<Rightarrow> string" where
  "InboundCall_CallerName call = header_get (ic_headers call) CallerName"
definition InboundCall_ShardKey :: "InboundCall \<Rightarrow> string" where
  "InboundCall_ShardKey call = header_get (ic_headers call) ShardKey"
definition InboundCall_RoutingKey :: "InboundCall \<Rightarrow> string" where
  "InboundCall_RoutingKey call = header_get (ic_headers call) RoutingKey"
definition InboundCall_RoutingDelegate :: "InboundCall \<Rightarrow> string" where
  "InboundCall_RoutingDelegate call = header_get (ic_headers call) RoutingDelegate"

definition InboundCall_CallOptions :: "InboundCall \<Rightarrow> CallOptions" where
  "InboundCall_CallOptions call =
     \<lparr>cop_Format = InboundCall_Format call, cop_ShardKey = InboundCall_ShardKey call,
      cop_RoutingKey = InboundCall_RoutingKey call, cop_RoutingDelegate = InboundCall_RoutingDelegate call,
      cop_CallerName = InboundCall_CallerName call\<rparr>"

text \<open>The message of a response: the first fragment takes the headers and the code as they are then.\<close>

definition response_message :: "transportHeaders \<Rightarrow> bool \<Rightarrow> bool \<Rightarrow> message" where
  "response_message headers applicationError initial =
     (if initial then
        CallRes \<lparr>cs_id = 0, cs_ResponseCode = (if applicationError then responseApplicationError else responseOK),
                 cs_Tracing = emptySpan, cs_Headers = headers\<rparr>
      else CallResContinue 0)"

definition spanIndex :: nat where "spanIndex = 5"
definition spanLength :: nat where "spanLength = 25"

definition callReqSpan :: "Frame \<Rightarrow> Span" where
  "callReqSpan f = fst (Span_read (NewReadBuffer (take spanLength (drop spanIndex (fr_Payload f)))))"

definition newCallReq :: "uint32 \<Rightarrow> callReq" where
  "newCallReq i = \<lparr>cq_id = i, cq_TimeToLive = 0, cq_Tracing = emptySpan, cq_Headers = [], cq_Service = []\<rparr>"

definition as_callReq :: "message \<Rightarrow> callReq" where
  "as_callReq m = (case m of CallReq q \<Rightarrow> q | _ \<Rightarrow> newCallReq 0)"

definition new_inbound_call :: "nat \<Rightarrow> Frame \<Rightarrow> readableFragment \<Rightarrow> callReq \<Rightarrow> Connection \<Rightarrow> InboundCall" where
  "new_inbound_call p frame fragment req c =
     (let m = ms_heap (c_inbound c) ! p;
          headers = setResponseHeaders (cq_Headers req) []
      in \<lparr>ic_mex = p, ic_frame = frame,
          ic_reader = newReqResReader
            \<lparr>rcv_mex = m, rcv_err = None, rcv_messageForFragment = (\<lambda>_. CallReqContinue 0),
             rcv_initialFragment = Some fragment, rcv_previousFragment = None, rcv_frames = [frame],
             rcv_done = [], rcv_released = [], rcv_msg = CallReq req, rcv_arriving = []\<rparr>,
          ic_response = newReqResWriter
            \<lparr>rs_mex = m, rs_err = None, rs_sendCh = [], rs_wait = SendNow,
             rs_messageForFragment = response_message headers False, rs_pool = c_pool c, rs_gets = c_gets c\<rparr>
            (ChecksumType_New (rf_checksumType fragment)),
          ic_applicationError = False, ic_systemError = False, ic_responseHeaders = headers,
          ic_serviceName = cq_Service req, ic_method = [], ic_headers = cq_Headers req\<rparr>)"

definition call_properties :: "callReq \<Rightarrow> incomingCall" where
  "call_properties req =
     \<lparr>in_CallerName = header_get (cq_Headers req) CallerName,
      in_CallOptions = \<lparr>cop_Format = header_get (cq_Headers req) ArgScheme, cop_ShardKey = header_get (cq_Headers req) ShardKey,
        cop_RoutingKey = header_get (cq_Headers req) RoutingKey,
        cop_RoutingDelegate = header_get (cq_Headers req) RoutingDelegate,
        cop_CallerName = header_get (cq_Headers req) CallerName\<rparr>\<rparr>"

text \<open>
  \<^verbatim>\<open>handleCallReq\<close>: whether to release the frame, and the call that is dispatched in a goroutine of its own.
  \<open>env\<close> is what other goroutines do between the registration of the exchange and the second look at the
  state.
\<close>

definition handleCallReq ::
  "int \<Rightarrow> Context \<Rightarrow> (Connection \<Rightarrow> Connection) \<Rightarrow> Frame \<Rightarrow> Connection \<Rightarrow> (bool \<times> InboundCall option \<times> Connection) go" where
  "handleCallReq now base env frame c =
     (let i = fh_ID (fr_Header frame)
      in if c_state c \<noteq> connectionActive then
           Ret (True, None, snd (SendSystemError i (callReqSpan frame) ErrChannelClosed c))
         else
           go_bind (parseInboundFragment 0 frame (CallReq (newCallReq i))) (\<lambda>(res, msg).
             case res of
               Inl _ \<Rightarrow> Ret (True, None, c)
             | Inr fragment \<Rightarrow>
                 (let req = as_callReq msg;
                      ctx = newIncomingContext now base (call_properties req) (cq_TimeToLive req)
                  in case conn_newExchange Inbound (bc_err ctx) DeadlineExceeded messageTypeCallReq i
                            mexChannelBufferSize c of
                       (Inl _, c1) \<Rightarrow>
                         go_bind (protocolError i errInboundRequestAlreadyActive c1) (\<lambda>(_, c2). Ret (True, None, c2))
                     | (Inr p, c1) \<Rightarrow>
                         (let c2 = env c1
                          in if c_state c2 \<noteq> connectionActive then
                               go_bind (conn_shutdown Inbound p c2) (\<lambda>c3. Ret (True, None, c3))
                             else Ret (False, Some (new_inbound_call p frame fragment req c2), c2)))))"

abbreviation inbound_receiver :: "reqResReceiver fragmentReceiver" where
  "inbound_receiver \<equiv> reqRes_receiver InboundCall_doneReading"

abbreviation response_sender :: "reqResSender fragmentSender" where
  "response_sender \<equiv> reqRes_sender InboundCallResponse_doneSending"

text \<open>\<^verbatim>\<open>readMethod\<close>: the error of a failed read goes through \<^verbatim>\<open>call.failed\<close>.\<close>

definition readMethod_reader ::
  "(nat \<Rightarrow> nat) \<Rightarrow> reqResReader \<Rightarrow> ((byte list \<times> gerror option) \<times> reqResReader) go option" where
  "readMethod_reader sz r =
     (case read_arg inbound_receiver sz (arg1Reader inbound_receiver r) of
        None \<Rightarrow> None
      | Some Panic \<Rightarrow> Some Panic
      | Some (Ret ((bs, None), r1)) \<Rightarrow> Some (Ret ((bs, None), r1))
      | Some (Ret ((bs, Some e), r1)) \<Rightarrow>
          Some (go_bind (rr_failed e r1) (\<lambda>(err, r2). Ret (([], err), r2))))"

definition readMethod ::
  "(nat \<Rightarrow> nat) \<Rightarrow> Frame list \<Rightarrow> InboundCall \<Rightarrow> Connection \<Rightarrow> (gerror option \<times> InboundCall \<times> Connection) go option" where
  "readMethod sz arriving call c =
     (case on_reader Inbound (ic_mex call) arriving (readMethod_reader sz) (ic_reader call) c of
        None \<Rightarrow> None
      | Some res \<Rightarrow>
          Some (go_bind res (\<lambda>((bs, e), r, c').
            Ret (e, (if e = None then call\<lparr>ic_reader := r, ic_method := bs\<rparr> else call\<lparr>ic_reader := r\<rparr>), c'))))"

text \<open>\<^verbatim>\<open>dispatchInbound\<close> up to the call of the handler: the call that the handler gets, if any.\<close>

definition dispatchInbound ::
  "(nat \<Rightarrow> nat) \<Rightarrow> Frame list \<Rightarrow> InboundCall \<Rightarrow> Connection \<Rightarrow> (InboundCall option \<times> Connection) go option" where
  "dispatchInbound sz arriving call c =
     (case readMethod sz arriving call c of
        None \<Rightarrow> None
      | Some res \<Rightarrow>
          Some (go_bind res (\<lambda>(e, call', c').
            if e \<noteq> None then Ret (None, pool_Release (ic_frame call) c') else Ret (Some call', c'))))"

text \<open>
  The goroutine that \<^verbatim>\<open>dispatchInbound\<close> starts, once one of its two cases is ready; \<open>None\<close> while it waits.
\<close>

definition set_mex :: "nat \<Rightarrow> messageExchange \<Rightarrow> Connection \<Rightarrow> Connection" where
  "set_mex p m c = c\<lparr>c_inbound := (c_inbound c)\<lparr>ms_heap := (ms_heap (c_inbound c))[p := m]\<rparr>\<rparr>"

definition watch_inbound :: "nat \<Rightarrow> Connection \<Rightarrow> Connection go option" where
  "watch_inbound p c =
     (let m = ms_heap (c_inbound c) ! p
      in if mex_ctx m \<noteq> None then Some (conn_inboundExpired p c)
         else if en_closed (mex_errCh m) then Some (conn_inboundExpired p (set_mex p (cancel_ctx m) c))
         else None)"

definition InboundCall_Response :: "InboundCall \<Rightarrow> InboundCall" where
  "InboundCall_Response call =
     (case rcv_err (fr_receiver (rr_contents (ic_reader call))) of
        None \<Rightarrow> call
      | Some e \<Rightarrow>
          call\<lparr>ic_response := (ic_response call)\<lparr>rw_contents := (rw_contents (ic_response call))
                 \<lparr>fw_sender := (fw_sender (rw_contents (ic_response call)))\<lparr>rs_err := Some e\<rparr>\<rparr>\<rparr>\<rparr>)"

definition response_doneSending :: "reqResWriter \<Rightarrow> (gerror option \<times> reqResWriter) go option" where
  "response_doneSending w =
     Some (go_bind (InboundCallResponse_doneSending (fw_sender (rw_contents w))) (\<lambda>s.
       Ret (None, w\<lparr>rw_contents := (rw_contents w)\<lparr>fw_sender := s\<rparr>\<rparr>)))"

text \<open>\<^verbatim>\<open>SendSystemError\<close> of a response; \<open>span\<close> is the span of the call's context.\<close>

definition InboundCallResponse_SendSystemError ::
  "Span \<Rightarrow> gerror \<Rightarrow> InboundCall \<Rightarrow> Connection \<Rightarrow> (gerror option \<times> InboundCall \<times> Connection) go option" where
  "InboundCallResponse_SendSystemError span err call c =
     (case rs_err (fw_sender (rw_contents (ic_response call))) of
        Some e \<Rightarrow> Some (Ret (Some e, call, c))
      | None \<Rightarrow>
          (let w = (ic_response call)\<lparr>rw_state := reqResWriterComplete\<rparr>
           in case on_writer Inbound (ic_mex call) response_doneSending w c of
                None \<Rightarrow> None
              | Some res \<Rightarrow>
                  Some (go_bind res (\<lambda>(_, w1, c1).
                    let r = ic_reader call; s = fr_receiver (rr_contents r);
                        s1 = releasePreviousFragment s;
                        call1 = call\<lparr>ic_response := w1, ic_systemError := True,
                                     ic_reader := r\<lparr>rr_contents := (rr_contents r)\<lparr>fr_receiver := s1\<rparr>\<rparr>\<rparr>;
                        c2 = c1\<lparr>c_released := c_released c1 @ drop (length (rcv_released s)) (rcv_released s1)\<rparr>
                    in case SendSystemError (mex_msgID (ms_heap (c_inbound c2) ! ic_mex call)) span err c2 of
                         (e, c3) \<Rightarrow> Ret (e, call1, c3)))))"

definition set_response_message :: "InboundCall \<Rightarrow> InboundCall" where
  "set_response_message call =
     call\<lparr>ic_response := (ic_response call)\<lparr>rw_contents := (rw_contents (ic_response call))
            \<lparr>fw_sender := (fw_sender (rw_contents (ic_response call)))
              \<lparr>rs_messageForFragment := response_message (ic_responseHeaders call) (ic_applicationError call)\<rparr>\<rparr>\<rparr>\<rparr>"

definition SetApplicationError ::
  "InboundCall \<Rightarrow> Connection \<Rightarrow> (gerror option \<times> InboundCall \<times> Connection) go option" where
  "SetApplicationError call c =
     (let st = rw_state (ic_response call)
      in if st = reqResWriterPreArg3 \<or> st = reqResWriterComplete then
           (case on_writer Inbound (ic_mex call)
                   (\<lambda>w. Some (rw_failed (ErrReqResWriterStateMismatch st reqResWriterPreArg2) w)) (ic_response call) c of
              None \<Rightarrow> None
            | Some res \<Rightarrow> Some (go_bind res (\<lambda>(e, w, c'). Ret (e, call\<lparr>ic_response := w\<rparr>, c'))))
         else Some (Ret (None, set_response_message (call\<lparr>ic_applicationError := True\<rparr>), c)))"

definition Blackhole :: "InboundCall \<Rightarrow> Connection \<Rightarrow> Connection" where
  "Blackhole call c = set_mex (ic_mex call) (cancel_ctx (ms_heap (c_inbound c) ! ic_mex call)) c"

text \<open>\<^verbatim>\<open>Arg2Writer\<close> of a response writes the empty first argument.\<close>

definition response_Arg2Writer :: "reqResWriter \<Rightarrow> (gerror option \<times> reqResWriter) go option" where
  "response_Arg2Writer w =
     (case ArgWriteHelper_Write response_sender [] (arg1Writer response_sender w) of
        None \<Rightarrow> None
      | Some Panic \<Rightarrow> Some Panic
      | Some (Ret (Some e, w1)) \<Rightarrow> Some (Ret (Some e, w1))
      | Some (Ret (None, w1)) \<Rightarrow> Some (arg2Writer response_sender w1))"

section \<open>Raw calls: the handler's side\<close>

record raw_Args =
  ra_Caller :: string
  ra_Format :: string
  ra_Method :: string
  ra_Arg2 :: "byte list"
  ra_Arg3 :: "byte list"

record raw_Res =
  rs_SystemErr :: "gerror option"
  rs_IsErr :: bool
  rs_Arg2 :: "byte list"
  rs_Arg3 :: "byte list"

definition read_args23 ::
  "(nat \<Rightarrow> nat) \<Rightarrow> reqResReader \<Rightarrow> (((byte list \<times> byte list) \<times> gerror option) \<times> reqResReader) go option" where
  "read_args23 sz r =
     (case read_arg inbound_receiver sz (arg2Reader inbound_receiver r) of
        None \<Rightarrow> None
      | Some Panic \<Rightarrow> Some Panic
      | Some (Ret ((a2, Some e), r1)) \<Rightarrow> Some (Ret ((([], []), Some e), r1))
      | Some (Ret ((a2, None), r1)) \<Rightarrow>
          (case read_arg inbound_receiver sz (arg3Reader inbound_receiver r1) of
             None \<Rightarrow> None
           | Some Panic \<Rightarrow> Some Panic
           | Some (Ret ((a3, Some e), r2)) \<Rightarrow> Some (Ret ((([], []), Some e), r2))
           | Some (Ret ((a3, None), r2)) \<Rightarrow> Some (Ret (((a2, a3), None), r2))))"

definition raw_ReadArgs ::
  "(nat \<Rightarrow> nat) \<Rightarrow> Frame list \<Rightarrow> InboundCall \<Rightarrow> Connection \<Rightarrow> ((gerror + raw_Args) \<times> InboundCall \<times> Connection) go option" where
  "raw_ReadArgs sz arriving call c =
     (case on_reader Inbound (ic_mex call) arriving (read_args23 sz) (ic_reader call) c of
        None \<Rightarrow> None
      | Some res \<Rightarrow>
          Some (go_bind res (\<lambda>(((a2, a3), e), r, c').
            Ret (case e of
                   Some err \<Rightarrow> Inl err
                 | None \<Rightarrow> Inr \<lparr>ra_Caller = InboundCall_CallerName call, ra_Format = InboundCall_Format call,
                               ra_Method = map (\<lambda>b. char_of (unat b)) (ic_method call), ra_Arg2 = a2, ra_Arg3 = a3\<rparr>,
                 call\<lparr>ic_reader := r\<rparr>, c'))))"

definition write_response ::
  "byte list \<Rightarrow> byte list \<Rightarrow> reqResWriter \<Rightarrow> (gerror option \<times> reqResWriter) go option" where
  "write_response arg2 arg3 w =
     (case response_Arg2Writer w of
        None \<Rightarrow> None
      | Some aw \<Rightarrow>
          (case ArgWriteHelper_Write response_sender arg2 aw of
             None \<Rightarrow> None
           | Some Panic \<Rightarrow> Some Panic
           | Some (Ret (Some e, w1)) \<Rightarrow> Some (Ret (Some e, w1))
           | Some (Ret (None, w1)) \<Rightarrow> ArgWriteHelper_Write response_sender arg3 (arg3Writer response_sender w1)))"

definition raw_WriteResponse ::
  "Span \<Rightarrow> raw_Res \<Rightarrow> InboundCall \<Rightarrow> Connection \<Rightarrow> (gerror option \<times> InboundCall \<times> Connection) go option" where
  "raw_WriteResponse span resp call c =
     (case rs_SystemErr resp of
        Some err \<Rightarrow> InboundCallResponse_SendSystemError span err call c
      | None \<Rightarrow>
          (case (if rs_IsErr resp then SetApplicationError call c else Some (Ret (None, call, c))) of
             None \<Rightarrow> None
           | Some Panic \<Rightarrow> Some Panic
           | Some (Ret (Some e, call1, c1)) \<Rightarrow> Some (Ret (Some e, call1, c1))
           | Some (Ret (None, call1, c1)) \<Rightarrow>
               (case on_writer Inbound (ic_mex call1) (write_response (rs_Arg2 resp) (rs_Arg3 resp)) (ic_response call1) c1 of
                  None \<Rightarrow> None
                | Some res \<Rightarrow> Some (go_bind res (\<lambda>(e, w, c2). Ret (e, call1\<lparr>ic_response := w\<rparr>, c2))))))"

text \<open>
  \<^verbatim>\<open>raw.Wrap\<close>: \<open>handle\<close> is the handler's \<^verbatim>\<open>Handle\<close>; the error that \<^verbatim>\<open>OnError\<close> gets, if any, is returned.
\<close>

definition raw_Wrap ::
  "(nat \<Rightarrow> nat) \<Rightarrow> Frame list \<Rightarrow> Span \<Rightarrow> (raw_Args \<Rightarrow> gerror + raw_Res) \<Rightarrow> InboundCall \<Rightarrow> Connection \<Rightarrow>
   (gerror option \<times> InboundCall \<times> Connection) go option" where
  "raw_Wrap sz arriving span handle call c =
     (case raw_ReadArgs sz arriving call c of
        None \<Rightarrow> None
      | Some Panic \<Rightarrow> Some Panic
      | Some (Ret (Inl e, call1, c1)) \<Rightarrow> Some (Ret (Some e, call1, c1))
      | Some (Ret (Inr args, call1, c1)) \<Rightarrow>
          (let resp = (case handle args of
                         Inl err \<Rightarrow> \<lparr>rs_SystemErr = Some err, rs_IsErr = False, rs_Arg2 = [], rs_Arg3 = []\<rparr>
                       | Inr r \<Rightarrow> r)
           in raw_WriteResponse span resp (InboundCall_Response call1) c1))"

section \<open>Outbound calls\<close>

definition maxMethodSize :: nat where "maxMethodSize = 16 * 1024"

definition ErrNoServiceName :: gerror where
  "ErrNoServiceName = ErrorString ''no service name provided''"

definition validateCall :: "Context \<Rightarrow> string \<Rightarrow> string \<Rightarrow> gerror option" where
  "validateCall ctx serviceName methodName =
     (if serviceName = [] then Some ErrNoServiceName
      else if length methodName > maxMethodSize then Some ErrMethodTooLarge
      else if bc_deadline ctx = None then Some ErrTimeoutRequired
      else None)"

record OutboundCall =
  oc_mex :: nat
  oc_callReq :: callReq
  oc_writer :: reqResWriter
  oc_response :: reqResReader

abbreviation outbound_sender :: "reqResSender fragmentSender" where
  "outbound_sender \<equiv> reqRes_sender OutboundCall_doneSending"

abbreviation response_receiver :: "reqResReceiver fragmentReceiver" where
  "response_receiver \<equiv> reqRes_receiver OutboundCallResponse_doneReading"

definition request_message :: "callReq \<Rightarrow> bool \<Rightarrow> message" where
  "request_message req initial = (if initial then CallReq req else CallReqContinue 0)"

definition newCallRes :: callRes where
  "newCallRes = \<lparr>cs_id = 0, cs_ResponseCode = 0, cs_Tracing = emptySpan, cs_Headers = []\<rparr>"

definition new_outbound_call :: "nat \<Rightarrow> callReq \<Rightarrow> Connection \<Rightarrow> OutboundCall" where
  "new_outbound_call p req c =
     (let m = ms_heap (c_outbound c) ! p
      in \<lparr>oc_mex = p, oc_callReq = req,
          oc_writer = newReqResWriter
            \<lparr>rs_mex = m, rs_err = None, rs_sendCh = [], rs_wait = SendNow,
             rs_messageForFragment = request_message req, rs_pool = c_pool c, rs_gets = c_gets c\<rparr>
            (ChecksumType_New (co_ChecksumType (c_opts c))),
          oc_response = newReqResReader
            \<lparr>rcv_mex = m, rcv_err = None,
             rcv_messageForFragment = (\<lambda>initial. if initial then CallRes newCallRes else CallResContinue 0),
             rcv_initialFragment = None, rcv_previousFragment = None, rcv_frames = [],
             rcv_done = [], rcv_released = [], rcv_msg = CallRes newCallRes, rcv_arriving = []\<rparr>\<rparr>)"

definition request_headers :: "string \<Rightarrow> CallOptions \<Rightarrow> Context \<Rightarrow> transportHeaders" where
  "request_headers localService callOptions ctx =
     (let headers = setHeaders callOptions [(CallerName, localService)]
      in case currentCallOptions ctx of Some opts \<Rightarrow> overrideHeaders opts headers | None \<Rightarrow> headers)"

definition writeMethod :: "byte list \<Rightarrow> reqResWriter \<Rightarrow> (gerror option \<times> reqResWriter) go option" where
  "writeMethod method w = ArgWriteHelper_Write outbound_sender method (arg1Writer outbound_sender w)"

text \<open>
  \<^verbatim>\<open>beginCall\<close>: \<open>ctxEnd\<close> is the error that the context of the call ends with, \<open>span\<close> what the tracer puts into the
  request, \<open>env\<close> what other goroutines do before the second look at the state.
\<close>

definition beginCall ::
  "int \<Rightarrow> Context \<Rightarrow> gerror \<Rightarrow> Span \<Rightarrow> (Connection \<Rightarrow> Connection) \<Rightarrow> string \<Rightarrow> string \<Rightarrow> byte list \<Rightarrow> CallOptions \<Rightarrow>
   Connection \<Rightarrow> ((gerror + OutboundCall) \<times> Connection) go option" where
  "beginCall now ctx ctxEnd span env localService serviceName methodName callOptions c =
     (if c_state c \<noteq> connectionActive then Some (Ret (Inl ErrConnectionClosed, c))
      else
        (case bc_deadline ctx of
           None \<Rightarrow> Some (Ret (Inl ErrTimeoutRequired, c))
         | Some deadline \<Rightarrow>
             (let timeToLive = deadline - now
              in if timeToLive < Millisecond then Some (Ret (Inl ErrTimeout, c))
                 else
                   (case ctx_Err now ctx of
                      Some err \<Rightarrow> Some (Ret (Inl (GetContextError err), c))
                    | None \<Rightarrow>
                        (let (requestID, c1) = NextMessageID c
                         in case conn_newExchange Outbound None ctxEnd messageTypeCallReq requestID mexChannelBufferSize c1 of
                              (Inl e, c2) \<Rightarrow> Some (Ret (Inl e, c2))
                            | (Inr p, c2) \<Rightarrow>
                                (let c3 = env c2
                                 in if c_state c3 \<noteq> connectionActive then
                                      Some (go_bind (conn_shutdown Outbound p c3) (\<lambda>c4. Ret (Inl ErrConnectionClosed, c4)))
                                    else
                                      (let req = \<lparr>cq_id = requestID, cq_TimeToLive = timeToLive, cq_Tracing = span,
                                                  cq_Headers = request_headers localService callOptions ctx,
                                                  cq_Service = serviceName\<rparr>;
                                           call = new_outbound_call p req c3
                                       in case on_writer Outbound p (writeMethod methodName) (oc_writer call) c3 of
                                            None \<Rightarrow> None
                                          | Some res \<Rightarrow>
                                              Some (go_bind res (\<lambda>(e, w, c4).
                                                Ret (case e of Some err \<Rightarrow> Inl err
                                                             | None \<Rightarrow> Inr (call\<lparr>oc_writer := w\<rparr>), c4))))))))))"

text \<open>The arguments of a call as \<^verbatim>\<open>raw.WriteArgs\<close> writes them, and the response as it reads it.\<close>

definition raw_write_args :: "byte list \<Rightarrow> byte list \<Rightarrow> reqResWriter \<Rightarrow> (gerror option \<times> reqResWriter) go option" where
  "raw_write_args arg2 arg3 w =
     (case ArgWriteHelper_Write outbound_sender arg2 (arg2Writer outbound_sender w) of
        None \<Rightarrow> None
      | Some Panic \<Rightarrow> Some Panic
      | Some (Ret (Some e, w1)) \<Rightarrow> Some (Ret (Some e, w1))
      | Some (Ret (None, w1)) \<Rightarrow> ArgWriteHelper_Write outbound_sender arg3 (arg3Writer outbound_sender w1))"

definition response_Arg2Reader ::
  "(nat \<Rightarrow> nat) \<Rightarrow> reqResReader \<Rightarrow> (gerror option \<times> reqResReader) go option" where
  "response_Arg2Reader sz r =
     (case read_arg response_receiver sz (arg1Reader response_receiver r) of
        None \<Rightarrow> None
      | Some Panic \<Rightarrow> Some Panic
      | Some (Ret ((_, Some e), r1)) \<Rightarrow> Some (Ret (Some e, r1))
      | Some (Ret ((_, None), r1)) \<Rightarrow> Some (arg2Reader response_receiver r1))"

definition read_response ::
  "(nat \<Rightarrow> nat) \<Rightarrow> reqResReader \<Rightarrow> (((byte list \<times> byte list) \<times> gerror option) \<times> reqResReader) go option" where
  "read_response sz r =
     (case response_Arg2Reader sz r of
        None \<Rightarrow> None
      | Some ar \<Rightarrow>
          (case read_arg response_receiver sz ar of
             None \<Rightarrow> None
           | Some Panic \<Rightarrow> Some Panic
           | Some (Ret ((a2, Some e), r1)) \<Rightarrow> Some (Ret ((([], []), Some e), r1))
           | Some (Ret ((a2, None), r1)) \<Rightarrow>
               (case read_arg response_receiver sz (arg3Reader response_receiver r1) of
                  None \<Rightarrow> None
                | Some Panic \<Rightarrow> Some Panic
                | Some (Ret ((a3, Some e), r2)) \<Rightarrow> Some (Ret ((([], []), Some e), r2))
                | Some (Ret ((a3, None), r2)) \<Rightarrow> Some (Ret (((a2, a3), None), r2)))))"

text \<open>\<^verbatim>\<open>raw.WriteArgs\<close>: \<open>env\<close> is what happens to the connection before the response is read, \<open>arriving\<close> the response.\<close>

definition raw_WriteArgs ::
  "(nat \<Rightarrow> nat) \<Rightarrow> (Connection \<Rightarrow> Connection) \<Rightarrow> Frame list \<Rightarrow> byte list \<Rightarrow> byte list \<Rightarrow> OutboundCall \<Rightarrow> Connection \<Rightarrow>
   ((gerror + byte list \<times> byte list) \<times> OutboundCall \<times> Connection) go option" where
  "raw_WriteArgs sz env arriving arg2 arg3 call c =
     (case on_writer Outbound (oc_mex call) (raw_write_args arg2 arg3) (oc_writer call) c of
        None \<Rightarrow> None
      | Some Panic \<Rightarrow> Some Panic
      | Some (Ret (Some e, w, c1)) \<Rightarrow> Some (Ret (Inl e, call\<lparr>oc_writer := w\<rparr>, c1))
      | Some (Ret (None, w, c1)) \<Rightarrow>
          (case on_reader Outbound (oc_mex call) arriving (read_response sz) (oc_response call) (env c1) of
             None \<Rightarrow> None
           | Some res \<Rightarrow>
               Some (go_bind res (\<lambda>(((a2, a3), e), r, c2).
                 Ret (case e of Some err \<Rightarrow> Inl err | None \<Rightarrow> Inr (a2, a3),
                      call\<lparr>oc_writer := w, oc_response := r\<rparr>, c2)))))"

definition ApplicationError :: "OutboundCall \<Rightarrow> bool" where
  "ApplicationError call =
     (case rcv_msg (fr_receiver (rr_contents (oc_response call))) of
        CallRes m \<Rightarrow> cs_ResponseCode m = responseApplicationError
      | _ \<Rightarrow> False)"

section \<open>The goroutines of a connection\<close>

definition handleFrameNoRelay ::
  "int \<Rightarrow> Context \<Rightarrow> (Connection \<Rightarrow> Connection) \<Rightarrow> Frame \<Rightarrow> Connection \<Rightarrow>
   (bool \<times> InboundCall option \<times> Connection) go option" where
  "handleFrameNoRelay now base env frame c =
     (let t = fh_messageType (fr_Header frame);
          plain = \<lambda>(rel, c'). Some (Ret (rel, None, c'))
      in if t = messageTypeCallReq then Some (handleCallReq now base env frame c)
         else if t = messageTypeCallReqContinue then plain (handleCallReqContinue frame c)
         else if t = messageTypeCallRes then plain (handleCallRes frame c)
         else if t = messageTypeCallResContinue then plain (handleCallResContinue frame c)
         else if t = messageTypePingReq then
           (case handlePingReq frame c of
              None \<Rightarrow> None
            | Some res \<Rightarrow> Some (go_bind res (\<lambda>c'. Ret (True, None, c'))))
         else if t = messageTypePingRes then plain (handlePingRes frame c)
         else if t = messageTypeError then
           (case handleError frame c of
              None \<Rightarrow> None
            | Some res \<Rightarrow> Some (go_bind res (\<lambda>(rel, c'). Ret (rel, None, c'))))
         else Some (Ret (True, None, c)))"

text \<open>With a relayer, \<open>relay\<close> is its \<^verbatim>\<open>Relay\<close> method: whether to release the frame.\<close>

definition handleFrameRelay ::
  "int \<Rightarrow> Context \<Rightarrow> (Connection \<Rightarrow> Connection) \<Rightarrow> (Frame \<Rightarrow> Connection \<Rightarrow> bool \<times> Connection) \<Rightarrow> Frame \<Rightarrow> Connection \<Rightarrow>
   (bool \<times> InboundCall option \<times> Connection) go option" where
  "handleFrameRelay now base env relay frame c =
     (if isMessageTypeCall frame then (case relay frame c of (rel, c') \<Rightarrow> Some (Ret (rel, None, c')))
      else handleFrameNoRelay now base env frame c)"

lemma ReadFull_shorter:
  "io_ReadFull n r = ((bs, None), r') \<Longrightarrow> length (ir_data r') + n = length (ir_data r)"
  by (auto simp: io_ReadFull_def Let_def split: if_splits)

lemma ReadFull_le: "length (ir_data (snd (io_ReadFull n r))) \<le> length (ir_data r)"
  by (auto simp: io_ReadFull_def Let_def)

lemma ReadBody_le: "ReadBody h r f = Ret (e, f', r') \<Longrightarrow> length (ir_data r') \<le> length (ir_data r)"
  by (auto simp: ReadBody_def Let_def go_bind_Ret_iff case_prod_unfold ReadFull_le split: if_splits option.splits)

text \<open>
  \<^verbatim>\<open>readFrames\<close>: reads frames until the network gives an error and hands each to \<open>handle\<close>. It returns the
  connection and the calls that were dispatched.
\<close>

function readFrames ::
  "int \<Rightarrow> (Frame \<Rightarrow> Connection \<Rightarrow> (bool \<times> InboundCall option \<times> Connection) go option) \<Rightarrow> io_reader \<Rightarrow> InboundCall list \<Rightarrow>
   Connection \<Rightarrow> (InboundCall list \<times> Connection) go option" where
  "readFrames now handle r calls c =
     (let handleErr = \<lambda>err c. (if c_closeNetworkCalled c then Some (Ret (calls, c))
                               else (case connectionError False err c of
                                       None \<Rightarrow> None
                                     | Some res \<Rightarrow> Some (go_bind res (\<lambda>(_, c'). Ret (calls, c')))))
      in case io_ReadFull FrameHeaderSize r of
           ((_, Some err), _) \<Rightarrow> handleErr err c
         | ((headerBuf, None), r1) \<Rightarrow>
             (case pool_Get c of
                (frame, c1) \<Rightarrow>
                  (case ReadBody headerBuf r1 frame of
                     Panic \<Rightarrow> Some Panic
                   | Ret (Some err, frame', _) \<Rightarrow>
                       (case handleErr err c1 of
                          None \<Rightarrow> None
                        | Some res \<Rightarrow> Some (go_bind res (\<lambda>(cs, c'). Ret (cs, pool_Release frame' c'))))
                   | Ret (None, frame', r2) \<Rightarrow>
                       (case handle frame' (updateLastActivityRead now frame' c1) of
                          None \<Rightarrow> None
                        | Some Panic \<Rightarrow> Some Panic
                        | Some (Ret (rel, call, c2)) \<Rightarrow>
                            readFrames now handle r2 (calls @ (case call of Some x \<Rightarrow> [x] | None \<Rightarrow> []))
                              (if rel then pool_Release frame' c2 else c2)))))"
  by pat_completeness auto
termination
  by (relation "measure (\<lambda>(_, _, r, _). length (ir_data r))")
    (auto dest!: ReadFull_shorter [OF sym] ReadBody_le)

declare readFrames.simps [simp del]

text \<open>
  \<^verbatim>\<open>writeFrames\<close> until the send channel is empty: the bytes given to the network, and the connection.
  \<open>write\<close> is the result of the network's \<^verbatim>\<open>Write\<close>. When the channel is empty and the connection stopped, the
  network is closed; otherwise the goroutine waits for the next frame.
\<close>

function writeFrames ::
  "int \<Rightarrow> (byte list \<Rightarrow> gerror option) \<Rightarrow> byte list \<Rightarrow> Connection \<Rightarrow> (byte list \<times> Connection) go option" where
  "writeFrames now write out c =
     (case c_sendCh c of
        f # fs \<Rightarrow>
          (let c1 = updateLastActivityWrite now f (c\<lparr>c_sendCh := fs, c_out := c_out c @ [f]\<rparr>)
           in case WriteOut write f of
                Panic \<Rightarrow> Some Panic
              | Ret (err, bs, f') \<Rightarrow>
                  (let c2 = pool_Release f' c1; out' = out @ (case bs of Some b \<Rightarrow> b | None \<Rightarrow> [])
                   in case err of
                        None \<Rightarrow> writeFrames now write out' c2
                      | Some e \<Rightarrow>
                          (case connectionError False e c2 of
                             None \<Rightarrow> None
                           | Some res \<Rightarrow> Some (go_bind res (\<lambda>(_, c3). Ret (out', c3))))))
      | [] \<Rightarrow>
          if c_stopCh c then
            (case closeNetwork c of None \<Rightarrow> None | Some c' \<Rightarrow> Some (Ret (out, c')))
          else Some (Ret (out, c)))"
  by pat_completeness auto
termination
  by (relation "measure (\<lambda>(_, _, _, c). length (c_sendCh c))")
    (auto simp: updateLastActivityWrite_def pool_Release_def Let_def)

declare writeFrames.simps [simp del]

end
