(* ===== verification/Transport.thy ===== *)
theory Transport
  imports Calls
begin

text \<open>
  What two connections do together: the frames that one connection's writing goroutine takes from its
  send channel reach the handler of the other one's reading goroutine, and a call made on one side is
  the call that the handler on the other side sees.
\<close>

section \<open>Frames over a byte stream\<close>

text \<open>A frame that can be sent, its bytes, and the frame that the other side makes of them.\<close>

definition sendable :: "Frame \<Rightarrow> bool" where
  "sendable f \<longleftrightarrow> frame_inv f \<and> 16 \<le> unat (fh_size (fr_Header f)) \<and> SizedPayload f \<noteq> Panic"

definition payload_of :: "Frame \<Rightarrow> byte list" where
  "payload_of f = (case SizedPayload f of Ret p \<Rightarrow> p | Panic \<Rightarrow> [])"

definition frame_bytes :: "Frame \<Rightarrow> byte list" where
  "frame_bytes f = enc_header (fr_Header f) @ payload_of f"

definition same_frame :: "Frame \<Rightarrow> Frame \<Rightarrow> bool" where
  "same_frame f g \<longleftrightarrow> frame_inv g \<and> fh_ID (fr_Header g) = fh_ID (fr_Header f) \<and>
     fh_messageType (fr_Header g) = fh_messageType (fr_Header f) \<and> SizedPayload g = SizedPayload f"

lemma SizedPayload_sendable:
  assumes "sendable f"
  shows "SizedPayload f = Ret (payload_of f)"
  using assms by (cases "SizedPayload f") (simp_all add: sendable_def payload_of_def)

lemma payload_length:
  assumes "sendable f"
  shows "length (payload_of f) = unat (PayloadSize (fr_Header f))"
proof -
  have "unat (PayloadSize (fr_Header f)) \<le> length (fr_Payload f)"
      "payload_of f = take (unat (PayloadSize (fr_Header f))) (fr_Payload f)"
    using SizedPayload_sendable [OF assms] by (auto simp: SizedPayload_def Let_def split: if_splits)
  then show ?thesis by simp
qed

lemma WriteOut_sendable:
  assumes "sendable f"
  obtains f' where "WriteOut w f = Ret (w (frame_bytes f), Some (frame_bytes f), f')"
  using WriteOut_ok [of f "payload_of f" w] assms SizedPayload_sendable [OF assms]
  by (auto simp: sendable_def frame_bytes_def)

lemma ReadBody_sendable:
  assumes "sendable f" and "frame_inv g" and "ir_data r = payload_of f @ rest"
  obtains g' where "ReadBody (enc_header (fr_Header f)) r g = Ret (None, g', r\<lparr>ir_data := rest\<rparr>)"
    and "same_frame f g'"
proof -
  let ?h = "fr_Header f"
  have h: "header_ok ?h" "16 \<le> unat (fh_size ?h)" using assms(1) by (auto simp: sendable_def frame_inv_def)
  let ?r = "r\<lparr>ir_data := enc_header ?h @ payload_of f @ rest\<rparr>"
  have eq: "ReadIn ?r g = ReadBody (enc_header ?h) r g"
    using h by (simp add: ReadIn_def io_ReadFull_def flip: assms(3))
  obtain g' where "ReadIn ?r g = Ret (None, g', ?r\<lparr>ir_data := rest\<rparr>)" "frame_inv g'"
      "SizedPayload g' = Ret (payload_of f)" "fr_Header g' = ?h\<lparr>fh_reserved := fh_reserved (fr_Header g)\<rparr>"
    by (rule ReadIn_ok [OF assms(2) h payload_length [OF assms(1)], of ?r rest]) simp_all
  then show ?thesis
    using that [of g'] eq SizedPayload_sendable [OF assms(1)] by (simp add: same_frame_def)
qed

lemma writeFrames_ok:
  assumes "\<forall>f \<in> set (c_sendCh c). sendable f" and "\<not> c_stopCh c"
  shows "\<exists>c'. writeFrames now (\<lambda>_. None) out c = Some (Ret (out @ concat (map frame_bytes (c_sendCh c)), c')) \<and>
    c_sendCh c' = [] \<and> c_out c' = c_out c @ c_sendCh c"
  using assms
proof (induction "c_sendCh c" arbitrary: c out)
  case Nil
  then show ?case by (subst writeFrames.simps) (auto simp flip: Nil(1))
next
  case (Cons f fs)
  have "sendable f" using Cons.prems(1) by (simp flip: Cons.hyps(2))
  then obtain f' where w: "WriteOut (\<lambda>_. None) f = Ret (None, Some (frame_bytes f), f')"
    by (rule WriteOut_sendable [of f "\<lambda>_. None"])
  let ?c = "pool_Release f' (updateLastActivityWrite now f (c\<lparr>c_sendCh := fs, c_out := c_out c @ [f]\<rparr>))"
  have c: "c_sendCh ?c = fs" "c_out ?c = c_out c @ [f]" "\<not> c_stopCh ?c"
    using Cons.prems(2) by (simp_all add: pool_Release_def updateLastActivityWrite_def)
  have "\<forall>f \<in> set (c_sendCh ?c). sendable f" using Cons.prems(1) c(1) by (simp flip: Cons.hyps(2))
  from Cons.hyps(1) [OF c(1) [symmetric] this c(3), of "out @ frame_bytes f"]
  show ?case
    using w c by (subst writeFrames.simps) (auto simp: Let_def simp flip: Cons.hyps(2))
qed

text \<open>
  A handler that keeps what the loop relies on: it returns a connection whose pool still gives proper
  frames.
\<close>

definition pool_ok :: "Connection \<Rightarrow> bool" where
  "pool_ok c \<longleftrightarrow> (\<forall>k. frame_inv (c_pool c k))"

text \<open>The handling of a list of frames, one after the other, as the reading goroutine does it.\<close>

fun handle_all ::
  "int \<Rightarrow> (Frame \<Rightarrow> Connection \<Rightarrow> (bool \<times> InboundCall option \<times> Connection) go option) \<Rightarrow> Frame list \<Rightarrow> InboundCall list \<Rightarrow>
   Connection \<Rightarrow> (InboundCall list \<times> Connection) go option" where
  "handle_all now handle [] calls c = Some (Ret (calls, c))"
| "handle_all now handle (f # fs) calls c =
     (case handle f (updateLastActivityRead now f (c\<lparr>c_gets := c_gets c + 1\<rparr>)) of
        None \<Rightarrow> None
      | Some Panic \<Rightarrow> Some Panic
      | Some (Ret (rel, call, c2)) \<Rightarrow>
          handle_all now handle fs (calls @ (case call of Some x \<Rightarrow> [x] | None \<Rightarrow> []))
            (if rel then pool_Release f c2 else c2))"

lemma readFrames_ok:
  assumes "\<forall>f \<in> set fs. sendable f" and "pool_ok c"
    and "\<And>f c rel call c'. pool_ok c \<Longrightarrow> handle f c = Some (Ret (rel, call, c')) \<Longrightarrow> pool_ok c'"
    and "ir_data r = concat (map frame_bytes fs) @ rest"
  shows "\<exists>gs. list_all2 same_frame fs gs \<and> readFrames now handle r calls c =
    (case handle_all now handle gs calls c of
       None \<Rightarrow> None
     | Some Panic \<Rightarrow> Some Panic
     | Some (Ret (calls', c')) \<Rightarrow> readFrames now handle (r\<lparr>ir_data := rest\<rparr>) calls' c')"
  using assms(1,2,4)
proof (induction fs arbitrary: r calls c)
  case Nil
  then have "r\<lparr>ir_data := rest\<rparr> = r" by simp
  then show ?case by (intro exI [of _ "[]"]) simp
next
  case (Cons f fs)
  let ?r1 = "r\<lparr>ir_data := payload_of f @ concat (map frame_bytes fs) @ rest\<rparr>"
  have f: "sendable f" using Cons.prems(1) by simp
  then have "header_ok (fr_Header f)" by (simp add: sendable_def frame_inv_def)
  then have 1: "io_ReadFull FrameHeaderSize r = ((enc_header (fr_Header f), None), ?r1)"
    using Cons.prems(3) by (simp add: io_ReadFull_def frame_bytes_def [of f])
  let ?r2 = "r\<lparr>ir_data := concat (map frame_bytes fs) @ rest\<rparr>"
  obtain g where g: "ReadBody (enc_header (fr_Header f)) ?r1 (c_pool c (c_gets c)) = Ret (None, g, ?r2)" "same_frame f g"
    by (rule ReadBody_sendable [OF f, of "c_pool c (c_gets c)" ?r1 "concat (map frame_bytes fs) @ rest"])
      (use Cons.prems(2) in \<open>simp_all add: pool_ok_def\<close>)
  let ?c1 = "updateLastActivityRead now g (c\<lparr>c_gets := c_gets c + 1\<rparr>)"
  have p1: "pool_ok ?c1" using Cons.prems(2) by (simp add: pool_ok_def updateLastActivityRead_def)
  have step: "readFrames now handle r calls c =
      (case handle g ?c1 of
         None \<Rightarrow> None
       | Some Panic \<Rightarrow> Some Panic
       | Some (Ret (rel, call, c2)) \<Rightarrow>
           readFrames now handle ?r2 (calls @ (case call of Some x \<Rightarrow> [x] | None \<Rightarrow> []))
             (if rel then pool_Release g c2 else c2))"
    using 1 g(1) by (subst readFrames.simps) (simp add: pool_Get_def)
  show ?case
  proof (cases "\<exists>rel call c2. handle g ?c1 = Some (Ret (rel, call, c2))")
    case True
    then obtain rel call c2 where h: "handle g ?c1 = Some (Ret (rel, call, c2))" by blast
    let ?c2 = "if rel then pool_Release g c2 else c2"
    have "pool_ok ?c2" using assms(3) [OF p1 h] by (simp add: pool_ok_def pool_Release_def)
    then obtain gs where gs: "list_all2 same_frame fs gs"
        "readFrames now handle ?r2 (calls @ (case call of Some x \<Rightarrow> [x] | None \<Rightarrow> [])) ?c2 =
          (case handle_all now handle gs (calls @ (case call of Some x \<Rightarrow> [x] | None \<Rightarrow> [])) ?c2 of
             None \<Rightarrow> None
           | Some Panic \<Rightarrow> Some Panic
           | Some (Ret (calls', c')) \<Rightarrow> readFrames now handle (?r2\<lparr>ir_data := rest\<rparr>) calls' c')"
      using Cons.IH [of ?c2 ?r2 "calls @ (case call of Some x \<Rightarrow> [x] | None \<Rightarrow> [])"] Cons.prems(1) by auto
    have r: "?r2\<lparr>ir_data := rest\<rparr> = r\<lparr>ir_data := rest\<rparr>" by simp
    show ?thesis
      using g(2) h step gs(1) gs(2) [unfolded r] by (intro exI [of _ "g # gs"]) simp
  next
    case False
    have "list_all2 same_frame fs fs"
      using Cons.prems(1) by (intro list.rel_refl_strong) (simp add: same_frame_def sendable_def)
    then show ?thesis using g(2) False step
      by (intro exI [of _ "g # fs"]) (auto split: option.splits go.splits)
  qed
qed

section \<open>What the handlers leave alone\<close>

text \<open>
  A part of a connection that the handlers of a frame do not touch: it does not depend on the fields that they change. It is
  the same after every operation, whatever the other goroutines do to the rest.
\<close>

named_theorems part_kept \<open>operations that keep a part of the connection\<close>

locale conn_part =
  fixes part :: "Connection \<Rightarrow> 'a"
  assumes fields [simp]: "part (c\<lparr>c_state := s\<rparr>) = part c" "part (c\<lparr>c_events := ev\<rparr>) = part c" "part (c\<lparr>c_stopCh := b\<rparr>) = part c"
    "part (c\<lparr>c_sendCh := fs\<rparr>) = part c" "part (c\<lparr>c_inbound := ms\<rparr>) = part c" "part (c\<lparr>c_outbound := ms\<rparr>) = part c"
    "part (c\<lparr>c_gets := n\<rparr>) = part c" "part (c\<lparr>c_released := fs\<rparr>) = part c" "part (c\<lparr>c_health := h\<rparr>) = part c"
    "part (c\<lparr>c_stoppedExchanges := b\<rparr>) = part c"
begin

lemma part_simps [simp]:
  "part (c_event e c) = part c" "part (set_c_set d ms c) = part c" "part (pool_Release f c) = part c"
  "part (snd (moveState a b c)) = part c" "part (onExchangeAdded c) = part c"
  by (auto simp: c_event_def set_c_set_def pool_Release_def moveState_def onExchangeAdded_def split: set_name.splits)

lemma check_part:
  "check_finish a b c = Ret c' \<Longrightarrow> part c' = part c"
  "check_inboundClosed a b c = Ret c' \<Longrightarrow> part c' = part c"
  "check_startClose a b c = Ret c' \<Longrightarrow> part c' = part c"
proof -
  have 1: "check_finish a b c = Ret c' \<Longrightarrow> part c' = part c" for a b c c'
    by (auto simp: check_finish_def close_stopCh_def go_bind_Ret_iff split: if_splits)
  have 2: "check_inboundClosed a b c = Ret c' \<Longrightarrow> part c' = part c" for a b c c'
    by (auto simp: check_inboundClosed_def moveState_def dest!: 1 split: if_splits)
  have 3: "check_startClose a b c = Ret c' \<Longrightarrow> part c' = part c" for a b c c'
    by (auto simp: check_startClose_def moveState_def dest!: 2 split: if_splits)
  show "check_finish a b c = Ret c' \<Longrightarrow> part c' = part c"
    "check_inboundClosed a b c = Ret c' \<Longrightarrow> part c' = part c"
    "check_startClose a b c = Ret c' \<Longrightarrow> part c' = part c" by (fact 1 2 3)+
qed

lemma checkExchanges_part [part_kept]: "checkExchanges c = Ret c' \<Longrightarrow> part c' = part c"
  by (auto simp: checkExchanges_def moveState_def Let_def dest!: check_part split: if_splits)

lemma conn_close_part [part_kept]: "conn_close c = Ret (e, c') \<Longrightarrow> part c' = part c"
  by (auto simp: conn_close_def go_bind_Ret_iff dest!: part_kept split: if_splits)

lemma stop_both_part [part_kept]: "stop_both err c = Ret c' \<Longrightarrow> part c' = part c"
  by (auto simp: stop_both_def go_bind_Ret_iff split: if_splits)

lemma connectionError_part [part_kept]: "connectionError self err c = Some (Ret (e, c')) \<Longrightarrow> part c' = part c"
  by (auto simp: connectionError_def stopHealthCheck_def Let_def go_bind_Ret_iff dest!: part_kept
      split: if_splits option.splits)

lemma SendSystemError_part: "part (snd (SendSystemError i sp e c)) = part c"
  by (auto simp: SendSystemError_def pool_Get_def Let_def split: prod.splits option.splits)

lemma protocolError_part [part_kept]: "protocolError i err c = Ret (e, c') \<Longrightarrow> part c' = part c"
  by (auto simp: protocolError_def Let_def go_bind_Ret_iff SendSystemError_part dest!: part_kept)

lemma sendMessage_part: "sendMessage m c = (x, c') \<Longrightarrow> part c' = part c"
  by (auto simp: sendMessage_def pool_Get_def Let_def split: prod.splits option.splits if_splits)

lemma conn_shutdown_part [part_kept]: "conn_shutdown d p c = Ret c' \<Longrightarrow> part c' = part c"
  by (auto simp: conn_shutdown_def on_removed_def go_bind_Ret_iff dest!: part_kept split: if_splits)

lemma conn_newExchange_part: "conn_newExchange d ctx ce mt i n c = (x, c') \<Longrightarrow> part c' = part c"
  by (auto simp: conn_newExchange_def split: prod.splits sum.splits)

lemma handleCallReq_part:
  assumes "handleCallReq now base env f c = Ret (rel, call, c')" and "\<And>c. part (env c) = part c"
  shows "part c' = part c"
proof (cases "c_state c = connectionActive")
  case False
  then show ?thesis using assms(1) by (auto simp: handleCallReq_def Let_def SendSystemError_part)
next
  case True
  let ?i = "fh_ID (fr_Header f)"
  obtain res msg where p: "parseInboundFragment 0 f (CallReq (newCallReq ?i)) = Ret (res, msg)"
    using assms(1) True by (auto simp: handleCallReq_def Let_def go_bind_Ret_iff)
  show ?thesis
  proof (cases res)
    case (Inl e)
    then show ?thesis using assms(1) True p by (simp add: handleCallReq_def Let_def)
  next
    case (Inr fragment)
    let ?ctx = "newIncomingContext now base (call_properties (as_callReq msg)) (cq_TimeToLive (as_callReq msg))"
    obtain x c1 where n: "conn_newExchange Inbound (bc_err ?ctx) DeadlineExceeded messageTypeCallReq ?i
        mexChannelBufferSize c = (x, c1)" by (cases "conn_newExchange Inbound (bc_err ?ctx) DeadlineExceeded messageTypeCallReq ?i
        mexChannelBufferSize c")
    show ?thesis
      using assms(1) True p Inr n conn_newExchange_part [OF n] assms(2)
      by (cases x) (auto simp: handleCallReq_def Let_def go_bind_Ret_iff dest!: part_kept split: if_splits)
  qed
qed

lemma handlePingReq_part: "handlePingReq f c = Some (Ret c') \<Longrightarrow> part c' = part c"
  by (auto simp: handlePingReq_def go_bind_Ret_iff dest!: part_kept sendMessage_part split: if_splits prod.splits option.splits)

lemma handleError_part: "handleError f c = Some (Ret (rel, c')) \<Longrightarrow> part c' = part c"
  by (auto simp: handleError_def forward_outbound_def Let_def go_bind_Ret_iff dest!: part_kept
      split: if_splits prod.splits option.splits go.splits)

lemma handleFrameNoRelay_part:
  assumes "handleFrameNoRelay now base env f c = Some (Ret (rel, call, c'))" and "\<And>c. part (env c) = part c"
  shows "part c' = part c"
  using assms
  by (auto simp: handleFrameNoRelay_def handleCallReqContinue_def handleCallRes_def handleCallResContinue_def
      handlePingRes_def forward_outbound_def Let_def go_bind_Ret_iff
      dest!: handlePingReq_part handleError_part handleCallReq_part
      split: if_splits prod.splits option.splits)

end

interpretation frame_pool: conn_part c_pool
  by unfold_locales simp_all

interpretation relay_count: conn_part c_relay
  by unfold_locales simp_all

end
