(* ===== verification/End_To_End.thy ===== *)
theory End_To_End
  imports Transport
begin

text \<open>
  A call from end to end: what \<^verbatim>\<open>raw.Call\<close> sends on one connection is what the raw handler of the other side
  gets, and what the handler returns is what the caller reads. The proofs put the contracts of the
  fragmenting writer and reader (\<open>outbound_call\<close>, \<open>inbound_call\<close>, \<open>inbound_response\<close>,
  \<open>outbound_response\<close>) on top of the exchange sets of the two connections.
\<close>

section \<open>Operations of a call on its connection\<close>

named_theorems conn_frame \<open>fields of a connection that an operation leaves alone\<close>

lemma enqueue_simps [conn_frame]:
  "c_set d (enqueue f c) = c_set d c" "c_pool (enqueue f c) = c_pool c" "c_state (enqueue f c) = c_state c"
  "c_opts (enqueue f c) = c_opts c" "c_gets (enqueue f c) = c_gets c"
  "conn_inv (enqueue f c) = conn_inv c"
  by (cases d; simp add: enqueue_def c_set_def conn_inv_def split: list.split)+

lemma enqueue_out: "c_out (enqueue f c) @ c_sendCh (enqueue f c) = c_out c @ c_sendCh c @ [f]"
  by (simp add: enqueue_def split: list.split)

lemma fold_enqueue [conn_frame]:
  "c_set d (fold enqueue fs c) = c_set d c" "c_pool (fold enqueue fs c) = c_pool c"
  "c_state (fold enqueue fs c) = c_state c" "c_opts (fold enqueue fs c) = c_opts c"
  "conn_inv (fold enqueue fs c) = conn_inv c"
  by (induction fs arbitrary: c) (simp_all add: conn_frame)

lemma fold_enqueue_out:
  "c_out (fold enqueue fs c) @ c_sendCh (fold enqueue fs c) = c_out c @ c_sendCh c @ fs"
  by (induction fs arbitrary: c) (simp_all add: enqueue_out)

lemma checkExchanges_frame:
  assumes "conn_inv c" and "checkExchanges c = Ret c'"
  shows "conn_inv c'" and "c_set d c' = c_set d c" and "c_pool c' = c_pool c" and "c_out c' = c_out c"
    and "c_sendCh c' = c_sendCh c"
  using assms conn_inv_check [OF assms(1)] by (cases d; auto simp: checkExchanges_eq c_set_def)+

lemma set_c_set_frame [conn_frame]:
  "c_pool (set_c_set d ms c) = c_pool c" "c_out (set_c_set d ms c) = c_out c" "c_gets (set_c_set d ms c) = c_gets c"
  "c_opts (set_c_set d ms c) = c_opts c" "c_nextMessageID (set_c_set d ms c) = c_nextMessageID c"
  by (cases d; simp add: set_c_set_def)+

text \<open>Putting an exchange back: it is what the set then holds, and if it was shut down it has been removed.\<close>

lemma sync_mex_ok:
  assumes "conn_inv c" and "p < length (ms_heap (c_set d c))" and "mex_ok m"
    and "mex_msgID m = mex_msgID (ms_heap (c_set d c) ! p)"
  obtains c' where "sync_mex d p m c = Ret c'" and "conn_inv c'" and "ms_heap (c_set d c') = (ms_heap (c_set d c))[p := m]"
    and "c_pool c' = c_pool c" and "c_out c' = c_out c" and "c_sendCh c' = c_sendCh c"
proof -
  let ?ms = "c_set d c"
  let ?ms1 = "?ms\<lparr>ms_heap := (ms_heap ?ms)[p := m]\<rparr>"
  let ?c1 = "set_c_set d ?ms1 c"
  have inv1: "mexset_inv ?ms1"
    using conn_inv_c_set [OF assms(1), of d] assms(2-4)
    by (auto simp: mexset_inv_def nth_list_update dest!: set_update_subset_insert [THEN subsetD])
  then have c1: "conn_inv ?c1" by (rule conn_inv_set [OF assms(1)])
  show ?thesis
  proof (cases "mex_shutdownAtomic m \<and> \<not> mex_shutdownAtomic (ms_heap ?ms ! p)")
    case False
    then have "sync_mex d p m c = Ret ?c1" by (auto simp: sync_mex_def Let_def)
    then show ?thesis using that [of ?c1] c1 by (simp add: conn_frame)
  next
    case True
    obtain called ms2 where r: "removeExchange (mex_msgID m) ?ms1 = (called, ms2)" by force
    then have ms2: "ms_heap ms2 = (ms_heap ?ms)[p := m]" "mexset_inv ms2"
      using mexset_inv_remove [OF inv1, of "mex_msgID m"]
      by (auto simp: removeExchange_def deleteExchange_def split: if_splits)
    let ?c2 = "set_c_set d ms2 ?c1"
    have c2: "conn_inv ?c2" using c1 ms2(2) by (rule conn_inv_set)
    have sync: "sync_mex d p m c = (if called then checkExchanges ?c2 else Ret ?c2)"
      using True r by (simp add: sync_mex_def Let_def conn_removeExchange_def on_removed_def)
    show ?thesis
    proof (cases called)
      case False
      then show ?thesis using that [of ?c2] sync c2 ms2(1) by (simp add: conn_frame)
    next
      case called: True
      obtain c3 where c3: "checkExchanges ?c2 = Ret c3" using checkExchanges_eq [OF c2] by blast
      show ?thesis
        using that [of c3] sync called c3 ms2(1) checkExchanges_frame [OF c2 c3] by (simp add: conn_frame)
    qed
  qed
qed

text \<open>An operation on the writing half: its new frames go into the send channel, in order.\<close>

lemma on_writer_ok:
  assumes "conn_inv c" and "p < length (ms_heap (c_set d c))" and "f (load_sender d p c w) = Some (Ret (e, w1))"
    and "sender_ended (mex_msgID (ms_heap (c_set d c) ! p)) (fw_sender (rw_contents w1))"
  obtains c' where "on_writer d p f w c = Some (Ret (e, w1, c'))" and "conn_inv c'"
    and "ms_heap (c_set d c') = (ms_heap (c_set d c))[p := rs_mex (fw_sender (rw_contents w1))]"
    and "c_pool c' = c_pool c"
    and "c_out c' @ c_sendCh c' = c_out c @ c_sendCh c @
      drop (length (rs_sendCh (fw_sender (rw_contents w)))) (rs_sendCh (fw_sender (rw_contents w1)))"
proof -
  let ?s = "fw_sender (rw_contents w1)"
  let ?new = "drop (length (rs_sendCh (fw_sender (rw_contents w)))) (rs_sendCh ?s)"
  let ?c = "fold enqueue ?new (c\<lparr>c_gets := rs_gets ?s\<rparr>)"
  have "c_set d (c\<lparr>c_gets := rs_gets ?s\<rparr>) = c_set d c" by (cases d) (simp_all add: c_set_def)
  then have set: "c_set d ?c = c_set d c" "conn_inv ?c" "c_pool ?c = c_pool c"
    using assms(1) by (simp_all add: fold_enqueue)
  have out: "c_out ?c @ c_sendCh ?c = c_out c @ c_sendCh c @ ?new" by (simp add: fold_enqueue_out)
  obtain c' where c': "sync_mex d p (rs_mex ?s) ?c = Ret c'" "conn_inv c'"
      "ms_heap (c_set d c') = (ms_heap (c_set d c))[p := rs_mex ?s]"
      "c_pool c' = c_pool c" "c_out c' = c_out ?c" "c_sendCh c' = c_sendCh ?c"
    by (rule sync_mex_ok [OF set(2), of p d "rs_mex ?s"])
      (use assms(2,4) in \<open>simp_all only: set sender_ended_def\<close>)
  have "on_writer d p f w c = Some (Ret (e, w1, c'))"
    using assms(3) c'(1) by (simp add: on_writer_def Let_def)
  then show ?thesis
    by (rule that) (use c'(2-4) out in \<open>simp_all only: c'(5,6)\<close>)
qed

text \<open>An operation on the reading half.\<close>

lemma on_reader_ok:
  assumes "conn_inv c" and "p < length (ms_heap (c_set d c))"
    and "f (load_receiver d p c arriving r) = Some (Ret (x, r1))"
    and "mex_ok (rcv_mex (fr_receiver (rr_contents r1)))"
    and "mex_msgID (rcv_mex (fr_receiver (rr_contents r1))) = mex_msgID (ms_heap (c_set d c) ! p)"
  obtains c' where "on_reader d p arriving f r c = Some (Ret (x, r1, c'))" and "conn_inv c'"
    and "ms_heap (c_set d c') = (ms_heap (c_set d c))[p := rcv_mex (fr_receiver (rr_contents r1))]"
    and "c_pool c' = c_pool c"
proof -
  let ?s = "fr_receiver (rr_contents r1)"
  let ?c = "c\<lparr>c_released := c_released c @
      drop (length (rcv_released (fr_receiver (rr_contents r)))) (rcv_released ?s)\<rparr>"
  have set: "c_set d ?c = c_set d c" "conn_inv ?c" "c_pool ?c = c_pool c"
    using assms(1) by (cases d; simp add: c_set_def)+
  obtain c' where c': "sync_mex d p (rcv_mex ?s) ?c = Ret c'" "conn_inv c'"
      "ms_heap (c_set d c') = (ms_heap (c_set d c))[p := rcv_mex ?s]" "c_pool c' = c_pool c"
    by (rule sync_mex_ok [of ?c p d "rcv_mex ?s"]) (use set assms(2,4,5) in simp_all)
  show ?thesis
    by (rule that [of c']) (use c' assms(3) in \<open>simp_all add: on_reader_def Let_def\<close>)
qed

abbreviation fresh_mex :: "gerror option \<Rightarrow> gerror \<Rightarrow> byte \<Rightarrow> uint32 \<Rightarrow> nat \<Rightarrow> messageExchange" where
  "fresh_mex ctx ctxEnd t i n \<equiv> \<lparr>mex_recvCh = [], mex_recvCap = n, mex_errCh = newErrNotifier, mex_ctx = ctx,
     mex_ctxEnd = ctxEnd, mex_msgID = i, mex_msgType = t, mex_shutdownAtomic = False, mex_errChNotified = False\<rparr>"

lemma fresh_mex_ok: "mex_ok (fresh_mex ctx ce t i n)" "checkError (fresh_mex None ce t i n) = None"
  by (simp_all add: mex_ok_def newErrNotifier_def checkError_def checkErr_def)

lemma conn_newExchange_fresh:
  assumes "conn_inv c" and "\<not> ms_shutdown (c_set d c)" and "map_of (ms_exchanges (c_set d c)) i = None"
  obtains c' where "conn_newExchange d ctx ce t i n c = (Inr (length (ms_heap (c_set d c))), c')" and "conn_inv c'"
    and "ms_heap (c_set d c') = ms_heap (c_set d c) @ [fresh_mex ctx ce t i n]" and "c_state c' = c_state c"
    and "c_pool c' = c_pool c" and "c_opts c' = c_opts c" and "c_out c' = c_out c" and "c_sendCh c' = c_sendCh c"
proof -
  define ms where "ms = (c_set d c)\<lparr>ms_heap := ms_heap (c_set d c) @ [fresh_mex ctx ce t i n],
    ms_exchanges := AList.update i (length (ms_heap (c_set d c))) (ms_exchanges (c_set d c))\<rparr>"
  have ms: "newExchange ctx ce t i n (c_set d c) = (Inr (length (ms_heap (c_set d c))), ms)"
      "ms_heap ms = ms_heap (c_set d c) @ [fresh_mex ctx ce t i n]"
    using assms(2,3) by (simp_all add: newExchange_def addExchange_def Let_def ms_def)
  let ?c = "onExchangeAdded (set_c_set d ms c)"
  have "c_set d ?c = ms" by (cases d) (simp_all add: onExchangeAdded_def c_event_def set_c_set_def c_set_def)
  moreover have "conn_inv ?c" using conn_newExchange_keeps(1) [OF assms(1), of d ctx ce t i n] ms(1)
    by (simp add: conn_newExchange_def)
  moreover have "conn_newExchange d ctx ce t i n c = (Inr (length (ms_heap (c_set d c))), ?c)"
    using ms(1) by (simp add: conn_newExchange_def)
  moreover have "c_state ?c = c_state c" "c_pool ?c = c_pool c" "c_opts ?c = c_opts c" "c_out ?c = c_out c"
      "c_sendCh ?c = c_sendCh c" by (simp_all add: onExchangeAdded_def c_event_def conn_frame)
  ultimately show ?thesis using ms(2) by (intro that [of ?c]) simp_all
qed

section \<open>The messages of a call fit its frames\<close>

text \<open>The transport headers of a call: at most the five that the library sets, each short enough for its length byte.\<close>

definition short_options :: "CallOptions \<Rightarrow> bool" where
  "short_options opts \<longleftrightarrow> length (cop_Format opts) < 256 \<and> length (cop_ShardKey opts) < 256 \<and> length (cop_RoutingKey opts) < 256 \<and>
     length (cop_RoutingDelegate opts) < 256 \<and> length (cop_CallerName opts) < 256"

abbreviation header_names :: "string list" where
  "header_names \<equiv> [ArgScheme, ShardKey, RoutingKey, RoutingDelegate, CallerName]"

definition plain_headers :: "transportHeaders \<Rightarrow> bool" where
  "plain_headers h \<longleftrightarrow> map_inv h \<and> (\<forall>(k, v) \<in> set h. k \<in> set header_names \<and> length v < 256)"

lemma plain_headers_update:
  assumes "plain_headers h" and "k \<in> set header_names" and "length v < 256"
  shows "plain_headers (AList.update k v h)"
proof -
  have d: "map_inv (AList.update k v h)" using assms(1) by (simp add: plain_headers_def distinct_update)
  have "k' \<in> set header_names \<and> length v' < 256" if kv: "(k', v') \<in> set (AList.update k v h)" for k' v'
  proof -
    have "((map_of h)(k \<mapsto> v)) k' = Some v'" using map_of_is_SomeI [OF d kv] by (simp add: update_conv')
    then have "k' = k \<and> v' = v \<or> (k', v') \<in> set h" by (auto split: if_splits dest: map_of_SomeD)
    then show ?thesis using assms by (auto simp: plain_headers_def)
  qed
  with d show ?thesis by (auto simp: plain_headers_def)
qed

lemma override_plain: "short_options opts \<Longrightarrow> plain_headers h \<Longrightarrow> plain_headers (overrideHeaders opts h)"
  by (auto simp: overrideHeaders_def short_options_def Let_def intro!: plain_headers_update)

lemma request_headers_plain:
  assumes "length localService < 256" and "short_options opts"
    and "case currentCallOptions ctx of Some o' \<Rightarrow> short_options o' | None \<Rightarrow> True"
  shows "plain_headers (request_headers localService opts ctx)"
proof -
  have "plain_headers [(CallerName, localService)]" using assms(1) by (simp add: plain_headers_def)
  then have "plain_headers (setHeaders opts [(CallerName, localService)])"
    unfolding setHeaders_def using assms(2)
    by (intro override_plain plain_headers_update) (simp_all add: Raw_def)
  then show ?thesis
    using assms(3) by (auto simp: request_headers_def override_plain split: option.splits)
qed

lemma plain_headers_valid:
  assumes "plain_headers h"
  shows "valid_headers h" and "length (enc_headers h) \<le> 2561"
proof -
  have d: "distinct (map fst h)" and s: "\<And>k v. (k, v) \<in> set h \<Longrightarrow> k \<in> set header_names \<and> length v < 256"
    using assms by (auto simp: plain_headers_def)
  have "length h = card (set (map fst h))" using distinct_card [OF d] by simp
  also have "\<dots> \<le> card (set header_names)"
  proof (rule card_mono)
    show "set (map fst h) \<subseteq> set header_names"
    proof
      fix k assume "k \<in> set (map fst h)"
      then obtain v where "(k, v) \<in> set h" by auto
      then show "k \<in> set header_names" by (rule s [THEN conjunct1])
    qed
  qed simp
  also have "\<dots> \<le> 5" using card_length [of header_names] by simp
  finally have l: "length h \<le> 5" .
  have k: "length k < 256" if "k \<in> set header_names" for k
    using that by (auto simp: ArgScheme_def ShardKey_def RoutingKey_def RoutingDelegate_def CallerName_def)
  have kv: "length k < 256 \<and> length v < 256" if "(k, v) \<in> set h" for k v using s [OF that] k by blast
  show "valid_headers h" using d kv l by (auto simp: valid_headers_def)
  have "length (concat (map (\<lambda>(k, v). enc_len8 k @ enc_len8 v) h)) = sum_list (map (\<lambda>(k, v). length k + length v + 2) h)"
    by (simp add: length_concat comp_def case_prod_unfold enc_len8_def)
  also have "\<dots> \<le> sum_list (map (\<lambda>_. 512) h)"
    by (rule sum_list_mono) (auto dest!: kv)
  also have "\<dots> \<le> 2560" using l by (simp add: sum_list_triv)
  finally show "length (enc_headers h) \<le> 2561" by (simp add: enc_headers_def)
qed

text \<open>The request of a call is one that its frames can carry.\<close>

lemma request_fits:
  assumes "plain_headers (cq_Headers req)" and "length (cq_Service req) < 256"
    and "0 \<le> cq_TimeToLive req" and "cq_TimeToLive req < 2 ^ 32 * Millisecond"
  shows "valid_message (request_message req b) \<and> length (enc_message (request_message req b)) + 10 < MaxFramePayloadSize"
  using plain_headers_valid [OF assms(1)] assms
  by (simp add: request_message_def valid_callReq_def enc_callReq_def enc_span_def enc_len8_def
      MaxFramePayloadSize_def MaxFrameSize_def)

lemma response_fits:
  assumes "plain_headers hs"
  shows "valid_message (response_message hs err b) \<and>
    length (enc_message (response_message hs err b)) + 10 < MaxFramePayloadSize"
  using plain_headers_valid [OF assms]
  by (simp add: response_message_def enc_callRes_def enc_span_def MaxFramePayloadSize_def MaxFrameSize_def)

section \<open>The caller sends\<close>

text \<open>A connection that can take the call \<open>i\<close> into its set \<open>d\<close>, and other goroutines that leave the call \<open>p\<close> alone.\<close>

definition open_for :: "set_name \<Rightarrow> uint32 \<Rightarrow> Connection \<Rightarrow> bool" where
  "open_for d i c \<longleftrightarrow> conn_inv c \<and> c_state c = connectionActive \<and> pool_ok c \<and> \<not> ms_shutdown (c_set d c) \<and>
     map_of (ms_exchanges (c_set d c)) i = None \<and> ChecksumType_valid (co_ChecksumType (c_opts c))"

definition quiet :: "set_name \<Rightarrow> nat \<Rightarrow> Connection \<Rightarrow> Connection \<Rightarrow> bool" where
  "quiet d p c c' \<longleftrightarrow> conn_inv c' \<and> c_state c' = c_state c \<and> c_pool c' = c_pool c \<and> c_opts c' = c_opts c \<and>
     p < length (ms_heap (c_set d c')) \<and> ms_heap (c_set d c') ! p = ms_heap (c_set d c) ! p"

definition leaves_alone :: "set_name \<Rightarrow> nat \<Rightarrow> (Connection \<Rightarrow> Connection) \<Rightarrow> bool" where
  "leaves_alone d p env \<longleftrightarrow> (\<forall>c. conn_inv c \<and> p < length (ms_heap (c_set d c)) \<longrightarrow> quiet d p c (env c))"

lemma leaves_aloneD: "leaves_alone d p env \<Longrightarrow> conn_inv c \<Longrightarrow> p < length (ms_heap (c_set d c)) \<Longrightarrow> quiet d p c (env c)"
  by (simp add: leaves_alone_def)

text \<open>The request that \<^verbatim>\<open>beginCall\<close> makes, and that it can be sent.\<close>

definition call_request :: "int \<Rightarrow> Context \<Rightarrow> Span \<Rightarrow> string \<Rightarrow> string \<Rightarrow> CallOptions \<Rightarrow> Connection \<Rightarrow> callReq" where
  "call_request now ctx span localService serviceName callOptions c =
     \<lparr>cq_id = c_nextMessageID c + 1, cq_TimeToLive = the (bc_deadline ctx) - now, cq_Tracing = span,
      cq_Headers = request_headers localService callOptions ctx, cq_Service = serviceName\<rparr>"

definition good_call :: "int \<Rightarrow> Context \<Rightarrow> string \<Rightarrow> string \<Rightarrow> CallOptions \<Rightarrow> bool" where
  "good_call now ctx localService serviceName callOptions \<longleftrightarrow>
     bc_err ctx = None \<and> length localService < 256 \<and> length serviceName < 256 \<and> short_options callOptions \<and>
     (case currentCallOptions ctx of Some opts \<Rightarrow> short_options opts | None \<Rightarrow> True) \<and>
     (case bc_deadline ctx of Some t \<Rightarrow> Millisecond \<le> t - now \<and> t - now < 2 ^ 32 * Millisecond | None \<Rightarrow> False)"

lemma call_request_fits:
  assumes "good_call now ctx ls svc opts"
  shows "valid_message (request_message (call_request now ctx span ls svc opts c) b) \<and>
    length (enc_message (request_message (call_request now ctx span ls svc opts c) b)) + 10 < MaxFramePayloadSize"
  by (rule request_fits)
    (use assms in \<open>auto simp: good_call_def call_request_def Millisecond_def intro!: request_headers_plain split: option.splits\<close>)

lemma call_request_ok:
  fixes span :: Span and c :: Connection
  assumes "good_call now ctx ls svc opts"
  defines "req \<equiv> call_request now ctx span ls svc opts c"
  shows "valid_message (request_message req b)" and "Millisecond \<le> cq_TimeToLive req" and "plain_headers (cq_Headers req)"
    and "cq_Headers req = request_headers ls opts ctx" and "cq_Service req = svc"
  using assms(1) call_request_fits [OF assms(1)] request_headers_plain [of ls opts ctx]
  by (auto simp: req_def good_call_def call_request_def split: option.splits)

lemma valid_opts: "open_for d i c \<Longrightarrow> ChecksumType_valid (co_ChecksumType (c_opts c))"
  by (simp add: open_for_def)

lemma load_new_writer:
  "load_sender d p c (newReqResWriter s c0) =
     newReqResWriter (s\<lparr>rs_mex := ms_heap (c_set d c) ! p, rs_pool := c_pool c, rs_gets := c_gets c\<rparr>) c0"
  by (simp add: load_sender_def newReqResWriter_def newFragmentingWriter_def)

lemma beginCall_ok:
  fixes span :: Span and ctxEnd :: gerror
  assumes "open_for Outbound (c_nextMessageID c + 1) c" and "good_call now ctx ls svc opts"
    and "leaves_alone Outbound (length (ms_heap (c_outbound c))) env"
  defines "req \<equiv> call_request now ctx span ls svc opts c"
    and "mx \<equiv> fresh_mex None ctxEnd messageTypeCallReq (c_nextMessageID c + 1) mexChannelBufferSize"
    and "c0 \<equiv> ChecksumType_New (co_ChecksumType (c_opts c))"
  obtains call c1 where "beginCall now ctx ctxEnd span env ls svc meth opts c = Some (Ret (Inr call, c1))"
    and "oc_mex call = length (ms_heap (c_outbound c))" and "rw_state (oc_writer call) = reqResWriterPreArg2"
    and "outbound_call.between (request_message req) mx c0 (rw_contents (oc_writer call)) [meth]"
    and "conn_inv c1" and "oc_mex call < length (ms_heap (c_outbound c1))" and "ms_heap (c_outbound c1) ! oc_mex call = mx"
    and "c_pool c1 = c_pool c" and "oc_response call = oc_response (new_outbound_call (oc_mex call) req c1)"
proof -
  let ?p = "length (ms_heap (c_outbound c))" and ?i = "c_nextMessageID c + 1"
  let ?ca = "c\<lparr>c_nextMessageID := ?i\<rparr>"
  have ca: "conn_inv ?ca" "\<not> ms_shutdown (c_set Outbound ?ca)" "map_of (ms_exchanges (c_set Outbound ?ca)) ?i = None"
      "c_state c = connectionActive" "pool_ok c"
    using assms(1) by (simp_all add: open_for_def c_set_def)
  obtain cb where cb: "conn_newExchange Outbound None ctxEnd messageTypeCallReq ?i mexChannelBufferSize ?ca = (Inr ?p, cb)"
      "conn_inv cb" "ms_heap (c_outbound cb) = ms_heap (c_outbound c) @ [mx]" "c_state cb = connectionActive"
      "c_pool cb = c_pool c" "c_opts cb = c_opts c"
    by (rule conn_newExchange_fresh [OF ca(1-3), of None ctxEnd messageTypeCallReq mexChannelBufferSize])
      (use ca(4) in \<open>simp add: c_set_def mx_def\<close>)
  define cc where "cc = env cb"
  have cc: "conn_inv cc" "c_state cc = connectionActive" "c_pool cc = c_pool c" "c_opts cc = c_opts c"
      "?p < length (ms_heap (c_outbound cc))" "ms_heap (c_outbound cc) ! ?p = mx"
    using leaves_aloneD [OF assms(3) cb(2)] cb by (simp_all add: cc_def quiet_def c_set_def)
  let ?call = "new_outbound_call ?p req cc"
  obtain s where s: "oc_writer ?call = newReqResWriter s c0" "rs_sendCh s = []" "rs_err s = None" "rs_wait s = SendNow"
      "rs_messageForFragment s = request_message req"
    using cc(4) by (simp add: new_outbound_call_def c0_def Let_def)
  let ?s = "s\<lparr>rs_mex := mx, rs_pool := c_pool c, rs_gets := c_gets cc\<rparr>"
  have ok: "sender_ok (request_message req) mx ?s"
    using s ca(5) call_request_fits [OF assms(2), of span c] fresh_mex_ok
    by (simp add: sender_ok_def pool_ok_def req_def mx_def)
  obtain w where w: "writeMethod meth (load_sender Outbound ?p cc (oc_writer ?call)) = Some (Ret (None, w))"
      "rw_state w = reqResWriterPreArg2" "outbound_call.between (request_message req) mx c0 (rw_contents w) [meth]"
    using outbound_call.write_arg1_ok [OF ok, of meth c0] s(2) cc(3,6)
    by (auto simp: s(1) load_new_writer writeMethod_def c_set_def)
  have sw: "sender_ok (request_message req) mx (fw_sender (rw_contents w))"
    by (rule outbound_call.between_sender [OF w(3)])
  obtain c1 where c1: "on_writer Outbound ?p (writeMethod meth) (oc_writer ?call) cc = Some (Ret (None, w, c1))"
      "conn_inv c1" "ms_heap (c_outbound c1) = (ms_heap (c_outbound cc))[?p := mx]" "c_pool c1 = c_pool c"
    by (rule on_writer_ok [where f = "writeMethod meth", OF cc(1) _ w(1)]) (use sw cc in \<open>simp_all add: c_set_def sender_ended_def sender_ok_def\<close>)
  show ?thesis
  proof (rule that [of "?call\<lparr>oc_writer := w\<rparr>" c1])
    obtain t where "bc_deadline ctx = Some t" "\<not> t - now < Millisecond" "ctx_Err now ctx = None"
      using assms(2) by (auto simp: good_call_def ctx_Err_def Millisecond_def split: option.splits)
    then show "beginCall now ctx ctxEnd span env ls svc meth opts c = Some (Ret (Inr (?call\<lparr>oc_writer := w\<rparr>), c1))"
      using cb(1) cc(2) ca(4) c1(1)
      by (simp add: beginCall_def NextMessageID_def Let_def req_def call_request_def flip: cc_def)
  qed (use w c1 cc in \<open>simp_all add: new_outbound_call_def Let_def\<close>)
qed

lemma load_sender_ok:
  assumes "sender_ok m mx (fw_sender (rw_contents w))" and "ms_heap (c_set d c) ! p = mx" and "pool_ok c"
  shows "sender_ok m mx (fw_sender (rw_contents (load_sender d p c w)))"
    and "rs_sendCh (fw_sender (rw_contents (load_sender d p c w))) = rs_sendCh (fw_sender (rw_contents w))"
    and "rw_state (load_sender d p c w) = rw_state w"
  using assms by (simp_all add: load_sender_def sender_ok_def pool_ok_def)

lemma load_between:
  assumes "outbound_call.between m mx c0 (rw_contents w) args" and "ms_heap (c_set d c) ! p = mx" and "pool_ok c"
  shows "outbound_call.between m mx c0 (rw_contents (load_sender d p c w)) args"
proof -
  let ?s = "fw_sender (rw_contents (load_sender d p c w))"
  have "rw_contents (load_sender d p c w) = (rw_contents w)\<lparr>fw_sender := ?s\<rparr>" by (simp add: load_sender_def)
  moreover have "outbound_call.between m mx c0 ((rw_contents w)\<lparr>fw_sender := ?s\<rparr>) args"
    by (rule outbound_call.between_swap [OF assms(1)])
      (use load_sender_ok [OF outbound_call.between_sender [OF assms(1)] assms(2,3)] in simp_all)
  ultimately show ?thesis by simp
qed

lemma carries_payload: "carries m i c b frs css \<Longrightarrow> f \<in> set frs \<Longrightarrow> SizedPayload f \<noteq> Panic"
  by (induction m i c b frs css rule: carries.induct) auto

lemma carries_same:
  assumes "list_all2 same_frame frs gs" and "carries m i c b frs css"
  shows "carries m i c b gs css"
  using assms
proof (induction frs gs arbitrary: c b css rule: list_all2_induct)
  case (Cons f frs g gs)
  then show ?case by (cases css) (auto simp: same_frame_def)
qed simp

text \<open>The rest of the call: all its frames are in the send channel, and they carry its arguments.\<close>

lemma raw_write_args_ok:
  assumes "outbound_call.between m mx c0 (rw_contents w) [meth]" and "rw_state w = reqResWriterPreArg2"
    and "conn_inv c" and "pool_ok c" and "p < length (ms_heap (c_set d c))" and "ms_heap (c_set d c) ! p = mx"
  obtains w' c' css where "on_writer d p (raw_write_args a2 a3) w c = Some (Ret (None, w', c'))"
    and "carries m (mex_msgID mx) c0 True (rs_sendCh (fw_sender (rw_contents w'))) css"
    and "join_frags css = [meth, a2, a3]" and "rs_sendCh (fw_sender (rw_contents w')) \<noteq> []"
    and "\<And>f. f \<in> set (rs_sendCh (fw_sender (rw_contents w'))) \<Longrightarrow> sendable f"
    and "conn_inv c'" and "p < length (ms_heap (c_set d c'))" and "ms_heap (c_set d c') ! p = mx"
    and "c_pool c' = c_pool c"
    and "c_out c' @ c_sendCh c' = c_out c @ c_sendCh c @
      drop (length (rs_sendCh (fw_sender (rw_contents w)))) (rs_sendCh (fw_sender (rw_contents w')))"
proof -
  let ?w = "load_sender d p c w"
  have b: "outbound_call.between m mx c0 (rw_contents ?w) [meth]" by (rule load_between [OF assms(1,6,4)])
  have st: "rw_state ?w = reqResWriterPreArg2" using assms(2) by (simp add: load_sender_def)
  obtain w1 where w1: "ArgWriteHelper_Write outbound_sender a2 (arg2Writer outbound_sender ?w) = Some (Ret (None, w1))"
      "rw_state w1 = reqResWriterPreArg3" "outbound_call.between m mx c0 (rw_contents w1) ([meth] @ [a2])"
    using outbound_call.write_arg2_ok [OF st b, of a2] by blast
  obtain w2 where w2: "ArgWriteHelper_Write outbound_sender a3 (arg3Writer outbound_sender w1) = Some (Ret (None, w2))"
      "outbound_call.finished m mx c0 (rw_contents w2) (([meth] @ [a2]) @ [a3])"
    using outbound_call.write_arg3_ok [OF w1(2,3), of a3] by blast
  note fin = outbound_finished [OF w2(2)]
  have wr: "raw_write_args a2 a3 ?w = Some (Ret (None, w2))"
    using w1(1) w2(1) by (simp add: raw_write_args_def)
  have mx: "rs_mex (fw_sender (rw_contents w2)) = mx" "mex_ok mx" using fin(2) by (simp_all add: sender_ok_def)
  obtain c' where c': "on_writer d p (raw_write_args a2 a3) w c = Some (Ret (None, w2, c'))" "conn_inv c'"
      "ms_heap (c_set d c') = (ms_heap (c_set d c))[p := mx]" "c_pool c' = c_pool c"
      "c_out c' @ c_sendCh c' = c_out c @ c_sendCh c @
        drop (length (rs_sendCh (fw_sender (rw_contents w)))) (rs_sendCh (fw_sender (rw_contents w2)))"
    by (rule on_writer_ok [where f = "raw_write_args a2 a3", OF assms(3,5) wr])
      (use mx assms(6) in \<open>simp_all add: sender_ended_def\<close>)
  obtain css where css: "carries m (mex_msgID mx) c0 True (rs_sendCh (fw_sender (rw_contents w2))) css"
      "join_frags css = [meth, a2, a3]" "rs_sendCh (fw_sender (rw_contents w2)) \<noteq> []"
      "\<And>f. f \<in> set (rs_sendCh (fw_sender (rw_contents w2))) \<Longrightarrow> frame_inv f \<and> 16 \<le> unat (fh_size (fr_Header f))"
    by (rule finished_carries [OF fin(1)]) simp
  show ?thesis
    by (rule that [OF c'(1) css(1-3)])
      (use css(4) carries_payload [OF css(1)] c'(2-5) assms(5) in \<open>simp_all add: sendable_def\<close>)
qed

section \<open>The handler receives\<close>

lemma parse_frames_cong:
  "m False = m' False \<Longrightarrow> parse_frames m i False k frs = parse_frames m' i False k frs"
  by (induction frs arbitrary: k) (auto split: go.split sum.split)

lemma incoming_ctx_ok:
  assumes "bc_err base = None" and "0 < ttl"
  shows "bc_err (newIncomingContext now base props ttl) = None"
  using assms
  by (simp add: newIncomingContext_def Build_def setIncomingCall_def SetParentContext_def NewContextBuilder_def
      WrapWithHeaders_def WithTimeout_def WithCancel_def Let_def)

text \<open>A checksum made for a valid type announces what it writes; for Farmhash that is no checksum.\<close>

lemma carries_checksum:
  assumes "ChecksumType_valid t"
  shows "ChecksumType_valid (TypeCode (ChecksumType_New t))"
    and "Checksum_Size (ChecksumType_New t) = ChecksumSize (TypeCode (ChecksumType_New t))"
    and "ChecksumType_New t = ChecksumType_New (TypeCode (ChecksumType_New t))"
proof -
  have "ChecksumType_New t = ChecksumType_New ChecksumTypeNone \<and> TypeCode (ChecksumType_New ChecksumTypeNone) = ChecksumTypeNone"
    if "t = ChecksumTypeFarmhash"
    using that by (simp add: ChecksumType_New_def pool_index_def pool_New_def ChecksumType_valid_def)
  then show "ChecksumType_valid (TypeCode (ChecksumType_New t))"
      "Checksum_Size (ChecksumType_New t) = ChecksumSize (TypeCode (ChecksumType_New t))"
      "ChecksumType_New t = ChecksumType_New (TypeCode (ChecksumType_New t))"
    using New_type [OF assms] New_type(2) [of ChecksumTypeNone] assms
    by (cases "t = ChecksumTypeFarmhash"; simp add: ChecksumType_valid_def)+
qed

text \<open>The first frame of a request is accepted and becomes a call whose fragments are those of its frames.\<close>

lemma first_fragment:
  assumes "carries m i c0 True (g # gs) css" and "\<And>b. valid_message (m b)"
    and "\<And>b. message_messageType (m' b) = message_messageType (m b)" and "ChecksumType_valid t" and "c0 = ChecksumType_New t"
  obtains f where "parseInboundFragment 0 g (m' True) = Ret (Inr f, message_view (m' True) (m True))"
    and "delivers c0 (f # parse_frames m' i False 1 gs) css" and "rf_checksumType f = TypeCode c0"
proof -
  obtain cs css' where css: "css = cs # css'" using assms(1) by (cases css) auto
  note h = assms(1) [unfolded css]
  note ck = carries_checksum [OF assms(4), folded assms(5)]
  have "\<exists>f. parseInboundFragment 0 g (m' True) = Ret (Inr f, message_view (m' True) (m True)) \<and>
      rfrag f (TypeCode c0) ((if gs = [] then 0 else hasMoreFragmentsFlag) AND hasMoreFragmentsFlag = hasMoreFragmentsFlag)
        (Checksum_Sum (Checksum_Add (concat cs) c0)) cs \<and> rf_id f = 0"
    by (rule parse_ok) (use h assms(2,3) ck in simp_all)
  then obtain f where f: "parseInboundFragment 0 g (m' True) = Ret (Inr f, message_view (m' True) (m True))"
      "rf_checksumType f = TypeCode c0" by (auto simp: rfrag_def)
  have "delivers c0 (parse_frames m' i True 0 (g # gs)) css"
    using parse_carries(1) [OF assms(1-3) ck(1,2)] .
  moreover have "parse_frames m' i True 0 (g # gs) = f # parse_frames m' i False 1 gs"
    using h assms(3) f(1) by simp
  ultimately show ?thesis using that f by simp
qed

abbreviation inbound_mex :: "uint32 \<Rightarrow> messageExchange" where
  "inbound_mex i \<equiv> fresh_mex None DeadlineExceeded messageTypeCallReq i mexChannelBufferSize"

lemma handleCallReq_ok:
  assumes "open_for Inbound i d" and "bc_err base = None"
    and "leaves_alone Inbound (length (ms_heap (c_inbound d))) env"
    and "carries (request_message req) i c0 True (g # gs) css" and "\<And>b. valid_message (request_message req b)"
    and "Millisecond \<le> cq_TimeToLive req" and "ChecksumType_valid t" and "c0 = ChecksumType_New t"
  obtains ic d1 f where "handleCallReq now base env g d = Ret (False, Some ic, d1)"
    and "ic = new_inbound_call (length (ms_heap (c_inbound d))) g f (callReq_view (newCallReq i) req) d1"
    and "delivers c0 (f # parse_frames (\<lambda>_. CallReqContinue 0) i False 1 gs) css" and "rf_checksumType f = TypeCode c0"
    and "conn_inv d1" and "ic_mex ic < length (ms_heap (c_inbound d1))" and "ms_heap (c_inbound d1) ! ic_mex ic = inbound_mex i"
    and "c_pool d1 = c_pool d"
proof -
  let ?p = "length (ms_heap (c_inbound d))"
  let ?m' = "\<lambda>b. if b then CallReq (newCallReq i) else CallReqContinue 0"
  obtain f where f: "parseInboundFragment 0 g (?m' True) = Ret (Inr f, message_view (?m' True) (request_message req True))"
      "delivers c0 (f # parse_frames ?m' i False 1 gs) css" "rf_checksumType f = TypeCode c0"
    by (rule first_fragment [OF assms(4,5) _ assms(7,8), of ?m']) (simp_all add: request_message_def)
  have view: "message_view (?m' True) (request_message req True) = CallReq (callReq_view (newCallReq i) req)"
    by (simp add: request_message_def)
  have id: "fh_ID (fr_Header g) = i" using assms(4) by (cases css) simp_all
  have d: "conn_inv d" "\<not> ms_shutdown (c_set Inbound d)" "map_of (ms_exchanges (c_set Inbound d)) i = None"
      "c_state d = connectionActive"
    using assms(1) by (simp_all add: open_for_def)
  let ?req = "callReq_view (newCallReq i) req"
  let ?ctx = "newIncomingContext now base (call_properties ?req) (cq_TimeToLive ?req)"
  have "0 < cq_TimeToLive ?req" using assms(6) by (simp add: callReq_view_def Millisecond_def zero_less_mult_iff pos_imp_zdiv_pos_iff)
  then have ctx: "bc_err ?ctx = None" by (rule incoming_ctx_ok [OF assms(2)])
  obtain da where da: "conn_newExchange Inbound None DeadlineExceeded messageTypeCallReq i mexChannelBufferSize d = (Inr ?p, da)"
      "conn_inv da" "ms_heap (c_inbound da) = ms_heap (c_inbound d) @ [inbound_mex i]" "c_state da = connectionActive"
      "c_pool da = c_pool d"
    by (rule conn_newExchange_fresh [OF d(1-3), of None DeadlineExceeded messageTypeCallReq mexChannelBufferSize])
      (use d(4) in \<open>simp add: c_set_def\<close>)
  have db: "conn_inv (env da)" "c_state (env da) = connectionActive" "c_pool (env da) = c_pool d"
      "?p < length (ms_heap (c_inbound (env da)))" "ms_heap (c_inbound (env da)) ! ?p = inbound_mex i"
    using leaves_aloneD [OF assms(3) da(2)] da by (simp_all add: quiet_def c_set_def)
  let ?ic = "new_inbound_call ?p g f ?req (env da)"
  have "handleCallReq now base env g d = Ret (False, Some ?ic, env da)"
    using d(4) f(1) view id ctx da(1) db(2) by (simp add: handleCallReq_def Let_def as_callReq_def)
  moreover have "parse_frames ?m' i False 1 gs = parse_frames (\<lambda>_. CallReqContinue 0) i False 1 gs"
    by (rule parse_frames_cong) simp
  moreover have "ic_mex ?ic = ?p" by (simp add: new_inbound_call_def Let_def)
  ultimately show ?thesis using that [OF _ refl] f(2,3) db by simp
qed

lemma carries_ids: "carries m i c b frs css \<Longrightarrow> f \<in> set frs \<Longrightarrow> fh_ID (fr_Header f) = i"
  by (induction m i c b frs css rule: carries.induct) auto

lemma receiver_ok_mex: "receiver_ok msg i r \<Longrightarrow> mex_ok (rcv_mex r) \<and> mex_msgID (rcv_mex r) = i \<and> checkError (rcv_mex r) = None"
  by (auto simp: receiver_ok_def checkError_def checkErr_def)

lemma load_receiver_id:
  assumes "ms_heap (c_set d c) ! p = rcv_mex (fr_receiver (rr_contents r))"
  shows "load_receiver d p c [] r = r"
proof -
  let ?c = "rr_contents r"
  let ?s = "fr_receiver ?c"
  have "?s\<lparr>rcv_mex := rcv_mex ?s, rcv_arriving := rcv_arriving ?s @ []\<rparr> = ?s" by simp
  moreover have "?c\<lparr>fr_receiver := ?s\<rparr> = ?c" "r\<lparr>rr_contents := ?c\<rparr> = r" by simp_all
  ultimately show ?thesis unfolding load_receiver_def assms by (simp only:)
qed

text \<open>The goroutine of the call reads the method, and then has the other two arguments before it.\<close>

lemma dispatchInbound_ok:
  assumes "ic = new_inbound_call p g f req d1" and "delivers c0 (f # parse_frames (\<lambda>_. CallReqContinue 0) i False 1 gs) css"
    and "c0 = ChecksumType_New (TypeCode c0)" and "join_frags css = [a1, a2, a3]" and "\<forall>k. 0 < sz k"
    and "\<forall>h \<in> set gs. fh_ID (fr_Header h) = i"
    and "conn_inv d1" and "p < length (ms_heap (c_inbound d1))" and "ms_heap (c_inbound d1) ! p = inbound_mex i"
  obtains r d2 where "dispatchInbound sz gs ic d1 = Some (Ret (Some (ic\<lparr>ic_reader := r, ic_method := a1\<rparr>), d2))"
    and "rr_state r = reqResReaderPreArg2" and "inbound_call.waiting (CallReq req) i (rr_contents r) [a2, a3]"
    and "conn_inv d2" and "p < length (ms_heap (c_inbound d2))"
    and "ms_heap (c_inbound d2) ! p = rcv_mex (fr_receiver (rr_contents r))" and "c_pool d2 = c_pool d1"
proof -
  let ?s = "\<lparr>rcv_mex = inbound_mex i, rcv_err = None, rcv_messageForFragment = (\<lambda>_. CallReqContinue 0),
      rcv_initialFragment = Some f, rcv_previousFragment = None, rcv_frames = [g],
      rcv_done = [], rcv_released = [], rcv_msg = CallReq req, rcv_arriving = gs\<rparr>"
  have load: "load_receiver Inbound p d1 gs (ic_reader ic) = newReqResReader ?s"
    using assms(1,9)
    by (simp add: new_inbound_call_def load_receiver_def newReqResReader_def newFragmentingReader_def c_set_def Let_def)
  have s: "receiver_first ?s" "receiver_ok (CallReq req) i ?s"
      "receiver_pending ?s = f # parse_frames (\<lambda>_. CallReqContinue 0) i False 1 gs"
    using assms(6)
    by (simp_all add: mex_ok_def receiver_first_def receiver_ok_def receiver_msg_def receiver_pending_def mexChannelBufferSize_def
        newErrNotifier_def)
  obtain r where r: "read_arg inbound_receiver sz (arg1Reader inbound_receiver (newReqResReader ?s)) = Some (Ret ((a1, None), r))"
      "rr_state r = reqResReaderPreArg2" "inbound_call.waiting (CallReq req) i (rr_contents r) [a2, a3]"
    using inbound_call.read_arg1_ok [OF s(1,3) assms(2) _ s(2) assms(3,5,4)] by auto
  have rd: "readMethod_reader sz (load_receiver Inbound p d1 gs (ic_reader ic)) = Some (Ret ((a1, None), r))"
    unfolding load using r(1) by (simp add: readMethod_reader_def)
  note ok = receiver_ok_mex [OF inbound_call.waiting_ok [OF r(3)]]
  have p: "ic_mex ic = p" using assms(1) by (simp add: new_inbound_call_def Let_def)
  obtain d2 where d2: "on_reader Inbound p gs (readMethod_reader sz) (ic_reader ic) d1 = Some (Ret ((a1, None), r, d2))"
      "conn_inv d2" "ms_heap (c_inbound d2) = (ms_heap (c_inbound d1))[p := rcv_mex (fr_receiver (rr_contents r))]"
      "c_pool d2 = c_pool d1"
    by (rule on_reader_ok [where f = "readMethod_reader sz", OF assms(7) _ rd])
      (use assms(8,9) ok in \<open>simp_all add: c_set_def\<close>)
  show ?thesis
    by (rule that [of r d2]) (use r(2,3) d2 assms(8) p in \<open>simp_all add: dispatchInbound_def readMethod_def\<close>)
qed

lemma raw_ReadArgs_ok:
  assumes "rr_state (ic_reader ic) = reqResReaderPreArg2"
    and "inbound_call.waiting msg i (rr_contents (ic_reader ic)) [a2, a3]" and "\<forall>k. 0 < sz k"
    and "conn_inv d" and "ic_mex ic < length (ms_heap (c_inbound d))"
    and "ms_heap (c_inbound d) ! ic_mex ic = rcv_mex (fr_receiver (rr_contents (ic_reader ic)))"
  obtains r d' where "raw_ReadArgs sz [] ic d =
      Some (Ret (Inr \<lparr>ra_Caller = InboundCall_CallerName ic, ra_Format = InboundCall_Format ic,
        ra_Method = map (\<lambda>b. char_of (unat b)) (ic_method ic), ra_Arg2 = a2, ra_Arg3 = a3\<rparr>, ic\<lparr>ic_reader := r\<rparr>, d'))"
    and "receiver_ok msg i (fr_receiver (rr_contents r))" and "conn_inv d'" and "ic_mex ic < length (ms_heap (c_inbound d'))"
    and "ms_heap (c_inbound d') ! ic_mex ic = rcv_mex (fr_receiver (rr_contents r))" and "c_pool d' = c_pool d"
proof -
  let ?r = "ic_reader ic" and ?p = "ic_mex ic"
  have load: "load_receiver Inbound ?p d [] ?r = ?r" using assms(6) by (intro load_receiver_id) (simp add: c_set_def)
  obtain r1 where r1: "read_arg inbound_receiver sz (arg2Reader inbound_receiver ?r) = Some (Ret ((a2, None), r1))"
      "rr_state r1 = reqResReaderPreArg3" "inbound_call.waiting msg i (rr_contents r1) [a3]"
    using inbound_call.read_arg2_ok [OF assms(1,2) _ assms(3)] by auto
  obtain r2 where r2: "read_arg inbound_receiver sz (arg3Reader inbound_receiver r1) = Some (Ret ((a3, None), r2))"
      "receiver_ok msg i (fr_receiver (rr_contents r2))"
    using inbound_call.read_arg3_ok [OF r1(2,3) assms(3)] by auto
  have rd: "read_args23 sz (load_receiver Inbound ?p d [] ?r) = Some (Ret (((a2, a3), None), r2))"
    unfolding load using r1(1) r2(1) by (simp add: read_args23_def)
  have ids: "mex_msgID (ms_heap (c_set Inbound d) ! ?p) = i"
    using receiver_ok_mex [OF inbound_call.waiting_ok [OF assms(2)]] assms(6) by (simp add: c_set_def)
  obtain d' where d': "on_reader Inbound ?p [] (read_args23 sz) ?r d = Some (Ret (((a2, a3), None), r2, d'))" "conn_inv d'"
      "ms_heap (c_inbound d') = (ms_heap (c_inbound d))[?p := rcv_mex (fr_receiver (rr_contents r2))]" "c_pool d' = c_pool d"
    by (rule on_reader_ok [where f = "read_args23 sz", OF assms(4) _ rd])
      (use assms(5) ids receiver_ok_mex [OF r2(2)] in \<open>simp_all add: c_set_def\<close>)
  show ?thesis
    by (rule that [of r2 d']) (use r2(2) d' assms(5) in \<open>simp_all add: raw_ReadArgs_def\<close>)
qed

section \<open>The handler answers and the caller reads the answer\<close>

abbreviation sent_by :: "reqResWriter \<Rightarrow> Frame list" where
  "sent_by w \<equiv> rs_sendCh (fw_sender (rw_contents w))"

lemma write_response_ok:
  assumes "sender_ok m mx s" and "rs_sendCh s = []"
  obtains w' css where "write_response a2 a3 (newReqResWriter s c0) = Some (Ret (None, w'))"
    and "carries m (mex_msgID mx) c0 True (sent_by w') css" and "join_frags css = [[], a2, a3]" and "sent_by w' \<noteq> []"
    and "\<And>f. f \<in> set (sent_by w') \<Longrightarrow> sendable f" and "sender_ended (mex_msgID mx) (fw_sender (rw_contents w'))"
proof -
  obtain w1 where w1: "ArgWriteHelper_Write response_sender [] (arg1Writer response_sender (newReqResWriter s c0)) = Some (Ret (None, w1))"
      "rw_state w1 = reqResWriterPreArg2" "inbound_response.between m mx c0 (rw_contents w1) [[]]"
    using inbound_response.write_arg1_ok [OF assms, of "[]"] by blast
  obtain w2 where w2: "ArgWriteHelper_Write response_sender a2 (arg2Writer response_sender w1) = Some (Ret (None, w2))"
      "rw_state w2 = reqResWriterPreArg3" "inbound_response.between m mx c0 (rw_contents w2) ([[]] @ [a2])"
    using inbound_response.write_arg2_ok [OF w1(2,3), of a2] by blast
  obtain w3 where w3: "ArgWriteHelper_Write response_sender a3 (arg3Writer response_sender w2) = Some (Ret (None, w3))"
      "inbound_response.finished m mx c0 (rw_contents w3) (([[]] @ [a2]) @ [a3])"
    using inbound_response.write_arg3_ok [OF w2(2,3), of a3] by blast
  obtain css where css: "carries m (mex_msgID mx) c0 True (sent_by w3) css" "join_frags css = [[], a2, a3]"
      "sent_by w3 \<noteq> []" "sender_ended (mex_msgID mx) (fw_sender (rw_contents w3))"
      "\<And>f. f \<in> set (sent_by w3) \<Longrightarrow> frame_inv f \<and> 16 \<le> unat (fh_size (fr_Header f))"
    by (rule finished_carries [OF w3(2)]) simp
  show ?thesis
    by (rule that [of w3, OF _ css(1-3)])
      (use w1(1) w2(1) w3(1) css(4,5) carries_payload [OF css(1)] in
        \<open>simp_all add: write_response_def response_Arg2Writer_def sendable_def\<close>)
qed

text \<open>The response of a call whose request has been read; \<open>hs\<close> are its headers.\<close>

definition answerable :: "transportHeaders \<Rightarrow> ChecksumType \<Rightarrow> InboundCall \<Rightarrow> bool" where
  "answerable hs t ic \<longleftrightarrow> plain_headers hs \<and> ic_responseHeaders ic = hs \<and> \<not> ic_applicationError ic \<and>
     (\<exists>s. ic_response ic = newReqResWriter s (ChecksumType_New t) \<and> rs_sendCh s = [] \<and> rs_err s = None \<and>
       rs_wait s = SendNow \<and> rs_messageForFragment s = response_message hs False)"

lemma raw_WriteResponse_ok:
  assumes "answerable hs t ic" and "conn_inv d" and "pool_ok d" and "ic_mex ic < length (ms_heap (c_inbound d))"
    and "ms_heap (c_inbound d) ! ic_mex ic = mx" and "mex_ok mx" and "checkError mx = None" and "rs_SystemErr res = None"
  obtains ic' d' css where "raw_WriteResponse span res ic d = Some (Ret (None, ic', d'))"
    and "carries (response_message hs (rs_IsErr res)) (mex_msgID mx) (ChecksumType_New t) True (sent_by (ic_response ic')) css"
    and "join_frags css = [[], rs_Arg2 res, rs_Arg3 res]" and "sent_by (ic_response ic') \<noteq> []"
    and "\<And>f. f \<in> set (sent_by (ic_response ic')) \<Longrightarrow> sendable f"
    and "c_out d' @ c_sendCh d' = c_out d @ c_sendCh d @ sent_by (ic_response ic')"
proof -
  let ?c0 = "ChecksumType_New t" and ?m = "response_message hs (rs_IsErr res)"
  let ?p = "ic_mex ic" and ?ic = "if rs_IsErr res then set_response_message (ic\<lparr>ic_applicationError := True\<rparr>) else ic"
  obtain s where s: "ic_response ?ic = newReqResWriter s ?c0" "rs_sendCh s = []" "rs_err s = None" "rs_wait s = SendNow"
      "rs_messageForFragment s = ?m"
  proof (cases "rs_IsErr res")
    case True
    then show ?thesis
      using assms(1) that by (fastforce simp: answerable_def set_response_message_def newReqResWriter_def newFragmentingWriter_def)
  next
    case False
    then show ?thesis using assms(1) that by (auto simp: answerable_def)
  qed
  let ?s = "s\<lparr>rs_mex := mx, rs_pool := c_pool d, rs_gets := c_gets d\<rparr>"
  have load: "load_sender Inbound ?p d (ic_response ?ic) = newReqResWriter ?s ?c0"
    using assms(5) by (simp only: s(1) load_new_writer) (simp add: c_set_def)
  have ok: "sender_ok ?m mx ?s"
    using s assms response_fits [of hs "rs_IsErr res"] by (simp add: sender_ok_def answerable_def pool_ok_def)
  have e: "rs_sendCh ?s = []" using s(2) by simp
  obtain w css where w: "write_response (rs_Arg2 res) (rs_Arg3 res) (newReqResWriter ?s ?c0) = Some (Ret (None, w))"
      "carries ?m (mex_msgID mx) ?c0 True (sent_by w) css" "join_frags css = [[], rs_Arg2 res, rs_Arg3 res]" "sent_by w \<noteq> []"
      "\<And>f. f \<in> set (sent_by w) \<Longrightarrow> sendable f" "sender_ended (mex_msgID mx) (fw_sender (rw_contents w))"
    by (rule write_response_ok [OF ok e, of "rs_Arg2 res" "rs_Arg3 res" ?c0]) (rule that)
  obtain d' where d': "on_writer Inbound ?p (write_response (rs_Arg2 res) (rs_Arg3 res)) (ic_response ?ic) d = Some (Ret (None, w, d'))"
      "c_out d' @ c_sendCh d' = c_out d @ c_sendCh d @ drop (length (sent_by (ic_response ?ic))) (sent_by w)"
    by (rule on_writer_ok [where f = "write_response (rs_Arg2 res) (rs_Arg3 res)", OF assms(2) _ w(1) [folded load]])
      (use assms(4,5) w(6) in \<open>simp_all add: c_set_def\<close>)
  have st: "rw_state (ic_response ic) = reqResWriterPreArg1" "ic_mex ?ic = ?p"
    using assms(1) by (auto simp: answerable_def newReqResWriter_def set_response_message_def)
  have set: "(if rs_IsErr res then SetApplicationError ic d else Some (Ret (None, ic, d))) = Some (Ret (None, ?ic, d))"
    using st(1) by (simp add: SetApplicationError_def Let_def)
  have wr: "raw_WriteResponse span res ic d = Some (Ret (None, ?ic\<lparr>ic_response := w\<rparr>, d'))"
    unfolding raw_WriteResponse_def assms(8) set using d'(1) st(2) by (simp del: if_split)
  have none: "sent_by (ic_response ?ic) = []" using s(1,2) by (simp add: newReqResWriter_def newFragmentingWriter_def)
  have resp: "ic_response (?ic\<lparr>ic_response := w\<rparr>) = w" by simp
  show ?thesis
    by (rule that [OF wr, of css, unfolded resp]) (use w(2-5) d'(2) none in simp_all)
qed

lemma read_response_ok:
  assumes "oc_response call = oc_response (new_outbound_call p' req c')"
    and "conn_inv c" and "p < length (ms_heap (c_outbound c))"
    and "ms_heap (c_outbound c) ! p = fresh_mex None ctxEnd messageTypeCallReq i mexChannelBufferSize"
    and "carries (response_message hs e) i (ChecksumType_New t) True frs css" and "plain_headers hs"
    and "ChecksumType_valid t" and "join_frags css = [[], a2, a3]" and "frs \<noteq> []" and "\<forall>k. 0 < sz k"
  obtains r c1 where "on_reader Outbound p frs (read_response sz) (oc_response call) c = Some (Ret (((a2, a3), None), r, c1))"
    and "rcv_msg (fr_receiver (rr_contents r)) = response_message hs e True"
proof -
  let ?m' = "\<lambda>initial. if initial then CallRes newCallRes else CallResContinue 0" and ?c0 = "ChecksumType_New t"
  let ?s = "\<lparr>rcv_mex = fresh_mex None ctxEnd messageTypeCallReq i mexChannelBufferSize, rcv_err = None,
      rcv_messageForFragment = ?m', rcv_initialFragment = None, rcv_previousFragment = None, rcv_frames = [],
      rcv_done = [], rcv_released = [], rcv_msg = CallRes newCallRes, rcv_arriving = frs\<rparr>"
  let ?msg = "response_message hs e True"
  have load: "load_receiver Outbound p c frs (oc_response call) = newReqResReader ?s"
    using assms(1,4)
    by (simp add: new_outbound_call_def load_receiver_def newReqResReader_def newFragmentingReader_def c_set_def Let_def)
  have ty: "\<And>b. message_messageType (?m' b) = message_messageType (response_message hs e b)"
      and v: "\<And>b. valid_message (response_message hs e b)"
    using response_fits [OF assms(6)] by (simp_all add: response_message_def)
  note ck = carries_checksum [OF assms(7)]
  have del: "delivers ?c0 (parse_frames ?m' i True 0 frs) css" "parse_frames ?m' i True 0 frs \<noteq> []"
    using parse_carries [OF assms(5) v ty ck(1,2)] assms(9) by blast+
  obtain g gs where frs: "frs = g # gs" using assms(9) by (cases frs) auto
  obtain f where f: "parseInboundFragment 0 g (?m' True) = Ret (Inr f, message_view (?m' True) ?msg)"
    by (rule first_fragment [OF assms(5) [unfolded frs] v ty assms(7) refl])
  have view: "message_view (?m' True) ?msg = ?msg" by (simp add: response_message_def newCallRes_def)
  have s: "receiver_first ?s" "receiver_ok ?msg i ?s" "receiver_pending ?s = parse_frames ?m' i True 0 frs"
    using carries_ids [OF assms(5)] f view frs
    by (simp_all add: mex_ok_def receiver_first_def receiver_ok_def receiver_msg_def receiver_pending_def
        mexChannelBufferSize_def newErrNotifier_def)
  obtain r1 where r1: "read_arg response_receiver sz (arg1Reader response_receiver (newReqResReader ?s)) = Some (Ret (([], None), r1))"
      "rr_state r1 = reqResReaderPreArg2" "outbound_response.waiting ?msg i (rr_contents r1) [a2, a3]"
    using outbound_response.read_arg1_ok [OF s(1,3) del s(2) ck(3) assms(10,8)] by auto
  obtain r2 where r2: "read_arg response_receiver sz (arg2Reader response_receiver r1) = Some (Ret ((a2, None), r2))"
      "rr_state r2 = reqResReaderPreArg3" "outbound_response.waiting ?msg i (rr_contents r2) [a3]"
    using outbound_response.read_arg2_ok [OF r1(2,3) _ assms(10)] by auto
  obtain r3 where r3: "read_arg response_receiver sz (arg3Reader response_receiver r2) = Some (Ret ((a3, None), r3))"
      "receiver_ended ?msg i (fr_receiver (rr_contents r3))"
    using outbound_response.read_arg3_ok [OF r2(2,3) assms(10)] by auto
  have rd: "read_response sz (load_receiver Outbound p c frs (oc_response call)) = Some (Ret (((a2, a3), None), r3))"
    unfolding load using r1(1) r2(1) r3(1) by (simp add: read_response_def response_Arg2Reader_def)
  obtain c1 where c1: "on_reader Outbound p frs (read_response sz) (oc_response call) c = Some (Ret (((a2, a3), None), r3, c1))"
    by (rule on_reader_ok [where f = "read_response sz", OF assms(2) _ rd])
      (use assms(3,4) r3(2) in \<open>simp_all add: c_set_def receiver_ended_def\<close>)
  show ?thesis by (rule that [OF c1]) (use r3(2) in \<open>simp add: receiver_ended_def\<close>)
qed

section \<open>Properties\<close>

text \<open>
  The two ends of a call. \<open>send_request\<close> begins a call and writes its arguments; \<open>env\<close> and \<open>env'\<close> are what other
  goroutines do meanwhile. It gives the call, the connection between the two steps, and the frames sent.
  \<open>receive_request\<close> handles the first of the received frames and dispatches the call, to which the reading
  goroutine forwards the others.
\<close>

definition send_request ::
  "int \<Rightarrow> Context \<Rightarrow> gerror \<Rightarrow> Span \<Rightarrow> (Connection \<Rightarrow> Connection) \<Rightarrow> (Connection \<Rightarrow> Connection) \<Rightarrow> string \<Rightarrow> string \<Rightarrow>
   byte list \<Rightarrow> CallOptions \<Rightarrow> byte list \<Rightarrow> byte list \<Rightarrow> Connection \<Rightarrow> (OutboundCall \<times> Connection \<times> Frame list) option" where
  "send_request now ctx ctxEnd span env env' localService serviceName meth callOptions a2 a3 c =
     (case beginCall now ctx ctxEnd span env localService serviceName meth callOptions c of
        Some (Ret (Inr call, c1)) \<Rightarrow>
          (case on_writer Outbound (oc_mex call) (raw_write_args a2 a3) (oc_writer call) (env' c1) of
             Some (Ret (None, w, _)) \<Rightarrow> Some (call, env' c1, sent_by w)
           | _ \<Rightarrow> None)
      | _ \<Rightarrow> None)"

definition receive_request ::
  "int \<Rightarrow> Context \<Rightarrow> (Connection \<Rightarrow> Connection) \<Rightarrow> (nat \<Rightarrow> nat) \<Rightarrow> Frame list \<Rightarrow> Connection \<Rightarrow> (InboundCall \<times> Connection) option" where
  "receive_request now base env sz gs d =
     (case gs of
        [] \<Rightarrow> None
      | g # gs' \<Rightarrow>
          (case handleCallReq now base env g d of
             Ret (False, Some ic, d1) \<Rightarrow>
               (case dispatchInbound sz gs' ic d1 of Some (Ret (Some ic', d2)) \<Rightarrow> Some (ic', d2) | _ \<Rightarrow> None)
           | _ \<Rightarrow> None))"

definition call_args :: "transportHeaders \<Rightarrow> byte list \<Rightarrow> byte list \<Rightarrow> byte list \<Rightarrow> raw_Args" where
  "call_args headers meth a2 a3 =
     \<lparr>ra_Caller = header_get headers CallerName, ra_Format = header_get headers ArgScheme,
      ra_Method = map (\<lambda>b. char_of (unat b)) meth, ra_Arg2 = a2, ra_Arg3 = a3\<rparr>"

lemma send_request_ok:
  fixes span :: Span and ctxEnd :: gerror
  assumes "open_for Outbound (c_nextMessageID c + 1) c" and "good_call now ctx ls svc opts"
    and "leaves_alone Outbound (length (ms_heap (c_outbound c))) env"
    and "leaves_alone Outbound (length (ms_heap (c_outbound c))) env'"
  defines "p \<equiv> length (ms_heap (c_outbound c))" and "i \<equiv> c_nextMessageID c + 1"
    and "req \<equiv> call_request now ctx span ls svc opts c"
  obtains call c1 frs w c2 css where
      "send_request now ctx ctxEnd span env env' ls svc meth opts a2 a3 c = Some (call, c1, frs)"
    and "on_writer Outbound p (raw_write_args a2 a3) (oc_writer call) c1 = Some (Ret (None, w, c2))" and "frs = sent_by w"
    and "oc_mex call = p" and "carries (request_message req) i (ChecksumType_New (co_ChecksumType (c_opts c))) True frs css"
    and "join_frags css = [meth, a2, a3]" and "frs \<noteq> []" and "\<And>f. f \<in> set frs \<Longrightarrow> sendable f"
    and "conn_inv c2" and "p < length (ms_heap (c_outbound c2))"
    and "ms_heap (c_outbound c2) ! p = fresh_mex None ctxEnd messageTypeCallReq i mexChannelBufferSize"
    and "\<exists>c'. oc_response call = oc_response (new_outbound_call p req c')"
proof -
  let ?mx = "fresh_mex None ctxEnd messageTypeCallReq i mexChannelBufferSize"
  obtain call c1 where call: "beginCall now ctx ctxEnd span env ls svc meth opts c = Some (Ret (Inr call, c1))"
      "oc_mex call = p" "rw_state (oc_writer call) = reqResWriterPreArg2"
      "outbound_call.between (request_message req) ?mx (ChecksumType_New (co_ChecksumType (c_opts c))) (rw_contents (oc_writer call)) [meth]"
      "conn_inv c1" "oc_mex call < length (ms_heap (c_outbound c1))" "ms_heap (c_outbound c1) ! oc_mex call = ?mx"
      "c_pool c1 = c_pool c" "oc_response call = oc_response (new_outbound_call (oc_mex call) req c1)"
    by (rule beginCall_ok [OF assms(1-3), of ctxEnd span meth, folded p_def i_def req_def]) (rule that)
  have e: "conn_inv (env' c1)" "pool_ok (env' c1)" "p < length (ms_heap (c_set Outbound (env' c1)))"
      "ms_heap (c_set Outbound (env' c1)) ! p = ?mx"
    using assms(1) leaves_aloneD [OF assms(4) call(5)] call by (auto simp: quiet_def open_for_def pool_ok_def c_set_def p_def)
  obtain w c2 css where w: "on_writer Outbound p (raw_write_args a2 a3) (oc_writer call) (env' c1) = Some (Ret (None, w, c2))"
      "carries (request_message req) (mex_msgID ?mx) (ChecksumType_New (co_ChecksumType (c_opts c))) True (sent_by w) css"
      "join_frags css = [meth, a2, a3]" "sent_by w \<noteq> []" "\<And>f. f \<in> set (sent_by w) \<Longrightarrow> sendable f"
      "conn_inv c2" "p < length (ms_heap (c_set Outbound c2))" "ms_heap (c_set Outbound c2) ! p = ?mx"
    by (rule raw_write_args_ok [OF call(4,3) e, where ?a2.0 = a2 and ?a3.0 = a3]) (rule that)
  show ?thesis
    by (rule that [of call "env' c1" "sent_by w" w c2 css])
      (use call w in \<open>auto simp: send_request_def c_set_def\<close>)
qed

lemma header_get_plain: "plain_headers h \<Longrightarrow> length (header_get h k) < 256"
  by (auto simp: header_get_def plain_headers_def split: option.split dest!: map_of_SomeD)

lemma new_inbound_answerable:
  assumes "plain_headers (cq_Headers req)"
  shows "answerable (setResponseHeaders (cq_Headers req) []) (rf_checksumType f)
    ((new_inbound_call p g f req d)\<lparr>ic_method := m, ic_reader := r\<rparr>)"
  using header_get_plain [OF assms]
  by (simp add: answerable_def new_inbound_call_def setResponseHeaders_def plain_headers_def Let_def)
    (rule exI, rule conjI, rule refl, simp)

text \<open>What the receiving side makes of the frames of a request.\<close>

lemma receive_request_ok:
  assumes "open_for Inbound i d" and "bc_err base = None"
    and "leaves_alone Inbound (length (ms_heap (c_inbound d))) env" and "\<forall>k. 0 < sz k"
    and "carries (request_message req) i (ChecksumType_New t) True gs css" and "gs \<noteq> []" and "ChecksumType_valid t"
    and "join_frags css = [meth, a2, a3]" and "\<And>b. valid_message (request_message req b)"
    and "Millisecond \<le> cq_TimeToLive req" and "plain_headers (cq_Headers req)"
  obtains ic d1 r d2 where "receive_request now base env sz gs d = Some (ic, d1)" and "ic_serviceName ic = cq_Service req"
    and "raw_ReadArgs sz [] ic d1 = Some (Ret (Inr (call_args (cq_Headers req) meth a2 a3), ic\<lparr>ic_reader := r\<rparr>, d2))"
    and "rcv_err (fr_receiver (rr_contents r)) = None"
    and "answerable (setResponseHeaders (cq_Headers req) []) (TypeCode (ChecksumType_New t)) (ic\<lparr>ic_reader := r\<rparr>)"
    and "conn_inv d2" and "pool_ok d2" and "ic_mex ic < length (ms_heap (c_inbound d2))"
    and "mex_ok (ms_heap (c_inbound d2) ! ic_mex ic)" and "mex_msgID (ms_heap (c_inbound d2) ! ic_mex ic) = i"
    and "checkError (ms_heap (c_inbound d2) ! ic_mex ic) = None"
proof -
  let ?c0 = "ChecksumType_New t" and ?req = "callReq_view (newCallReq i) req" and ?p = "length (ms_heap (c_inbound d))"
  obtain g gs' where gs: "gs = g # gs'" using assms(6) by (cases gs) auto
  obtain ic0 da f where h: "handleCallReq now base env g d = Ret (False, Some ic0, da)"
      "ic0 = new_inbound_call ?p g f ?req da"
      "delivers ?c0 (f # parse_frames (\<lambda>_. CallReqContinue 0) i False 1 gs') css" "rf_checksumType f = TypeCode ?c0"
      "conn_inv da" "ic_mex ic0 < length (ms_heap (c_inbound da))" "ms_heap (c_inbound da) ! ic_mex ic0 = inbound_mex i"
      "c_pool da = c_pool d"
    by (rule handleCallReq_ok [OF assms(1-3) assms(5) [unfolded gs] assms(9,10,7) refl]) (rule that)
  have p: "ic_mex ic0 = ?p" using h(2) by (simp add: new_inbound_call_def Let_def)
  have ids: "\<forall>h \<in> set gs'. fh_ID (fr_Header h) = i" using carries_ids [OF assms(5)] gs by simp
  obtain r0 db where r0: "dispatchInbound sz gs' ic0 da = Some (Ret (Some (ic0\<lparr>ic_reader := r0, ic_method := meth\<rparr>), db))"
      "rr_state r0 = reqResReaderPreArg2" "inbound_call.waiting (CallReq ?req) i (rr_contents r0) [a2, a3]"
      "conn_inv db" "?p < length (ms_heap (c_inbound db))"
      "ms_heap (c_inbound db) ! ?p = rcv_mex (fr_receiver (rr_contents r0))" "c_pool db = c_pool da"
    by (rule dispatchInbound_ok [OF h(2,3) carries_checksum(3) [OF assms(7)] assms(8,4) ids h(5) h(6,7) [unfolded p]])
      (rule that)
  let ?ic = "ic0\<lparr>ic_reader := r0, ic_method := meth\<rparr>"
  obtain r dc where r: "raw_ReadArgs sz [] ?ic db =
      Some (Ret (Inr \<lparr>ra_Caller = InboundCall_CallerName ?ic, ra_Format = InboundCall_Format ?ic,
        ra_Method = map (\<lambda>b. char_of (unat b)) (ic_method ?ic), ra_Arg2 = a2, ra_Arg3 = a3\<rparr>, ?ic\<lparr>ic_reader := r\<rparr>, dc))"
      "receiver_ok (CallReq ?req) i (fr_receiver (rr_contents r))" "conn_inv dc" "ic_mex ?ic < length (ms_heap (c_inbound dc))"
      "ms_heap (c_inbound dc) ! ic_mex ?ic = rcv_mex (fr_receiver (rr_contents r))" "c_pool dc = c_pool db"
    by (rule raw_ReadArgs_ok [of ?ic "CallReq ?req" i a2 a3 sz db]) (use r0 p assms(4) in \<open>auto intro: that\<close>)
  note mx = receiver_ok_mex [OF r(2)]
  have call: "\<lparr>ra_Caller = InboundCall_CallerName ?ic, ra_Format = InboundCall_Format ?ic,
        ra_Method = map (\<lambda>b. char_of (unat b)) (ic_method ?ic), ra_Arg2 = a2, ra_Arg3 = a3\<rparr> = call_args (cq_Headers req) meth a2 a3"
    using h(2) by (simp add: call_args_def InboundCall_CallerName_def InboundCall_Format_def new_inbound_call_def
        callReq_view_def Let_def)
  show ?thesis
  proof (rule that [of ?ic db r dc])
    show "receive_request now base env sz gs d = Some (?ic, db)" using gs h(1) r0(1) by (simp add: receive_request_def)
    show "ic_serviceName ?ic = cq_Service req" using h(2) by (simp add: new_inbound_call_def callReq_view_def Let_def)
    show "raw_ReadArgs sz [] ?ic db = Some (Ret (Inr (call_args (cq_Headers req) meth a2 a3), ?ic\<lparr>ic_reader := r\<rparr>, dc))"
      using r(1) unfolding call .
    show "rcv_err (fr_receiver (rr_contents r)) = None" using r(2) by (simp add: receiver_ok_def)
    have "cq_Headers ?req = cq_Headers req" by (simp add: callReq_view_def)
    then show "answerable (setResponseHeaders (cq_Headers req) []) (TypeCode ?c0) (?ic\<lparr>ic_reader := r\<rparr>)"
      using new_inbound_answerable [where req = ?req and f = f and p = ?p and g = g and d = da and r = r and m = meth] assms(11) h(2,4) by simp
    show "pool_ok dc" using assms(1) h(8) r0(7) r(6) by (simp add: open_for_def pool_ok_def)
  qed (use r(3-5) mx in auto)
qed

text \<open>
  C2: a request arrives. When the calling connection can take a new call, the request frames it sends, received
  in order with the same contents on a connection that has no call of that id, make the server dispatch
  a call for the same service, and the raw handler reads the caller's name, the format, the method and
  the two arguments exactly as they were given, whatever their lengths and however they were cut into
  fragments.
\<close>

theorem request_arrives:
  assumes "open_for Outbound (c_nextMessageID c + 1) c" and "good_call now ctx ls svc opts"
    and "leaves_alone Outbound (length (ms_heap (c_outbound c))) env"
    and "leaves_alone Outbound (length (ms_heap (c_outbound c))) env'"
    and "open_for Inbound (c_nextMessageID c + 1) d" and "bc_err base = None"
    and "leaves_alone Inbound (length (ms_heap (c_inbound d))) env''" and "\<forall>k. 0 < sz k"
  shows "\<exists>call c1 frs. send_request now ctx ctxEnd span env env' ls svc meth opts a2 a3 c = Some (call, c1, frs) \<and>
    (\<forall>f \<in> set frs. sendable f) \<and>
    (\<forall>gs. list_all2 same_frame frs gs \<longrightarrow>
      (\<exists>ic d1 ic' d2. receive_request now' base env'' sz gs d = Some (ic, d1) \<and> ic_serviceName ic = svc \<and>
        raw_ReadArgs sz [] ic d1 = Some (Ret (Inr (call_args (request_headers ls opts ctx) meth a2 a3), ic', d2))))"
proof -
  let ?req = "call_request now ctx span ls svc opts c" and ?t = "co_ChecksumType (c_opts c)"
  obtain call c1 frs css where s: "send_request now ctx ctxEnd span env env' ls svc meth opts a2 a3 c = Some (call, c1, frs)"
      "carries (request_message ?req) (c_nextMessageID c + 1) (ChecksumType_New ?t) True frs css"
      "join_frags css = [meth, a2, a3]" "frs \<noteq> []" "\<And>f. f \<in> set frs \<Longrightarrow> sendable f"
    by (rule send_request_ok [OF assms(1-4), of ctxEnd span meth a2 a3]) (rule that)
  note req = call_request_ok [OF assms(2), of span c]
  have "\<exists>ic d1 ic' d2. receive_request now' base env'' sz gs d = Some (ic, d1) \<and> ic_serviceName ic = svc \<and>
      raw_ReadArgs sz [] ic d1 = Some (Ret (Inr (call_args (request_headers ls opts ctx) meth a2 a3), ic', d2))"
    if gs: "list_all2 same_frame frs gs" for gs
  proof -
    have ne: "gs \<noteq> []" using s(4) gs by auto
    show ?thesis
      by (rule receive_request_ok [OF assms(5-8) carries_same [OF gs s(2)] ne valid_opts [OF assms(1)] s(3) req(1-3), of now'])
        (use req(4,5) in auto)
  qed
  with s(1,5) show ?thesis by blast
qed

text \<open>The server's half of an answered call, with what it takes for the caller to read the answer.\<close>

lemma raw_Wrap_ok:
  assumes "raw_ReadArgs sz [] ic d1 = Some (Ret (Inr args, ic\<lparr>ic_reader := r\<rparr>, d2))"
    and "rcv_err (fr_receiver (rr_contents r)) = None" and "answerable hs t (ic\<lparr>ic_reader := r\<rparr>)"
    and "conn_inv d2" and "pool_ok d2" and "ic_mex ic < length (ms_heap (c_inbound d2))"
    and "mex_ok (ms_heap (c_inbound d2) ! ic_mex ic)" and "mex_msgID (ms_heap (c_inbound d2) ! ic_mex ic) = i"
    and "checkError (ms_heap (c_inbound d2) ! ic_mex ic) = None"
    and "handle args = Inr res" and "rs_SystemErr res = None"
  obtains ic' d' css where "raw_Wrap sz [] span handle ic d1 = Some (Ret (None, ic', d'))"
    and "carries (response_message hs (rs_IsErr res)) i (ChecksumType_New t) True (sent_by (ic_response ic')) css"
    and "join_frags css = [[], rs_Arg2 res, rs_Arg3 res]" and "sent_by (ic_response ic') \<noteq> []"
    and "\<And>f. f \<in> set (sent_by (ic_response ic')) \<Longrightarrow> sendable f"
proof -
  let ?ic = "ic\<lparr>ic_reader := r\<rparr>"
  have resp: "InboundCall_Response ?ic = ?ic" using assms(2) by (simp add: InboundCall_Response_def)
  obtain ic' d' css where w: "raw_WriteResponse span res ?ic d2 = Some (Ret (None, ic', d'))"
      "carries (response_message hs (rs_IsErr res)) i (ChecksumType_New t) True (sent_by (ic_response ic')) css"
      "join_frags css = [[], rs_Arg2 res, rs_Arg3 res]" "sent_by (ic_response ic') \<noteq> []"
      "\<And>f. f \<in> set (sent_by (ic_response ic')) \<Longrightarrow> sendable f"
    by (rule raw_WriteResponse_ok [OF assms(3-5) _ refl _ _ assms(11), of span])
      (use assms(6-9) in \<open>auto intro: that\<close>)
  show ?thesis
    by (rule that [OF _ w(2-5)]) (use assms(1,10) w(1) resp in \<open>simp add: raw_Wrap_def Let_def\<close>)
qed

lemma raw_WriteArgs_ok:
  assumes "on_writer Outbound p (raw_write_args a2 a3) (oc_writer call) c1 = Some (Ret (None, w, c2))" and "oc_mex call = p"
    and "\<exists>c'. oc_response call = oc_response (new_outbound_call p req c')"
    and "conn_inv (env c2)" and "p < length (ms_heap (c_outbound (env c2)))"
    and "ms_heap (c_outbound (env c2)) ! p = fresh_mex None ctxEnd messageTypeCallReq i mexChannelBufferSize"
    and "carries (response_message hds e) i (ChecksumType_New t) True hs css" and "plain_headers hds"
    and "ChecksumType_valid t" and "join_frags css = [[], b2, b3]" and "hs \<noteq> []" and "\<forall>k. 0 < sz k"
  shows "\<exists>call' c'. raw_WriteArgs sz env hs a2 a3 call c1 = Some (Ret (Inr (b2, b3), call', c')) \<and>
    ApplicationError call' = e"
proof -
  obtain c' where resp: "oc_response call = oc_response (new_outbound_call p req c')" using assms(3) by blast
  obtain r c3 where rd: "on_reader Outbound p hs (read_response sz) (oc_response call) (env c2) =
        Some (Ret (((b2, b3), None), r, c3))"
      "rcv_msg (fr_receiver (rr_contents r)) = response_message hds e True"
    by (rule read_response_ok [OF resp assms(4-12)]) (rule that)
  let ?call = "call\<lparr>oc_writer := w, oc_response := r\<rparr>"
  have "raw_WriteArgs sz env hs a2 a3 call c1 = Some (Ret (Inr (b2, b3), ?call, c3))"
    using assms(1,2) rd(1) by (simp add: raw_WriteArgs_def)
  moreover have "ApplicationError ?call = e"
    using rd(2) by (simp add: ApplicationError_def response_message_def)
  ultimately show ?thesis by blast
qed

text \<open>
  C1: a call is answered. Under the same conditions, when the raw handler returns a result without a system error,
  it is sent without an error; and if the response frames reach the caller in order, \<^verbatim>\<open>raw.WriteArgs\<close> returns
  exactly the handler's two result arguments, and the response tells an application error exactly when
  the handler's result did.
\<close>

theorem call_answered:
  assumes "open_for Outbound (c_nextMessageID c + 1) c" and "good_call now ctx ls svc opts"
    and "leaves_alone Outbound (length (ms_heap (c_outbound c))) env"
    and "leaves_alone Outbound (length (ms_heap (c_outbound c))) env'"
    and "leaves_alone Outbound (length (ms_heap (c_outbound c))) env3"
    and "open_for Inbound (c_nextMessageID c + 1) d" and "bc_err base = None"
    and "leaves_alone Inbound (length (ms_heap (c_inbound d))) env''" and "\<forall>k. 0 < sz k"
    and "handle (call_args (request_headers ls opts ctx) meth a2 a3) = Inr res" and "rs_SystemErr res = None"
  shows "\<exists>call c1 frs. send_request now ctx ctxEnd span env env' ls svc meth opts a2 a3 c = Some (call, c1, frs) \<and>
    (\<forall>gs. list_all2 same_frame frs gs \<longrightarrow>
      (\<exists>ic d1 ic' d2. receive_request now' base env'' sz gs d = Some (ic, d1) \<and>
        raw_Wrap sz [] span' handle ic d1 = Some (Ret (None, ic', d2)) \<and>
        (\<forall>hs. list_all2 same_frame (sent_by (ic_response ic')) hs \<longrightarrow>
          (\<exists>call' c2. raw_WriteArgs sz env3 hs a2 a3 call c1 =
              Some (Ret (Inr (rs_Arg2 res, rs_Arg3 res), call', c2)) \<and>
            ApplicationError call' = rs_IsErr res))))"
proof -
  let ?req = "call_request now ctx span ls svc opts c" and ?t = "co_ChecksumType (c_opts c)"
  let ?i = "c_nextMessageID c + 1" and ?p = "length (ms_heap (c_outbound c))"
  let ?mx = "fresh_mex None ctxEnd messageTypeCallReq ?i mexChannelBufferSize"
  let ?t' = "TypeCode (ChecksumType_New ?t)" and ?hd = "setResponseHeaders (request_headers ls opts ctx) []"
  obtain call c1 frs w c2 css where s: "send_request now ctx ctxEnd span env env' ls svc meth opts a2 a3 c = Some (call, c1, frs)"
      "on_writer Outbound ?p (raw_write_args a2 a3) (oc_writer call) c1 = Some (Ret (None, w, c2))" "frs = sent_by w"
      "oc_mex call = ?p"
      "carries (request_message ?req) ?i (ChecksumType_New ?t) True frs css"
      "join_frags css = [meth, a2, a3]" "frs \<noteq> []" "\<And>f. f \<in> set frs \<Longrightarrow> sendable f"
      "conn_inv c2" "?p < length (ms_heap (c_outbound c2))" "ms_heap (c_outbound c2) ! ?p = ?mx"
      "\<exists>c'. oc_response call = oc_response (new_outbound_call ?p ?req c')"
    by (rule send_request_ok [OF assms(1-4), of ctxEnd span meth a2 a3]) (rule that)
  note req = call_request_ok [OF assms(2), of span c]
  have e3: "conn_inv (env3 c2)" "?p < length (ms_heap (c_outbound (env3 c2)))" "ms_heap (c_outbound (env3 c2)) ! ?p = ?mx"
    using leaves_aloneD [OF assms(5) s(9)] s(10,11) by (simp_all add: quiet_def c_set_def)
  have "\<exists>ic d1 ic' d2. receive_request now' base env'' sz gs d = Some (ic, d1) \<and>
        raw_Wrap sz [] span' handle ic d1 = Some (Ret (None, ic', d2)) \<and>
        (\<forall>hs. list_all2 same_frame (sent_by (ic_response ic')) hs \<longrightarrow>
          (\<exists>call' c2. raw_WriteArgs sz env3 hs a2 a3 call c1 =
              Some (Ret (Inr (rs_Arg2 res, rs_Arg3 res), call', c2)) \<and>
            ApplicationError call' = rs_IsErr res))"
    if gs: "list_all2 same_frame frs gs" for gs
  proof -
    have ne: "gs \<noteq> []" using s(7) gs by auto
    obtain ic d1 r d2 where ic: "receive_request now' base env'' sz gs d = Some (ic, d1)"
        "raw_ReadArgs sz [] ic d1 = Some (Ret (Inr (call_args (cq_Headers ?req) meth a2 a3), ic\<lparr>ic_reader := r\<rparr>, d2))"
        "rcv_err (fr_receiver (rr_contents r)) = None" "answerable (setResponseHeaders (cq_Headers ?req) []) ?t' (ic\<lparr>ic_reader := r\<rparr>)"
        "conn_inv d2" "pool_ok d2" "ic_mex ic < length (ms_heap (c_inbound d2))"
        "mex_ok (ms_heap (c_inbound d2) ! ic_mex ic)" "mex_msgID (ms_heap (c_inbound d2) ! ic_mex ic) = ?i"
        "checkError (ms_heap (c_inbound d2) ! ic_mex ic) = None"
      by (rule receive_request_ok [OF assms(6-9) carries_same [OF gs s(5)] ne valid_opts [OF assms(1)] s(6) req(1-3), of now'])
        (rule that)
    have h: "handle (call_args (cq_Headers ?req) meth a2 a3) = Inr res" using assms(10) req(4) by simp
    obtain ic' d' css' where wr: "raw_Wrap sz [] span' handle ic d1 = Some (Ret (None, ic', d'))"
        "carries (response_message (setResponseHeaders (cq_Headers ?req) []) (rs_IsErr res)) ?i (ChecksumType_New ?t') True
          (sent_by (ic_response ic')) css'"
        "join_frags css' = [[], rs_Arg2 res, rs_Arg3 res]" "sent_by (ic_response ic') \<noteq> []"
      by (rule raw_Wrap_ok [where handle = handle and span = span', OF ic(2-10) h assms(11)]) (rule that)
    have pl: "plain_headers (setResponseHeaders (cq_Headers ?req) [])" using ic(4) by (simp add: answerable_def)
    have "\<exists>call' c2. raw_WriteArgs sz env3 hs a2 a3 call c1 = Some (Ret (Inr (rs_Arg2 res, rs_Arg3 res), call', c2)) \<and>
        ApplicationError call' = rs_IsErr res" if hs: "list_all2 same_frame (sent_by (ic_response ic')) hs" for hs
      by (rule raw_WriteArgs_ok [where env = env3, OF s(2,4,12) e3 carries_same [OF hs wr(2)] pl carries_checksum(1) [OF valid_opts [OF assms(1)]]
            wr(3) _ assms(9)]) (use wr(4) hs in auto)
    with ic(1) wr(1) show ?thesis by blast
  qed
  with s(1) show ?thesis by blast
qed

text \<open>A handler that returns its arguments, between two new connections.\<close>

definition echo :: "raw_Args \<Rightarrow> gerror + raw_Res" where
  "echo args = Inr \<lparr>rs_SystemErr = None, rs_IsErr = False, rs_Arg2 = ra_Arg2 args, rs_Arg3 = ra_Arg3 args\<rparr>"

lemma new_conn_open: "open_for d i new_conn" "c_nextMessageID new_conn = 0"
  by (cases d; simp add: open_for_def new_conn_def newConnection_def co_withDefaults_def getSendBufferSize_def
      DefaultConnectionBufferSize_def conn_inv_def pool_ok_def frame_inv_New newMessageExchangeSet_def mexset_inv_def
      c_set_def ChecksumType_valid_def Let_def)+

lemma new_call_good: "good_call 0 (NewContext 0 Second) ''me'' ''you'' defaultCallOptions"
  by (simp add: good_call_def NewContext_def Build_def NewContextBuilder_def WrapWithHeaders_def WithTimeout_def
      context_Background_def currentCallOptions_def short_options_def defaultCallOptions_def Second_def Millisecond_def Let_def)

lemma alone_id: "leaves_alone d p (\<lambda>c. c)"
  by (simp add: leaves_alone_def quiet_def)

theorem request_arrives_witness:
  "\<exists>call c1 frs. send_request 0 (NewContext 0 Second) Canceled emptySpan (\<lambda>c. c) (\<lambda>c. c) ''me'' ''you'' [109]
      defaultCallOptions [1] (replicate 100000 2) new_conn = Some (call, c1, frs) \<and> (\<forall>f \<in> set frs. sendable f) \<and>
    (\<forall>gs. list_all2 same_frame frs gs \<longrightarrow>
      (\<exists>ic d1 ic' d2. receive_request 0 context_Background (\<lambda>c. c) (\<lambda>_. 512) gs new_conn = Some (ic, d1) \<and>
        ic_serviceName ic = ''you'' \<and>
        raw_ReadArgs (\<lambda>_. 512) [] ic d1 =
          Some (Ret (Inr (call_args (request_headers ''me'' defaultCallOptions (NewContext 0 Second)) [109] [1]
            (replicate 100000 2)), ic', d2))))"
  by (rule request_arrives [OF new_conn_open(1) new_call_good alone_id alone_id new_conn_open(1) _ alone_id])
    (simp_all add: context_Background_def)

theorem call_answered_witness:
  "\<exists>call c1 frs. send_request 0 (NewContext 0 Second) Canceled emptySpan (\<lambda>c. c) (\<lambda>c. c) ''me'' ''you'' [109]
      defaultCallOptions [1] [2] new_conn = Some (call, c1, frs) \<and>
    (\<forall>gs. list_all2 same_frame frs gs \<longrightarrow>
      (\<exists>ic d1 ic' d2. receive_request 0 context_Background (\<lambda>c. c) (\<lambda>_. 512) gs new_conn = Some (ic, d1) \<and>
        raw_Wrap (\<lambda>_. 512) [] emptySpan echo ic d1 = Some (Ret (None, ic', d2)) \<and>
        (\<forall>hs. list_all2 same_frame (sent_by (ic_response ic')) hs \<longrightarrow>
          (\<exists>call' c2. raw_WriteArgs (\<lambda>_. 512) (\<lambda>c. c) hs [1] [2] call c1 = Some (Ret (Inr ([1], [2]), call', c2)) \<and>
            \<not> ApplicationError call'))))"
  using call_answered [OF new_conn_open(1) new_call_good alone_id alone_id alone_id new_conn_open(1) _ alone_id,
      of context_Background "\<lambda>_. 512" echo "[109]" "[1]" "[2]"
        "\<lparr>rs_SystemErr = None, rs_IsErr = False, rs_Arg2 = [1], rs_Arg3 = [2]\<rparr>"]
  by (simp add: context_Background_def echo_def call_args_def)

text \<open>
  C3: frames arrive. The writing goroutine of a connection that has not been stopped empties its send channel,
  and the reading goroutine of the peer, given the bytes it wrote followed by any others, hands to its
  handlers frames with the same ids, types and payloads in the same order, before it goes on with the
  bytes that follow.
\<close>

theorem frames_arrive:
  assumes "\<forall>f \<in> set (c_sendCh c). sendable f" and "\<not> c_stopCh c" and "pool_ok d" and "\<And>c. c_pool (env c) = c_pool c"
  shows "\<exists>out c' gs. writeFrames now (\<lambda>_. None) [] c = Some (Ret (out, c')) \<and> c_sendCh c' = [] \<and>
    list_all2 same_frame (c_sendCh c) gs \<and>
    readFrames now' (handleFrameNoRelay now' base env) (r\<lparr>ir_data := out @ rest\<rparr>) calls d =
      (case handle_all now' (handleFrameNoRelay now' base env) gs calls d of
         None \<Rightarrow> None
       | Some Panic \<Rightarrow> Some Panic
       | Some (Ret (calls', d')) \<Rightarrow>
           readFrames now' (handleFrameNoRelay now' base env) (r\<lparr>ir_data := rest\<rparr>) calls' d')"
proof -
  let ?h = "handleFrameNoRelay now' base env" and ?out = "concat (map frame_bytes (c_sendCh c))"
  obtain c' where w: "writeFrames now (\<lambda>_. None) [] c = Some (Ret (?out, c'))" "c_sendCh c' = []"
    using writeFrames_ok [OF assms(1,2), of now "[]"] by auto
  have keep: "pool_ok c'" if "pool_ok c" "?h f c = Some (Ret (rel, call, c'))" for f c rel call c'
    using frame_pool.handleFrameNoRelay_part [OF that(2) assms(4)] that(1) by (simp add: pool_ok_def)
  obtain gs where gs: "list_all2 same_frame (c_sendCh c) gs"
      "readFrames now' ?h (r\<lparr>ir_data := ?out @ rest\<rparr>) calls d =
        (case handle_all now' ?h gs calls d of
           None \<Rightarrow> None
         | Some Panic \<Rightarrow> Some Panic
         | Some (Ret (calls', d')) \<Rightarrow> readFrames now' ?h (r\<lparr>ir_data := ?out @ rest\<rparr>\<lparr>ir_data := rest\<rparr>) calls' d')"
    using readFrames_ok [of "c_sendCh c" d ?h "r\<lparr>ir_data := ?out @ rest\<rparr>" rest now' calls] assms(1,3) keep by auto
  have "r\<lparr>ir_data := ?out @ rest\<rparr>\<lparr>ir_data := rest\<rparr> = r\<lparr>ir_data := rest\<rparr>" by simp
  with w gs show ?thesis by (intro exI [of _ ?out] exI [of _ c'] exI [of _ gs]) (simp only: simp_thms)
qed

theorem frames_arrive_witness:
  "\<exists>frs out c' gs. frs \<noteq> [] \<and> writeFrames 0 (\<lambda>_. None) [] (new_conn\<lparr>c_sendCh := frs\<rparr>) = Some (Ret (out, c')) \<and>
    list_all2 same_frame frs gs"
proof -
  obtain call c1 frs where "frs \<noteq> []" "\<And>f. f \<in> set frs \<Longrightarrow> sendable f"
      "send_request 0 (NewContext 0 Second) Canceled emptySpan (\<lambda>c. c) (\<lambda>c. c) ''me'' ''you'' [109]
        defaultCallOptions [1] [2] new_conn = Some (call, c1, frs)"
    by (rule send_request_ok [OF new_conn_open(1) new_call_good alone_id alone_id,
          where ctxEnd = Canceled and span = emptySpan and meth = "[109]" and ?a2.0 = "[1]" and ?a3.0 = "[2]"]) blast
  moreover have "\<not> c_stopCh new_conn" "pool_ok new_conn"
    using new_conn_open(1) [of Inbound 0] by (auto simp: open_for_def conn_inv_def)
  ultimately have "\<exists>out c' gs. writeFrames 0 (\<lambda>_. None) [] (new_conn\<lparr>c_sendCh := frs\<rparr>) = Some (Ret (out, c')) \<and>
      list_all2 same_frame frs gs"
    using frames_arrive [of "new_conn\<lparr>c_sendCh := frs\<rparr>" new_conn "\<lambda>c. c" 0] by fastforce
  with \<open>frs \<noteq> []\<close> show ?thesis by blast
qed

end
