(* ===== verification/Close_Protocol.thy ===== *)
theory Close_Protocol
  imports Connection "HOL-Library.Multiset"
begin

text \<open>
  The close of a connection with its goroutines interleaved at the grain of the code: each lock section, atomic
  load and compare-and-swap of \<^verbatim>\<open>checkExchanges\<close>, \<^verbatim>\<open>close\<close> and the check-add-check of \<^verbatim>\<open>handleCallReq\<close> is one step, and
  between any two of them any other goroutine may run. A goroutine is its program counter with the local
  variables \<^verbatim>\<open>origState\<close> and \<^verbatim>\<open>curState\<close>; the goroutines are a multiset of them. Exchange sets are their counts.
  Calls of the outbound side, pings and relayed calls add and remove exchanges at any time.
\<close>

section \<open>Goroutines and steps\<close>

datatype pc =
    CheckRead
  | CheckStopped connectionState
  | CheckForce connectionState
  | CheckSC connectionState connectionState
  | CheckIn connectionState
  | MoveIn connectionState
  | CheckIC connectionState connectionState
  | CheckOut connectionState
  | MoveOut connectionState
  | Finish connectionState connectionState
  | CloseCh
  | ReqAdd
  | ReqRecheck
  | ReqRemove

record cl_state =
  cl_st :: connectionState
  cl_stopped :: bool
  cl_in :: nat
  cl_out :: nat
  cl_relay :: nat
  cl_closes :: nat
  cl_accepted :: nat
  cl_threads :: "pc multiset"

definition cl_init :: cl_state where
  "cl_init = \<lparr>cl_st = connectionActive, cl_stopped = False, cl_in = 0, cl_out = 0, cl_relay = 0, cl_closes = 0,
     cl_accepted = 0, cl_threads = {#}\<rparr>"

text \<open>
  The step of one goroutine in \<^verbatim>\<open>checkExchanges\<close>: the shared state after it, and where the goroutine is then,
  if it has not returned. \<^verbatim>\<open>moveState\<close> is a compare-and-swap under the state lock.
\<close>

fun check_step :: "pc \<Rightarrow> cl_state \<Rightarrow> pc option \<times> cl_state" where
  "check_step CheckRead s = (Some (CheckStopped (cl_st s)), s)"
| "check_step (CheckStopped og) s =
     (Some (if og \<noteq> connectionClosed \<and> cl_stopped s then CheckForce og else CheckSC og og), s)"
| "check_step (CheckForce og) s =
     (if cl_st s = og then (Some (CheckSC og connectionClosed), s\<lparr>cl_st := connectionClosed\<rparr>)
      else (Some (CheckSC og og), s))"
| "check_step (CheckSC og c) s =
     (if c = connectionStartClose then (if cl_relay s = 0 then Some (CheckIn og) else None, s)
      else (Some (CheckIC og c), s))"
| "check_step (CheckIn og) s =
     (Some (if cl_in s = 0 then MoveIn og else CheckIC og connectionStartClose), s)"
| "check_step (MoveIn og) s =
     (if cl_st s = connectionStartClose then (Some (CheckIC og connectionInboundClosed), s\<lparr>cl_st := connectionInboundClosed\<rparr>)
      else (Some (CheckIC og connectionStartClose), s))"
| "check_step (CheckIC og c) s =
     (if c = connectionInboundClosed then (if cl_relay s = 0 then Some (CheckOut og) else None, s)
      else (Some (Finish og c), s))"
| "check_step (CheckOut og) s =
     (Some (if cl_out s = 0 then MoveOut og else Finish og connectionInboundClosed), s)"
| "check_step (MoveOut og) s =
     (if cl_st s = connectionInboundClosed then (Some (Finish og connectionClosed), s\<lparr>cl_st := connectionClosed\<rparr>)
      else (Some (Finish og connectionInboundClosed), s))"
| "check_step (Finish og c) s = (if c \<noteq> og \<and> c = connectionClosed then Some CloseCh else None, s)"
| "check_step CloseCh s = (None, s\<lparr>cl_closes := cl_closes s + 1\<rparr>)"
| "check_step p s = (Some p, s)"

definition opt_thread :: "pc option \<Rightarrow> pc multiset" where
  "opt_thread q = (case q of Some p \<Rightarrow> {#p#} | None \<Rightarrow> {#})"

definition in_check :: "pc \<Rightarrow> bool" where
  "in_check p \<longleftrightarrow> p \<notin> {ReqAdd, ReqRecheck, ReqRemove}"

text \<open>
  \<open>cl_check\<close>: a goroutine inside \<^verbatim>\<open>checkExchanges\<close>; \<open>cl_close\<close>: the lock section of \<^verbatim>\<open>close\<close>, which then checks;
  \<open>cl_call\<close>: any other call of \<^verbatim>\<open>checkExchanges\<close>; \<open>cl_stop\<close>: \<^verbatim>\<open>stoppedExchanges\<close> is set by a connection or protocol error.
  \<open>cl_req\<close> to \<open>cl_unreq\<close>: \<^verbatim>\<open>handleCallReq\<close> sees the active state, registers its exchange unless that fails, and looks
  at the state again before it accepts the call; \<open>cl_end\<close>: an accepted call ends or expires.
\<close>

inductive cl_step :: "cl_state \<Rightarrow> cl_state \<Rightarrow> bool" where
  cl_check: "cl_threads s = add_mset p ts \<Longrightarrow> in_check p \<Longrightarrow> check_step p s = (q, s') \<Longrightarrow>
    cl_step s (s'\<lparr>cl_threads := opt_thread q + ts\<rparr>)"
| cl_close: "cl_st s = connectionActive \<Longrightarrow>
    cl_step s (s\<lparr>cl_st := connectionStartClose, cl_threads := add_mset CheckRead (cl_threads s)\<rparr>)"
| cl_call: "cl_step s (s\<lparr>cl_threads := add_mset CheckRead (cl_threads s)\<rparr>)"
| cl_stop: "cl_step s (s\<lparr>cl_stopped := True\<rparr>)"
| cl_req: "cl_st s = connectionActive \<Longrightarrow> cl_step s (s\<lparr>cl_threads := add_mset ReqAdd (cl_threads s)\<rparr>)"
| cl_refused: "cl_threads s = add_mset ReqAdd ts \<Longrightarrow> cl_step s (s\<lparr>cl_threads := ts\<rparr>)"
| cl_add: "cl_threads s = add_mset ReqAdd ts \<Longrightarrow>
    cl_step s (s\<lparr>cl_in := cl_in s + 1, cl_threads := add_mset ReqRecheck ts\<rparr>)"
| cl_accept: "cl_threads s = add_mset ReqRecheck ts \<Longrightarrow> cl_st s = connectionActive \<Longrightarrow>
    cl_step s (s\<lparr>cl_accepted := cl_accepted s + 1, cl_threads := ts\<rparr>)"
| cl_reject: "cl_threads s = add_mset ReqRecheck ts \<Longrightarrow> cl_st s \<noteq> connectionActive \<Longrightarrow>
    cl_step s (s\<lparr>cl_threads := add_mset ReqRemove ts\<rparr>)"
| cl_unreq: "cl_threads s = add_mset ReqRemove ts \<Longrightarrow>
    cl_step s (s\<lparr>cl_in := cl_in s - 1, cl_threads := add_mset CheckRead ts\<rparr>)"
| cl_end: "0 < cl_accepted s \<Longrightarrow>
    cl_step s (s\<lparr>cl_accepted := cl_accepted s - 1, cl_in := cl_in s - 1, cl_threads := add_mset CheckRead (cl_threads s)\<rparr>)"
| cl_out_add: "cl_step s (s\<lparr>cl_out := cl_out s + 1\<rparr>)"
| cl_out_remove: "0 < cl_out s \<Longrightarrow>
    cl_step s (s\<lparr>cl_out := cl_out s - 1, cl_threads := add_mset CheckRead (cl_threads s)\<rparr>)"
| cl_relay_add: "cl_step s (s\<lparr>cl_relay := cl_relay s + 1\<rparr>)"
| cl_relay_done: "0 < cl_relay s \<Longrightarrow>
    cl_step s (s\<lparr>cl_relay := cl_relay s - 1, cl_threads := add_mset CheckRead (cl_threads s)\<rparr>)"

inductive cl_reach :: "cl_state \<Rightarrow> bool" where
  cl_start: "cl_reach cl_init"
| cl_next: "cl_reach s \<Longrightarrow> cl_step s s' \<Longrightarrow> cl_reach s'"

section \<open>Invariants\<close>

text \<open>What the local variables can be at each point.\<close>

fun pc_ok :: "pc \<Rightarrow> bool" where
  "pc_ok (CheckForce og) = (og \<noteq> connectionClosed)"
| "pc_ok (CheckSC og c) = (c = og \<or> c = connectionClosed)"
| "pc_ok (CheckIn og) = (og = connectionStartClose)"
| "pc_ok (MoveIn og) = (og = connectionStartClose)"
| "pc_ok (CheckIC og c) = (c = og \<or> c = connectionClosed \<or> og = connectionStartClose \<and> c = connectionInboundClosed)"
| "pc_ok (CheckOut og) = (og \<in> {connectionStartClose, connectionInboundClosed})"
| "pc_ok (MoveOut og) = (og \<in> {connectionStartClose, connectionInboundClosed})"
| "pc_ok (Finish og c) = (c = og \<or> c = connectionClosed \<or> og = connectionStartClose \<and> c = connectionInboundClosed)"
| "pc_ok p = True"

text \<open>The goroutine that moved the state to closed, and has yet to close the stop channel.\<close>

fun won :: "pc \<Rightarrow> bool" where
  "won (CheckSC og c) = (c = connectionClosed \<and> og \<noteq> connectionClosed)"
| "won (CheckIC og c) = (c = connectionClosed \<and> og \<noteq> connectionClosed)"
| "won (Finish og c) = (c = connectionClosed \<and> og \<noteq> connectionClosed)"
| "won CloseCh = True"
| "won p = False"

text \<open>The goroutines that have seen the state after it was active.\<close>

fun seen_close :: "pc \<Rightarrow> bool" where
  "seen_close (CheckStopped og) = (og \<noteq> connectionActive)"
| "seen_close (CheckForce og) = (og \<noteq> connectionActive)"
| "seen_close (CheckSC og c) = (c \<noteq> connectionActive)"
| "seen_close (CheckIn og) = True"
| "seen_close (MoveIn og) = True"
| "seen_close (CheckIC og c) = (c \<noteq> connectionActive)"
| "seen_close (CheckOut og) = True"
| "seen_close (MoveOut og) = True"
| "seen_close (Finish og c) = (c \<noteq> connectionActive)"
| "seen_close CloseCh = True"
| "seen_close ReqRemove = True"
| "seen_close p = False"

text \<open>The goroutines whose check will still move a starting close on, and those that will end it.\<close>

fun drives_in :: "pc \<Rightarrow> bool" where
  "drives_in CheckRead = True"
| "drives_in (CheckStopped og) = (og = connectionStartClose)"
| "drives_in (CheckForce og) = (og = connectionStartClose)"
| "drives_in (CheckSC og c) = (c = connectionStartClose)"
| "drives_in (CheckIn og) = True"
| "drives_in (MoveIn og) = True"
| "drives_in p = False"

fun drives_out :: "pc \<Rightarrow> bool" where
  "drives_out CheckRead = True"
| "drives_out (CheckStopped og) = (og = connectionInboundClosed)"
| "drives_out (CheckForce og) = (og = connectionInboundClosed)"
| "drives_out (CheckSC og c) = (c = connectionInboundClosed)"
| "drives_out (CheckIC og c) = (c = connectionInboundClosed)"
| "drives_out (CheckOut og) = True"
| "drives_out (MoveOut og) = True"
| "drives_out p = False"

fun forced :: "pc \<Rightarrow> bool" where
  "forced (CheckForce og) = True"
| "forced p = False"

definition cl_pcs :: "cl_state \<Rightarrow> bool" where
  "cl_pcs s \<longleftrightarrow> (\<forall>p \<in># cl_threads s. pc_ok p \<and> (seen_close p \<longrightarrow> cl_st s \<noteq> connectionActive) \<and>
     (forced p \<longrightarrow> cl_stopped s))"

definition cl_won :: "cl_state \<Rightarrow> bool" where
  "cl_won s \<longleftrightarrow> size (filter_mset won (cl_threads s)) + cl_closes s = (if cl_st s = connectionClosed then 1 else 0)"

definition cl_calls :: "cl_state \<Rightarrow> bool" where
  "cl_calls s \<longleftrightarrow> cl_in s = cl_accepted s + count (cl_threads s) ReqRecheck + count (cl_threads s) ReqRemove \<and>
     ((\<exists>og. MoveIn og \<in># cl_threads s) \<longrightarrow> cl_accepted s = 0) \<and>
     (cl_st s = connectionInboundClosed \<longrightarrow> cl_accepted s = 0) \<and>
     (cl_st s = connectionClosed \<and> \<not> cl_stopped s \<longrightarrow> cl_accepted s = 0)"

definition cl_live :: "cl_state \<Rightarrow> bool" where
  "cl_live s \<longleftrightarrow>
     (cl_st s = connectionStartClose \<and> cl_in s = 0 \<and> cl_relay s = 0 \<longrightarrow> (\<exists>p \<in># cl_threads s. drives_in p)) \<and>
     (cl_st s = connectionInboundClosed \<and> cl_out s = 0 \<and> cl_relay s = 0 \<longrightarrow> (\<exists>p \<in># cl_threads s. drives_out p))"

lemma cl_init_ok: "cl_pcs cl_init" "cl_won cl_init" "cl_calls cl_init" "cl_live cl_init"
  by (simp_all add: cl_pcs_def cl_won_def cl_calls_def cl_live_def cl_init_def)

lemma cl_pcs_check:
  assumes "cl_pcs s" and "cl_threads s = add_mset p ts" and "in_check p" and "check_step p s = (q, s')"
  shows "cl_pcs (s'\<lparr>cl_threads := opt_thread q + ts\<rparr>)"
  using assms
  by (cases p) (auto simp: cl_pcs_def opt_thread_def in_check_def split: if_splits)

lemma cl_won_check:
  assumes "cl_won s" and "cl_pcs s" and "cl_threads s = add_mset p ts" and "in_check p" and "check_step p s = (q, s')"
  shows "cl_won (s'\<lparr>cl_threads := opt_thread q + ts\<rparr>)"
proof -
  have "pc_ok p" using assms(2,3) by (simp add: cl_pcs_def)
  then show ?thesis
    using assms(1,3-5) by (cases p) (auto simp: cl_won_def opt_thread_def in_check_def split: if_splits)
qed

text \<open>What a step inside \<^verbatim>\<open>checkExchanges\<close> can do to the rest.\<close>

lemma check_step_frame:
  assumes "check_step p s = (q, s')" and "in_check p"
  shows "cl_in s' = cl_in s" and "cl_accepted s' = cl_accepted s" and "cl_stopped s' = cl_stopped s"
    and "cl_out s' = cl_out s" and "cl_relay s' = cl_relay s"
    and "ReqRecheck \<notin># opt_thread q" and "ReqRemove \<notin># opt_thread q"
    and "MoveIn og \<in># opt_thread q \<Longrightarrow> cl_in s = 0"
    and "cl_st s' = connectionInboundClosed \<Longrightarrow> cl_st s = connectionInboundClosed \<or> (\<exists>og. p = MoveIn og)"
    and "cl_st s' = connectionClosed \<Longrightarrow> cl_st s \<in> {connectionClosed, connectionInboundClosed} \<or> forced p"
    and "cl_st s' = cl_st s \<or> cl_st s' = connectionClosed \<or> cl_st s' = connectionInboundClosed \<and> (\<exists>r \<in># opt_thread q. drives_out r)"
  using assms by (cases p; auto simp: opt_thread_def in_check_def split: if_splits)+

lemma cl_calls_check:
  assumes "cl_calls s" and "cl_pcs s" and "cl_threads s = add_mset p ts" and "in_check p" and "check_step p s = (q, s')"
  shows "cl_calls (s'\<lparr>cl_threads := opt_thread q + ts\<rparr>)"
proof -
  note fr = check_step_frame [OF assms(5,4)]
  have f: "forced p \<longrightarrow> cl_stopped s" using assms(2,3) by (simp add: cl_pcs_def)
  have "p \<noteq> ReqRecheck" "p \<noteq> ReqRemove" using assms(4) by (auto simp: in_check_def)
  then have cnt: "count (opt_thread q + ts) ReqRecheck = count (cl_threads s) ReqRecheck"
      "count (opt_thread q + ts) ReqRemove = count (cl_threads s) ReqRemove"
    using assms(3) fr(6,7) by (simp_all add: not_in_iff)
  have in_acc: "cl_in s = 0 \<Longrightarrow> cl_accepted s = 0" and mv: "\<And>og. MoveIn og \<in># cl_threads s \<Longrightarrow> cl_accepted s = 0"
    using assms(1) by (auto simp: cl_calls_def)
  have 1: "cl_accepted s = 0" if "MoveIn og \<in># opt_thread q + ts" for og
    using that fr(8) in_acc mv assms(3) by auto
  have 2: "cl_accepted s = 0" if "cl_st s' = connectionInboundClosed"
    using fr(9) [OF that] mv assms(1,3) by (auto simp: cl_calls_def)
  have 3: "cl_accepted s = 0" if "cl_st s' = connectionClosed" "\<not> cl_stopped s"
    using fr(10) [OF that(1)] f that(2) assms(1) by (auto simp: cl_calls_def)
  show ?thesis
    unfolding cl_calls_def
  proof (intro conjI impI, goal_cases)
    case 1
    show ?case using assms(1) fr(1,2) cnt by (simp add: cl_calls_def)
  next
    case 2
    then obtain og where "MoveIn og \<in># opt_thread q + ts" by auto
    then show ?case using 1 fr(2) by simp
  qed (use 2 3 fr(2,3) in simp_all)
qed

lemma check_step_drives_in:
  assumes "check_step p s = (q, s')" and "drives_in p" and "cl_st s = connectionStartClose" and "cl_in s = 0" and "cl_relay s = 0"
  shows "cl_st s' \<noteq> connectionStartClose \<or> (\<exists>r. q = Some r \<and> drives_in r)"
  using assms by (cases p) (auto split: if_splits)

lemma check_step_drives_out:
  assumes "check_step p s = (q, s')" and "drives_out p" and "cl_st s = connectionInboundClosed" and "cl_out s = 0" and "cl_relay s = 0"
  shows "cl_st s' \<noteq> connectionInboundClosed \<or> (\<exists>r. q = Some r \<and> drives_out r)"
  using assms by (cases p) (auto split: if_splits)

lemma cl_live_check:
  assumes "cl_live s" and "cl_threads s = add_mset p ts" and "in_check p" and "check_step p s = (q, s')"
  shows "cl_live (s'\<lparr>cl_threads := opt_thread q + ts\<rparr>)"
proof (cases "cl_st s' = cl_st s")
  case True
  note fr = check_step_frame(1,4,5) [OF assms(4,3)]
  have 1: "\<exists>r \<in># opt_thread q + ts. drives_in r"
    if "cl_st s = connectionStartClose" "cl_in s = 0" "cl_relay s = 0"
  proof (cases "drives_in p")
    case p: True
    then show ?thesis using check_step_drives_in [OF assms(4) p that] True that(1) by (auto simp: opt_thread_def)
  qed (use assms(1,2) that in \<open>auto simp: cl_live_def\<close>)
  have 2: "\<exists>r \<in># opt_thread q + ts. drives_out r"
    if "cl_st s = connectionInboundClosed" "cl_out s = 0" "cl_relay s = 0"
  proof (cases "drives_out p")
    case p: True
    then show ?thesis using check_step_drives_out [OF assms(4) p that] True that(1) by (auto simp: opt_thread_def)
  qed (use assms(1,2) that in \<open>auto simp: cl_live_def\<close>)
  show ?thesis using 1 2 fr True by (simp add: cl_live_def)
next
  case False
  then show ?thesis using check_step_frame(11) [OF assms(4,3)] by (auto simp: cl_live_def)
qed

definition cl_inv :: "cl_state \<Rightarrow> bool" where
  "cl_inv s \<longleftrightarrow> cl_pcs s \<and> cl_won s \<and> cl_calls s \<and> cl_live s"

lemma cl_step_inv:
  assumes "cl_step s s'" and "cl_inv s"
  shows "cl_inv s'"
  using assms(1)
proof (cases rule: cl_step.cases)
  case (cl_check p ts q s1)
  then show ?thesis
    using assms(2) cl_pcs_check cl_won_check cl_calls_check cl_live_check unfolding cl_inv_def by metis
next
  case (cl_accept ts)
  have "MoveIn og \<notin># ts" for og
    using assms(2) cl_accept(2,3) by (fastforce simp: cl_inv_def cl_pcs_def)
  then show ?thesis
    using assms(2) cl_accept by (auto simp: cl_inv_def cl_pcs_def cl_won_def cl_calls_def cl_live_def)
next
  case (cl_unreq ts)
  then show ?thesis
    using assms(2) by (auto simp: cl_inv_def cl_pcs_def cl_won_def cl_calls_def cl_live_def)
next
  case cl_end
  then show ?thesis
    using assms(2) by (auto simp: cl_inv_def cl_pcs_def cl_won_def cl_calls_def cl_live_def)
qed (use assms(2) in \<open>auto simp: cl_inv_def cl_pcs_def cl_won_def cl_calls_def cl_live_def\<close>)

lemma cl_reach_inv: "cl_reach s \<Longrightarrow> cl_inv s"
  by (induction rule: cl_reach.induct) (simp add: cl_inv_def cl_init_ok, rule cl_step_inv)

section \<open>The sequential check is one of these interleavings\<close>

text \<open>The shared state that a connection stands for, with the goroutines \<open>ts\<close> and \<open>a\<close> accepted calls.\<close>

definition cl_of :: "nat \<Rightarrow> pc multiset \<Rightarrow> Connection \<Rightarrow> cl_state" where
  "cl_of a ts c = \<lparr>cl_st = c_state c, cl_stopped = c_stoppedExchanges c, cl_in = ms_count (c_inbound c),
     cl_out = ms_count (c_outbound c), cl_relay = (case c_relay c of None \<Rightarrow> 0 | Some n \<Rightarrow> n),
     cl_closes = (if c_stopCh c then 1 else 0), cl_accepted = a, cl_threads = ts\<rparr>"

fun check_run :: "nat \<Rightarrow> pc \<Rightarrow> cl_state \<Rightarrow> cl_state option" where
  "check_run 0 p s = None"
| "check_run (Suc n) p s =
     (case check_step p s of (None, s') \<Rightarrow> Some s' | (Some q, s') \<Rightarrow> check_run n q s')"

lemma check_step_threads:
  assumes "check_step p s = (q, s')"
  shows "check_step p (s\<lparr>cl_threads := ts\<rparr>) = (q, s'\<lparr>cl_threads := ts\<rparr>)"
  using assms by (cases p) (auto split: if_splits)

lemma check_step_in_check: "check_step p s = (Some q, s') \<Longrightarrow> in_check p \<Longrightarrow> in_check q"
  by (cases p) (auto simp: in_check_def split: if_splits)

lemma check_run_steps:
  assumes "check_run n p s = Some s'" and "in_check p"
  shows "cl_step\<^sup>*\<^sup>* (s\<lparr>cl_threads := add_mset p ts\<rparr>) (s'\<lparr>cl_threads := ts\<rparr>)"
  using assms
proof (induction n arbitrary: p s)
  case (Suc n)
  obtain q s1 where st: "check_step p s = (q, s1)" by force
  have step: "cl_step (s\<lparr>cl_threads := add_mset p ts\<rparr>) (s1\<lparr>cl_threads := opt_thread q + ts\<rparr>)"
    using cl_check [OF _ Suc.prems(2) check_step_threads [OF st, of "add_mset p ts"], of ts] by simp
  show ?case
  proof (cases q)
    case None
    then show ?thesis using step Suc.prems(1) st by (auto simp: opt_thread_def)
  next
    case (Some r)
    have "cl_step\<^sup>*\<^sup>* (s1\<lparr>cl_threads := add_mset r ts\<rparr>) (s'\<lparr>cl_threads := ts\<rparr>)"
      using Suc.IH [of r s1] Suc.prems st Some check_step_in_check [of p s r s1] by simp
    with step show ?thesis unfolding Some by (auto simp: opt_thread_def)
  qed
qed simp

text \<open>A goroutine that runs \<^verbatim>\<open>checkExchanges\<close> without interruption takes ten steps at most, and has the effect of the definition.\<close>

lemma check_run_checkExchanges:
  assumes "conn_inv c" and "checkExchanges c = Ret c'"
  shows "check_run 10 CheckRead (cl_of a ts c) = Some (cl_of a ts c')"
proof -
  have c': "c' = c\<lparr>c_state := settled c, c_stopCh := (settled c = connectionClosed), c_events := check_events c\<rparr>"
    using assms checkExchanges_eq [OF assms(1)] by simp
  have st: "c_stopCh c = (c_state c = connectionClosed)" using assms(1) by (simp add: conn_inv_def)
  show ?thesis
    unfolding c' cl_of_def using st
    by (cases "c_state c"; cases "c_relay c")
      (auto simp: eval_nat_numeral settled_def relay_canClose_def)
qed

section \<open>What the close guarantees\<close>

lemma cl_reach_steps: "cl_step\<^sup>*\<^sup>* s s' \<Longrightarrow> cl_reach s \<Longrightarrow> cl_reach s'"
  by (induction rule: rtranclp_induct) (auto intro: cl_next)

text \<open>A run that the witnesses use: a call is accepted, the connection is closed, the call ends and its goroutine checks.\<close>

definition cl_accepted_state :: cl_state where
  "cl_accepted_state = cl_init\<lparr>cl_in := 1, cl_accepted := 1\<rparr>"

definition cl_closed_state :: cl_state where
  "cl_closed_state = cl_init\<lparr>cl_st := connectionClosed, cl_closes := 1\<rparr>"

lemma cl_accepted_reach: "cl_reach cl_accepted_state"
proof -
  have 1: "cl_reach (cl_init\<lparr>cl_threads := {#ReqAdd#}\<rparr>)"
    using cl_next [OF cl_start cl_req] by (simp add: cl_init_def)
  have 2: "cl_reach (cl_init\<lparr>cl_in := 1, cl_threads := {#ReqRecheck#}\<rparr>)"
    using cl_next [OF 1 cl_add, of "{#}"] by (simp add: cl_init_def)
  show ?thesis
    using cl_next [OF 2 cl_accept, of "{#}"] by (simp add: cl_init_def cl_accepted_state_def)
qed

lemma cl_closed_reach: "cl_reach cl_closed_state"
proof -
  have 1: "cl_reach (cl_accepted_state\<lparr>cl_st := connectionStartClose, cl_threads := {#CheckRead#}\<rparr>)"
    using cl_next [OF cl_accepted_reach cl_close] by (simp add: cl_init_def cl_accepted_state_def)
  have run1: "check_run 10 CheckRead (cl_accepted_state\<lparr>cl_st := connectionStartClose\<rparr>) =
      Some (cl_accepted_state\<lparr>cl_st := connectionStartClose\<rparr>)"
    by (simp add: eval_nat_numeral cl_accepted_state_def cl_init_def)
  have 2: "cl_reach (cl_accepted_state\<lparr>cl_st := connectionStartClose, cl_threads := {#}\<rparr>)"
    using cl_reach_steps [OF check_run_steps [OF run1, of "{#}"]] 1 by (simp add: in_check_def)
  have 3: "cl_reach (cl_init\<lparr>cl_st := connectionStartClose, cl_threads := {#CheckRead#}\<rparr>)"
    using cl_next [OF 2 cl_end] by (simp add: cl_init_def cl_accepted_state_def)
  have run2: "check_run 10 CheckRead (cl_init\<lparr>cl_st := connectionStartClose\<rparr>) = Some cl_closed_state"
    by (simp add: eval_nat_numeral cl_closed_state_def cl_init_def)
  show ?thesis
    using cl_reach_steps [OF check_run_steps [OF run2, of "{#}"]] 3
    by (simp add: in_check_def cl_closed_state_def cl_init_def)
qed

text \<open>
  C5: However the goroutines of a connection interleave, the stop channel is closed at most once, so that
  \<^verbatim>\<open>close(c.stopCh)\<close> never panics: a goroutine that is about to close it is the only one and finds it open.
  Once no goroutine is left in a check, the channel is closed exactly when the state is closed.
\<close>

theorem stop_channel_once:
  assumes "cl_reach s"
  shows "cl_closes s \<le> 1 \<and>
    (CloseCh \<in># cl_threads s \<longrightarrow> cl_closes s = 0 \<and> count (cl_threads s) CloseCh = 1) \<and>
    (cl_threads s = {#} \<longrightarrow> (cl_closes s = 1) = (cl_st s = connectionClosed))"
proof (intro conjI impI)
  have w: "size (filter_mset won (cl_threads s)) + cl_closes s = (if cl_st s = connectionClosed then 1 else 0)"
    using cl_reach_inv [OF assms] by (simp add: cl_inv_def cl_won_def)
  then show "cl_closes s \<le> 1" by (simp split: if_splits)
  show "(cl_closes s = 1) = (cl_st s = connectionClosed)" if "cl_threads s = {#}"
    using w that by (simp split: if_splits)
  have le: "count (cl_threads s) CloseCh \<le> size (filter_mset won (cl_threads s))"
    using count_le_size [of "filter_mset won (cl_threads s)" CloseCh] by simp
  assume "CloseCh \<in># cl_threads s"
  then have pos: "0 < count (cl_threads s) CloseCh" by simp
  have le1: "size (filter_mset won (cl_threads s)) + cl_closes s \<le> 1" unfolding w by simp
  show "cl_closes s = 0" "count (cl_threads s) CloseCh = 1" using pos le le1 by linarith+
qed

theorem stop_channel_once_witness: "cl_closes cl_closed_state \<le> 1 \<and> (cl_closes cl_closed_state = 1) = (cl_st cl_closed_state = connectionClosed)"
  using stop_channel_once [OF cl_closed_reach] by (simp add: cl_closed_state_def cl_init_def)

text \<open>
  C6: The close is graceful: unless the exchanges were stopped by an error, the connection is past the state
  that waits for inbound calls only when every call that \<^verbatim>\<open>handleCallReq\<close> accepted has ended; and whenever a call is
  accepted the connection is active and no goroutine has yet seen it closing.
\<close>

theorem close_graceful:
  assumes "cl_reach s"
  shows "(\<not> cl_stopped s \<and> cl_st s \<in> {connectionInboundClosed, connectionClosed} \<longrightarrow> cl_accepted s = 0) \<and>
    (\<forall>s'. cl_step s s' \<and> cl_accepted s < cl_accepted s' \<longrightarrow>
      cl_st s = connectionActive \<and> cl_closes s = 0 \<and> (\<forall>p. p \<in># cl_threads s \<longrightarrow> \<not> seen_close p))"
proof (intro conjI allI impI; (elim conjE)?)
  note inv = cl_reach_inv [OF assms]
  show "cl_accepted s = 0" if "\<not> cl_stopped s" "cl_st s \<in> {connectionInboundClosed, connectionClosed}"
    using inv that by (auto simp: cl_inv_def cl_calls_def)
  fix s' assume st: "cl_step s s'" and lt: "cl_accepted s < cl_accepted s'"
  show a: "cl_st s = connectionActive"
    using st lt by (cases rule: cl_step.cases) (auto dest: check_step_frame(2))
  show "cl_closes s = 0" using inv a by (simp add: cl_inv_def cl_won_def)
  show "\<not> seen_close p" if "p \<in># cl_threads s" for p
    using inv a that by (auto simp: cl_inv_def cl_pcs_def)
qed

theorem close_graceful_witness: "cl_accepted cl_closed_state = 0 \<and> cl_accepted cl_accepted_state = 1"
  using close_graceful [OF cl_closed_reach] by (simp add: cl_closed_state_def cl_accepted_state_def cl_init_def)

text \<open>
  C7: No close is lost: when every goroutine has returned and no inbound, outbound or relayed call is left, a connection
  on which a close was begun is closed, and its stop channel too. The last check to run sees the last call go, in
  whatever order the goroutines' checks and removals interleave.
\<close>

theorem close_not_lost:
  assumes "cl_reach s" and "cl_threads s = {#}" and "cl_in s = 0" and "cl_out s = 0" and "cl_relay s = 0"
    and "cl_st s \<noteq> connectionActive"
  shows "cl_st s = connectionClosed \<and> cl_closes s = 1"
proof -
  note inv = cl_reach_inv [OF assms(1)]
  then have "cl_st s = connectionClosed"
    using assms(2-) by (cases "cl_st s") (auto simp: cl_inv_def cl_live_def)
  then show ?thesis using inv assms(2) by (simp add: cl_inv_def cl_won_def)
qed

theorem close_not_lost_witness: "cl_st cl_closed_state = connectionClosed \<and> cl_closes cl_closed_state = 1"
  using close_not_lost [OF cl_closed_reach] by (simp add: cl_closed_state_def cl_init_def)

text \<open>
  C8: The sequential definition of \<^verbatim>\<open>checkExchanges\<close> is what a goroutine does that is not interrupted: from the
  state of a connection the interleaved steps lead to the state of the connection that the definition returns,
  beside any other goroutines.
\<close>

theorem checkExchanges_steps:
  assumes "conn_inv c" and "checkExchanges c = Ret c'"
  shows "cl_step\<^sup>*\<^sup>* (cl_of a (add_mset CheckRead ts) c) (cl_of a ts c')"
  using check_run_steps [OF check_run_checkExchanges [OF assms, of a "{#}"], of ts]
  by (simp add: cl_of_def in_check_def)

theorem checkExchanges_steps_witness:
  "\<exists>c'. checkExchanges (new_conn\<lparr>c_state := connectionStartClose\<rparr>) = Ret c' \<and> c_state c' = connectionClosed \<and>
     cl_step\<^sup>*\<^sup>* (cl_of 0 {#CheckRead#} (new_conn\<lparr>c_state := connectionStartClose\<rparr>)) (cl_of 0 {#} c')"
proof -
  let ?c = "new_conn\<lparr>c_state := connectionStartClose\<rparr>"
  note d = new_conn_def newConnection_def co_withDefaults_def getSendBufferSize_def DefaultConnectionBufferSize_def
    newMessageExchangeSet_def Let_def
  have inv: "conn_inv ?c" by (simp add: conn_inv_def mexset_inv_def d)
  have "settled ?c = connectionClosed" by (simp add: settled_def relay_canClose_def ms_count_def d)
  then show ?thesis
    using checkExchanges_steps [OF inv checkExchanges_eq [OF inv], of 0 "{#}"] checkExchanges_eq [OF inv] by simp
qed

end
