(* ===== verification/Conn_Runs.thy ===== *)
theory Conn_Runs
  imports Calls
begin

text \<open>
  Runs of a connection: the operations that its goroutines perform, each under the locks it takes, in any
  order. The invariant of the connection holds throughout, so that no operation panics; a failure reaches
  every call; and a close ends exactly when the last exchange is gone.
\<close>

section \<open>The frame handlers keep the invariant\<close>

lemma forward_keeps:
  assumes "conn_inv c"
  shows "conn_inv (snd (forward_outbound f c))" and "conn_inv (snd (handleCallReqContinue f c))"
  using assms mexset_inv_forward [OF conn_invD(1) [OF assms], of f] mexset_inv_forward [OF conn_invD(2) [OF assms], of f]
  by (auto simp: forward_outbound_def handleCallReqContinue_def conn_inv_inbound conn_inv_outbound split: prod.splits)

lemma connectionError_False:
  assumes "conn_inv c"
  obtains e c' where "connectionError False err c = Some (Ret (e, c'))" and "conn_inv c'"
  by (rule connectionError_ok [OF assms, of False err]) (use that in auto)

lemma handlePingReq_ok:
  assumes "conn_inv c"
  obtains c' where "handlePingReq f c = Some (Ret c')" and "conn_inv c'"
proof (cases "c_state c = connectionActive")
  case False
  obtain x c' where "protocolError (fh_ID (fr_Header f)) (ErrConnNotActive ''ping on incoming'' (c_state c)) c = Ret (x, c')"
      "conn_inv c'"
    by (rule go_bindE [OF protocolError_keeps [OF assms]])
  then show ?thesis using that False by (simp add: handlePingReq_def)
next
  case True
  obtain e c1 where s: "sendMessage (PingRes (fh_ID (fr_Header f))) c = (e, c1)" by force
  then have c1: "conn_inv c1" using sendMessage_keeps(1) [OF assms] by (metis snd_conv)
  show ?thesis
  proof (cases e)
    case None
    then show ?thesis using that True s c1 by (simp add: handlePingReq_def)
  next
    case (Some err)
    obtain e2 c2 where "connectionError False err c1 = Some (Ret (e2, c2))" "conn_inv c2"
      by (rule connectionError_False [OF c1])
    then show ?thesis using that True s Some by (simp add: handlePingReq_def)
  qed
qed

lemma handleError_ok:
  assumes "conn_inv c" and "SizedPayload f \<noteq> Panic"
  shows "\<exists>rel c'. handleError f c = Some (Ret (rel, c')) \<and> conn_inv c'"
proof -
  obtain p where p: "SizedPayload f = Ret p" using assms(2) by (cases "SizedPayload f") auto
  obtain m r where m: "errorMessage_read \<lparr>em_id = fh_ID (fr_Header f), em_errCode = 0, em_tracing = emptySpan, em_message = []\<rparr>
      (NewReadBuffer p) = (m, r)" by force
  have fatal: "\<exists>e' c'. connectionError False e c = Some (Ret (e', c')) \<and> conn_inv c'" for e
    by (rule connectionError_False [OF assms(1), of e]) blast
  show ?thesis
  proof (cases "rb_err r")
    case (Some e)
    then show ?thesis using p m fatal [of e] by (auto simp: handleError_def)
  next
    case None
    then show ?thesis
      using p m fatal [of "AsSystemError (em_errCode m) (em_message m)"] forward_keeps(1) [OF assms(1), of f]
      by (cases "em_errCode m = ErrCodeProtocol"; cases "forward_outbound f c") (auto simp: handleError_def)
  qed
qed

lemma parseInboundFragment_returns:
  assumes "SizedPayload f \<noteq> Panic"
  shows "\<exists>r. parseInboundFragment k f m = Ret r"
proof (cases "SizedPayload f")
  case (Ret p)
  then show ?thesis
    by (simp add: parseInboundFragment_def Let_def case_prod_unfold split: option.split)
qed (use assms in simp)

text \<open>A request frame; nothing comes between the registration of its exchange and the second look at the state.\<close>

lemma handleCallReq_keeps:
  assumes "conn_inv c" and "SizedPayload f \<noteq> Panic"
  shows "\<exists>rel call c'. handleCallReq now base (\<lambda>c. c) f c = Ret (rel, call, c') \<and> conn_inv c'"
proof (cases "c_state c = connectionActive")
  case False
  then show ?thesis
    using SendSystemError_keeps(1) [OF assms(1)] by (auto simp: handleCallReq_def Let_def)
next
  case True
  let ?i = "fh_ID (fr_Header f)"
  obtain res msg where p: "parseInboundFragment 0 f (CallReq (newCallReq ?i)) = Ret (res, msg)"
    using parseInboundFragment_returns [OF assms(2)] by force
  show ?thesis
  proof (cases res)
    case (Inl e)
    then show ?thesis using True p assms(1) by (auto simp: handleCallReq_def Let_def)
  next
    case (Inr fragment)
    let ?ctx = "newIncomingContext now base (call_properties (as_callReq msg)) (cq_TimeToLive (as_callReq msg))"
    obtain x c1 where n: "conn_newExchange Inbound (bc_err ?ctx) DeadlineExceeded messageTypeCallReq ?i
        mexChannelBufferSize c = (x, c1)" by force
    have c1: "conn_inv c1" "c_state c1 = connectionActive"
      using conn_newExchange_keeps [OF assms(1), of Inbound "bc_err ?ctx" DeadlineExceeded messageTypeCallReq ?i mexChannelBufferSize]
        True unfolding n by simp_all
    obtain y c2 where "protocolError ?i errInboundRequestAlreadyActive c1 = Ret (y, c2)" "conn_inv c2"
      by (rule go_bindE [OF protocolError_keeps [OF c1(1)]])
    then show ?thesis
      using True p Inr n c1 by (cases x) (auto simp: handleCallReq_def Let_def)
  qed
qed

lemma handleFrameNoRelay_ok:
  assumes "conn_inv c" and "SizedPayload f \<noteq> Panic"
  shows "\<exists>rel call c'. handleFrameNoRelay now base (\<lambda>c. c) f c = Some (Ret (rel, call, c')) \<and> conn_inv c'"
proof -
  obtain c1 where c1: "handlePingReq f c = Some (Ret c1)" "conn_inv c1" by (rule handlePingReq_ok [OF assms(1)])
  obtain rel2 c2 where c2: "handleError f c = Some (Ret (rel2, c2))" "conn_inv c2" using handleError_ok [OF assms] by blast
  obtain rel3 call3 c3 where c3: "handleCallReq now base (\<lambda>c. c) f c = Ret (rel3, call3, c3)" "conn_inv c3"
    using handleCallReq_keeps [OF assms] by blast
  show ?thesis
    using forward_keeps [OF assms(1), of f] c1 c2 c3 assms(1)
    by (auto simp: handleFrameNoRelay_def handleCallRes_def handleCallResContinue_def handlePingRes_def Let_def
        split: prod.splits)
qed

section \<open>Runs\<close>

text \<open>
  The steps of the goroutines of a connection: the application closes it, network and protocol errors,
  calls that begin, end, expire or are removed, frames that arrive, control messages that are sent, frames
  that the writing goroutine takes, contexts that end, calls that receive, and the relayer's pending count.
\<close>

inductive conn_step :: "Connection \<Rightarrow> Connection \<Rightarrow> bool" where
  st_close: "conn_Close c = Ret (e, c') \<Longrightarrow> conn_step c c'"
| st_error: "connectionError self err c = Some (Ret (e, c')) \<Longrightarrow> conn_step c c'"
| st_protocol: "protocolError i err c = Ret (e, c') \<Longrightarrow> conn_step c c'"
| st_new: "conn_step c (snd (conn_newExchange d ctx ce mt i n c))"
| st_shutdown: "p < length (ms_heap (c_set d c)) \<Longrightarrow> conn_shutdown d p c = Ret c' \<Longrightarrow> conn_step c c'"
| st_remove: "conn_removeExchange d i c = Ret c' \<Longrightarrow> conn_step c c'"
| st_expired: "conn_inboundExpired p c = Ret c' \<Longrightarrow> conn_step c c'"
| st_frame: "SizedPayload f \<noteq> Panic \<Longrightarrow> handleFrameNoRelay now base (\<lambda>c. c) f c = Some (Ret (rel, call, c')) \<Longrightarrow> conn_step c c'"
| st_send: "conn_step c (snd (sendMessage msg c))"
| st_systemError: "conn_step c (snd (SendSystemError i span err c))"
| st_take: "conn_step c (c\<lparr>c_sendCh := fs\<rparr>)"
| st_exchange: "ms_step (c_set d c) ms \<Longrightarrow> conn_step c (set_c_set d ms c)"
| st_relay: "conn_step c (c\<lparr>c_relay := n\<rparr>)"
| st_network: "closeNetwork c = Some c' \<Longrightarrow> conn_step c c'"

inductive conn_reach :: "Connection \<Rightarrow> bool" where
  reach_conn: "newConnection options processName initialID relaying now pool gets = Ret c \<Longrightarrow> conn_reach c"
| reach_conn_step: "conn_reach c \<Longrightarrow> conn_step c c' \<Longrightarrow> conn_reach c'"

lemma new_connection_inv: "newConnection options processName initialID relaying now pool gets = Ret c \<Longrightarrow> conn_inv c"
  by (auto simp: newConnection_def conn_inv_def newMessageExchangeSet_def mexset_inv_def Let_def split: if_splits)

lemma connectionError_inv:
  assumes "conn_inv c" and "connectionError self err c = Some (Ret (e, c'))"
  shows "conn_inv c'" and "c_state c' = connectionClosed"
proof -
  have "\<not> (self \<and> health_running c)"
    using assms(2) stopHealthCheck_None [of self c] by (auto simp: connectionError_def)
  then obtain c'' where "connectionError self err c = Some (Ret (logConnectionError err, c''))" "conn_inv c''"
      "c_state c'' = connectionClosed"
    by (rule connectionError_ok [OF assms(1)])
  then show "conn_inv c'" "c_state c' = connectionClosed" using assms(2) by simp_all
qed

lemma closeNetwork_inv: "conn_inv c \<Longrightarrow> closeNetwork c = Some c' \<Longrightarrow> conn_inv c' \<and> c_state c' = c_state c"
  by (auto simp: closeNetwork_def stopHealthCheck_def split: option.splits if_splits)

lemma conn_step_inv:
  assumes "conn_step c c'" and "conn_inv c"
  shows "conn_inv c'"
  using assms
proof (cases rule: conn_step.cases)
  case (st_close e)
  then show ?thesis using conn_close_keeps [OF assms(2)] by (auto simp: conn_Close_def keeps_def)
next
  case (st_error self err e)
  then show ?thesis using connectionError_inv(1) [OF assms(2)] by blast
next
  case (st_protocol i err e)
  then show ?thesis using protocolError_keeps [OF assms(2), of i err] by (auto simp: keeps_def)
next
  case (st_shutdown p d)
  then show ?thesis using conn_shutdown_keeps [OF assms(2)] by (fastforce simp: keeps_def)
next
  case (st_remove d i)
  then show ?thesis using conn_removeExchange_keeps [OF assms(2), of d i] by (auto simp: keeps_def)
next
  case (st_expired p)
  then show ?thesis using conn_inboundExpired_keeps [OF assms(2), of p] by (auto simp: keeps_def)
next
  case (st_frame f now base rel call)
  then show ?thesis using handleFrameNoRelay_ok [OF assms(2) st_frame(1), of now base] by auto
next
  case (st_exchange d ms)
  then show ?thesis using conn_inv_set [OF assms(2) ms_step_inv [OF st_exchange(2) conn_inv_c_set [OF assms(2)]]] by simp
next
  case (st_new d ctx ce mt i n)
  show ?thesis unfolding st_new by (rule conn_newExchange_keeps(1) [OF assms(2)])
next
  case (st_send msg)
  show ?thesis unfolding st_send by (rule sendMessage_keeps(1) [OF assms(2)])
next
  case (st_systemError i span err)
  show ?thesis unfolding st_systemError by (rule SendSystemError_keeps(1) [OF assms(2)])
next
  case st_network
  then show ?thesis using closeNetwork_inv [OF assms(2)] by blast
qed (use assms(2) in simp_all)

lemma conn_reach_inv: "conn_reach c \<Longrightarrow> conn_inv c"
  by (induction rule: conn_reach.induct) (auto intro: new_connection_inv conn_step_inv)

text \<open>What a connection error does to the exchange sets.\<close>

lemma conn_close_sets:
  assumes "conn_inv c" and "conn_close c = Ret (e, c')"
  shows "c_inbound c' = c_inbound c" and "c_outbound c' = c_outbound c" and "c_stoppedExchanges c' = c_stoppedExchanges c"
    and "conn_inv c'"
proof -
  let ?c = "c_event OnCloseStateChange (c\<lparr>c_state := connectionStartClose\<rparr>)"
  have "conn_inv ?c" if "c_state c = connectionActive" using assms(1) that by (simp add: conn_inv_def c_event_def)
  then show "c_inbound c' = c_inbound c" "c_outbound c' = c_outbound c" "c_stoppedExchanges c' = c_stoppedExchanges c"
    using assms by (auto simp: conn_close_def go_bind_Ret_iff checkExchanges_eq c_event_def split: if_splits)
  show "conn_inv c'" using conn_close_keeps [OF assms(1)] assms(2) by (simp add: keeps_def)
qed

lemma connectionError_sets:
  assumes "conn_inv c" and "connectionError self err c = Some (Ret (e, c'))" and "\<not> c_stoppedExchanges c"
  shows "stopExchanges (logConnectionError err) (c_outbound c) = Ret (c_outbound c')"
    and "stopExchanges (logConnectionError err) (c_inbound c) = Ret (c_inbound c')"
proof -
  have "\<not> (self \<and> health_running c)"
    using assms(2) stopHealthCheck_None [of self c] by (auto simp: connectionError_def)
  then obtain h where h: "stopHealthCheck self c = Some (c\<lparr>c_health := h\<rparr>)" (is "_ = Some ?c1")
    by (rule stopHealthCheck_Some)
  obtain x c2 c3 where c: "conn_close ?c1 = Ret (x, c2)" "stop_both (logConnectionError err) c2 = Ret c3"
      "checkExchanges c3 = Ret c'"
    using assms(2) h by (auto simp: connectionError_def Let_def go_bind_Ret_iff)
  have i1: "conn_inv ?c1" using assms(1) by simp
  note c2 = conn_close_sets [OF i1 c(1)]
  have c3: "conn_inv c3" using stop_both_keeps [OF c2(4), of "logConnectionError err"] c(2) by (simp add: keeps_def)
  have "c_inbound c' = c_inbound c3" "c_outbound c' = c_outbound c3"
    using c(3) checkExchanges_eq [OF c3] by auto
  then show "stopExchanges (logConnectionError err) (c_outbound c) = Ret (c_outbound c')"
      "stopExchanges (logConnectionError err) (c_inbound c) = Ret (c_inbound c')"
    using c(2) c2 assms(3) by (auto simp: stop_both_def go_bind_Ret_iff)
qed

section \<open>A close ends when the last exchange is gone\<close>

fun run_removals :: "(set_name \<times> uint32) list \<Rightarrow> Connection \<Rightarrow> Connection go" where
  "run_removals [] c = Ret c"
| "run_removals ((d, i) # rs) c = go_bind (conn_removeExchange d i c) (\<lambda>c'. run_removals rs c')"

text \<open>What a connection that has begun to close looks like after each check.\<close>

definition closing :: "Connection \<Rightarrow> bool" where
  "closing c \<longleftrightarrow> conn_inv c \<and> c_state c \<noteq> connectionActive \<and> \<not> c_stoppedExchanges c \<and> relay_canClose c \<and>
     (c_state c = connectionStartClose \<longleftrightarrow> 0 < ms_count (c_inbound c)) \<and>
     (c_state c = connectionInboundClosed \<longleftrightarrow> ms_count (c_inbound c) = 0 \<and> 0 < ms_count (c_outbound c))"

lemma closing_settled:
  assumes "conn_inv c" and "c_state c \<noteq> connectionActive" and "\<not> c_stoppedExchanges c" and "relay_canClose c"
    and "c_state c = connectionStartClose \<or> ms_count (c_inbound c) = 0"
    and "c_state c = connectionClosed \<longrightarrow> ms_count (c_outbound c) = 0"
  shows "closing (c\<lparr>c_state := settled c, c_stopCh := (settled c = connectionClosed), c_events := ev\<rparr>)"
  using assms conn_inv_check [OF assms(1)]
  by (cases "c_state c") (auto simp: closing_def settled_def relay_canClose_def split: option.splits)

lemma conn_removeExchange_closing:
  assumes "closing c"
  shows "\<exists>c'. conn_removeExchange d i c = Ret c' \<and> closing c'"
proof -
  let ?ms = "c_set d c"
  obtain called ms where r: "removeExchange i ?ms = (called, ms)" by force
  have inv: "mexset_inv ms"
    using mexset_inv_remove [OF conn_inv_c_set [of c d], of i] assms r by (simp add: closing_def)
  have le: "ms_count ms \<le> ms_count ?ms"
    using r length_filter_le [of "\<lambda>p. fst p \<noteq> i" "ms_exchanges ?ms"]
    by (auto simp: removeExchange_def deleteExchange_def ms_count_def AList.delete_eq case_prod_unfold split: if_splits)
  let ?c = "set_c_set d ms c"
  have c: "conn_inv ?c" using assms inv by (intro conn_inv_set) (simp_all add: closing_def)
  show ?thesis
  proof (cases called)
    case False
    then have "ms = ?ms" using r by (auto simp: removeExchange_def deleteExchange_def split: if_splits)
    then have "?c = c" by (cases d) (simp_all add: set_c_set_def c_set_def)
    then show ?thesis using r False assms by (simp add: conn_removeExchange_def on_removed_def)
  next
    case True
    have "closing (?c\<lparr>c_state := settled ?c, c_stopCh := (settled ?c = connectionClosed), c_events := check_events ?c\<rparr>)"
      using assms le c
      by (intro closing_settled) (cases "c_state c"; cases d; auto simp: closing_def set_c_set_def c_set_def relay_canClose_def)+
    then show ?thesis
      using r True checkExchanges_eq [OF c] by (simp add: conn_removeExchange_def on_removed_def)
  qed
qed

lemma run_removals_closing: "closing c \<Longrightarrow> \<exists>c'. run_removals rs c = Ret c' \<and> closing c'"
proof (induction rs arbitrary: c)
  case (Cons r rs)
  obtain d i where "r = (d, i)" by force
  moreover obtain c' where "conn_removeExchange d i c = Ret c'" "closing c'"
    using conn_removeExchange_closing [OF Cons.prems] by blast
  ultimately show ?case using Cons.IH by simp
qed simp

lemma conn_Close_closing:
  assumes "conn_inv c" and "c_state c = connectionActive" and "\<not> c_stoppedExchanges c" and "relay_canClose c"
  shows "\<exists>c'. conn_Close c = Ret (None, c') \<and> closing c'"
proof -
  let ?c = "c_event OnCloseStateChange (c\<lparr>c_state := connectionStartClose\<rparr>)"
  have c: "conn_inv ?c" using assms by (simp add: conn_inv_def c_event_def)
  have "closing (?c\<lparr>c_state := settled ?c, c_stopCh := (settled ?c = connectionClosed), c_events := check_events ?c\<rparr>)"
    using assms c by (intro closing_settled) (auto simp: c_event_def relay_canClose_def)
  then show ?thesis using assms(2) checkExchanges_eq [OF c] by (auto simp: conn_Close_def conn_close_def)
qed

section \<open>Properties\<close>

text \<open>
  C9: whatever the order of the operations of a connection's goroutines, the stop channel is closed exactly when the
  connection is in the closed state and both exchange sets are in order; so neither closing the
  connection, nor an error, nor the end of a call, nor any frame with a proper payload makes it panic, and every such
  frame is handled.
\<close>

theorem conn_safe:
  assumes "conn_reach c"
  shows "conn_inv c \<and> conn_Close c \<noteq> Panic \<and> connectionError self err c \<noteq> Some Panic \<and> protocolError i err c \<noteq> Panic \<and>
    (\<forall>d p. p < length (ms_heap (c_set d c)) \<longrightarrow> conn_shutdown d p c \<noteq> Panic) \<and>
    (\<forall>f. SizedPayload f \<noteq> Panic \<longrightarrow> (\<exists>r. handleFrameNoRelay now base (\<lambda>c. c) f c = Some (Ret r)))"
proof -
  have inv: "conn_inv c" by (rule conn_reach_inv [OF assms])
  have "conn_Close c \<noteq> Panic"
    using conn_close_keeps [OF inv] by (auto simp: conn_Close_def keeps_def)
  moreover have "connectionError self err c \<noteq> Some Panic"
  proof (cases "self \<and> health_running c")
    case True
    then show ?thesis using stopHealthCheck_None [of self c] by (simp add: connectionError_def)
  next
    case False
    then show ?thesis using connectionError_ok [OF inv False, of err] by force
  qed
  moreover have "protocolError i err c \<noteq> Panic" using protocolError_keeps [OF inv, of i err] by (auto simp: keeps_def)
  moreover have "conn_shutdown d p c \<noteq> Panic" if "p < length (ms_heap (c_set d c))" for d p
    using conn_shutdown_keeps [OF inv that] by (auto simp: keeps_def)
  moreover have "\<exists>r. handleFrameNoRelay now base (\<lambda>c. c) f c = Some (Ret r)" if "SizedPayload f \<noteq> Panic" for f
    using handleFrameNoRelay_ok [OF inv that, of now base] by blast
  ultimately show ?thesis using inv by blast
qed

text \<open>
  C10: a failure of the connection reaches everyone. Unless the goroutine of the health checks reports it itself, it closes the
  connection; every registered call of both directions is notified, of this error if it had not failed
  before, and keeps the frames that had arrived for it; and no call can be added any more.
\<close>

theorem failure_reaches_all:
  assumes "conn_reach c" and "\<not> (self \<and> health_running c)" and "\<not> c_stoppedExchanges c"
    and "\<not> ms_shutdown (c_inbound c)" and "\<not> ms_shutdown (c_outbound c)"
  shows "\<exists>c'. connectionError self err c = Some (Ret (logConnectionError err, c')) \<and> c_state c' = connectionClosed \<and>
    c_stopCh c' \<and>
    (\<forall>d i p. map_of (ms_exchanges (c_set d c)) i = Some p \<longrightarrow>
      mex_errChNotified (ms_heap (c_set d c') ! p) \<and>
      (\<not> mex_errChNotified (ms_heap (c_set d c) ! p) \<longrightarrow>
        en_err (mex_errCh (ms_heap (c_set d c') ! p)) = Some (logConnectionError err)) \<and>
      mex_recvCh (ms_heap (c_set d c') ! p) = mex_recvCh (ms_heap (c_set d c) ! p)) \<and>
    (\<forall>d ctx ce t i n. fst (conn_newExchange d ctx ce t i n c') = Inl errMexSetShutdown)"
proof -
  let ?err = "logConnectionError err"
  have inv: "conn_inv c" by (rule conn_reach_inv [OF assms(1)])
  obtain c' where c': "connectionError self err c = Some (Ret (?err, c'))" "c_state c' = connectionClosed" "c_stopCh c'"
    by (rule connectionError_ok [OF inv assms(2)])
  note sets = connectionError_sets [OF inv c'(1) assms(3)]
  obtain out where out: "stopExchanges ?err (c_outbound c) = Ret out" "ms_shutdown out"
      "stopped ?err (ms_exchanges (c_outbound c)) (ms_heap (c_outbound c)) (ms_heap out)"
    by (rule stopExchanges_ok [OF conn_invD(2) [OF inv], of ?err]) (use assms(5) in blast)
  obtain inb where inb: "stopExchanges ?err (c_inbound c) = Ret inb" "ms_shutdown inb"
      "stopped ?err (ms_exchanges (c_inbound c)) (ms_heap (c_inbound c)) (ms_heap inb)"
    by (rule stopExchanges_ok [OF conn_invD(1) [OF inv], of ?err]) (use assms(4) in blast)
  have st: "stopped ?err (ms_exchanges (c_set d c)) (ms_heap (c_set d c)) (ms_heap (c_set d c')) \<and> ms_shutdown (c_set d c')" for d
    using sets out inb by (cases d) (simp_all add: c_set_def)
  have "mex_errChNotified (ms_heap (c_set d c') ! p) \<and>
      (\<not> mex_errChNotified (ms_heap (c_set d c) ! p) \<longrightarrow> en_err (mex_errCh (ms_heap (c_set d c') ! p)) = Some ?err) \<and>
      mex_recvCh (ms_heap (c_set d c') ! p) = mex_recvCh (ms_heap (c_set d c) ! p)"
    if "map_of (ms_exchanges (c_set d c)) i = Some p" for d i p
    using st [of d] map_of_SomeD [OF that] mexset_invD(1) [OF conn_inv_c_set [OF inv] that] by (auto simp: stopped_def)
  moreover have "fst (conn_newExchange d ctx ce t i n c') = Inl errMexSetShutdown" for d ctx ce t i n
    using st [of d] by (simp add: conn_newExchange_def newExchange_def addExchange_def Let_def)
  ultimately show ?thesis using c' by blast
qed

text \<open>
  C11: a close ends exactly when it should. After the application closes an active connection that does not
  relay, and whatever exchanges are then removed in whatever order, the connection is closed, with its stop
  channel closed, exactly when no exchange is left in either direction; while inbound calls are
  pending it is still starting to close, and with only outbound ones left its inbound side is closed.
\<close>

theorem close_completes:
  assumes "conn_reach c" and "c_state c = connectionActive" and "\<not> c_stoppedExchanges c" and "relay_canClose c"
  shows "\<exists>c1 c2. conn_Close c = Ret (None, c1) \<and> run_removals rs c1 = Ret c2 \<and> c_stopCh c2 = (c_state c2 = connectionClosed) \<and>
    c_state c2 = (if 0 < ms_count (c_inbound c2) then connectionStartClose
                  else if 0 < ms_count (c_outbound c2) then connectionInboundClosed else connectionClosed)"
proof -
  obtain c1 where c1: "conn_Close c = Ret (None, c1)" "closing c1"
    using conn_Close_closing [OF conn_reach_inv [OF assms(1)] assms(2-4)] by blast
  obtain c2 where c2: "run_removals rs c1 = Ret c2" "closing c2" using run_removals_closing [OF c1(2)] by blast
  have "c_stopCh c2 = (c_state c2 = connectionClosed)" using c2(2) by (simp add: closing_def conn_inv_def)
  moreover have "c_state c2 = (if 0 < ms_count (c_inbound c2) then connectionStartClose
      else if 0 < ms_count (c_outbound c2) then connectionInboundClosed else connectionClosed)"
    using c2(2) by (cases "c_state c2") (auto simp: closing_def)
  ultimately show ?thesis using c1(1) c2(1) by blast
qed

lemma sendMessage_full:
  assumes "c_sendCap c \<le> length (c_sendCh c)"
  shows "\<exists>e c'. sendMessage msg c = (Some e, c') \<and> c_health c' = c_health c"
proof -
  obtain e f where "Frame_write msg (c_pool c (c_gets c)) = (e, f)" by force
  then show ?thesis
    using assms by (cases e) (simp_all add: sendMessage_def pool_Get_def pool_Release_def Let_def)
qed

text \<open>
  C40: a health check that finds the send buffer full never returns. Its goroutine reports the error of the ping to the
  connection, which first waits for that same goroutine to end.
\<close>

theorem ping_deadlock:
  assumes "health_running c" and "c_sendCap c \<le> length (c_sendCh c)"
    and "\<not> ms_shutdown (c_outbound c)" and "map_of (ms_exchanges (c_outbound c)) (c_nextMessageID c + 1) = None"
  shows "ping True ctx ctxEnd env c = None"
proof -
  let ?i = "c_nextMessageID c + 1"
  let ?c1 = "c\<lparr>c_nextMessageID := ?i\<rparr>"
  obtain p c2 where c2: "conn_newExchange Outbound ctx ctxEnd messageTypePingReq ?i 1 ?c1 = (Inr p, c2)"
      "c_health c2 = c_health c" "c_sendCh c2 = c_sendCh c" "c_sendCap c2 = c_sendCap c" "c_pool c2 = c_pool c"
    using assms(3,4)
    by (simp add: conn_newExchange_def newExchange_def addExchange_def c_set_def set_c_set_def onExchangeAdded_def
        c_event_def Let_def)
  obtain e c3 where c3: "sendMessage (PingReq ?i) c2 = (Some e, c3)" "c_health c3 = c_health c"
    using sendMessage_full [of c2 "PingReq ?i"] assms(2) c2(2-4) by auto
  have "connectionError True e c3 = None"
    using assms(1) c3(2) stopHealthCheck_None [of True c3] by (simp add: connectionError_def)
  then show ?thesis using c2(1) c3(1) by (simp add: ping_def NextMessageID_def)
qed

lemma new_conn_reach: "conn_reach new_conn"
proof -
  have "\<exists>opts. newConnection opts [] 0 False 0 (\<lambda>_. NewFrame MaxFramePayloadSize) 0 = Ret new_conn"
    by (intro exI [of _ "\<lparr>co_SendBufferSize = 0, co_SendBufferSizeOverrides = [], co_ChecksumType = 0,
        co_HealthChecks = \<lparr>hco_Interval = 0, hco_Timeout = 0, hco_FailuresToClose = 0\<rparr>\<rparr>"])
      (simp add: new_conn_def newConnection_def co_withDefaults_def getSendBufferSize_def DefaultConnectionBufferSize_def Let_def)
  then show ?thesis by (auto intro: reach_conn)
qed

lemma new_conn_simps:
  "c_state new_conn = connectionActive" "\<not> c_stoppedExchanges new_conn" "c_inbound new_conn = newMessageExchangeSet"
  "c_outbound new_conn = newMessageExchangeSet" "c_health new_conn = None" "c_relay new_conn = None"
  by (simp_all add: new_conn_def newConnection_def co_withDefaults_def getSendBufferSize_def DefaultConnectionBufferSize_def
      hco_withDefaults_def hco_enabled_def Let_def)

theorem conn_safe_witness: "conn_inv new_conn \<and> conn_Close new_conn \<noteq> Panic"
  using conn_safe [OF new_conn_reach] by blast

text \<open>A connection with one outbound exchange, id 1.\<close>

definition calling_conn :: Connection where
  "calling_conn = snd (conn_newExchange Outbound None Canceled messageTypeCallReq 1 2 new_conn)"

lemma calling_conn_simps:
  "conn_reach calling_conn" "c_state calling_conn = connectionActive" "\<not> c_stoppedExchanges calling_conn"
  "c_health calling_conn = None" "c_relay calling_conn = None" "c_inbound calling_conn = newMessageExchangeSet"
  "ms_exchanges (c_outbound calling_conn) = [(1, 0)]" "\<not> ms_shutdown (c_outbound calling_conn)"
  "mex_errChNotified (ms_heap (c_outbound calling_conn) ! 0) = False"
  using reach_conn_step [OF new_conn_reach st_new, of Outbound None Canceled messageTypeCallReq 1 2]
  by (simp_all add: calling_conn_def conn_newExchange_def newExchange_def addExchange_def c_set_def set_c_set_def
      new_conn_simps newMessageExchangeSet_def onExchangeAdded_def c_event_def)

theorem failure_reaches_all_witness:
  "\<exists>c'. connectionError False ioEOF calling_conn = Some (Ret (logConnectionError ioEOF, c')) \<and>
    en_err (mex_errCh (ms_heap (c_outbound c') ! 0)) = Some (logConnectionError ioEOF)"
proof -
  obtain c' where c': "connectionError False ioEOF calling_conn = Some (Ret (logConnectionError ioEOF, c'))"
      "\<forall>d i p. map_of (ms_exchanges (c_set d calling_conn)) i = Some p \<longrightarrow>
        mex_errChNotified (ms_heap (c_set d c') ! p) \<and>
        (\<not> mex_errChNotified (ms_heap (c_set d calling_conn) ! p) \<longrightarrow>
          en_err (mex_errCh (ms_heap (c_set d c') ! p)) = Some (logConnectionError ioEOF)) \<and>
        mex_recvCh (ms_heap (c_set d c') ! p) = mex_recvCh (ms_heap (c_set d calling_conn) ! p)"
    using failure_reaches_all [OF calling_conn_simps(1), of False ioEOF] calling_conn_simps(3,6,8)
    by (auto simp: newMessageExchangeSet_def)
  from c'(2) [rule_format, of Outbound 1 0] c'(1) show ?thesis
    by (simp add: c_set_def calling_conn_simps)
qed

theorem close_completes_witness:
  "\<exists>c1 c2. conn_Close calling_conn = Ret (None, c1) \<and> run_removals [(Outbound, 1)] c1 = Ret c2 \<and>
    c_stopCh c2 = (c_state c2 = connectionClosed)"
  using close_completes [OF calling_conn_simps(1-3), of "[(Outbound, 1)]"] calling_conn_simps(5)
  by (auto simp: relay_canClose_def)

theorem ping_deadlock_witness:
  "ping True None Canceled (\<lambda>c. c)
     (new_conn\<lparr>c_health := Some \<lparr>hc_quit = False, hc_done = False\<rparr>, c_sendCap := 0\<rparr>) = None"
  by (rule ping_deadlock) (simp_all add: new_conn_simps newMessageExchangeSet_def)

end
