(* ===== verification/Health.thy ===== *)
theory Health
  imports Conn_Runs
begin

text \<open>
  The health checks of a connection, from \<^verbatim>\<open>health.go\<close>: the history of their results, a ring buffer, and the goroutine
  that pings the peer at every tick and closes the connection after too many consecutive failures.
\<close>

section \<open>History\<close>

definition healthHistorySize :: nat where "healthHistorySize = 256"

record healthHistory =
  hh_states :: "bool list"
  hh_insertAt :: nat
  hh_total :: nat

definition newHealthHistory :: healthHistory where
  "newHealthHistory = \<lparr>hh_states = replicate healthHistorySize False, hh_insertAt = 0, hh_total = 0\<rparr>"

definition hh_add :: "bool \<Rightarrow> healthHistory \<Rightarrow> healthHistory" where
  "hh_add b hh = \<lparr>hh_states = (hh_states hh)[hh_insertAt hh := b],
     hh_insertAt = (hh_insertAt hh + 1) mod healthHistorySize, hh_total = hh_total hh + 1\<rparr>"

definition asBools :: "healthHistory \<Rightarrow> bool list" where
  "asBools hh =
     (if hh_total hh < healthHistorySize then take (hh_total hh) (hh_states hh)
      else drop (hh_insertAt hh) (hh_states hh) @ take (hh_insertAt hh) (hh_states hh))"

text \<open>The buffer holds the last results of a history \<open>bs\<close>: entry \<open>i\<close> at position \<open>i\<close> modulo the size.\<close>

definition hh_holds :: "healthHistory \<Rightarrow> bool list \<Rightarrow> bool" where
  "hh_holds hh bs \<longleftrightarrow> length (hh_states hh) = healthHistorySize \<and> hh_total hh = length bs \<and>
     hh_insertAt hh = length bs mod healthHistorySize \<and>
     (\<forall>i < length bs. length bs \<le> i + healthHistorySize \<longrightarrow> hh_states hh ! (i mod healthHistorySize) = bs ! i)"

lemma healthHistorySize_pos [simp]: "0 < healthHistorySize"
  by (simp add: healthHistorySize_def)

lemma hh_holds_new: "hh_holds newHealthHistory []"
  by (simp add: hh_holds_def newHealthHistory_def)

lemma mod_window:
  assumes "(i::nat) < n" and "n < i + k" and "0 < k"
  shows "i mod k \<noteq> n mod k"
proof
  assume "i mod k = n mod k"
  then have "k dvd n - i" using assms(1) by (metis less_imp_le mod_eq_dvd_iff_nat)
  then show False using assms by (auto dest: dvd_imp_le)
qed

lemma hh_holds_add:
  assumes "hh_holds hh bs"
  shows "hh_holds (hh_add b hh) (bs @ [b])"
proof -
  let ?n = "length bs"
  have "(hh_states hh)[?n mod healthHistorySize := b] ! (i mod healthHistorySize) = (bs @ [b]) ! i"
    if "i < Suc ?n" "Suc ?n \<le> i + healthHistorySize" for i
  proof (cases "i = ?n")
    case False
    then have "i < ?n" "i mod healthHistorySize \<noteq> ?n mod healthHistorySize"
      using that mod_window [of i ?n healthHistorySize] by auto
    then show ?thesis using assms that by (simp add: hh_holds_def nth_append)
  qed (use assms in \<open>simp add: hh_holds_def\<close>)
  then show ?thesis using assms by (simp add: hh_holds_def hh_add_def mod_Suc_eq)
qed

lemma hh_holds_foldl: "hh_holds hh bs \<Longrightarrow> hh_holds (foldl (\<lambda>h b. hh_add b h) hh cs) (bs @ cs)"
proof (induction cs arbitrary: hh bs)
  case (Cons c cs)
  then show ?case using Cons.IH [OF hh_holds_add [OF Cons.prems, of c]] by simp
qed simp

lemma asBools_holds:
  assumes "hh_holds hh bs"
  shows "asBools hh = drop (length bs - healthHistorySize) bs"
proof (cases "length bs < healthHistorySize")
  case True
  have "take (length bs) (hh_states hh) = bs"
    using assms True by (intro nth_equalityI) (auto simp: hh_holds_def)
  then show ?thesis using True assms by (simp add: asBools_def hh_holds_def)
next
  case False
  let ?k = "healthHistorySize" and ?n = "length bs" and ?s = "hh_states hh"
  have st: "length ?s = ?k" "hh_insertAt hh = ?n mod ?k" "hh_total hh = ?n"
    and el: "\<And>i. i < ?n \<Longrightarrow> ?n \<le> i + ?k \<Longrightarrow> ?s ! (i mod ?k) = bs ! i"
    using assms by (auto simp: hh_holds_def)
  have lt: "?n mod ?k < ?k" by simp
  have "(drop (?n mod ?k) ?s @ take (?n mod ?k) ?s) ! j = drop (?n - ?k) bs ! j" if "j < ?k" for j
  proof -
    have "(drop (?n mod ?k) ?s @ take (?n mod ?k) ?s) ! j = rotate (?n mod ?k) ?s ! j"
      using lt st(1) by (simp add: rotate_drop_take)
    also have "\<dots> = ?s ! ((?n mod ?k + j) mod ?k)" using that st(1) by (simp add: nth_rotate add.commute)
    also have "(?n mod ?k + j) mod ?k = (?n - ?k + j) mod ?k"
      using False by (metis le_mod_geq leI mod_add_left_eq)
    also have "?s ! ((?n - ?k + j) mod ?k) = bs ! (?n - ?k + j)" using False that by (intro el) auto
    finally show ?thesis using False that by simp
  qed
  then show ?thesis
    using False st lt by (intro nth_equalityI) (auto simp: asBools_def)
qed

text \<open>The history holds exactly the last 256 results that were added to it, oldest first.\<close>

lemma health_history: "asBools (foldl (\<lambda>h b. hh_add b h) newHealthHistory bs) = drop (length bs - 256) bs"
  using asBools_holds [OF hh_holds_foldl [OF hh_holds_new, of bs]] by (simp add: healthHistorySize_def)

section \<open>The checking goroutine\<close>

definition ErrInvalidConnectionState :: gerror where
  "ErrInvalidConnectionState = NewSystemError ErrCodeNetwork ''connection is in an invalid state''"

text \<open>
  The goroutine waits for a tick or for its context to end. A tick carries what the other goroutines do before it
  and during its ping, and the error with which the context of the ping ends if nothing else wakes it. When no
  wake-up is left the goroutine is waiting, with its count of consecutive failures.
\<close>

datatype hc_wake =
    Tick "Connection \<Rightarrow> Connection" gerror "Connection \<Rightarrow> Connection"
  | Cancelled "Connection \<Rightarrow> Connection"

datatype hc_result = HC_waiting int | HC_stopped | HC_closed

definition hc_ctx :: "HealthCheckOptions \<Rightarrow> Connection \<Rightarrow> gerror option" where
  "hc_ctx opts c =
     (if \<exists>h. c_health c = Some h \<and> hc_quit h then Some Canceled
      else if hco_Timeout opts \<le> 0 then Some DeadlineExceeded else None)"

definition hc_return :: "Connection \<Rightarrow> Connection" where
  "hc_return c = c\<lparr>c_health := map_option (\<lambda>h. h\<lparr>hc_done := True\<rparr>) (c_health c)\<rparr>"

fun healthCheck ::
  "HealthCheckOptions \<Rightarrow> hc_wake list \<Rightarrow> int \<Rightarrow> healthHistory \<Rightarrow> Connection \<Rightarrow>
   (hc_result \<times> healthHistory \<times> Connection) go option" where
  "healthCheck opts [] consecutiveFailures hh c = Some (Ret (HC_waiting consecutiveFailures, hh, c))"
| "healthCheck opts (Cancelled before # ws) consecutiveFailures hh c = Some (Ret (HC_stopped, hh, hc_return (before c)))"
| "healthCheck opts (Tick before ctxEnd env # ws) consecutiveFailures hh c =
     (case ping True (hc_ctx opts (before c)) ctxEnd env (before c) of
        None \<Rightarrow> None
      | Some Panic \<Rightarrow> Some Panic
      | Some (Ret (err, c1)) \<Rightarrow>
          (let hh1 = hh_add (err = None) hh
           in case err of
                None \<Rightarrow> healthCheck opts ws 0 hh1 c1
              | Some e \<Rightarrow>
                  if GetSystemErrorCode (Some e) = ErrCodeCancelled \<or> e = ErrInvalidConnectionState
                  then Some (Ret (HC_stopped, hh1, hc_return c1))
                  else if consecutiveFailures + 1 \<ge> hco_FailuresToClose opts
                  then (case conn_close c1 of
                          Panic \<Rightarrow> Some Panic
                        | Ret (_, c2) \<Rightarrow> Some (Ret (HC_closed, hh1, hc_return c2)))
                  else healthCheck opts ws (consecutiveFailures + 1) hh1 c1))"

text \<open>The number of failures at the end of a sequence of results.\<close>

definition trailing :: "bool list \<Rightarrow> nat" where
  "trailing bs = length (takeWhile Not (rev bs))"

lemma trailing_simps [simp]:
  "trailing [] = 0" "trailing (bs @ [True]) = 0" "trailing (bs @ [False]) = trailing bs + 1"
  by (simp_all add: trailing_def)

text \<open>
  What a run of the goroutine says of the results \<open>bs\<close> of its pings: while it goes on, fewer than \<open>n\<close> of them
  failed in a row, and it closes the connection at the \<open>n\<close>-th.
\<close>

definition hc_run :: "nat \<Rightarrow> hc_result \<Rightarrow> bool list \<Rightarrow> bool" where
  "hc_run n r bs \<longleftrightarrow> (\<forall>k < length bs. trailing (take k bs) < n) \<and>
     (case r of HC_waiting f \<Rightarrow> f = int (trailing bs) \<and> trailing bs < n
      | HC_closed \<Rightarrow> trailing bs = n | HC_stopped \<Rightarrow> True)"

lemma conn_close_left: "conn_close c = Ret (e, c') \<Longrightarrow> c_state c' \<noteq> connectionActive"
  unfolding conn_close_def checkExchanges_def check_startClose_def check_inboundClosed_def check_finish_def close_stopCh_def
    moveState_def c_event_def Let_def
  by (auto split: if_splits simp: go_bind_Ret_iff)

lemma healthCheck_run:
  assumes "healthCheck opts ws f hh c = Some (Ret (r, hh', c'))"
    and "f = int (trailing bs)" and "trailing bs < max 1 (nat (hco_FailuresToClose opts))"
    and "\<forall>k < length bs. trailing (take k bs) < max 1 (nat (hco_FailuresToClose opts))"
  shows "\<exists>cs. hh' = foldl (\<lambda>h b. hh_add b h) hh cs \<and> hc_run (max 1 (nat (hco_FailuresToClose opts))) r (bs @ cs) \<and>
    (r = HC_closed \<longrightarrow> c_state c' \<noteq> connectionActive)"
  using assms
proof (induction opts ws f hh c arbitrary: bs rule: healthCheck.induct)
  case (1 opts f hh c)
  then show ?case by (intro exI [of _ "[]"]) (auto simp: hc_run_def)
next
  case (2 opts before ws f hh c)
  then show ?case by (intro exI [of _ "[]"]) (auto simp: hc_run_def)
next
  case (3 opts before ctxEnd env ws f hh c)
  let ?n = "max 1 (nat (hco_FailuresToClose opts))"
  obtain err c1 where pg: "ping True (hc_ctx opts (before c)) ctxEnd env (before c) = Some (Ret (err, c1))"
    using "3.prems"(1) by (auto split: option.splits go.splits)
  have tk: "\<forall>k < length (bs @ [b]). trailing (take k (bs @ [b])) < ?n" for b
    using "3.prems"(3,4) by (auto simp: less_Suc_eq)
  have lift: ?case if "hh1 = hh_add b hh" and
      "\<exists>cs. hh' = foldl (\<lambda>h b. hh_add b h) hh1 cs \<and> hc_run ?n r ((bs @ [b]) @ cs) \<and> (r = HC_closed \<longrightarrow> c_state c' \<noteq> connectionActive)"
    for hh1 b
    using that by (auto intro: exI [of _ "b # cs" for cs])
  show ?case
  proof (cases err)
    case None
    then show ?thesis
      using "3.IH"(1) [of "Ret (err, c1)" "(err, c1)" err c1 "hh_add True hh" "bs @ [True]"] pg "3.prems" tk
      by (intro lift [of "hh_add True hh" True]) auto
  next
    case (Some e)
    show ?thesis
    proof (cases "GetSystemErrorCode (Some e) = ErrCodeCancelled \<or> e = ErrInvalidConnectionState")
      case True
      then show ?thesis
        using "3.prems" pg Some tk by (intro exI [of _ "[False]"]) (auto simp: hc_run_def)
    next
      case go_on: False
      show ?thesis
      proof (cases "f + 1 \<ge> hco_FailuresToClose opts")
        case True
        then have "trailing bs + 1 = ?n" using "3.prems"(2,3) by auto
        then show ?thesis
          using "3.prems"(1) pg Some go_on True tk
          by (intro exI [of _ "[False]"]) (auto simp: hc_run_def hc_return_def split: go.splits dest: conn_close_left)
      next
        case False
        then have "trailing (bs @ [False]) < ?n" using "3.prems"(2) by auto
        then show ?thesis
          using "3.IH"(2) [of "Ret (err, c1)" "(err, c1)" err c1 "hh_add False hh" e "bs @ [False]"] pg "3.prems" tk Some go_on False
          by (intro lift [of "hh_add False hh" False]) auto
      qed
    qed
  qed
qed

section \<open>A ping is answered\<close>

lemma sendMessage_ping:
  assumes "frame_inv (c_pool c (c_gets c))" and "length (c_sendCh c) < c_sendCap c" and "m \<in> {PingReq i, PingRes i}"
  obtains f where "sendMessage m c = (None, c\<lparr>c_gets := c_gets c + 1, c_sendCh := c_sendCh c @ [f]\<rparr>)"
    and "fh_ID (fr_Header f) = i" and "fh_messageType (fr_Header f) = message_messageType m"
    and "SizedPayload f = Ret []"
proof -
  have m: "valid_message m" "length (enc_message m) \<le> MaxFramePayloadSize" using assms(3) by auto
  obtain f' where f': "Frame_write m (c_pool c (c_gets c)) = (None, f')" "SizedPayload f' = Ret (enc_message m)"
    "fr_Header f' = (fr_Header (c_pool c (c_gets c)))\<lparr>fh_size := of_nat (length (enc_message m) + 16),
           fh_messageType := message_messageType m, fh_reserved1 := 0, fh_ID := message_ID m\<rparr>"
    by (rule Frame_write_ok [OF assms(1) m])
  show ?thesis
    using assms(2,3) f' by (intro that [of f']) (auto simp: sendMessage_def pool_Get_def Let_def)
qed

text \<open>What happens at the peer \<open>s\<close> when the frame that was sent last arrives there, and its answer comes back.\<close>

definition peer_answers :: "Connection \<Rightarrow> Connection \<Rightarrow> Connection" where
  "peer_answers s c =
     (case handlePingReq (last (c_sendCh c)) s of
        Some (Ret s') \<Rightarrow> snd (handlePingRes (last (c_sendCh s')) c)
      | _ \<Rightarrow> c)"

lemma peer_answers_eq:
  assumes "c_state s = connectionActive" and "frame_inv (c_pool s (c_gets s))" and "length (c_sendCh s) < c_sendCap s"
    and "fh_ID (fr_Header (last (c_sendCh c))) = i" and "map_of (ms_exchanges (c_outbound c)) i = Some p"
    and "mex_ctx (ms_heap (c_outbound c) ! p) = None" and "mex_recvCh (ms_heap (c_outbound c) ! p) = []"
    and "0 < mex_recvCap (ms_heap (c_outbound c) ! p)"
  obtains f where "peer_answers s c = c\<lparr>c_outbound := (c_outbound c)\<lparr>ms_heap :=
      (ms_heap (c_outbound c))[p := (ms_heap (c_outbound c) ! p)\<lparr>mex_recvCh := [f]\<rparr>]\<rparr>\<rparr>"
    and "fh_ID (fr_Header f) = i" and "fh_messageType (fr_Header f) = messageTypePingRes" and "SizedPayload f = Ret []"
proof -
  obtain f where f: "sendMessage (PingRes i) s = (None, s\<lparr>c_gets := c_gets s + 1, c_sendCh := c_sendCh s @ [f]\<rparr>)"
    "fh_ID (fr_Header f) = i" "fh_messageType (fr_Header f) = message_messageType (PingRes i)" "SizedPayload f = Ret []"
    by (rule sendMessage_ping [OF assms(2,3), of "PingRes i" i]) simp_all
  have "handlePingReq (last (c_sendCh c)) s = Some (Ret (s\<lparr>c_gets := c_gets s + 1, c_sendCh := c_sendCh s @ [f]\<rparr>))"
    using assms(1,4) f(1) by (simp add: handlePingReq_def)
  then show ?thesis
    using assms(5-) f
    by (intro that [of f]) (simp_all add: peer_answers_def handlePingRes_def forward_outbound_def mexset_forwardPeerFrame_def
        mex_forwardPeerFrame_def forward_case_def forward_select_def)
qed

lemma recvMessage_ping:
  assumes "mex_ctx (ms_heap (c_outbound c) ! p) = None" and "mex_recvCh (ms_heap (c_outbound c) ! p) = [f]"
    and "fh_ID (fr_Header f) = mex_msgID (ms_heap (c_outbound c) ! p)"
    and "fh_messageType (fr_Header f) = messageTypePingRes" and "SizedPayload f = Ret []"
  shows "recvMessage (PingRes 0) p c = Ret (None, PingRes 0, pool_Release f (c\<lparr>c_outbound := (c_outbound c)\<lparr>ms_heap :=
      (ms_heap (c_outbound c))[p := (ms_heap (c_outbound c) ! p)\<lparr>mex_recvCh := []\<rparr>]\<rparr>, c_released := c_released c @ []\<rparr>))"
  using assms
  by (simp add: recvMessage_def recvPeerFrameOfType_def recvPeerFrame_def recv_case_def recv_select_def take_frame_def checkFrame_def
      Frame_read_def NewReadBuffer_def)

lemma ping_wait:
  assumes "\<not> ms_shutdown (c_outbound c)" and "map_of (ms_exchanges (c_outbound c)) i = None" and "conn_inv c"
    and "c_nextMessageID c + 1 = i" and "frame_inv (c_pool c (c_gets c))" and "length (c_sendCh c) < c_sendCap c"
  obtains f c3 p where "ping self ctx ctxEnd env c =
      Some (go_bind (recvMessage (PingRes 0) p (env c3)) (\<lambda>(err, _, c4).
        go_bind (conn_removeExchange Outbound i c4) (\<lambda>c5. Ret (err, c5))))"
    and "c_sendCh c3 = c_sendCh c @ [f]" and "fh_ID (fr_Header f) = i" and "fh_messageType (fr_Header f) = messageTypePingReq"
    and "conn_inv c3" and "p = length (ms_heap (c_outbound c))" and "c_released c3 = c_released c"
    and "ms_exchanges (c_outbound c3) = ms_exchanges (c_outbound c) @ [(i, p)]"
    and "ms_heap (c_outbound c3) = ms_heap (c_outbound c) @ [\<lparr>mex_recvCh = [], mex_recvCap = 1, mex_errCh = newErrNotifier,
           mex_ctx = ctx, mex_ctxEnd = ctxEnd, mex_msgID = i, mex_msgType = messageTypePingReq,
           mex_shutdownAtomic = False, mex_errChNotified = False\<rparr>]"
proof -
  let ?c1 = "c\<lparr>c_nextMessageID := i\<rparr>"
  let ?p = "length (ms_heap (c_outbound c))"
  obtain c2 where c2: "conn_newExchange Outbound ctx ctxEnd messageTypePingReq i 1 ?c1 = (Inr ?p, c2)"
      "c_sendCh c2 = c_sendCh c" "c_sendCap c2 = c_sendCap c" "c_pool c2 = c_pool c" "c_gets c2 = c_gets c"
      "c_released c2 = c_released c"
      "ms_exchanges (c_outbound c2) = AList.update i ?p (ms_exchanges (c_outbound c))"
      "ms_heap (c_outbound c2) = ms_heap (c_outbound c) @ [\<lparr>mex_recvCh = [], mex_recvCap = 1, mex_errCh = newErrNotifier,
           mex_ctx = ctx, mex_ctxEnd = ctxEnd, mex_msgID = i, mex_msgType = messageTypePingReq,
           mex_shutdownAtomic = False, mex_errChNotified = False\<rparr>]"
    using assms(1,2)
    by (simp add: conn_newExchange_def newExchange_def addExchange_def c_set_def set_c_set_def onExchangeAdded_def c_event_def Let_def)
  have inv2: "conn_inv c2"
    using conn_newExchange_keeps(1) [of ?c1 Outbound ctx ctxEnd messageTypePingReq i 1] assms(3) c2(1)
    by (simp add: conn_inv_def)
  have up: "AList.update i ?p (ms_exchanges (c_outbound c)) = ms_exchanges (c_outbound c) @ [(i, ?p)]"
    using assms(2,3) put_all_fresh [of "ms_exchanges (c_outbound c)" "[(i, ?p)]"]
    by (simp add: conn_inv_def mexset_inv_def map_of_eq_None_iff)
  obtain f where f: "sendMessage (PingReq i) c2 = (None, c2\<lparr>c_gets := c_gets c2 + 1, c_sendCh := c_sendCh c2 @ [f]\<rparr>)"
    "fh_ID (fr_Header f) = i" "fh_messageType (fr_Header f) = message_messageType (PingReq i)"
    using assms(5,6) c2 by (auto intro: sendMessage_ping [of c2 "PingReq i" i])
  have inv3: "conn_inv (c2\<lparr>c_gets := c_gets c2 + 1, c_sendCh := c_sendCh c2 @ [f]\<rparr>)" using inv2 by (simp add: conn_inv_def)
  have "ping self ctx ctxEnd env c =
      Some (go_bind (recvMessage (PingRes 0) ?p (env (c2\<lparr>c_gets := c_gets c2 + 1, c_sendCh := c_sendCh c2 @ [f]\<rparr>))) (\<lambda>(err, _, c4).
        go_bind (conn_removeExchange Outbound i c4) (\<lambda>c5. Ret (err, c5))))"
    using c2(1) f(1) assms(4) by (simp add: ping_def NextMessageID_def)
  from that [OF this] show ?thesis using c2 up f inv3 by simp
qed

lemma removeExchange_last:
  assumes "map_inv ex" and "map_of ex i = None" and "ms_exchanges ms = ex @ [(i, p)]"
  shows "removeExchange i ms = (True, ms\<lparr>ms_exchanges := ex\<rparr>)"
proof -
  have "AList.delete i (ex @ [(i, p)]) = ex"
    using assms(2) by (force simp: AList.delete_eq map_of_eq_None_iff filter_id_conv)
  then show ?thesis
    using assms(2,3) by (simp add: removeExchange_def deleteExchange_def)
qed

lemma conn_removeExchange_last:
  assumes "conn_inv c" and "map_of ex i = None" and "ms_exchanges (c_outbound c) = ex @ [(i, p)]"
  obtains c' where "conn_removeExchange Outbound i c = Ret c'" and "conn_inv c'" and "ms_exchanges (c_outbound c') = ex"
    and "c_sendCh c' = c_sendCh c" and "c_released c' = c_released c"
proof -
  let ?c = "c\<lparr>c_outbound := (c_outbound c)\<lparr>ms_exchanges := ex\<rparr>\<rparr>"
  have ex: "map_inv ex" using assms(1,3) by (simp add: conn_inv_def mexset_inv_def)
  have rm: "removeExchange i (c_outbound c) = (True, (c_outbound c)\<lparr>ms_exchanges := ex\<rparr>)"
    by (rule removeExchange_last [OF ex assms(2,3)])
  then have "mexset_inv ((c_outbound c)\<lparr>ms_exchanges := ex\<rparr>)"
    using mexset_inv_remove [of "c_outbound c" i] assms(1) by (simp add: conn_inv_def)
  then have inv: "conn_inv ?c" using assms(1) by (simp add: conn_inv_def)
  have "conn_removeExchange Outbound i c = checkExchanges ?c"
    by (simp add: conn_removeExchange_def on_removed_def c_set_def set_c_set_def rm)
  then have eq: "conn_removeExchange Outbound i c =
      Ret (?c\<lparr>c_state := settled ?c, c_stopCh := (settled ?c = connectionClosed), c_events := check_events ?c\<rparr>)"
    using checkExchanges_eq [OF inv] by simp
  show ?thesis
    using conn_removeExchange_keeps [OF assms(1), of Outbound i] by (intro that [OF eq]) (simp_all add: eq keeps_def)
qed

text \<open>
  C35: A ping is answered. When the peer's connection is active and neither send channel is full, the pinging goroutine's
  frame makes the peer send a response that reaches exactly this ping: it returns without an error, gives the
  response frame back to the pool, and leaves no exchange behind.
\<close>

theorem ping_answered:
  assumes "conn_inv c" and "\<not> ms_shutdown (c_outbound c)"
    and "map_of (ms_exchanges (c_outbound c)) (c_nextMessageID c + 1) = None"
    and "frame_inv (c_pool c (c_gets c))" and "length (c_sendCh c) < c_sendCap c"
    and "c_state s = connectionActive" and "frame_inv (c_pool s (c_gets s))" and "length (c_sendCh s) < c_sendCap s"
  shows "\<exists>c' req res. ping self None ctxEnd (peer_answers s) c = Some (Ret (None, c')) \<and>
    c_sendCh c' = c_sendCh c @ [req] \<and> fh_messageType (fr_Header req) = messageTypePingReq \<and>
    c_released c' = c_released c @ [res] \<and> fh_messageType (fr_Header res) = messageTypePingRes \<and>
    fh_ID (fr_Header req) = fh_ID (fr_Header res) \<and> ms_exchanges (c_outbound c') = ms_exchanges (c_outbound c) \<and> conn_inv c'"
proof -
  let ?i = "c_nextMessageID c + 1" and ?p = "length (ms_heap (c_outbound c))" and ?h = "ms_heap (c_outbound c)"
  let ?m = "\<lparr>mex_recvCh = [], mex_recvCap = 1, mex_errCh = newErrNotifier, mex_ctx = None, mex_ctxEnd = ctxEnd, mex_msgID = ?i,
    mex_msgType = messageTypePingReq, mex_shutdownAtomic = False, mex_errChNotified = False\<rparr>"
  obtain req c3 where c3: "ping self None ctxEnd (peer_answers s) c =
      Some (go_bind (recvMessage (PingRes 0) ?p (peer_answers s c3)) (\<lambda>(err, _, c4).
        go_bind (conn_removeExchange Outbound ?i c4) (\<lambda>c5. Ret (err, c5))))"
    "c_sendCh c3 = c_sendCh c @ [req]" "fh_ID (fr_Header req) = ?i" "fh_messageType (fr_Header req) = messageTypePingReq"
    "conn_inv c3" "c_released c3 = c_released c" "ms_exchanges (c_outbound c3) = ms_exchanges (c_outbound c) @ [(?i, ?p)]"
    "ms_heap (c_outbound c3) = ?h @ [?m]"
    by (rule ping_wait [OF assms(2,3,1) refl assms(4,5), of self None ctxEnd "peer_answers s"]) (rule that, simp_all)
  have mp: "map_of (ms_exchanges (c_outbound c3)) ?i = Some ?p"
    using assms(3) unfolding c3(7) by (simp add: map_add_def)
  obtain res where res: "peer_answers s c3 = c3\<lparr>c_outbound := (c_outbound c3)\<lparr>ms_heap := ?h @ [?m\<lparr>mex_recvCh := [res]\<rparr>]\<rparr>\<rparr>"
    "fh_ID (fr_Header res) = ?i" "fh_messageType (fr_Header res) = messageTypePingRes" "SizedPayload res = Ret []"
    by (rule peer_answers_eq [OF assms(6-8) _ mp]) (use c3 that in simp_all)
  let ?c4 = "pool_Release res (c3\<lparr>c_outbound := (c_outbound c3)\<lparr>ms_heap := ?h @ [?m]\<rparr>\<rparr>)"
  have rc: "recvMessage (PingRes 0) ?p (peer_answers s c3) = Ret (None, PingRes 0, ?c4)"
    unfolding res(1) using res(2-4) by (subst recvMessage_ping) simp_all
  have inv4: "conn_inv ?c4"
    using c3(5) by (simp add: pool_Release_def conn_inv_def mexset_inv_def c3(8))
  have ex4: "ms_exchanges (c_outbound ?c4) = ms_exchanges (c_outbound c) @ [(?i, ?p)]" by (simp add: pool_Release_def c3(7))
  obtain c5 where "conn_removeExchange Outbound ?i ?c4 = Ret c5" "conn_inv c5" "ms_exchanges (c_outbound c5) = ms_exchanges (c_outbound c)"
      "c_sendCh c5 = c_sendCh ?c4" "c_released c5 = c_released ?c4"
    by (rule conn_removeExchange_last [OF inv4 assms(3) ex4])
  then show ?thesis
    using c3(1,2,3,4,6) rc res(2,3) by (simp add: pool_Release_def)
qed

theorem ping_answered_witness:
  "\<exists>c' req res. ping True None DeadlineExceeded (peer_answers new_conn) new_conn = Some (Ret (None, c')) \<and>
    c_sendCh c' = [req] \<and> c_released c' = [res] \<and> fh_ID (fr_Header req) = fh_ID (fr_Header res) \<and> ms_exchanges (c_outbound c') = []"
proof -
  have n: "frame_inv (c_pool new_conn (c_gets new_conn))" "length (c_sendCh new_conn) < c_sendCap new_conn"
      "c_sendCh new_conn = []" "c_released new_conn = []"
    by (simp_all add: new_conn_def newConnection_def co_withDefaults_def getSendBufferSize_def DefaultConnectionBufferSize_def
        hco_withDefaults_def hco_enabled_def Let_def frame_inv_New)
  have "\<not> ms_shutdown (c_outbound new_conn)" "map_of (ms_exchanges (c_outbound new_conn)) (c_nextMessageID new_conn + 1) = None"
      "c_state new_conn = connectionActive" "ms_exchanges (c_outbound new_conn) = []"
    by (simp_all add: new_conn_simps newMessageExchangeSet_def)
  from ping_answered [OF conn_reach_inv [OF new_conn_reach] this(1,2) n(1,2) this(3) n(1,2), of True DeadlineExceeded] this(4) n(3,4)
  show ?thesis by auto
qed

text \<open>
  C34: The health checks close a connection for the reason they are meant to. The history records the result of every
  ping; while the goroutine goes on, fewer than the configured number of pings (one at the least) failed in a
  row, its counter is the number of failures since the last success, and it closes the connection exactly
  when that number is reached.
\<close>

theorem health_check_closes:
  assumes "healthCheck opts ws 0 newHealthHistory c = Some (Ret (r, hh, c'))"
  shows "\<exists>bs. asBools hh = drop (length bs - 256) bs \<and>
    hc_run (max 1 (nat (hco_FailuresToClose opts))) r bs \<and> (r = HC_closed \<longrightarrow> c_state c' \<noteq> connectionActive)"
proof -
  obtain bs where bs: "hh = foldl (\<lambda>h b. hh_add b h) newHealthHistory bs"
      "hc_run (max 1 (nat (hco_FailuresToClose opts))) r bs" "r = HC_closed \<longrightarrow> c_state c' \<noteq> connectionActive"
    using healthCheck_run [OF assms, of "[]"] by (auto simp: less_max_iff_disj)
  then have "asBools hh = drop (length bs - 256) bs"
    using asBools_holds [OF hh_holds_foldl [OF hh_holds_new, of bs]] by (simp add: healthHistorySize_def)
  with bs show ?thesis by blast
qed

text \<open>The witness: the peer does not answer, and one failure is enough.\<close>

definition one_failure :: HealthCheckOptions where
  "one_failure = \<lparr>hco_Interval = 1, hco_Timeout = 1, hco_FailuresToClose = 1\<rparr>"

lemma ping_unanswered:
  assumes "conn_inv c" and "\<not> ms_shutdown (c_outbound c)" and "map_of (ms_exchanges (c_outbound c)) (c_nextMessageID c + 1) = None"
    and "frame_inv (c_pool c (c_gets c))" and "length (c_sendCh c) < c_sendCap c"
  shows "\<exists>c'. ping self None DeadlineExceeded (\<lambda>c. c) c = Some (Ret (Some ErrTimeout, c')) \<and> conn_inv c'"
proof -
  let ?i = "c_nextMessageID c + 1" and ?p = "length (ms_heap (c_outbound c))"
  obtain f c3 p where c3: "ping self None DeadlineExceeded (\<lambda>c. c) c =
      Some (go_bind (recvMessage (PingRes 0) p c3) (\<lambda>(err, _, c4). go_bind (conn_removeExchange Outbound ?i c4) (\<lambda>c5. Ret (err, c5))))"
    "c_sendCh c3 = c_sendCh c @ [f]" "conn_inv c3" "p = ?p" "ms_heap (c_outbound c3) = ms_heap (c_outbound c) @ [\<lparr>mex_recvCh = [], mex_recvCap = 1, mex_errCh = newErrNotifier,
           mex_ctx = None, mex_ctxEnd = DeadlineExceeded, mex_msgID = ?i, mex_msgType = messageTypePingReq,
           mex_shutdownAtomic = False, mex_errChNotified = False\<rparr>]"
    by (rule ping_wait [OF assms(2,3,1) refl assms(4,5), of self None DeadlineExceeded "\<lambda>c. c"]) (rule that, simp_all)
  let ?m = "\<lparr>mex_recvCh = [], mex_recvCap = 1, mex_errCh = newErrNotifier, mex_ctx = Some DeadlineExceeded,
    mex_ctxEnd = DeadlineExceeded, mex_msgID = ?i, mex_msgType = messageTypePingReq, mex_shutdownAtomic = False, mex_errChNotified = False\<rparr>"
  let ?c4 = "c3\<lparr>c_outbound := (c_outbound c3)\<lparr>ms_heap := ms_heap (c_outbound c) @ [?m]\<rparr>, c_released := c_released c3 @ []\<rparr>"
  have rc: "recvMessage (PingRes 0) p c3 = Ret (Some ErrTimeout, PingRes 0, ?c4)"
    by (simp add: recvMessage_def recvPeerFrameOfType_def recvPeerFrame_def recv_case_def recv_select_def take_frame_def newErrNotifier_def
        c3(4,5) ErrTimeout_def NewSystemError_def GetContextError_def)
  have ok: "mex_ok ?m" by (simp add: mex_ok_def newErrNotifier_def)
  then have "mexset_inv ((c_outbound c3)\<lparr>ms_heap := ms_heap (c_outbound c) @ [?m]\<rparr>)"
    using c3(3) c3(5) by (fastforce simp: conn_inv_def mexset_inv_def nth_append less_Suc_eq)
  then have "conn_inv ?c4" using c3(3) by (simp add: conn_inv_def)
  then show ?thesis
    using c3(1) rc conn_removeExchange_keeps [of ?c4 Outbound ?i] by (auto simp: keeps_def)
qed

lemma one_failure_run:
  "\<exists>hh c'. healthCheck one_failure [Tick (\<lambda>c. c) DeadlineExceeded (\<lambda>c. c)] 0 newHealthHistory new_conn = Some (Ret (HC_closed, hh, c'))"
proof -
  note d = new_conn_def newConnection_def co_withDefaults_def getSendBufferSize_def DefaultConnectionBufferSize_def
        hco_withDefaults_def hco_enabled_def Let_def
  have n: "frame_inv (c_pool new_conn (c_gets new_conn))" "length (c_sendCh new_conn) < c_sendCap new_conn"
    by (simp_all add: d frame_inv_New)
  have n2: "\<not> ms_shutdown (c_outbound new_conn)" "map_of (ms_exchanges (c_outbound new_conn)) (c_nextMessageID new_conn + 1) = None"
    by (simp_all add: new_conn_simps newMessageExchangeSet_def)
  obtain c1 where p: "ping True None DeadlineExceeded (\<lambda>c. c) new_conn = Some (Ret (Some ErrTimeout, c1))" "conn_inv c1"
    using ping_unanswered [OF conn_reach_inv [OF new_conn_reach] n2 n] by blast
  obtain e c2 where c2: "conn_close c1 = Ret (e, c2)"
    using conn_close_keeps [OF p(2)] by (cases "conn_close c1") (auto simp: keeps_def)
  have "GetSystemErrorCode (Some ErrTimeout) \<noteq> ErrCodeCancelled" "ErrTimeout \<noteq> ErrInvalidConnectionState"
    by (simp_all add: ErrTimeout_def ErrInvalidConnectionState_def NewSystemError_def)
  moreover have "hc_ctx one_failure new_conn = None" by (simp add: hc_ctx_def one_failure_def new_conn_simps)
  ultimately show ?thesis using p(1) c2 by (simp add: one_failure_def)
qed

theorem health_check_closes_witness: "\<exists>hh c' bs. healthCheck one_failure [Tick (\<lambda>c. c) DeadlineExceeded (\<lambda>c. c)] 0 newHealthHistory new_conn =
    Some (Ret (HC_closed, hh, c')) \<and> asBools hh = drop (length bs - 256) bs \<and> hc_run 1 HC_closed bs \<and> c_state c' \<noteq> connectionActive"
proof -
  obtain hh c' where run: "healthCheck one_failure [Tick (\<lambda>c. c) DeadlineExceeded (\<lambda>c. c)] 0 newHealthHistory new_conn =
      Some (Ret (HC_closed, hh, c'))" using one_failure_run by blast
  have "max 1 (nat (hco_FailuresToClose one_failure)) = 1" by (simp add: one_failure_def)
  then show ?thesis using run health_check_closes [OF run] by metis
qed

end
