(* ===== verification/Relay_Messages.thy ===== *)
theory Relay_Messages
  imports Calls
begin

text \<open>
  What a relay reads of the frames it forwards, from \<^verbatim>\<open>relay_messages.go\<close>: the lazily parsed call request and call
  response, and the flags that say whether a frame ends a call. The lazy parsers agree with the parsers of the
  end points on every frame that they accept. Indexing a payload beyond its end panics.
\<close>

section \<open>Bytes of a payload\<close>

definition flagsIndex :: nat where [simp]: "flagsIndex = 0"
definition ttlIndex :: nat where [simp]: "ttlIndex = 1"
definition ttlLen :: nat where [simp]: "ttlLen = 4"
definition serviceLenIndex :: nat where [simp]: "serviceLenIndex = 30"
definition serviceNameIndex :: nat where [simp]: "serviceNameIndex = 31"
definition resCodeOK :: byte where [simp]: "resCodeOK = 0x00"
definition resCodeIndex :: nat where [simp]: "resCodeIndex = 1"
definition errCodeIndex :: nat where [simp]: "errCodeIndex = 0"

definition payload_at :: "nat \<Rightarrow> Frame \<Rightarrow> byte go" where
  "payload_at i f = (if i < length (fr_Payload f) then Ret (fr_Payload f ! i) else Panic)"

definition subslice :: "nat \<Rightarrow> nat \<Rightarrow> byte list \<Rightarrow> byte list go" where
  "subslice a b p = (if a \<le> b \<and> b \<le> length p then Ret (take (b - a) (drop a p)) else Panic)"

definition opt_bytes :: "byte list option \<Rightarrow> byte list" where
  "opt_bytes b = (case b of Some bs \<Rightarrow> bs | None \<Rightarrow> [])"

section \<open>Errors and flags\<close>

definition lazyError_Code :: "Frame \<Rightarrow> SystemErrCode go" where
  "lazyError_Code f =
     (if fh_messageType (fr_Header f) \<noteq> messageTypeError then Panic else payload_at errCodeIndex f)"

definition isCallResOK :: "Frame \<Rightarrow> bool go" where
  "isCallResOK f = go_bind (payload_at resCodeIndex f) (\<lambda>b. Ret (b = resCodeOK))"

definition hasMoreFragments :: "Frame \<Rightarrow> bool go" where
  "hasMoreFragments f = go_bind (payload_at flagsIndex f) (\<lambda>b. Ret (b AND hasMoreFragmentsFlag \<noteq> 0))"

definition finishesCall :: "Frame \<Rightarrow> bool go" where
  "finishesCall f =
     (let t = Frame_messageType f
      in if t = messageTypeError then Ret True
         else if t = messageTypeCallRes \<or> t = messageTypeCallResContinue
         then go_bind (payload_at flagsIndex f) (\<lambda>flags. Ret (flags AND hasMoreFragmentsFlag = 0))
         else Ret False)"

section \<open>Call responses\<close>

record lazyCallRes =
  ls_Frame :: Frame
  ls_as :: "byte list"
  ls_arg2IsFragmented :: bool
  ls_arg2Payload :: "byte list"

fun lazyRes_headers :: "nat \<Rightarrow> byte list \<Rightarrow> ReadBuffer \<Rightarrow> byte list \<times> ReadBuffer" where
  "lazyRes_headers 0 as r = (as, r)"
| "lazyRes_headers (Suc n) as r =
     (let (keyLen, r1) = ReadSingleByte r;
          (key, r2) = ReadBytes (unat keyLen) r1;
          (valLen, r3) = ReadSingleByte r2;
          (val, r4) = ReadBytes (unat valLen) r3
      in lazyRes_headers n (if opt_bytes key = bytes_of_string ArgScheme then opt_bytes val else as) r4)"

definition newLazyCallRes :: "Frame \<Rightarrow> (gerror + lazyCallRes) go" where
  "newLazyCallRes f =
     (if fh_messageType (fr_Header f) \<noteq> messageTypeCallRes then Panic
      else
        go_bind (SizedPayload f) (\<lambda>p.
          (let r0 = SkipBytes spanLength (SkipBytes 1 (SkipBytes 1 (NewReadBuffer p)));
               (nh, r1) = ReadSingleByte r0;
               (as, r2) = lazyRes_headers (unat nh) [] r1;
               (csumtype, r3) = ReadSingleByte r2
           in if \<not> ChecksumType_valid csumtype then Ret (Inl errInvalidChecksumType)
              else
                (let r4 = SkipBytes (ChecksumSize csumtype) r3;
                     (narg1, r5) = ReadUint16 r4;
                     r6 = SkipBytes (unat narg1) r5;
                     (narg2, r7) = ReadUint16 r6;
                     (arg2Payload, r8) = ReadBytes (unat narg2) r7
                 in go_bind (if rb_BytesRemaining r8 = 0 then hasMoreFragments f else Ret False) (\<lambda>arg2IsFragmented.
                      case rb_err r8 of
                        Some err \<Rightarrow> Ret (Inl (ErrorString (''read response frame: '' @ Error err)))
                      | None \<Rightarrow>
                          Ret (Inr \<lparr>ls_Frame = f, ls_as = as, ls_arg2IsFragmented = arg2IsFragmented,
                                    ls_arg2Payload = opt_bytes arg2Payload\<rparr>))))))"

definition lazyCallRes_OK :: "lazyCallRes \<Rightarrow> bool go" where
  "lazyCallRes_OK cr = isCallResOK (ls_Frame cr)"

section \<open>Call requests\<close>

record lazyCallReq =
  lr_Frame :: Frame
  lr_checksumTypeOffset :: uint16
  lr_arg2StartOffset :: uint16
  lr_arg2EndOffset :: uint16
  lr_arg3StartOffset :: uint16
  lr_caller :: "byte list"
  lr_method :: "byte list"
  lr_delegate :: "byte list"
  lr_key :: "byte list"
  lr_as :: "byte list"
  lr_arg2Appends :: "(byte list \<times> byte list) list"
  lr_checksumType :: ChecksumType
  lr_isArg2Fragmented :: bool

definition lazyCallReq_of :: "Frame \<Rightarrow> lazyCallReq" where
  "lazyCallReq_of f =
     \<lparr>lr_Frame = f, lr_checksumTypeOffset = 0, lr_arg2StartOffset = 0, lr_arg2EndOffset = 0, lr_arg3StartOffset = 0,
      lr_caller = [], lr_method = [], lr_delegate = [], lr_key = [], lr_as = [], lr_arg2Appends = [],
      lr_checksumType = 0, lr_isArg2Fragmented = False\<rparr>"

definition lazyReq_header :: "byte list \<Rightarrow> byte list \<Rightarrow> lazyCallReq \<Rightarrow> lazyCallReq" where
  "lazyReq_header key val cr =
     (if key = bytes_of_string ArgScheme then cr\<lparr>lr_as := val\<rparr>
      else if key = bytes_of_string CallerName then cr\<lparr>lr_caller := val\<rparr>
      else if key = bytes_of_string RoutingDelegate then cr\<lparr>lr_delegate := val\<rparr>
      else if key = bytes_of_string RoutingKey then cr\<lparr>lr_key := val\<rparr>
      else cr)"

fun lazyReq_headers :: "nat \<Rightarrow> lazyCallReq \<Rightarrow> ReadBuffer \<Rightarrow> lazyCallReq \<times> ReadBuffer" where
  "lazyReq_headers 0 cr r = (cr, r)"
| "lazyReq_headers (Suc n) cr r =
     (let (keyLen, r1) = ReadSingleByte r;
          (key, r2) = ReadBytes (unat keyLen) r1;
          (valLen, r3) = ReadSingleByte r2;
          (val, r4) = ReadBytes (unat valLen) r3
      in lazyReq_headers n (lazyReq_header (opt_bytes key) (opt_bytes val) cr) r4)"

definition newLazyCallReq :: "Frame \<Rightarrow> (gerror + lazyCallReq) go" where
  "newLazyCallReq f =
     (if fh_messageType (fr_Header f) \<noteq> messageTypeCallReq then Panic
      else
        go_bind (SizedPayload f) (\<lambda>p.
          (let r0 = SkipBytes serviceLenIndex (NewReadBuffer p);
               (serviceLen, r1) = ReadSingleByte r0;
               r2 = SkipBytes (unat serviceLen) r1;
               (numHeaders, r3) = ReadSingleByte r2;
               (cr, r4) = lazyReq_headers (unat numHeaders) (lazyCallReq_of f) r3;
               (checksumType, r5) = ReadSingleByte r4;
               cr1 = cr\<lparr>lr_checksumTypeOffset := of_nat (BytesRead r4), lr_checksumType := checksumType\<rparr>
           in if \<not> ChecksumType_valid checksumType then Ret (Inl errInvalidChecksumType)
              else
                (let r6 = SkipBytes (ChecksumSize checksumType) r5;
                     (arg1Len, r7) = ReadUint16 r6;
                     (method, r8) = ReadBytes (unat arg1Len) r7;
                     (arg2Len, r9) = ReadUint16 r8;
                     start = of_nat (BytesRead r9);
                     r10 = SkipBytes (unat arg2Len) r9
                 in go_bind (if rb_BytesRemaining r10 = 0 then hasMoreFragments f else Ret False) (\<lambda>fragmented.
                      (let r11 = (if fragmented then r10 else SkipBytes 2 r10);
                           cr2 = cr1\<lparr>lr_method := opt_bytes method, lr_arg2StartOffset := start,
                                     lr_arg2EndOffset := start + arg2Len, lr_isArg2Fragmented := fragmented,
                                     lr_arg3StartOffset := (if fragmented then 0 else of_nat (BytesRead r11))\<rparr>
                       in case rb_err r11 of
                            Some err \<Rightarrow> Ret (Inl err)
                          | None \<Rightarrow> Ret (Inr cr2)))))))"

definition lazyReq_Service :: "lazyCallReq \<Rightarrow> byte list go" where
  "lazyReq_Service cr =
     go_bind (payload_at serviceLenIndex (lr_Frame cr)) (\<lambda>l.
       subslice serviceNameIndex (serviceNameIndex + unat l) (fr_Payload (lr_Frame cr)))"

definition lazyReq_TTL :: "lazyCallReq \<Rightarrow> duration go" where
  "lazyReq_TTL cr =
     go_bind (subslice ttlIndex (ttlIndex + ttlLen) (fr_Payload (lr_Frame cr))) (\<lambda>b.
       Ret (uint (Uint32 b) * Millisecond))"

definition lazyReq_SetTTL :: "duration \<Rightarrow> lazyCallReq \<Rightarrow> lazyCallReq go" where
  "lazyReq_SetTTL d cr =
     (let p = fr_Payload (lr_Frame cr)
      in if ttlIndex + ttlLen \<le> length p
         then Ret (cr\<lparr>lr_Frame := set_Payload (copy_at ttlIndex (PutUint32 (of_int (d sdiv Millisecond))) p) (lr_Frame cr)\<rparr>)
         else Panic)"

definition lazyReq_Span :: "lazyCallReq \<Rightarrow> Span" where
  "lazyReq_Span cr = callReqSpan (lr_Frame cr)"

definition lazyReq_HasMoreFragments :: "lazyCallReq \<Rightarrow> bool go" where
  "lazyReq_HasMoreFragments cr =
     go_bind (payload_at flagsIndex (lr_Frame cr)) (\<lambda>b. Ret (b AND hasMoreFragmentsFlag \<noteq> 0))"

definition lazyReq_arg2 :: "lazyCallReq \<Rightarrow> byte list go" where
  "lazyReq_arg2 cr = subslice (unat (lr_arg2StartOffset cr)) (unat (lr_arg2EndOffset cr)) (fr_Payload (lr_Frame cr))"

definition lazyReq_arg3 :: "lazyCallReq \<Rightarrow> byte list go" where
  "lazyReq_arg3 cr = go_bind (SizedPayload (lr_Frame cr)) (\<lambda>p. subslice (unat (lr_arg3StartOffset cr)) (length p) p)"

definition lazyReq_Arg2Append :: "byte list \<Rightarrow> byte list \<Rightarrow> lazyCallReq \<Rightarrow> lazyCallReq" where
  "lazyReq_Arg2Append key val cr = cr\<lparr>lr_arg2Appends := lr_arg2Appends cr @ [(key, val)]\<rparr>"

section \<open>Reading at an offset\<close>

text \<open>The reader of a payload after \<open>k\<close> bytes without an error; a read that goes too far leaves an error for good.\<close>

definition rb_at :: "byte list \<Rightarrow> nat \<Rightarrow> ReadBuffer" where
  "rb_at p k = \<lparr>rb_initialLength = length p, rb_remaining = drop k p, rb_err = None\<rparr>"

lemma rb_at_simps [simp]:
  "rb_err (rb_at p k) = None" "rb_remaining (rb_at p k) = drop k p"
  "k \<le> length p \<Longrightarrow> BytesRead (rb_at p k) = k" "rb_BytesRemaining (rb_at p k) = length p - k"
  by (auto simp: rb_at_def BytesRead_def rb_BytesRemaining_def Remaining_def)

lemma NewReadBuffer_at: "NewReadBuffer p = rb_at p 0"
  by (simp add: NewReadBuffer_def rb_at_def)

lemma ReadBytes_at:
  "ReadBytes n (rb_at p k) =
     (if n \<le> length p - k then (Some (take n (drop k p)), rb_at p (k + n)) else (None, (rb_at p k)\<lparr>rb_err := Some ErrEOF\<rparr>))"
  by (auto simp: ReadBytes_def rb_at_def drop_drop add.commute)

text \<open>A read succeeds when no error is left after it, and then it has only moved on.\<close>

lemma ReadBytes_okE:
  assumes "rb_err (snd (ReadBytes n r)) = None"
  shows "rb_err r = None" and "n \<le> length (rb_remaining r)"
  using assms by (auto simp: ReadBytes_def split: option.splits if_splits)

lemma ReadBytes_at_ok:
  assumes "rb_err (snd (ReadBytes n (rb_at p k))) = None"
  shows "ReadBytes n (rb_at p k) = (Some (take n (drop k p)), rb_at p (k + n))" and "n \<le> length p - k"
  using assms by (auto simp: ReadBytes_at split: if_splits)

lemma read_err_mono:
  "rb_err (SkipBytes n r) = None \<Longrightarrow> rb_err r = None"
  "rb_err (snd (ReadSingleByte r)) = None \<Longrightarrow> rb_err r = None"
  "rb_err (snd (ReadUint16 r)) = None \<Longrightarrow> rb_err r = None"
  using ReadBytes_okE(1) [of n r] ReadBytes_okE(1) [of 1 r] ReadBytes_okE(1) [of 2 r]
  by (auto simp: SkipBytes_ReadBytes ReadSingleByte_ReadBytes ReadUint16_def split: prod.splits option.splits)

lemma SkipBytes_at_ok:
  assumes "rb_err (SkipBytes n (rb_at p k)) = None"
  shows "SkipBytes n (rb_at p k) = rb_at p (k + n)" and "n \<le> length p - k"
  using assms by (auto simp: SkipBytes_ReadBytes ReadBytes_at split: if_splits)

lemma ReadSingleByte_at_ok:
  assumes "rb_err (snd (ReadSingleByte (rb_at p k))) = None"
  shows "ReadSingleByte (rb_at p k) = (p ! k, rb_at p (Suc k))" and "k < length p"
  using assms by (auto simp: ReadSingleByte_ReadBytes ReadBytes_at take_Suc_conv_app_nth hd_drop_conv_nth split: if_splits)

lemma ReadUint16_at_ok:
  assumes "rb_err (snd (ReadUint16 (rb_at p k))) = None"
  shows "ReadUint16 (rb_at p k) = (Uint16 (take 2 (drop k p)), rb_at p (k + 2))" and "2 \<le> length p - k"
  using assms by (auto simp: ReadUint16_def ReadBytes_at split: if_splits)

section \<open>The headers\<close>

text \<open>
  A length-prefixed string, and the key and the value that the lazy parser reads, are the same bytes; so the lazy
  loops and the loop of the end points leave the same reader and find the same values, of which the last one counts.
\<close>

lemma ReadLen8String_bytes:
  "ReadLen8String r = (let (n, r1) = ReadSingleByte r; (b, r2) = ReadBytes (unat n) r1 in (string_of_bytes (opt_bytes b), r2))"
  by (auto simp: ReadLen8String_def ReadString_def opt_bytes_def Let_def split: prod.splits option.splits)

lemma bytes_eq_string: "b = bytes_of_string s \<longleftrightarrow> string_of_bytes b = s"
  by auto

definition header_bytes :: "string \<Rightarrow> transportHeaders \<Rightarrow> byte list" where
  "header_bytes k hs = (case map_of hs k of Some v \<Rightarrow> bytes_of_string v | None \<Rightarrow> [])"

lemma header_bytes_update:
  "header_bytes k (AList.update k' v hs) = (if k' = k then bytes_of_string v else header_bytes k hs)"
  by (simp add: header_bytes_def update_conv')

lemma lazyRes_headers_agree:
  "as = header_bytes ArgScheme hs \<Longrightarrow>
   lazyRes_headers n as r = (header_bytes ArgScheme (fst (headers_loop n hs r)), snd (headers_loop n hs r))"
proof (induction n arbitrary: as hs r)
  case (Suc n)
  obtain kl r1 where 1: "ReadSingleByte r = (kl, r1)" by force
  obtain key r2 where 2: "ReadBytes (unat kl) r1 = (key, r2)" by force
  obtain vl r3 where 3: "ReadSingleByte r2 = (vl, r3)" by force
  obtain val r4 where 4: "ReadBytes (unat vl) r3 = (val, r4)" by force
  have "(if opt_bytes key = bytes_of_string ArgScheme then opt_bytes val else as) =
      header_bytes ArgScheme (AList.update (string_of_bytes (opt_bytes key)) (string_of_bytes (opt_bytes val)) hs)"
    using Suc.prems by (simp add: header_bytes_update bytes_eq_string)
  from Suc.IH [OF this] show ?case by (simp add: ReadLen8String_bytes 1 2 3 4)
qed simp

definition lr_headers :: "transportHeaders \<Rightarrow> lazyCallReq \<Rightarrow> bool" where
  "lr_headers hs cr \<longleftrightarrow> lr_as cr = header_bytes ArgScheme hs \<and> lr_caller cr = header_bytes CallerName hs \<and>
     lr_delegate cr = header_bytes RoutingDelegate hs \<and> lr_key cr = header_bytes RoutingKey hs"

lemma lazyReq_header_agree:
  assumes "lr_headers hs cr"
  shows "lr_headers (AList.update (string_of_bytes key) (string_of_bytes val) hs) (lazyReq_header key val cr)"
  using assms
  by (auto simp: lr_headers_def lazyReq_header_def header_bytes_update bytes_eq_string ArgScheme_def CallerName_def
      RoutingDelegate_def RoutingKey_def)

lemma lazyReq_headers_agree:
  assumes "lr_headers hs cr"
  shows "lr_headers (fst (headers_loop n hs r)) (fst (lazyReq_headers n cr r)) \<and>
    snd (lazyReq_headers n cr r) = snd (headers_loop n hs r) \<and> lr_Frame (fst (lazyReq_headers n cr r)) = lr_Frame cr \<and>
    lr_arg2Appends (fst (lazyReq_headers n cr r)) = lr_arg2Appends cr"
  using assms
proof (induction n arbitrary: cr hs r)
  case (Suc n)
  obtain kl r1 where 1: "ReadSingleByte r = (kl, r1)" by force
  obtain key r2 where 2: "ReadBytes (unat kl) r1 = (key, r2)" by force
  obtain vl r3 where 3: "ReadSingleByte r2 = (vl, r3)" by force
  obtain val r4 where 4: "ReadBytes (unat vl) r3 = (val, r4)" by force
  have fr: "lr_Frame (lazyReq_header (opt_bytes key) (opt_bytes val) cr) = lr_Frame cr"
    "lr_arg2Appends (lazyReq_header (opt_bytes key) (opt_bytes val) cr) = lr_arg2Appends cr"
    by (simp_all add: lazyReq_header_def)
  show ?case
    using Suc.IH [OF lazyReq_header_agree [OF Suc.prems, of "opt_bytes key" "opt_bytes val"], of r4] fr
    by (simp add: ReadLen8String_bytes 1 2 3 4)
qed simp

text \<open>A reader of \<open>p\<close> that has no error is at some offset.\<close>

definition reading :: "byte list \<Rightarrow> ReadBuffer \<Rightarrow> bool" where
  "reading p r \<longleftrightarrow> (rb_err r = None \<longrightarrow> (\<exists>k \<le> length p. r = rb_at p k))"

lemma reading_at [simp]: "k \<le> length p \<Longrightarrow> reading p (rb_at p k)"
  by (auto simp: reading_def)

lemma reading_ReadBytes: "reading p r \<Longrightarrow> reading p (snd (ReadBytes n r))"
proof (cases "rb_err r")
  case None
  assume "reading p r"
  then obtain k where "k \<le> length p" "r = rb_at p k" using None by (auto simp: reading_def)
  then show ?thesis by (auto simp: ReadBytes_at reading_def intro: exI [of _ "k + n"])
qed (auto simp: reading_def ReadBytes_err)

lemma reading_ops:
  assumes "reading p r"
  shows "reading p (SkipBytes n r)" and "reading p (snd (ReadSingleByte r))" and "reading p (snd (ReadUint16 r))"
    and "reading p (snd (ReadLen8String r))"
proof -
  have b: "reading p (snd (ReadSingleByte r))" if "reading p r" for r
    using reading_ReadBytes [OF that, of 1] by (auto simp: ReadSingleByte_ReadBytes split: prod.splits option.splits)
  then show "reading p (snd (ReadSingleByte r))" using assms .
  show "reading p (SkipBytes n r)" "reading p (snd (ReadUint16 r))"
    using reading_ReadBytes [OF assms, of n] reading_ReadBytes [OF assms, of 2]
    by (auto simp: SkipBytes_ReadBytes ReadUint16_def split: prod.splits option.splits)
  show "reading p (snd (ReadLen8String r))"
    using reading_ReadBytes [OF b [OF assms]] by (simp add: ReadLen8String_bytes Let_def case_prod_unfold)
qed

lemma reading_headers: "reading p r \<Longrightarrow> reading p (snd (headers_loop n hs r))"
  by (induction n arbitrary: hs r) (simp_all add: Let_def case_prod_unfold reading_ops)

lemma ReadLen8String_err: "rb_err r = Some e \<Longrightarrow> ReadLen8String r = ([], r)"
  by (simp add: ReadLen8String_bytes ReadSingleByte_ReadBytes ReadBytes_err opt_bytes_def)

lemma headers_loop_err: "rb_err (snd (headers_loop n hs r)) = None \<Longrightarrow> rb_err r = None"
proof (induction n arbitrary: hs r)
  case (Suc n)
  show ?case
  proof (cases "rb_err r")
    case (Some e)
    then show ?thesis using Suc by (force simp: ReadLen8String_err)
  qed simp
qed simp

section \<open>The fixed fields\<close>

lemma read_at_fits:
  "k + n \<le> length p \<Longrightarrow> ReadBytes n (rb_at p k) = (Some (take n (drop k p)), rb_at p (k + n))"
  "k + 4 \<le> length p \<Longrightarrow> ReadUint32 (rb_at p k) = (Uint32 (take 4 (drop k p)), rb_at p (k + 4))"
  "k + 8 \<le> length p \<Longrightarrow> ReadUint64 (rb_at p k) = (Uint64 (take 8 (drop k p)), rb_at p (k + 8))"
  by (auto simp: ReadUint32_def ReadUint64_def ReadBytes_at split: if_splits)

lemma ReadSingleByte_at: "k < length p \<Longrightarrow> ReadSingleByte (rb_at p k) = (p ! k, rb_at p (Suc k))"
  using read_at_fits(1) [of k 1 p] by (simp add: ReadSingleByte_ReadBytes hd_drop_conv_nth)

lemma Span_read_val:
  assumes "k + 25 \<le> length p"
  shows "Span_read (rb_at p k) = (\<lparr>traceID = Uint64 (take 8 (drop (k + 16) p)), parentID = Uint64 (take 8 (drop (k + 8) p)),
    spanID = Uint64 (take 8 (drop k p)), spanFlags = p ! (k + 24)\<rparr>, rb_at p (k + 25))"
  using assms by (simp add: Span_read_def read_at_fits ReadSingleByte_at ac_simps)

lemma Span_read_at:
  assumes "k + 25 \<le> length p"
  shows "Span_read (rb_at p k) = (fst (Span_read (rb_at (take 25 (drop k p)) 0)), rb_at p (k + 25))"
proof -
  have "0 + 25 \<le> length (take 25 (drop k p))" using assms by simp
  from Span_read_val [OF this] Span_read_val [OF assms] show ?thesis
    using assms by (simp add: drop_take min_def add.commute)
qed

lemma ReadLen8String_at:
  assumes "k < length p" and "unat (p ! k) \<le> length p - Suc k"
  shows "ReadLen8String (rb_at p k) = (string_of_bytes (take (unat (p ! k)) (drop (Suc k) p)), rb_at p (Suc k + unat (p ! k)))"
  using assms by (simp add: ReadLen8String_bytes ReadSingleByte_at read_at_fits opt_bytes_def)

text \<open>A chunk as it stands in the payload.\<close>

lemma drop_split: "drop k p = take n (drop k p) @ drop (k + n) p"
  using append_take_drop_id [of n "drop k p", symmetric] by (simp only: drop_drop add.commute [of n])

lemma chunk_at:
  assumes "2 \<le> length p - k" and "n = unat (Uint16 (take 2 (drop k p)))" and "n \<le> length p - (k + 2)"
  shows "drop k p = enc_chunk (take n (drop (k + 2) p)) @ drop (k + 2 + n) p"
proof -
  have h: "PutUint16 (Uint16 (take 2 (drop k p))) = take 2 (drop k p)"
    using be_bytes_be_word [of "take 2 (drop k p)", where ?'a = 16] assms(1) by simp
  have "of_nat n = Uint16 (take 2 (drop k p))" by (simp add: assms(2))
  moreover have "length (take n (drop (k + 2) p)) = n" using assms(3) by simp
  ultimately have "enc_chunk (take n (drop (k + 2) p)) = take 2 (drop k p) @ take n (drop (k + 2) p)"
    by (simp only: enc_chunk_def h)
  then show ?thesis using drop_split [of k p 2] drop_split [of "k + 2" p n] by simp
qed

section \<open>The lazy request is the request of the end point\<close>

text \<open>Where the parts of a call request stand in the payload \<open>p\<close> of its first frame.\<close>

record req_offsets =
  at_service :: nat
  at_type :: nat
  at_arg1 :: nat
  len_arg1 :: nat
  len_arg2 :: nat

definition req_headers :: "byte list \<Rightarrow> req_offsets \<Rightarrow> transportHeaders \<times> ReadBuffer" where
  "req_headers p a = headers_loop (unat (p ! at_service a)) [] (rb_at p (Suc (at_service a)))"

definition req_layout :: "byte list \<Rightarrow> req_offsets \<Rightarrow> bool" where
  "req_layout p a \<longleftrightarrow> length p < 65536 \<and> 30 < length p \<and> at_service a = 31 + unat (p ! 30) \<and> at_service a < length p \<and>
     snd (req_headers p a) = rb_at p (at_type a) \<and> at_type a < length p \<and> ChecksumType_valid (p ! at_type a) \<and>
     at_arg1 a = Suc (at_type a) + ChecksumSize (p ! at_type a) \<and> at_arg1 a + 2 \<le> length p \<and>
     len_arg1 a = unat (Uint16 (take 2 (drop (at_arg1 a) p))) \<and> at_arg1 a + 2 + len_arg1 a + 2 \<le> length p \<and>
     len_arg2 a = unat (Uint16 (take 2 (drop (at_arg1 a + 2 + len_arg1 a) p))) \<and>
     at_arg1 a + 4 + len_arg1 a + len_arg2 a \<le> length p"

lemma SizedPayload_length: "SizedPayload f = Ret p \<Longrightarrow> length p < 65536"
  using unsigned_less [of "PayloadSize (fr_Header f)", where ?'a = nat]
  by (auto simp: SizedPayload_def Let_def split: if_splits)

lemma newLazyCallReq_layout:
  assumes "newLazyCallReq f = Ret (Inr cr)"
  obtains p a where "fh_messageType (fr_Header f) = messageTypeCallReq" and "SizedPayload f = Ret p" and "req_layout p a"
    and "lr_Frame cr = f" and "lr_arg2Appends cr = []" and "lr_headers (fst (req_headers p a)) cr"
    and "lr_checksumType cr = p ! at_type a" and "lr_checksumTypeOffset cr = of_nat (at_type a)"
    and "lr_method cr = take (len_arg1 a) (drop (at_arg1 a + 2) p)"
    and "unat (lr_arg2StartOffset cr) = at_arg1 a + 4 + len_arg1 a"
    and "unat (lr_arg2EndOffset cr) = at_arg1 a + 4 + len_arg1 a + len_arg2 a"
    and "lr_isArg2Fragmented cr \<longrightarrow> at_arg1 a + 4 + len_arg1 a + len_arg2 a = length p"
    and "\<not> lr_isArg2Fragmented cr \<longrightarrow> unat (lr_arg3StartOffset cr) = at_arg1 a + 6 + len_arg1 a + len_arg2 a \<and>
      at_arg1 a + 6 + len_arg1 a + len_arg2 a \<le> length p"
proof -
  have t: "fh_messageType (fr_Header f) = messageTypeCallReq"
    using assms by (auto simp: newLazyCallReq_def split: if_splits)
  obtain p where p: "SizedPayload f = Ret p"
    using assms by (cases "SizedPayload f") (auto simp: newLazyCallReq_def split: if_splits)
  define r0 where "r0 = SkipBytes 30 (rb_at p 0)"
  obtain sl r1 where r1: "ReadSingleByte r0 = (sl, r1)" by force
  define r2 where "r2 = SkipBytes (unat sl) r1"
  obtain nh r3 where r3: "ReadSingleByte r2 = (nh, r3)" by force
  obtain c4 r4 where r4: "lazyReq_headers (unat nh) (lazyCallReq_of f) r3 = (c4, r4)" by force
  obtain ty r5 where r5: "ReadSingleByte r4 = (ty, r5)" by force
  define r6 where "r6 = SkipBytes (ChecksumSize ty) r5"
  obtain l1 r7 where r7: "ReadUint16 r6 = (l1, r7)" by force
  obtain m r8 where r8: "ReadBytes (unat l1) r7 = (m, r8)" by force
  obtain l2 r9 where r9: "ReadUint16 r8 = (l2, r9)" by force
  define r10 where "r10 = SkipBytes (unat l2) r9"
  note rs = r1 r3 r4 r5 r7 r8 r9 r0_def [symmetric] r2_def [symmetric] r6_def [symmetric] r10_def [symmetric]
  have eq: "newLazyCallReq f = (if \<not> ChecksumType_valid ty then Ret (Inl errInvalidChecksumType)
      else go_bind (if rb_BytesRemaining r10 = 0 then hasMoreFragments f else Ret False) (\<lambda>b.
        case rb_err (if b then r10 else SkipBytes 2 r10) of Some err \<Rightarrow> Ret (Inl err)
        | None \<Rightarrow> Ret (Inr (c4\<lparr>lr_checksumTypeOffset := of_nat (BytesRead r4), lr_checksumType := ty, lr_method := opt_bytes m,
        lr_arg2StartOffset := of_nat (BytesRead r9), lr_arg2EndOffset := of_nat (BytesRead r9) + l2, lr_isArg2Fragmented := b,
        lr_arg3StartOffset := (if b then 0 else of_nat (BytesRead (if b then r10 else SkipBytes 2 r10)))\<rparr>))))"
    unfolding newLazyCallReq_def p t by (simp only: NewReadBuffer_at rs Let_def go_bind.simps prod.case simp_thms if_False serviceLenIndex_def)
  have valid: "ChecksumType_valid ty" using assms unfolding eq by (rule contrapos_pp) simp
  obtain b where b: "rb_err (if b then r10 else SkipBytes 2 r10) = None" "b \<Longrightarrow> rb_BytesRemaining r10 = 0"
    and cr: "cr = c4\<lparr>lr_checksumTypeOffset := of_nat (BytesRead r4), lr_checksumType := ty, lr_method := opt_bytes m,
        lr_arg2StartOffset := of_nat (BytesRead r9), lr_arg2EndOffset := of_nat (BytesRead r9) + l2, lr_isArg2Fragmented := b,
        lr_arg3StartOffset := (if b then 0 else of_nat (BytesRead (if b then r10 else SkipBytes 2 r10)))\<rparr>"
  proof -
    from assms [unfolded eq] valid obtain b where "(if rb_BytesRemaining r10 = 0 then hasMoreFragments f else Ret False) = Ret b"
        and c: "(case rb_err (if b then r10 else SkipBytes 2 r10) of Some err \<Rightarrow> Ret (Inl err)
        | None \<Rightarrow> Ret (Inr (c4\<lparr>lr_checksumTypeOffset := of_nat (BytesRead r4), lr_checksumType := ty, lr_method := opt_bytes m,
        lr_arg2StartOffset := of_nat (BytesRead r9), lr_arg2EndOffset := of_nat (BytesRead r9) + l2, lr_isArg2Fragmented := b,
        lr_arg3StartOffset := (if b then 0 else of_nat (BytesRead (if b then r10 else SkipBytes 2 r10)))\<rparr>))) = Ret (Inr cr)"
      by (simp only: simp_thms if_False go_bind_Ret_iff) (erule exE, erule conjE, rule that)
    then have "b \<Longrightarrow> rb_BytesRemaining r10 = 0" by (auto split: if_splits)
    with c show ?thesis by (cases "rb_err (if b then r10 else SkipBytes 2 r10)") (rule that [of b], simp_all)
  qed
  have hl: "lr_headers (fst (headers_loop (unat nh) [] r3)) c4" "r4 = snd (headers_loop (unat nh) [] r3)" "lr_Frame c4 = f"
      "lr_arg2Appends c4 = []"
    using lazyReq_headers_agree [of "[]" "lazyCallReq_of f" "unat nh" r3] r4
    by (simp_all add: lr_headers_def header_bytes_def lazyCallReq_of_def)
  have e10: "rb_err r10 = None" using b(1) read_err_mono(1) [of 2 r10] by (cases b) simp_all
  then have e9: "rb_err r9 = None" unfolding r10_def by (rule read_err_mono)
  then have e8: "rb_err r8 = None" using read_err_mono(3) [of r8] r9 by simp
  then have e7: "rb_err r7 = None" using ReadBytes_okE(1) [of "unat l1" r7] r8 by simp
  then have e6: "rb_err r6 = None" using read_err_mono(3) [of r6] r7 by simp
  then have e5: "rb_err r5 = None" unfolding r6_def by (rule read_err_mono)
  then have e4: "rb_err r4 = None" using read_err_mono(2) [of r4] r5 by simp
  then have e3: "rb_err r3 = None" unfolding hl(2) by (rule headers_loop_err)
  then have e2: "rb_err r2 = None" using read_err_mono(2) [of r2] r3 by simp
  then have e1: "rb_err r1 = None" unfolding r2_def by (rule read_err_mono)
  then have e0: "rb_err r0 = None" using read_err_mono(2) [of r0] r1 by simp
  have p0: "r0 = rb_at p 30" "30 \<le> length p" using SkipBytes_at_ok [of 30 p 0] e0 by (simp_all add: r0_def)
  have p1: "sl = p ! 30" "r1 = rb_at p 31" "30 < length p"
    using ReadSingleByte_at_ok [of p 30] r1 e1 by (simp_all add: p0(1))
  have p2: "r2 = rb_at p (31 + unat sl)" "31 + unat sl \<le> length p"
    using SkipBytes_at_ok [of "unat sl" p 31] e2 p1 by (simp_all add: r2_def)
  have p3: "nh = p ! (31 + unat sl)" "r3 = rb_at p (Suc (31 + unat sl))" "31 + unat sl < length p"
    using ReadSingleByte_at_ok [of p "31 + unat sl"] r3 e3 by (simp_all add: p2(1))
  have "reading p r4" unfolding hl(2) by (rule reading_headers) (use p3 in simp)
  then obtain k where p4: "r4 = rb_at p k" "k \<le> length p" using e4 by (auto simp: reading_def)
  have p5: "ty = p ! k" "r5 = rb_at p (Suc k)" "k < length p"
    using ReadSingleByte_at_ok [of p k] r5 e5 by (simp_all add: p4(1))
  define j where "j = Suc k + ChecksumSize ty"
  have p6: "r6 = rb_at p j" using SkipBytes_at_ok [of "ChecksumSize ty" p "Suc k"] e6 by (simp add: r6_def p5(2) j_def)
  have p7: "l1 = Uint16 (take 2 (drop j p))" "r7 = rb_at p (j + 2)" "j + 2 \<le> length p"
    using ReadUint16_at_ok [of p j] r7 e7 by (simp_all add: p6)
  have p8: "m = Some (take (unat l1) (drop (j + 2) p))" "r8 = rb_at p (j + 2 + unat l1)"
    using ReadBytes_at_ok [of "unat l1" p "j + 2"] r8 e8 by (simp_all add: p7(2))
  have p9: "l2 = Uint16 (take 2 (drop (j + 2 + unat l1) p))" "r9 = rb_at p (j + 4 + unat l1)" "j + 4 + unat l1 \<le> length p"
    using ReadUint16_at_ok [of p "j + 2 + unat l1"] r9 e9 by (simp_all add: p8(2) eval_nat_numeral)
  have p10: "r10 = rb_at p (j + 4 + unat l1 + unat l2)" "j + 4 + unat l1 + unat l2 \<le> length p"
    using SkipBytes_at_ok [of "unat l2" p "j + 4 + unat l1"] e10 p9 by (simp_all add: r10_def)
  have p11: "SkipBytes 2 r10 = rb_at p (j + 6 + unat l1 + unat l2)" "j + 6 + unat l1 + unat l2 \<le> length p" if "\<not> b"
    using SkipBytes_at_ok [of 2 p "j + 4 + unat l1 + unat l2"] b(1) p10 that by (simp_all add: p10(1) eval_nat_numeral)
  define a where "a = \<lparr>at_service = 31 + unat sl, at_type = k, at_arg1 = j, len_arg1 = unat l1, len_arg2 = unat l2\<rparr>"
  note len = SizedPayload_length [OF p]
  have rh: "req_headers p a = headers_loop (unat nh) [] r3" by (simp add: req_headers_def a_def p3(1,2))
  have lay: "req_layout p a"
    using len p1 p3 p4 p5 p7 p9 p10 valid hl(2) by (simp add: req_layout_def rh) (simp add: a_def j_def)
  define w where "w = (of_nat (j + 4 + unat l1) :: uint16)"
  have br: "of_nat (BytesRead r9) = w" by (simp only: p9(2) rb_at_simps(3) [OF p9(3)] w_def)
  have st: "unat w = j + 4 + unat l1" unfolding w_def unat_of_nat_fits using len p9(3) by linarith
  have en: "unat (w + l2) = j + 4 + unat l1 + unat l2" using len p10(2) by (simp add: unat_word_ariths st)
  have a3: "unat (of_nat (BytesRead (SkipBytes 2 r10)) :: uint16) = j + 6 + unat l1 + unat l2" if "\<not> b"
    unfolding p11(1) [OF that] rb_at_simps(3) [OF p11(2) [OF that]] unat_of_nat_fits using len p11(2) [OF that] by linarith
  have fin: "j + 4 + unat l1 + unat l2 = length p" if b using b(2) that p10 by simp
  have hd: "lr_headers (fst (req_headers p a)) cr" using hl(1) unfolding rh by (simp add: cr lr_headers_def)
  have off: "of_nat (BytesRead r4) = (of_nat (at_type a) :: uint16)" using p4 by (simp add: a_def)
  have a: "at_arg1 a = j" "len_arg1 a = unat l1" "len_arg2 a = unat l2" "at_type a = k" by (simp_all add: a_def)
  show thesis
    by (rule that [OF t p lay _ _ hd])
      (use hl(3,4) p5(1) p8(1) p11(2) a3 st en fin off in \<open>simp_all add: cr a opt_bytes_def br\<close>)
qed

lemma callReq_read_layout:
  assumes "req_layout p a"
  shows "callReq_read m0 (rb_at p 1) =
    (m0\<lparr>cq_TimeToLive := uint (Uint32 (take 4 (drop 1 p))) * Millisecond,
        cq_Tracing := fst (Span_read (rb_at (take 25 (drop 5 p)) 0)), cq_Headers := fst (req_headers p a),
        cq_Service := string_of_bytes (take (unat (p ! 30)) (drop 31 p))\<rparr>, rb_at p (at_type a))"
proof -
  have l: "30 < length p" "31 + unat (p ! 30) < length p" "at_service a = 31 + unat (p ! 30)"
    "snd (req_headers p a) = rb_at p (at_type a)"
    using assms by (simp_all add: req_layout_def)
  have 1: "ReadUint32 (rb_at p 1) = (Uint32 (take 4 (drop 1 p)), rb_at p 5)"
    using l(1) by (simp add: read_at_fits)
  have 2: "Span_read (rb_at p 5) = (fst (Span_read (rb_at (take 25 (drop 5 p)) 0)), rb_at p 30)"
    using l(1) by (subst Span_read_at) simp_all
  have 3: "ReadLen8String (rb_at p 30) = (string_of_bytes (take (unat (p ! 30)) (drop 31 p)), rb_at p (at_service a))"
    using l(1-3) by (subst ReadLen8String_at) simp_all
  have 4: "transportHeaders_read [] (rb_at p (at_service a)) = (fst (req_headers p a), rb_at p (at_type a))"
    using l(2-4) by (simp add: transportHeaders_read_def ReadSingleByte_at req_headers_def prod_eq_iff)
  show ?thesis by (simp only: callReq_read_def 1 2 3 4 Let_def prod.case)
qed

lemma SizedPayload_take:
  assumes "SizedPayload f = Ret p"
  shows "fr_Payload f = p @ drop (length p) (fr_Payload f)"
  using assms append_take_drop_id [of "length p" "fr_Payload f"] by (auto simp: SizedPayload_def Let_def min_def split: if_splits)

lemma subslice_sized:
  assumes "SizedPayload f = Ret p" and "a \<le> b" and "b \<le> length p"
  shows "subslice a b (fr_Payload f) = Ret (take (b - a) (drop a p))"
  using assms(2,3) by (subst SizedPayload_take [OF assms(1)]) (simp add: subslice_def)

lemma payload_at_sized:
  assumes "SizedPayload f = Ret p" and "i < length p"
  shows "payload_at i f = Ret (p ! i)"
  using assms(2) SizedPayload_take [OF assms(1)] by (metis length_append nth_append payload_at_def trans_less_add1)

text \<open>
  C31: A relay sees the call that the end point sees. Whenever the lazy parser accepts the first frame of a request, the parser of
  the receiving side accepts it too, and both find the same service, time to live, tracing span, caller, routing
  and argument scheme headers, the same checksum type, and as the first chunks of the frame the same method and second
  argument; and what the relay takes for the third argument is what follows the header of its chunk.
\<close>

theorem lazy_request_agrees:
  assumes "newLazyCallReq f = Ret (Inr cr)"
  shows "\<exists>frag req arg2 rest. parseInboundFragment i f (CallReq m0) = Ret (Inr frag, CallReq req) \<and>
    rf_checksumType frag = lr_checksumType cr \<and>
    rb_remaining (rf_contents frag) = enc_chunk (lr_method cr) @ enc_chunk arg2 @ rest \<and> lazyReq_arg2 cr = Ret arg2 \<and>
    lazyReq_Service cr = Ret (bytes_of_string (cq_Service req)) \<and> lazyReq_TTL cr = Ret (cq_TimeToLive req) \<and>
    lazyReq_Span cr = cq_Tracing req \<and> lr_headers (cq_Headers req) cr \<and>
    (if lr_isArg2Fragmented cr then rest = [] else 2 \<le> length rest \<and> lazyReq_arg3 cr = Ret (drop 2 rest))"
proof -
  obtain p a where sp: "SizedPayload f = Ret p" and lay: "req_layout p a" and fr: "lr_Frame cr = f"
    and hd: "lr_headers (fst (req_headers p a)) cr" and ty: "lr_checksumType cr = p ! at_type a"
    and m: "lr_method cr = take (len_arg1 a) (drop (at_arg1 a + 2) p)"
    and st: "unat (lr_arg2StartOffset cr) = at_arg1 a + 4 + len_arg1 a"
    and en: "unat (lr_arg2EndOffset cr) = at_arg1 a + 4 + len_arg1 a + len_arg2 a"
    and frag: "lr_isArg2Fragmented cr \<longrightarrow> at_arg1 a + 4 + len_arg1 a + len_arg2 a = length p"
    and a3: "\<not> lr_isArg2Fragmented cr \<longrightarrow> unat (lr_arg3StartOffset cr) = at_arg1 a + 6 + len_arg1 a + len_arg2 a \<and>
      at_arg1 a + 6 + len_arg1 a + len_arg2 a \<le> length p"
    by (rule newLazyCallReq_layout [OF assms])
  let ?req = "m0\<lparr>cq_TimeToLive := uint (Uint32 (take 4 (drop 1 p))) * Millisecond,
        cq_Tracing := fst (Span_read (rb_at (take 25 (drop 5 p)) 0)), cq_Headers := fst (req_headers p a),
        cq_Service := string_of_bytes (take (unat (p ! 30)) (drop 31 p))\<rparr>"
  let ?e = "at_arg1 a + 4 + len_arg1 a + len_arg2 a" and ?k = "at_arg1 a + 2 + len_arg1 a"
  let ?a2 = "take (len_arg2 a) (drop (?k + 2) p)"
  have l: "length p < 65536" "30 < length p" "at_service a < length p" "at_type a < length p" "ChecksumType_valid (p ! at_type a)"
    "at_arg1 a = Suc (at_type a) + ChecksumSize (p ! at_type a)" "at_arg1 a + 2 \<le> length p" "?k + 2 \<le> length p"
    "len_arg1 a = unat (Uint16 (take 2 (drop (at_arg1 a) p)))" "len_arg2 a = unat (Uint16 (take 2 (drop ?k p)))" "?e \<le> length p" and l3: "at_service a = 31 + unat (p ! 30)"
    using lay unfolding req_layout_def by blast+
  have "ReadSingleByte (rb_at p 0) = (p ! 0, rb_at p 1)" using l(2) ReadSingleByte_at [of 0 p] by (cases p) simp_all
  moreover have "ReadBytes (ChecksumSize (p ! at_type a)) (rb_at p (Suc (at_type a))) =
      (Some (take (ChecksumSize (p ! at_type a)) (drop (Suc (at_type a)) p)), rb_at p (at_arg1 a))"
    using l(6,7) by (simp add: read_at_fits)
  ultimately have pf: "parseInboundFragment i f (CallReq m0) = Ret (Inr \<lparr>rf_id = i, rf_flags = p ! 0, rf_checksumType = p ! at_type a,
      rf_checksum = take (ChecksumSize (p ! at_type a)) (drop (Suc (at_type a)) p), rf_contents = rb_at p (at_arg1 a)\<rparr>, CallReq ?req)"
    using callReq_read_layout [OF lay, of m0] l(4,5)
    by (simp add: parseInboundFragment_def sp NewReadBuffer_at ReadSingleByte_at)
  have ch: "drop (at_arg1 a) p = enc_chunk (lr_method cr) @ enc_chunk ?a2 @ drop ?e p"
    using chunk_at [of p "at_arg1 a", OF _ l(9)] chunk_at [of p ?k, OF _ l(10)] l(7,8,11) m by (simp add: eval_nat_numeral)
  have a2: "lazyReq_arg2 cr = Ret ?a2"
    using subslice_sized [OF sp, of "?k + 2" ?e] l(11) st en fr by (simp add: lazyReq_arg2_def eval_nat_numeral)
  have svc: "lazyReq_Service cr = Ret (bytes_of_string (cq_Service ?req))"
    using payload_at_sized [OF sp l(2)] subslice_sized [OF sp, of 31 "31 + unat (p ! 30)"] l(3) l3 fr by (simp add: lazyReq_Service_def)
  have ttl: "lazyReq_TTL cr = Ret (cq_TimeToLive ?req)"
    using subslice_sized [OF sp, of 1 5] l(2) fr by (simp add: lazyReq_TTL_def)
  have span: "lazyReq_Span cr = cq_Tracing ?req"
    using subslice_sized [OF sp, of 5 30] l(2) fr
    by (simp add: subslice_def lazyReq_Span_def callReqSpan_def spanLength_def spanIndex_def NewReadBuffer_at split: if_splits)
  have r3: "if lr_isArg2Fragmented cr then drop ?e p = [] else 2 \<le> length (drop ?e p) \<and> lazyReq_arg3 cr = Ret (drop 2 (drop ?e p))"
    using frag a3 sp fr by (auto simp: lazyReq_arg3_def subslice_def add.commute add.left_commute)
  show ?thesis
    by (intro exI conjI, rule pf) (use ch a2 svc ttl span hd r3 ty in simp_all)
qed

text \<open>A request of the service \<^verbatim>\<open>s\<close> for the method \<^verbatim>\<open>m\<close>, with one header and empty arguments.\<close>

definition lazy_example :: Frame where
  "lazy_example =
     (let p = [0, 0, 0, 3, 0xe8] @ replicate 25 0 @ [1, 115] @ [1, 2, 99, 110, 1, 97] @ [0] @ [0, 1, 109] @ [0, 2, 0, 0] @ [0, 0]
      in \<lparr>fr_buffer = replicate 16 0 @ p, fr_Header = zeroHeader\<lparr>fh_size := of_nat (16 + length p), fh_messageType := messageTypeCallReq\<rparr>\<rparr>)"

lemma lazy_example_accepted: "\<exists>cr. newLazyCallReq lazy_example = Ret (Inr cr) \<and> lr_caller cr = [97]"
proof -
  have "(case newLazyCallReq lazy_example of Ret (Inr cr) \<Rightarrow> lr_caller cr = [97] | _ \<Rightarrow> False)" by code_simp
  then show ?thesis by (auto split: go.splits sum.splits)
qed

theorem lazy_request_agrees_witness:
  "\<exists>cr frag req. newLazyCallReq lazy_example = Ret (Inr cr) \<and>
     parseInboundFragment 0 lazy_example (CallReq (newCallReq 0)) = Ret (Inr frag, CallReq req) \<and> lr_headers (cq_Headers req) cr"
proof -
  obtain cr where cr: "newLazyCallReq lazy_example = Ret (Inr cr)" using lazy_example_accepted by blast
  show ?thesis using lazy_request_agrees [OF cr, of 0 "newCallReq 0"] cr by blast
qed

end
