(* ===== verification/Thrift_Headers.thy ===== *)
theory Thrift_Headers
  imports Relay_Messages
begin

text \<open>
  The second argument of a call in the Thrift scheme: a count and that many key/value pairs. The headers are
  written by \<^verbatim>\<open>thrift/headers.go\<close> and read by it through a \<^verbatim>\<open>typed.Reader\<close>; a relay walks over the pairs with
  the iterator of \<^verbatim>\<open>thrift/arg2/kv_iterator.go\<close> and appends to them through a \<^verbatim>\<open>typed.Writer\<close> (\<^verbatim>\<open>relay.go\<close>). All of
  them agree on the format. An \<^verbatim>\<open>io.Writer\<close> is the error it answers a write with, given the bytes it has and those it gets.
\<close>

section \<open>Typed readers and writers\<close>

record Reader =
  tr_reader :: io_reader
  tr_err :: "gerror option"

definition NewReader :: "io_reader \<Rightarrow> Reader" where
  "NewReader r = \<lparr>tr_reader = r, tr_err = None\<rparr>"

definition Reader_ReadUint16 :: "Reader \<Rightarrow> uint16 \<times> Reader" where
  "Reader_ReadUint16 r =
     (if tr_err r \<noteq> None then (0, r)
      else
        (case io_ReadFull 2 (tr_reader r) of
           ((buf, err), rd) \<Rightarrow>
             (if length buf < 2 then 0 else Uint16 buf, r\<lparr>tr_reader := rd, tr_err := err\<rparr>)))"

definition Reader_ReadString :: "nat \<Rightarrow> Reader \<Rightarrow> string \<times> Reader" where
  "Reader_ReadString n r =
     (if tr_err r \<noteq> None then ([], r)
      else
        (case io_ReadFull n (tr_reader r) of
           ((buf, err), rd) \<Rightarrow>
             (if length buf < n then [] else string_of_bytes buf, r\<lparr>tr_reader := rd, tr_err := err\<rparr>)))"

definition Reader_ReadLen16String :: "Reader \<Rightarrow> string \<times> Reader" where
  "Reader_ReadLen16String r = (let (n, r1) = Reader_ReadUint16 r in Reader_ReadString (unat n) r1)"

record Writer =
  tw_written :: "byte list"
  tw_err :: "gerror option"

type_synonym io_writer = "byte list \<Rightarrow> byte list \<Rightarrow> gerror option"

definition NewWriter :: Writer where
  "NewWriter = \<lparr>tw_written = [], tw_err = None\<rparr>"

definition Writer_WriteBytes :: "io_writer \<Rightarrow> byte list \<Rightarrow> Writer \<Rightarrow> Writer" where
  "Writer_WriteBytes wr b w =
     (if tw_err w \<noteq> None then w
      else
        (case wr (tw_written w) b of
           Some err \<Rightarrow> w\<lparr>tw_err := Some err\<rparr>
         | None \<Rightarrow> w\<lparr>tw_written := tw_written w @ b\<rparr>))"

definition Writer_WriteUint16 :: "io_writer \<Rightarrow> uint16 \<Rightarrow> Writer \<Rightarrow> Writer" where
  "Writer_WriteUint16 wr n w =
     (if tw_err w \<noteq> None then w
      else
        (case wr (tw_written w) (PutUint16 n) of
           Some err \<Rightarrow> w\<lparr>tw_err := Some err\<rparr>
         | None \<Rightarrow> w\<lparr>tw_written := tw_written w @ PutUint16 n\<rparr>))"

definition Writer_WriteLen16Bytes :: "io_writer \<Rightarrow> byte list \<Rightarrow> Writer \<Rightarrow> Writer" where
  "Writer_WriteLen16Bytes wr b w =
     (if tw_err w \<noteq> None then w
      else Writer_WriteBytes wr b (Writer_WriteUint16 wr (of_nat (length b)) w))"

section \<open>Headers\<close>

text \<open>\<^verbatim>\<open>WriteHeaders\<close>: its error, and the bytes it hands to the writer \<open>w\<close> if it gets that far.\<close>

definition headers_size :: "(string, string) gomap \<Rightarrow> nat" where
  "headers_size headers = fold (\<lambda>(k, v) size. size + 4 + (length k + length v)) headers 2"

definition WriteHeaders :: "(byte list \<Rightarrow> gerror option) \<Rightarrow> (string, string) gomap \<Rightarrow> gerror option \<times> byte list option" where
  "WriteHeaders w headers =
     (let size = headers_size headers;
          wb0 = NewWriteBuffer (replicate size 0);
          wb1 = WriteUint16 (of_nat (length headers)) wb0;
          wb = fold (\<lambda>(k, v) w. WriteLen16String v (WriteLen16String k w)) headers wb1
      in case wb_err wb of
           Some err \<Rightarrow> (Some err, None)
         | None \<Rightarrow>
             if BytesWritten wb \<noteq> size then
               (Some (ErrorString (''writeHeaders size calculation wrong, expected to write '' @ show_nat size @
                  '' bytes, only wrote '' @ show_nat (BytesWritten wb) @ '' bytes'')), None)
             else (w (FlushTo wb), Some (FlushTo wb)))"

fun readHeaders_loop :: "nat \<Rightarrow> (string, string) gomap \<Rightarrow> Reader \<Rightarrow> (string, string) gomap \<times> Reader" where
  "readHeaders_loop 0 headers r = (headers, r)"
| "readHeaders_loop (Suc n) headers r =
     (if tr_err r \<noteq> None then (headers, r)
      else
        (let (k, r1) = Reader_ReadLen16String r;
             (v, r2) = Reader_ReadLen16String r1
         in readHeaders_loop n (AList.update k v headers) r2))"

text \<open>The result without headers is the nil map, which reads as an empty one.\<close>

definition readHeaders :: "Reader \<Rightarrow> ((string, string) gomap \<times> gerror option) \<times> Reader" where
  "readHeaders r =
     (let (numHeaders, r1) = Reader_ReadUint16 r
      in if numHeaders = 0 then (([], tr_err r1), r1)
         else (let (headers, r2) = readHeaders_loop (unat numHeaders) [] r1 in ((headers, tr_err r2), r2)))"

definition ReadHeaders :: "io_reader \<Rightarrow> ((string, string) gomap \<times> gerror option) \<times> io_reader" where
  "ReadHeaders r = (case readHeaders (NewReader r) of (res, rd) \<Rightarrow> (res, tr_reader rd))"

section \<open>Iterating over the second argument\<close>

record KeyValIterator =
  kv_remaining :: "byte list"
  kv_leftPairCount :: int
  kv_key :: "byte list"
  kv_val :: "byte list"

definition kv_Remaining :: "KeyValIterator \<Rightarrow> bool" where
  "kv_Remaining i \<longleftrightarrow> kv_leftPairCount i > 0"

definition kv_Next :: "KeyValIterator \<Rightarrow> gerror + KeyValIterator" where
  "kv_Next i =
     (if kv_leftPairCount i \<le> 0 then Inl ioEOF
      else
        (let (keyLen, r1) = ReadUint16 (NewReadBuffer (kv_remaining i));
             (key, r2) = ReadBytes (unat keyLen) r1;
             (valLen, r3) = ReadUint16 r2;
             (val, r4) = ReadBytes (unat valLen) r3
         in case rb_err r4 of
              Some err \<Rightarrow> Inl err
            | None \<Rightarrow>
                Inr \<lparr>kv_remaining = Remaining r4, kv_leftPairCount = kv_leftPairCount i - 1,
                     kv_key = opt_bytes key, kv_val = opt_bytes val\<rparr>))"

definition NewKeyValIterator :: "byte list \<Rightarrow> gerror + KeyValIterator" where
  "NewKeyValIterator arg2Payload =
     (if length arg2Payload < 2 then Inl ioEOF
      else kv_Next \<lparr>kv_remaining = drop 2 arg2Payload, kv_leftPairCount = int (unat (Uint16 (take 2 arg2Payload))),
                     kv_key = [], kv_val = []\<rparr>)"

text \<open>All the pairs that a loop with \<^verbatim>\<open>Next\<close> sees, and the error that ends it.\<close>

fun kv_pairs :: "nat \<Rightarrow> gerror + KeyValIterator \<Rightarrow> (byte list \<times> byte list) list \<times> gerror option" where
  "kv_pairs n (Inl err) = ([], Some err)"
| "kv_pairs 0 (Inr i) = ([], None)"
| "kv_pairs (Suc n) (Inr i) = (case kv_pairs n (kv_Next i) of (ps, e) \<Rightarrow> ((kv_key i, kv_val i) # ps, e))"

section \<open>Appending to the second argument\<close>

definition errNoNHInArg2 :: gerror where "errNoNHInArg2 = ErrorString ''no nh in arg2''"

definition writeArg2WithAppends ::
  "io_writer \<Rightarrow> byte list \<Rightarrow> (byte list \<times> byte list) list \<Rightarrow> gerror option \<times> Writer" where
  "writeArg2WithAppends wr arg2 appends =
     (if length arg2 < 2 then (Some errNoNHInArg2, NewWriter)
      else
        (let nh = Uint16 (take 2 arg2) + of_nat (length appends);
             w1 = Writer_WriteUint16 wr nh NewWriter;
             w2 = (if length arg2 > 2 then Writer_WriteBytes wr (drop 2 arg2) w1 else w1);
             w3 = fold (\<lambda>(key, val) w. Writer_WriteLen16Bytes wr val (Writer_WriteLen16Bytes wr key w)) appends w2
         in (tw_err w3, w3)))"

section \<open>One format\<close>

text \<open>The wire form of key/value pairs.\<close>

definition enc_kvs :: "(byte list \<times> byte list) list \<Rightarrow> byte list" where
  "enc_kvs ps = concat (map (\<lambda>(k, v). enc_chunk k @ enc_chunk v) ps)"

definition valid_kvs :: "(byte list \<times> byte list) list \<Rightarrow> bool" where
  "valid_kvs ps \<longleftrightarrow> length ps < 65536 \<and> (\<forall>(k, v) \<in> set ps. length k < 65536 \<and> length v < 65536)"

lemma enc_kvs_simps [simp]:
  "enc_kvs [] = []" "enc_kvs ((k, v) # ps) = enc_chunk k @ enc_chunk v @ enc_kvs ps" "enc_kvs (ps @ qs) = enc_kvs ps @ enc_kvs qs"
  by (simp_all add: enc_kvs_def)

lemma read_chunk:
  assumes "rb_err r = None" and "rb_remaining r = enc_chunk c @ rest" and "length c < 65536"
  shows "(let (n, r1) = ReadUint16 r in ReadBytes (unat n) r1) = (Some c, r\<lparr>rb_remaining := rest\<rparr>)"
proof -
  have n: "unat (of_nat (length c) :: uint16) = length c" using assms(3) by (simp add: unat_of_nat_fits)
  have "ReadUint16 r = (of_nat (length c), r\<lparr>rb_remaining := c @ rest\<rparr>)"
    using assms(1,2) by (intro uint16_codec.read_enc) (simp_all add: enc_chunk_def)
  moreover have "ReadBytes (length c) (r\<lparr>rb_remaining := c @ rest\<rparr>) = (Some c, r\<lparr>rb_remaining := rest\<rparr>)"
    using ReadBytes_append [of "r\<lparr>rb_remaining := c @ rest\<rparr>" c rest] assms(1) by simp
  ultimately show ?thesis by (simp add: n)
qed

lemma kv_Next_eq:
  "kv_Next i =
     (if kv_leftPairCount i \<le> 0 then Inl ioEOF
      else
        (let (key, r2) = (let (n, r1) = ReadUint16 (NewReadBuffer (kv_remaining i)) in ReadBytes (unat n) r1);
             (val, r4) = (let (n, r3) = ReadUint16 r2 in ReadBytes (unat n) r3)
         in case rb_err r4 of
              Some err \<Rightarrow> Inl err
            | None \<Rightarrow> Inr \<lparr>kv_remaining = Remaining r4, kv_leftPairCount = kv_leftPairCount i - 1, kv_key = opt_bytes key, kv_val = opt_bytes val\<rparr>))"
  by (simp add: kv_Next_def Let_def case_prod_unfold)

lemma kv_Next_pair:
  assumes "kv_remaining i = enc_chunk k @ enc_chunk v @ rest" and "0 < kv_leftPairCount i"
    and "length k < 65536" and "length v < 65536"
  shows "kv_Next i = Inr \<lparr>kv_remaining = rest, kv_leftPairCount = kv_leftPairCount i - 1, kv_key = k, kv_val = v\<rparr>"
proof -
  let ?r = "NewReadBuffer (kv_remaining i)"
  note 1 = read_chunk [of ?r k "enc_chunk v @ rest", OF _ _ assms(3)]
  note 2 = read_chunk [of "?r\<lparr>rb_remaining := enc_chunk v @ rest\<rparr>" v rest, OF _ _ assms(4)]
  show ?thesis
    using 1 2 assms(1,2) by (simp add: kv_Next_eq Remaining_def opt_bytes_def)
qed

lemma kv_pairs_all:
  assumes "\<forall>(k, v) \<in> set ps. length k < 65536 \<and> length v < 65536" and "kv_remaining i = enc_kvs ps @ rest"
    and "kv_leftPairCount i = int (length ps)" and "length ps \<le> n"
  shows "kv_pairs n (kv_Next i) = (ps, Some ioEOF)"
  using assms
proof (induction ps arbitrary: i n)
  case Nil
  then show ?case by (simp add: kv_Next_def)
next
  case (Cons p ps)
  obtain k v where p: "p = (k, v)" by force
  obtain m where n: "n = Suc m" using Cons.prems(4) by (cases n) auto
  let ?j = "\<lparr>kv_remaining = enc_kvs ps @ rest, kv_leftPairCount = int (length ps), kv_key = k, kv_val = v\<rparr>"
  have "kv_Next i = Inr ?j"
    using kv_Next_pair [of i k v "enc_kvs ps @ rest"] Cons.prems by (simp add: p)
  moreover have "kv_pairs m (kv_Next ?j) = (ps, Some ioEOF)" using Cons.prems n by (intro Cons.IH) auto
  ultimately show ?case by (simp add: p n)
qed

lemma kv_iterates:
  assumes "valid_kvs ps" and "length ps \<le> n"
  shows "kv_pairs n (NewKeyValIterator (PutUint16 (of_nat (length ps)) @ enc_kvs ps @ rest)) = (ps, Some ioEOF)"
proof -
  have "unat (of_nat (length ps) :: uint16) = length ps" using assms(1) by (simp add: valid_kvs_def unat_of_nat_fits)
  then show ?thesis
    using assms by (simp add: NewKeyValIterator_def valid_kvs_def) (rule kv_pairs_all [where rest = rest], auto)
qed

text \<open>A writer that takes everything.\<close>

lemma write_len16_ok:
  assumes "\<And>a b. wr a b = None" and "tw_err w = None"
  shows "Writer_WriteLen16Bytes wr b w = w\<lparr>tw_written := tw_written w @ enc_chunk b\<rparr>"
  using assms by (simp add: Writer_WriteLen16Bytes_def Writer_WriteUint16_def Writer_WriteBytes_def enc_chunk_def)

lemma write_appends_ok:
  assumes "\<And>a b. wr a b = None" and "tw_err w = None"
  shows "fold (\<lambda>(key, val) w. Writer_WriteLen16Bytes wr val (Writer_WriteLen16Bytes wr key w)) ps w =
    w\<lparr>tw_written := tw_written w @ enc_kvs ps\<rparr>"
  using assms(2)
proof (induction ps arbitrary: w)
  case (Cons p ps)
  obtain k v where p: "p = (k, v)" by force
  show ?case
    using Cons.IH [of "w\<lparr>tw_written := tw_written w @ enc_chunk k @ enc_chunk v\<rparr>"] Cons.prems
    by (simp add: p write_len16_ok [OF assms(1)])
qed simp

text \<open>
  C32: Appending to the second argument appends. When a relay adds key/value pairs to an argument of the Thrift scheme, what it
  writes is again such an argument, over which the iterator sees the old pairs in their order and
  then the new ones, and ends without any other error; an argument too short for its count is refused.
\<close>

theorem arg2_appends:
  assumes "valid_kvs (ps @ qs)" and "\<And>a b. wr a b = None" and "length ps + length qs \<le> n"
  shows "(\<exists>w. writeArg2WithAppends wr (PutUint16 (of_nat (length ps)) @ enc_kvs ps) qs = (None, w) \<and>
      kv_pairs n (NewKeyValIterator (tw_written w)) = (ps @ qs, Some ioEOF)) \<and>
    (length bs < 2 \<longrightarrow> writeArg2WithAppends wr bs qs = (Some errNoNHInArg2, NewWriter))"
proof -
  have "fold (\<lambda>(key, val) w. Writer_WriteLen16Bytes wr val (Writer_WriteLen16Bytes wr key w)) qs
      \<lparr>tw_written = PutUint16 (of_nat (length (ps @ qs))) @ enc_kvs ps, tw_err = None\<rparr> =
      \<lparr>tw_written = PutUint16 (of_nat (length (ps @ qs))) @ enc_kvs (ps @ qs), tw_err = None\<rparr>"
    using write_appends_ok [where wr = wr and ps = qs and w = "\<lparr>tw_written = PutUint16 (of_nat (length (ps @ qs))) @ enc_kvs ps, tw_err = None\<rparr>"] assms(2)
    by simp
  then have "writeArg2WithAppends wr (PutUint16 (of_nat (length ps)) @ enc_kvs ps) qs =
      (None, \<lparr>tw_written = PutUint16 (of_nat (length (ps @ qs))) @ enc_kvs (ps @ qs), tw_err = None\<rparr>)"
    by (cases "enc_kvs ps = []")
      (simp_all add: writeArg2WithAppends_def Writer_WriteUint16_def Writer_WriteBytes_def NewWriter_def assms(2) Let_def)
  then show ?thesis
    using kv_iterates [OF assms(1), of n "[]"] assms(3) by (simp add: writeArg2WithAppends_def)
qed

theorem arg2_appends_witness:
  "\<exists>w. writeArg2WithAppends (\<lambda>_ _. None) (PutUint16 (of_nat (length [([1], [2, 3])])) @ enc_kvs [([1], [2, 3])]) [([4], [])] = (None, w) \<and>
     kv_pairs 2 (NewKeyValIterator (tw_written w)) = ([([1], [2, 3]), ([4], [])], Some ioEOF)"
  using arg2_appends [of "[([1], [2, 3])]" "[([4], [])]" "\<lambda>_ _. None" 2 "[]"] by (simp add: valid_kvs_def)

section \<open>Headers round trip\<close>

definition kvs_of :: "(string, string) gomap \<Rightarrow> (byte list \<times> byte list) list" where
  "kvs_of hs = map (\<lambda>(k, v). (bytes_of_string k, bytes_of_string v)) hs"

lemma enc_params_kvs: "enc_params hs = PutUint16 (of_nat (length (kvs_of hs))) @ enc_kvs (kvs_of hs)"
  by (simp add: enc_params_def enc_kvs_def kvs_of_def enc_len16_def enc_chunk_def comp_def case_prod_unfold)

lemma headers_size_eq: "headers_size hs = length (enc_params hs)"
proof -
  have "fold (\<lambda>(k, v) size. size + 4 + (length k + length v)) hs n =
      n + length (concat (map (\<lambda>(k, v). enc_len16 k @ enc_len16 v) hs))" for n :: nat and hs :: "(string \<times> string) list"
    by (induction hs arbitrary: n) auto
  then show ?thesis by (simp add: headers_size_def enc_params_def)
qed

lemma WriteHeaders_enc:
  assumes "valid_params hs"
  shows "WriteHeaders w hs = (w (enc_params hs), Some (enc_params hs))"
proof -
  let ?b = "NewWriteBuffer (replicate (length (enc_params hs)) 0)"
  have wb: "fold (\<lambda>(k, v) w. WriteLen16String v (WriteLen16String k w)) hs (WriteUint16 (of_nat (length hs)) ?b) = wb_append (enc_params hs) ?b"
    using wire_codec.write_enc [OF params_codec, of ?b hs] assms by simp
  have "BytesWritten (wb_append (enc_params hs) ?b) = length (enc_params hs)"
    by (simp add: BytesWritten_def)
  moreover have "FlushTo (wb_append (enc_params hs) ?b) = enc_params hs"
    by (simp add: FlushTo_written)
  ultimately show ?thesis by (simp add: WriteHeaders_def wb headers_size_eq Let_def)
qed

lemma Reader_ReadLen16String_enc:
  assumes "length s < 65536" and "tr_err r = None" and "ir_data (tr_reader r) = enc_len16 s @ rest"
  shows "Reader_ReadLen16String r = (s, r\<lparr>tr_reader := (tr_reader r)\<lparr>ir_data := rest\<rparr>\<rparr>)"
proof -
  have n: "unat (of_nat (length s) :: uint16) = length s" using assms(1) by (simp add: unat_of_nat_fits)
  show ?thesis
    using assms(2,3) n by (simp add: Reader_ReadLen16String_def Reader_ReadUint16_def Reader_ReadString_def io_ReadFull_def enc_len16_def)
qed

lemma readHeaders_loop_enc:
  assumes "\<forall>(k, v) \<in> set hs. length k < 65536 \<and> length v < 65536" and "tr_err r = None"
    and "ir_data (tr_reader r) = concat (map (\<lambda>(k, v). enc_len16 k @ enc_len16 v) hs) @ rest"
  shows "readHeaders_loop (length hs) m r = (put_all hs m, r\<lparr>tr_reader := (tr_reader r)\<lparr>ir_data := rest\<rparr>\<rparr>)"
  using assms
proof (induction hs arbitrary: m r)
  case (Cons h hs)
  obtain k v where h: "h = (k, v)" by force
  let ?rest = "concat (map (\<lambda>(k, v). enc_len16 k @ enc_len16 v) hs) @ rest"
  let ?r1 = "r\<lparr>tr_reader := (tr_reader r)\<lparr>ir_data := enc_len16 v @ ?rest\<rparr>\<rparr>"
  let ?r2 = "r\<lparr>tr_reader := (tr_reader r)\<lparr>ir_data := ?rest\<rparr>\<rparr>"
  have "Reader_ReadLen16String r = (k, ?r1)" "Reader_ReadLen16String ?r1 = (v, ?r2)"
    using Cons.prems Reader_ReadLen16String_enc [of k r "enc_len16 v @ ?rest"] Reader_ReadLen16String_enc [of v ?r1 ?rest]
    by (simp_all add: h)
  moreover have "readHeaders_loop (length hs) (AList.update k v m) ?r2 = (put_all hs (AList.update k v m), ?r2\<lparr>tr_reader := (tr_reader ?r2)\<lparr>ir_data := rest\<rparr>\<rparr>)"
    using Cons.prems by (intro Cons.IH) auto
  ultimately show ?case using Cons.prems(2) by (simp add: h)
qed simp

text \<open>
  C33: The headers of a Thrift call survive the wire: what \<^verbatim>\<open>WriteHeaders\<close> hands to the writer, \<^verbatim>\<open>ReadHeaders\<close> reads back as the
  same map without an error and without touching what follows, and the relay's iterator walks over the same pairs in the
  order in which they were written.
\<close>

theorem thrift_headers_roundtrip:
  assumes "valid_params hs" and "length hs \<le> n"
  shows "\<exists>bs. WriteHeaders w hs = (w bs, Some bs) \<and>
    ReadHeaders \<lparr>ir_data = bs @ rest, ir_err = e\<rparr> = ((hs, None), \<lparr>ir_data = rest, ir_err = e\<rparr>) \<and>
    kv_pairs n (NewKeyValIterator (bs @ rest)) = (kvs_of hs, Some ioEOF)"
proof (intro exI conjI)
  show "WriteHeaders w hs = (w (enc_params hs), Some (enc_params hs))" by (rule WriteHeaders_enc [OF assms(1)])
  have v: "length hs < 65536" "map_inv hs" "\<forall>(k, v) \<in> set hs. length k < 65536 \<and> length v < 65536"
    using assms(1) by (simp_all add: valid_params_def)
  have n: "unat (of_nat (length hs) :: uint16) = length hs" using v(1) by (simp add: unat_of_nat_fits)
  let ?es = "concat (map (\<lambda>(k, v). enc_len16 k @ enc_len16 v) hs)"
  let ?r1 = "\<lparr>tr_reader = \<lparr>ir_data = ?es @ rest, ir_err = e\<rparr>, tr_err = None\<rparr>"
  have 1: "Reader_ReadUint16 (NewReader \<lparr>ir_data = enc_params hs @ rest, ir_err = e\<rparr>) = (of_nat (length hs), ?r1)"
    by (simp add: Reader_ReadUint16_def NewReader_def io_ReadFull_def enc_params_def)
  have 2: "readHeaders_loop (length hs) [] ?r1 = (hs, \<lparr>tr_reader = \<lparr>ir_data = rest, ir_err = e\<rparr>, tr_err = None\<rparr>)"
    using readHeaders_loop_enc [OF v(3), of ?r1 rest "[]"] put_all_fresh [of "[]" hs] v(2) by simp
  have z: "of_nat (length hs) = (0 :: uint16) \<longleftrightarrow> hs = []" using n by (cases "of_nat (length hs) = (0 :: uint16)") auto
  show "ReadHeaders \<lparr>ir_data = enc_params hs @ rest, ir_err = e\<rparr> = ((hs, None), \<lparr>ir_data = rest, ir_err = e\<rparr>)"
    using 1 2 n z by (auto simp: ReadHeaders_def readHeaders_def)
  have "valid_kvs (kvs_of hs)" using v by (auto simp: valid_kvs_def kvs_of_def)
  then show "kv_pairs n (NewKeyValIterator (enc_params hs @ rest)) = (kvs_of hs, Some ioEOF)"
    using kv_iterates [of "kvs_of hs" n rest] assms(2) by (simp add: enc_params_kvs kvs_of_def)
qed

theorem thrift_headers_roundtrip_witness:
  "\<exists>bs. WriteHeaders (\<lambda>_. None) [(''a'', ''b'')] = (None, Some bs) \<and>
     ReadHeaders \<lparr>ir_data = bs @ [7], ir_err = ioEOF\<rparr> = (([(''a'', ''b'')], None), \<lparr>ir_data = [7], ir_err = ioEOF\<rparr>)"
  using thrift_headers_roundtrip [of "[(''a'', ''b'')]" 1 "\<lambda>_. None" "[7]" ioEOF] by (auto simp: valid_params_def)

end
