(* ===== verification/Relay_Items.thy ===== *)
theory Relay_Items
  imports Thrift_Headers
begin

text \<open>
  The calls that a relay is forwarding, from \<^verbatim>\<open>relay.go\<close> and \<^verbatim>\<open>relay_timer_pool.go\<close>: relay timers, which their pool
  hands out again, relay items and the tables of them. A timer is a part of the item that owns it; \<open>rt_running\<close> says
  that the timer of the runtime is set. When it fires, the goroutine it starts runs a little later: in
  between the timer is neither running nor inactive, and can no longer be stopped. Misuse of a timer panics.
  A call is the number of the \<^verbatim>\<open>RelayCall\<close> of the relay host.
\<close>

section \<open>Timers\<close>

record relayTimer =
  rt_active :: bool
  rt_stopped :: bool
  rt_released :: bool
  rt_running :: bool
  rt_items :: "set_name option"
  rt_id :: uint32
  rt_isOriginator :: bool

text \<open>A timer of the pool: a new one, stopped at once, or one that was released; \<open>reused\<close> is the runtime's choice.\<close>

definition timerPool_Get :: "relayTimer option \<Rightarrow> relayTimer" where
  "timerPool_Get reused =
     (case reused of
        Some timer \<Rightarrow> timer\<lparr>rt_released := False\<rparr>
      | None \<Rightarrow> \<lparr>rt_active = False, rt_stopped = False, rt_released = False, rt_running = False, rt_items = None,
                 rt_id = 0, rt_isOriginator = False\<rparr>)"

definition timer_Start :: "set_name \<Rightarrow> uint32 \<Rightarrow> bool \<Rightarrow> relayTimer \<Rightarrow> relayTimer go" where
  "timer_Start items i isOriginator rt =
     (if rt_released rt then Panic
      else if rt_active rt then Panic
      else if rt_running rt then Panic
      else Ret (rt\<lparr>rt_active := True, rt_stopped := False, rt_items := Some items, rt_id := i,
                   rt_isOriginator := isOriginator, rt_running := True\<rparr>))"

definition markTimerInactive :: "relayTimer \<Rightarrow> relayTimer" where
  "markTimerInactive rt = rt\<lparr>rt_active := False, rt_items := None, rt_id := 0, rt_isOriginator := False\<rparr>"

definition timer_Stop :: "relayTimer \<Rightarrow> (bool \<times> relayTimer) go" where
  "timer_Stop rt =
     (if rt_released rt then Panic
      else if rt_stopped rt then Ret (True, rt)
      else if rt_running rt then Ret (True, markTimerInactive (rt\<lparr>rt_running := False, rt_stopped := True\<rparr>))
      else Ret (False, rt))"

definition timer_Release :: "relayTimer \<Rightarrow> relayTimer go" where
  "timer_Release rt =
     (if rt_released rt then Panic else if rt_active rt then Panic else Ret (rt\<lparr>rt_released := True\<rparr>))"

text \<open>The parameters with which \<^verbatim>\<open>OnTimer\<close> calls the trigger of the pool.\<close>

definition timer_OnTimer :: "relayTimer \<Rightarrow> ((set_name option \<times> uint32 \<times> bool) \<times> relayTimer) go" where
  "timer_OnTimer rt =
     (if rt_released rt then Panic
      else Ret ((rt_items rt, rt_id rt, rt_isOriginator rt), markTimerInactive rt))"

section \<open>Items\<close>

definition defaultRelayMaxTombs :: uint64 where "defaultRelayMaxTombs = 30000"
definition defaultRelayMaxTimeout :: duration where "defaultRelayMaxTimeout = 120 * Second"

record relayItem =
  ri_remapID :: uint32
  ri_tomb :: bool
  ri_isOriginator :: bool
  ri_call :: nat
  ri_destination :: nat
  ri_span :: Span
  ri_timeout :: relayTimer
  ri_mutatedChecksum :: "Checksum option"

record relayItems =
  rs_maxTombs :: uint64
  rs_tombs :: uint64
  rs_items :: "(uint32, relayItem) gomap"

definition newRelayItems :: "uint64 \<Rightarrow> relayItems" where
  "newRelayItems maxTombs =
     \<lparr>rs_maxTombs = (if maxTombs = 0 then defaultRelayMaxTombs else maxTombs), rs_tombs = 0, rs_items = []\<rparr>"

definition relayItems_Count :: "relayItems \<Rightarrow> int" where
  "relayItems_Count rs = int (length (rs_items rs)) - sint (rs_tombs rs)"

text \<open>\<^verbatim>\<open>Get\<close>: the item and whether its timer was stopped, if there is an item.\<close>

definition relayItems_Get :: "uint32 \<Rightarrow> bool \<Rightarrow> relayItems \<Rightarrow> ((relayItem \<times> bool) option \<times> relayItems) go" where
  "relayItems_Get i stopTimeout rs =
     (case map_of (rs_items rs) i of
        None \<Rightarrow> Ret (None, rs)
      | Some item \<Rightarrow>
          if \<not> stopTimeout then Ret (Some (item, False), rs)
          else
            go_bind (timer_Stop (ri_timeout item)) (\<lambda>(stopped, rt).
              let item' = item\<lparr>ri_timeout := rt\<rparr>
              in Ret (Some (item', stopped), rs\<lparr>rs_items := AList.update i item' (rs_items rs)\<rparr>)))"

definition relayItems_Add :: "uint32 \<Rightarrow> relayItem \<Rightarrow> relayItems \<Rightarrow> relayItems" where
  "relayItems_Add i item rs = rs\<lparr>rs_items := AList.update i item (rs_items rs)\<rparr>"

text \<open>\<^verbatim>\<open>Delete\<close> and \<^verbatim>\<open>Entomb\<close>: the item, if there is one, and whether this completed a relayed call.\<close>

definition relayItems_Delete :: "uint32 \<Rightarrow> relayItems \<Rightarrow> ((relayItem option \<times> bool) \<times> relayItems) go" where
  "relayItems_Delete i rs =
     (case map_of (rs_items rs) i of
        None \<Rightarrow> Ret ((None, False), rs)
      | Some item \<Rightarrow>
          go_bind (timer_Release (ri_timeout item)) (\<lambda>rt.
            Ret ((Some (item\<lparr>ri_timeout := rt\<rparr>), \<not> ri_tomb item),
                 rs\<lparr>rs_items := AList.delete i (rs_items rs),
                    rs_tombs := (if ri_tomb item then rs_tombs rs - 1 else rs_tombs rs)\<rparr>)))"

definition relayItems_Entomb :: "uint32 \<Rightarrow> relayItems \<Rightarrow> ((relayItem option \<times> bool) \<times> relayItems) go" where
  "relayItems_Entomb i rs =
     (if rs_tombs rs > rs_maxTombs rs then relayItems_Delete i rs
      else
        (case map_of (rs_items rs) i of
           None \<Rightarrow> Ret ((None, False), rs)
         | Some item \<Rightarrow>
             if ri_tomb item then Ret ((Some item, False), rs)
             else
               (let item' = item\<lparr>ri_tomb := True\<rparr>
                in Ret ((Some item', True),
                        rs\<lparr>rs_tombs := rs_tombs rs + 1, rs_items := AList.update i item' (rs_items rs)\<rparr>))))"

definition validateRelayMaxTimeout :: "duration \<Rightarrow> duration" where
  "validateRelayMaxTimeout d =
     (let maxMillis = d sdiv Millisecond
      in if maxMillis > 0 \<and> maxMillis \<le> 4294967295 then d
         else defaultRelayMaxTimeout)"

section \<open>Invariant of a table\<close>

text \<open>
  An item that is not a tomb has its timer set for itself, or firing; the timer of a tomb is at rest. Within an operation an
  item may be \<open>halted\<close>: its timer was stopped and the item is about to end.
\<close>

definition idle :: "relayItem \<Rightarrow> bool" where
  "idle it \<longleftrightarrow> \<not> rt_released (ri_timeout it) \<and> \<not> rt_active (ri_timeout it) \<and> \<not> rt_running (ri_timeout it)"

definition halted :: "relayItem \<Rightarrow> bool" where
  "halted it \<longleftrightarrow> idle it \<and> rt_stopped (ri_timeout it) \<and> \<not> ri_tomb it"

definition item_ok :: "set_name \<Rightarrow> uint32 \<Rightarrow> relayItem \<Rightarrow> bool" where
  "item_ok d i it \<longleftrightarrow> ri_isOriginator it = (d = Outbound) \<and>
     (if ri_tomb it then idle it
      else \<not> rt_released (ri_timeout it) \<and> rt_active (ri_timeout it) \<and> \<not> rt_stopped (ri_timeout it) \<and>
        rt_items (ri_timeout it) = Some d \<and> rt_id (ri_timeout it) = i \<and> rt_isOriginator (ri_timeout it) = ri_isOriginator it)"

definition halted_ok :: "set_name \<Rightarrow> relayItem \<Rightarrow> bool" where
  "halted_ok d it \<longleftrightarrow> ri_isOriginator it = (d = Outbound) \<and> halted it"

text \<open>The number of items that are not tombs, among the calls that satisfy \<open>Q\<close>.\<close>

definition live :: "(nat \<Rightarrow> bool) \<Rightarrow> relayItems \<Rightarrow> nat" where
  "live Q rs = length (filter (\<lambda>(i, it). \<not> ri_tomb it \<and> Q (ri_call it)) (rs_items rs))"

definition table_ok :: "(uint32 \<Rightarrow> relayItem \<Rightarrow> bool) \<Rightarrow> relayItems \<Rightarrow> bool" where
  "table_ok P rs \<longleftrightarrow> map_inv (rs_items rs) \<and>
     unat (rs_tombs rs) = length (filter (\<lambda>(i, it). ri_tomb it) (rs_items rs)) \<and>
     (\<forall>i it. map_of (rs_items rs) i = Some it \<longrightarrow> P i it)"

lemma table_ok_new: "table_ok P (newRelayItems n)"
  by (simp add: table_ok_def newRelayItems_def)

lemma live_new [simp]: "live Q (newRelayItems n) = 0"
  by (simp add: live_def newRelayItems_def)

lemma table_okD: "table_ok P rs \<Longrightarrow> map_of (rs_items rs) i = Some it \<Longrightarrow> P i it"
  by (simp add: table_ok_def)

text \<open>Replacing, adding and deleting an entry of an association list with distinct keys.\<close>

lemma update_same: "map_of m k = Some v \<Longrightarrow> AList.update k v m = m"
  by (induction m) auto

lemma filter_update:
  assumes "map_inv m" and "map_of m k = Some v"
  shows "length (filter (\<lambda>(k, v). Q v) (AList.update k w m)) + (if Q v then 1 else 0) =
    length (filter (\<lambda>(k, v). Q v) m) + (if Q w then 1 else 0)"
  using assms
proof (induction m)
  case (Cons a m)
  obtain k' v' where a: "a = (k', v')" by force
  show ?case
  proof (cases "k' = k")
    case True
    then show ?thesis using Cons.prems a by simp
  next
    case False
    then have "map_of m k = Some v" "map_inv m" using Cons.prems a by simp_all
    from Cons.IH [OF this(2,1)] show ?thesis using False a by simp
  qed
qed simp

lemma filter_add:
  assumes "map_of m k = None"
  shows "length (filter (\<lambda>(k, v). Q v) (AList.update k w m)) = length (filter (\<lambda>(k, v). Q v) m) + (if Q w then 1 else 0)"
  using assms by (induction m) auto

lemma delete_notin: "k \<notin> fst ` set m \<Longrightarrow> AList.delete k m = m"
  by (auto simp: AList.delete_eq filter_id_conv rev_image_eqI)

lemma filter_delete:
  assumes "map_inv m" and "map_of m k = Some v"
  shows "length (filter (\<lambda>(k, v). Q v) (AList.delete k m)) + (if Q v then 1 else 0) = length (filter (\<lambda>(k, v). Q v) m)"
  using assms
proof (induction m)
  case (Cons a m)
  obtain k' v' where a: "a = (k', v')" by force
  show ?case
  proof (cases "k' = k")
    case True
    then have "AList.delete k (a # m) = m" using Cons.prems a delete_notin [of k m] by (simp add: AList.delete_eq)
    then show ?thesis using Cons.prems True a by simp
  next
    case False
    then have "map_of m k = Some v" "map_inv m" using Cons.prems a by simp_all
    from Cons.IH [OF this(2,1)] show ?thesis using False a by (simp add: AList.delete_eq)
  qed
qed simp

lemma keys_bound: "map_inv (m :: (uint32, 'v) gomap) \<Longrightarrow> length m \<le> 2 ^ 32"
proof -
  assume "map_inv m"
  then have "length m = card (fst ` set m)" by (metis distinct_card length_map list.set_map)
  also have "\<dots> \<le> card (UNIV :: uint32 set)" by (rule card_mono) simp_all
  finally show ?thesis by (simp add: card_word)
qed

lemma table_update:
  assumes "table_ok P rs" and "map_of (rs_items rs) i = Some it" and "ri_tomb it' = ri_tomb it" and "Q it'"
  shows "table_ok (P(i := Q)) (rs\<lparr>rs_items := AList.update i it' (rs_items rs)\<rparr>)"
    and "ri_call it' = ri_call it \<Longrightarrow> live C (rs\<lparr>rs_items := AList.update i it' (rs_items rs)\<rparr>) = live C rs"
proof -
  have inv: "map_inv (rs_items rs)" using assms(1) by (simp add: table_ok_def)
  show "table_ok (P(i := Q)) (rs\<lparr>rs_items := AList.update i it' (rs_items rs)\<rparr>)"
    using assms filter_update [OF inv assms(2), of ri_tomb it']
    by (auto simp: table_ok_def distinct_update update_conv' split: if_splits)
  show "live C (rs\<lparr>rs_items := AList.update i it' (rs_items rs)\<rparr>) = live C rs" if "ri_call it' = ri_call it"
    using filter_update [OF inv assms(2), of "\<lambda>it. \<not> ri_tomb it \<and> C (ri_call it)" it'] assms(3) that
    by (simp add: live_def split: if_splits)
qed

section \<open>The operations\<close>

text \<open>\<^verbatim>\<open>Get\<close> without and with stopping the timer.\<close>

lemma Get_plain [simp]:
  "relayItems_Get i False rs = Ret (case map_of (rs_items rs) i of None \<Rightarrow> None | Some it \<Rightarrow> Some (it, False), rs)"
  by (simp add: relayItems_Get_def split: option.split)

lemma Get_none: "map_of (rs_items rs) i = None \<Longrightarrow> relayItems_Get i b rs = Ret (None, rs)"
  by (simp add: relayItems_Get_def)

lemma Get_idle:
  assumes "map_of (rs_items rs) i = Some it" and "idle it"
  shows "relayItems_Get i True rs = Ret (Some (it, rt_stopped (ri_timeout it)), rs)"
  using assms by (auto simp: relayItems_Get_def timer_Stop_def idle_def update_same)

lemma Get_firing:
  assumes "map_of (rs_items rs) i = Some it" and "item_ok d i it" and "\<not> ri_tomb it" and "\<not> rt_running (ri_timeout it)"
  shows "relayItems_Get i True rs = Ret (Some (it, False), rs)"
  using assms by (auto simp: relayItems_Get_def timer_Stop_def item_ok_def update_same)

definition halt :: "relayItem \<Rightarrow> relayItem" where
  "halt it = it\<lparr>ri_timeout := markTimerInactive ((ri_timeout it)\<lparr>rt_running := False, rt_stopped := True\<rparr>)\<rparr>"

lemma halt_simps [simp]:
  "ri_tomb (halt it) = ri_tomb it" "ri_isOriginator (halt it) = ri_isOriginator it" "ri_call (halt it) = ri_call it"
  "ri_destination (halt it) = ri_destination it" "ri_remapID (halt it) = ri_remapID it"
  "ri_mutatedChecksum (halt it) = ri_mutatedChecksum it" "ri_span (halt it) = ri_span it"
  by (simp_all add: halt_def)

lemma Get_running:
  assumes "table_ok P rs" and "map_of (rs_items rs) i = Some it" and "item_ok d i it" and "\<not> ri_tomb it"
    and "rt_running (ri_timeout it)"
  obtains rs' where "relayItems_Get i True rs = Ret (Some (halt it, True), rs')" and "table_ok (P(i := halted_ok d)) rs'"
    and "\<forall>C. live C rs' = live C rs" and "map_of (rs_items rs') = (map_of (rs_items rs))(i \<mapsto> halt it)"
proof -
  let ?rs = "rs\<lparr>rs_items := AList.update i (halt it) (rs_items rs)\<rparr>"
  have "halted_ok d (halt it)"
    using assms(3-5) by (simp add: halted_ok_def halted_def idle_def item_ok_def) (simp add: halt_def markTimerInactive_def)
  note up = table_update [where it' = "halt it" and Q = "halted_ok d", OF assms(1,2) _ this]
  have "relayItems_Get i True rs = Ret (Some (halt it, True), ?rs)"
    using assms(2-5) by (simp add: relayItems_Get_def timer_Stop_def item_ok_def halt_def Let_def)
  then show ?thesis using up by (intro that [of ?rs]) (simp_all add: update_conv')
qed

lemma Delete_none: "map_of (rs_items rs) i = None \<Longrightarrow> relayItems_Delete i rs = Ret ((None, False), rs)"
  by (simp add: relayItems_Delete_def)

lemma Delete_ok:
  assumes "table_ok P rs" and "map_of (rs_items rs) i = Some it" and "idle it"
  obtains rs' it' where "relayItems_Delete i rs = Ret ((Some it', \<not> ri_tomb it), rs')" and "table_ok (P(i := Q)) rs'"
    and "\<forall>C. live C rs' + (if \<not> ri_tomb it \<and> C (ri_call it) then 1 else 0) = live C rs" and "map_of (rs_items rs') = (map_of (rs_items rs))(i := None)"
    and "ri_call it' = ri_call it" and "ri_isOriginator it' = ri_isOriginator it"
proof -
  let ?it = "it\<lparr>ri_timeout := (ri_timeout it)\<lparr>rt_released := True\<rparr>\<rparr>"
  let ?rs = "rs\<lparr>rs_items := AList.delete i (rs_items rs), rs_tombs := (if ri_tomb it then rs_tombs rs - 1 else rs_tombs rs)\<rparr>"
  have inv: "map_inv (rs_items rs)" using assms(1) by (simp add: table_ok_def)
  have d: "relayItems_Delete i rs = Ret ((Some ?it, \<not> ri_tomb it), ?rs)"
    using assms(2,3) by (simp add: relayItems_Delete_def timer_Release_def idle_def)
  note fd = filter_delete [OF inv assms(2), of ri_tomb]
  have "unat (if ri_tomb it then rs_tombs rs - 1 else rs_tombs rs) = length (filter (\<lambda>(i, it). ri_tomb it) (AList.delete i (rs_items rs)))"
  proof (cases "ri_tomb it")
    case True
    then have pos: "unat (rs_tombs rs) = Suc (length (filter (\<lambda>(i, it). ri_tomb it) (AList.delete i (rs_items rs))))"
      using fd assms(1) by (simp add: table_ok_def)
    then have "1 \<le> rs_tombs rs" by (simp add: word_le_nat_alt)
    then show ?thesis using True pos by (simp add: unat_sub)
  qed (use fd assms(1) in \<open>simp add: table_ok_def\<close>)
  moreover have "map_inv (AList.delete i (rs_items rs))" using inv by (rule distinct_delete)
  ultimately have t: "table_ok (P(i := Q)) ?rs"
    using assms(1) by (simp add: table_ok_def delete_conv')
  have "\<forall>C. live C ?rs + (if \<not> ri_tomb it \<and> C (ri_call it) then 1 else 0) = live C rs"
    using filter_delete [OF inv assms(2), of "\<lambda>it. \<not> ri_tomb it \<and> C (ri_call it)" for C] by (simp add: live_def)
  from that [OF d t this] show ?thesis by (simp add: delete_conv')
qed

text \<open>\<^verbatim>\<open>Entomb\<close> of an item that is not a tomb and whose timer is at rest: it is no longer live, whether it is kept as a tomb or not.\<close>

lemma Entomb_ok:
  assumes "table_ok P rs" and "map_of (rs_items rs) i = Some it" and "idle it" and "\<not> ri_tomb it"
    and "ri_isOriginator it = (d = Outbound)"
  obtains rs' it' where "relayItems_Entomb i rs = Ret ((Some it', True), rs')" and "table_ok (P(i := item_ok d i)) rs'"
    and "\<forall>C. live C rs' + (if C (ri_call it) then 1 else 0) = live C rs" and "map_of (rs_items rs') = (map_of (rs_items rs))(i := None) \<or>
      map_of (rs_items rs') = (map_of (rs_items rs))(i \<mapsto> it\<lparr>ri_tomb := True\<rparr>)"
    and "ri_call it' = ri_call it" and "ri_isOriginator it' = ri_isOriginator it"
proof (cases "rs_tombs rs > rs_maxTombs rs")
  case True
  obtain rs' it' where "relayItems_Delete i rs = Ret ((Some it', \<not> ri_tomb it), rs')" "table_ok (P(i := item_ok d i)) rs'"
      "\<forall>C. live C rs' + (if \<not> ri_tomb it \<and> C (ri_call it) then 1 else 0) = live C rs" "map_of (rs_items rs') = (map_of (rs_items rs))(i := None)"
      "ri_call it' = ri_call it" "ri_isOriginator it' = ri_isOriginator it"
    by (rule Delete_ok [OF assms(1-3)])
  then show ?thesis using assms(4) True by (intro that [of it' rs']) (simp_all add: relayItems_Entomb_def)
next
  case False
  let ?it = "it\<lparr>ri_tomb := True\<rparr>"
  let ?rs = "rs\<lparr>rs_tombs := rs_tombs rs + 1, rs_items := AList.update i ?it (rs_items rs)\<rparr>"
  have inv: "map_inv (rs_items rs)" and tb: "unat (rs_tombs rs) = length (filter (\<lambda>(i, it). ri_tomb it) (rs_items rs))"
    using assms(1) by (simp_all add: table_ok_def)
  have e: "relayItems_Entomb i rs = Ret ((Some ?it, True), ?rs)"
    using False assms(2,4) by (simp add: relayItems_Entomb_def Let_def)
  have "unat (rs_tombs rs) \<le> 2 ^ 32" using tb keys_bound [OF inv] length_filter_le le_trans by metis
  then have "unat (rs_tombs rs + 1) = unat (rs_tombs rs) + 1" by (simp add: unat_word_ariths)
  then have t: "table_ok (P(i := item_ok d i)) ?rs"
    using assms tb filter_update [OF inv assms(2), of ri_tomb ?it]
    by (auto simp: table_ok_def distinct_update update_conv' item_ok_def idle_def split: if_splits)
  have "\<forall>C. live C ?rs + (if C (ri_call it) then 1 else 0) = live C rs"
    using filter_update [OF inv assms(2), of "\<lambda>it. \<not> ri_tomb it \<and> C (ri_call it)" ?it for C] assms(4) by (simp add: live_def)
  from that [OF e t this] show ?thesis by (simp add: update_conv')
qed

lemma Add_ok:
  assumes "table_ok P rs" and "map_of (rs_items rs) i = None" and "Q it" and "\<not> ri_tomb it"
  shows "table_ok (P(i := Q)) (relayItems_Add i it rs)" and "live C (relayItems_Add i it rs) = live C rs + (if C (ri_call it) then 1 else 0)"
  using assms filter_add [OF assms(2), of ri_tomb it] filter_add [OF assms(2), of "\<lambda>it. \<not> ri_tomb it \<and> C (ri_call it)" it]
  by (auto simp: table_ok_def relayItems_Add_def live_def distinct_update update_conv' split: if_splits)

text \<open>\<^verbatim>\<open>Count\<close> is the number of live items.\<close>

lemma filter_complement: "length (filter Q xs) + length (filter (\<lambda>x. \<not> Q x) xs) = length xs"
  by (induction xs) auto

lemma Count_live:
  assumes "table_ok P rs"
  shows "relayItems_Count rs = int (live (\<lambda>_. True) rs)"
proof -
  have inv: "map_inv (rs_items rs)" and tb: "unat (rs_tombs rs) = length (filter (\<lambda>(i, it). ri_tomb it) (rs_items rs))"
    using assms by (simp_all add: table_ok_def)
  have le: "unat (rs_tombs rs) \<le> 2 ^ 32" using tb keys_bound [OF inv] length_filter_le le_trans by metis
  have u: "uint (rs_tombs rs) = int (unat (rs_tombs rs))" by simp
  have "int (unat (rs_tombs rs)) \<le> int (2 ^ 32)" using le by (simp only: of_nat_le_iff)
  then have "uint (rs_tombs rs) < 2 ^ 63" unfolding u by (simp del: of_nat_unat)
  then have "signed_take_bit 63 (uint (rs_tombs rs)) = uint (rs_tombs rs)"
    by (intro signed_take_bit_int_eq_self order_trans [OF _ unsigned_greater_eq]) simp_all
  then have "sint (rs_tombs rs) = uint (rs_tombs rs)" by (simp add: sint_uint)
  then have "sint (rs_tombs rs) = int (unat (rs_tombs rs))" by simp
  moreover have "length (rs_items rs) = unat (rs_tombs rs) + live (\<lambda>_. True) rs"
    using filter_complement [of "\<lambda>(i, it). ri_tomb it" "rs_items rs"] tb by (simp add: live_def case_prod_unfold)
  ultimately show ?thesis by (simp add: relayItems_Count_def)
qed

end
