(* ===== verification/Relayer.thy ===== *)
theory Relayer
  imports Relay_Items
begin

text \<open>
  The relayers of a process, from \<^verbatim>\<open>relay.go\<close>. Relayers forward to each other, so the operations act on all the connections
  of the relay: a relayer is the number of its connection. The relay host is the application's: \<open>start\<close> is what its
  \<^verbatim>\<open>Start\<close> returned for a request, \<open>destination\<close> what \<^verbatim>\<open>Destination\<close> and the connection to that peer came to, and the
  calls of the methods of its \<^verbatim>\<open>RelayCall\<close> objects are logged. A host that appends to the second argument is not covered
  here; the appending itself is in \<^verbatim>\<open>Thrift_Headers\<close>. The number of pending calls is the \<open>c_relay\<close> of the connection.
\<close>

section \<open>State\<close>

datatype frameType = requestFrame | responseFrame

datatype callEvent = SentBytes uint16 | ReceivedBytes uint16 | CallResponse lazyCallRes | Succeeded | Failed string | End

record Relayer =
  rl_conn :: Connection
  rl_maxTimeout :: duration
  rl_localHandler :: "string list"
  rl_outbound :: relayItems
  rl_inbound :: relayItems

record relayNet =
  rn_relayers :: "Relayer list"
  rn_log :: "(nat \<times> callEvent) list"
  rn_calls :: nat

definition errFrameNotSent :: gerror where
  "errFrameNotSent = NewSystemError ErrCodeNetwork ''frame was not sent to remote side''"
definition errBadRelayHost :: gerror where
  "errBadRelayHost = NewSystemError ErrCodeDeclined ''bad relay host implementation''"
definition errRelayMethodFragmented :: gerror where
  "errRelayMethodFragmented = NewSystemError ErrCodeBadRequest ''relay handler cannot receive fragmented calls''"
definition errUnknownID :: gerror where "errUnknownID = ErrorString ''non-callReq for inactive ID''"

definition relayErrorNotFound :: string where "relayErrorNotFound = ''relay-not-found''"
definition relayErrorDestConnSlow :: string where "relayErrorDestConnSlow = ''relay-dest-conn-slow''"
definition relayErrorSourceConnSlow :: string where "relayErrorSourceConnSlow = ''relay-source-conn-slow''"

definition NewRelayer :: "duration \<Rightarrow> string list \<Rightarrow> uint64 \<Rightarrow> Connection \<Rightarrow> Relayer" where
  "NewRelayer maxTimeout relayLocal maxTombs conn =
     \<lparr>rl_conn = conn, rl_maxTimeout = maxTimeout, rl_localHandler = relayLocal,
      rl_outbound = newRelayItems maxTombs, rl_inbound = newRelayItems maxTombs\<rparr>"

definition rl_items :: "set_name \<Rightarrow> Relayer \<Rightarrow> relayItems" where
  "rl_items d R = (case d of Inbound \<Rightarrow> rl_inbound R | Outbound \<Rightarrow> rl_outbound R)"

definition set_rl_items :: "set_name \<Rightarrow> relayItems \<Rightarrow> Relayer \<Rightarrow> Relayer" where
  "set_rl_items d rs R = (case d of Inbound \<Rightarrow> R\<lparr>rl_inbound := rs\<rparr> | Outbound \<Rightarrow> R\<lparr>rl_outbound := rs\<rparr>)"

definition relayer :: "nat \<Rightarrow> relayNet \<Rightarrow> Relayer" where
  "relayer r net = rn_relayers net ! r"

definition put_items :: "nat \<Rightarrow> set_name \<Rightarrow> relayItems \<Rightarrow> relayNet \<Rightarrow> relayNet" where
  "put_items r d rs net = net\<lparr>rn_relayers := (rn_relayers net)[r := set_rl_items d rs (relayer r net)]\<rparr>"

definition put_conn :: "nat \<Rightarrow> Connection \<Rightarrow> relayNet \<Rightarrow> relayNet" where
  "put_conn r c net = net\<lparr>rn_relayers := (rn_relayers net)[r := (relayer r net)\<lparr>rl_conn := c\<rparr>]\<rparr>"

abbreviation the_conn :: "nat \<Rightarrow> relayNet \<Rightarrow> Connection" where
  "the_conn r net \<equiv> rl_conn (relayer r net)"

definition call_event :: "nat \<Rightarrow> callEvent \<Rightarrow> relayNet \<Rightarrow> relayNet" where
  "call_event k e net = net\<lparr>rn_log := rn_log net @ [(k, e)]\<rparr>"

definition relay_SendSystemError :: "nat \<Rightarrow> uint32 \<Rightarrow> Span \<Rightarrow> gerror \<Rightarrow> relayNet \<Rightarrow> relayNet" where
  "relay_SendSystemError r i span err net = put_conn r (snd (SendSystemError i span err (the_conn r net))) net"

section \<open>Frames\<close>

definition frameTypeFor :: "Frame \<Rightarrow> frameType go" where
  "frameTypeFor f =
     (let t = fh_messageType (fr_Header f)
      in if t \<in> {messageTypeCallRes, messageTypeCallResContinue, messageTypeError, messageTypePingRes} then Ret responseFrame
         else if t \<in> {messageTypeCallReq, messageTypeCallReqContinue, messageTypePingReq} then Ret requestFrame
         else Panic)"

definition determinesCallSuccess :: "Frame \<Rightarrow> (bool \<times> string) go" where
  "determinesCallSuccess f =
     (let t = Frame_messageType f
      in if t = messageTypeError then go_bind (lazyError_Code f) (\<lambda>code. Ret (False, MetricsKey code))
         else if t = messageTypeCallRes then
           go_bind (isCallResOK f) (\<lambda>ok. Ret (if ok then (True, []) else (False, ''application-error'')))
         else Ret (False, []))"

definition receiverItems :: "frameType \<Rightarrow> set_name" where
  "receiverItems fType = (if fType = requestFrame then Inbound else Outbound)"

section \<open>Ending a relayed call\<close>

definition pending_Inc :: "nat \<Rightarrow> nat" where "pending_Inc n = (n + 1) mod 2 ^ 32"
definition pending_Dec :: "nat \<Rightarrow> nat" where "pending_Dec n = (n + 2 ^ 32 - 1) mod 2 ^ 32"

definition decrementPending :: "nat \<Rightarrow> relayNet \<Rightarrow> relayNet go" where
  "decrementPending r net =
     (let c = the_conn r net
      in go_bind (checkExchanges (c\<lparr>c_relay := map_option pending_Dec (c_relay c)\<rparr>)) (\<lambda>c'. Ret (put_conn r c' net)))"

definition finishRelayItem :: "nat \<Rightarrow> set_name \<Rightarrow> uint32 \<Rightarrow> relayNet \<Rightarrow> relayNet go" where
  "finishRelayItem r d i net =
     go_bind (relayItems_Delete i (rl_items d (relayer r net))) (\<lambda>((item, ok), rs).
       let net1 = put_items r d rs net
       in case item of
            Some it \<Rightarrow>
              if \<not> ok then Ret net1
              else decrementPending r (if ri_isOriginator it then call_event (ri_call it) End net1 else net1)
          | None \<Rightarrow> Ret net1)"

definition failRelayItem :: "nat \<Rightarrow> set_name \<Rightarrow> uint32 \<Rightarrow> string \<Rightarrow> gerror \<Rightarrow> relayNet \<Rightarrow> relayNet go" where
  "failRelayItem r d i reason err net =
     go_bind (relayItems_Get i True (rl_items d (relayer r net))) (\<lambda>(res, rs).
       let net1 = put_items r d rs net
       in case res of
            None \<Rightarrow> Ret net1
          | Some (_, wasStopped) \<Rightarrow>
              if \<not> wasStopped then Ret net1
              else
                go_bind (relayItems_Entomb i rs) (\<lambda>((item, ok), rs').
                  let net2 = put_items r d rs' net1
                  in case item of
                       Some it \<Rightarrow>
                         if \<not> ok then Ret net2
                         else if ri_isOriginator it then
                           (let net3 = (if reason \<noteq> relayErrorSourceConnSlow
                                        then relay_SendSystemError r i (ri_span it) (ErrorString (reason @ '': '' @ Error err)) net2
                                        else net2)
                            in decrementPending r (call_event (ri_call it) End (call_event (ri_call it) (Failed reason) net3)))
                         else decrementPending r net2
                     | None \<Rightarrow> Ret net2))"

definition timeoutRelayItem :: "nat \<Rightarrow> set_name \<Rightarrow> uint32 \<Rightarrow> bool \<Rightarrow> relayNet \<Rightarrow> relayNet go" where
  "timeoutRelayItem r d i isOriginator net =
     go_bind (relayItems_Entomb i (rl_items d (relayer r net))) (\<lambda>((item, ok), rs).
       let net1 = put_items r d rs net
       in case item of
            Some it \<Rightarrow>
              if \<not> ok then Ret net1
              else if isOriginator then
                decrementPending r (call_event (ri_call it) End (call_event (ri_call it) (Failed ''timeout'')
                  (relay_SendSystemError r i (ri_span it) ErrTimeout net1)))
              else decrementPending r net1
          | None \<Rightarrow> Ret net1)"

text \<open>
  The timer of an item fires; later its goroutine runs \<^verbatim>\<open>OnTimer\<close>, which calls \<^verbatim>\<open>timeoutRelayItem\<close> as the trigger. A tomb is
  removed after its time to live.
\<close>

definition fire_timer :: "set_name \<Rightarrow> uint32 \<Rightarrow> nat \<Rightarrow> relayNet \<Rightarrow> relayNet" where
  "fire_timer d i r net =
     (let rs = rl_items d (relayer r net)
      in case map_of (rs_items rs) i of
           None \<Rightarrow> net
         | Some item \<Rightarrow>
             put_items r d (rs\<lparr>rs_items := AList.update i
               (item\<lparr>ri_timeout := (ri_timeout item)\<lparr>rt_running := False\<rparr>\<rparr>) (rs_items rs)\<rparr>) net)"

definition OnTimer :: "set_name \<Rightarrow> uint32 \<Rightarrow> nat \<Rightarrow> relayNet \<Rightarrow> relayNet go" where
  "OnTimer d i r net =
     (let rs = rl_items d (relayer r net)
      in case map_of (rs_items rs) i of
           None \<Rightarrow> Ret net
         | Some item \<Rightarrow>
             go_bind (timer_OnTimer (ri_timeout item)) (\<lambda>((items, i', isOriginator), rt).
               let net1 = put_items r d (rs\<lparr>rs_items := AList.update i (item\<lparr>ri_timeout := rt\<rparr>) (rs_items rs)\<rparr>) net
               in case items of
                    None \<Rightarrow> Panic
                  | Some d' \<Rightarrow> timeoutRelayItem r d' i' isOriginator net1))"

definition delete_tomb :: "set_name \<Rightarrow> uint32 \<Rightarrow> nat \<Rightarrow> relayNet \<Rightarrow> relayNet go" where
  "delete_tomb d i r net =
     go_bind (relayItems_Delete i (rl_items d (relayer r net))) (\<lambda>(_, rs). Ret (put_items r d rs net))"

section \<open>Forwarding\<close>

text \<open>The parts of \<^verbatim>\<open>Receive\<close>: reporting the outcome of the call, and handing the frame to the connection.\<close>

definition report_outcome :: "frameType \<Rightarrow> Frame \<Rightarrow> relayItem \<Rightarrow> relayNet \<Rightarrow> relayNet go" where
  "report_outcome fType f item net =
     (if fType = responseFrame then
        go_bind (determinesCallSuccess f) (\<lambda>(succeeded, failMsg).
          Ret (if succeeded then call_event (ri_call item) Succeeded net
               else if length failMsg > 0 then call_event (ri_call item) (Failed failMsg) net
               else net))
      else Ret net)"

definition enqueue_frame ::
  "nat \<Rightarrow> set_name \<Rightarrow> uint32 \<Rightarrow> bool \<Rightarrow> Frame \<Rightarrow> frameType \<Rightarrow> relayNet \<Rightarrow> ((bool \<times> string) \<times> relayNet) go" where
  "enqueue_frame r d i finished f fType net =
     (let c = the_conn r net
      in if length (c_sendCh c) < c_sendCap c then
           (let net1 = put_conn r (c\<lparr>c_sendCh := c_sendCh c @ [f]\<rparr>) net
            in go_bind (if finished then finishRelayItem r d i net1 else Ret net1) (\<lambda>net2. Ret ((True, []), net2)))
         else
           (let err = (if fType = responseFrame then relayErrorSourceConnSlow else relayErrorDestConnSlow)
            in go_bind (failRelayItem r d i err errFrameNotSent net) (\<lambda>net1. Ret ((False, err), net1))))"

definition relay_Receive :: "nat \<Rightarrow> Frame \<Rightarrow> frameType \<Rightarrow> relayNet \<Rightarrow> ((bool \<times> string) \<times> relayNet) go" where
  "relay_Receive r f fType net =
     (let i = fh_ID (fr_Header f);
          d = receiverItems fType
      in go_bind (finishesCall f) (\<lambda>finished.
         go_bind (relayItems_Get i finished (rl_items d (relayer r net))) (\<lambda>(res, rs).
           let net1 = put_items r d rs net
           in case res of
                None \<Rightarrow> Ret ((False, relayErrorNotFound), net1)
              | Some (item, wasStopped) \<Rightarrow>
                  if ri_tomb item \<or> (finished \<and> \<not> wasStopped) then Ret ((True, []), net1)
                  else go_bind (report_outcome fType f item net1) (\<lambda>net2. enqueue_frame r d i finished f fType net2))))"

text \<open>
  \<^verbatim>\<open>updateMutatedCallReqContinueChecksum\<close>: the chunk of the third argument is added to the running checksum,
  whose sum replaces the one in the frame.
\<close>

definition updateMutatedChecksum :: "Frame \<Rightarrow> Checksum \<Rightarrow> (Frame \<times> Checksum) go" where
  "updateMutatedChecksum f cs =
     go_bind (SizedPayload f) (\<lambda>p.
       (let r0 = SkipBytes 1 (SkipBytes 1 (NewReadBuffer p));
            (checksumRef, r1) = ReadBytes (Checksum_Size cs) r0;
            (n, r2) = ReadUint16 r1;
            (arg3, _) = ReadBytes (unat n) r2;
            cs' = Checksum_Add (opt_bytes arg3) cs
        in Ret (case checksumRef of
                  None \<Rightarrow> f
                | Some b \<Rightarrow> set_Payload (copy_at 2 (take (length b) (Checksum_Sum cs')) (fr_Payload f)) f, cs')))"

definition reportRelayBytes :: "frameType \<Rightarrow> uint16 \<Rightarrow> relayItem \<Rightarrow> relayNet \<Rightarrow> relayNet" where
  "reportRelayBytes fType frameSize item net =
     call_event (ri_call item) (if fType = requestFrame then SentBytes frameSize else ReceivedBytes frameSize) net"

text \<open>The part of \<^verbatim>\<open>handleNonCallReq\<close> that looks into the frame before it is forwarded.\<close>

definition inspect_frame :: "nat \<Rightarrow> set_name \<Rightarrow> Frame \<Rightarrow> relayItem \<Rightarrow> relayNet \<Rightarrow> (Frame \<times> relayNet) go" where
  "inspect_frame r d f item net =
     (let t = Frame_messageType f
      in if t = messageTypeCallRes then
           go_bind (newLazyCallRes f) (\<lambda>res.
             Ret (f, case res of Inr cr \<Rightarrow> call_event (ri_call item) (CallResponse cr) net | Inl _ \<Rightarrow> net))
         else if t = messageTypeCallReqContinue then
           (case ri_mutatedChecksum item of
              None \<Rightarrow> Ret (f, net)
            | Some cs \<Rightarrow>
                go_bind (updateMutatedChecksum f cs) (\<lambda>(f', cs').
                  let rs = rl_items d (relayer r net)
                  in Ret (f', put_items r d (rs\<lparr>rs_items := AList.update (fh_ID (fr_Header f))
                       (item\<lparr>ri_mutatedChecksum := Some cs'\<rparr>) (rs_items rs)\<rparr>) net)))
         else Ret (f, net))"

definition handleNonCallReq :: "nat \<Rightarrow> Frame \<Rightarrow> relayNet \<Rightarrow> (gerror option \<times> relayNet) go" where
  "handleNonCallReq r f net =
     go_bind (frameTypeFor f) (\<lambda>fType.
       go_bind (finishesCall f) (\<lambda>finished.
         let d = (if fType = responseFrame then Inbound else Outbound);
             i = fh_ID (fr_Header f)
         in go_bind (relayItems_Get i finished (rl_items d (relayer r net))) (\<lambda>(res, rs).
              let net1 = put_items r d rs net
              in case res of
                   None \<Rightarrow> Ret (Some errUnknownID, net1)
                 | Some (item, wasStopped) \<Rightarrow>
                     if ri_tomb item \<or> (finished \<and> \<not> wasStopped) then Ret (None, net1)
                     else
                       go_bind (inspect_frame r d f item net1) (\<lambda>(f1, net2).
                         let net3 = reportRelayBytes fType (FrameSize (fr_Header f1)) item net2;
                             f2 = f1\<lparr>fr_Header := (fr_Header f1)\<lparr>fh_ID := ri_remapID item\<rparr>\<rparr>
                         in go_bind (relay_Receive (ri_destination item) f2 fType net3) (\<lambda>((sent, failure), net4).
                              if \<not> sent then
                                go_bind (failRelayItem r d i failure errFrameNotSent net4) (\<lambda>net5. Ret (None, net5))
                              else if finished then
                                go_bind (finishRelayItem r d i net4) (\<lambda>net5. Ret (None, net5))
                              else Ret (None, net4))))))"

section \<open>Starting a relayed call\<close>

text \<open>What the relay host's \<^verbatim>\<open>Start\<close> returned: a call, or an error with or without a call; the error may be to drop silently.\<close>

datatype start_result = StartOk | StartDropped bool | StartFailed gerror bool

definition canHandleNewCall :: "nat \<Rightarrow> relayNet \<Rightarrow> (bool \<times> connectionState) \<times> relayNet" where
  "canHandleNewCall r net =
     (let c = the_conn r net
      in if c_state c = connectionActive
         then ((True, c_state c), put_conn r (c\<lparr>c_relay := map_option pending_Inc (c_relay c)\<rparr>) net)
         else ((False, c_state c), net))"

definition addRelayItem ::
  "nat \<Rightarrow> relayTimer option \<Rightarrow> bool \<Rightarrow> uint32 \<Rightarrow> uint32 \<Rightarrow> nat \<Rightarrow> Span \<Rightarrow> nat \<Rightarrow> Checksum option \<Rightarrow> relayNet \<Rightarrow>
   (relayItem \<times> relayNet) go" where
  "addRelayItem r reused isOriginator i remapID destination span call mutatedChecksum net =
     (let d = (if isOriginator then Outbound else Inbound);
          item = \<lparr>ri_remapID = remapID, ri_tomb = False, ri_isOriginator = isOriginator, ri_call = call,
                  ri_destination = destination, ri_span = span, ri_timeout = timerPool_Get reused,
                  ri_mutatedChecksum = mutatedChecksum\<rparr>
      in go_bind (timer_Start d i isOriginator (ri_timeout item)) (\<lambda>rt.
           let item' = item\<lparr>ri_timeout := rt\<rparr>
           in Ret (item', put_items r d (relayItems_Add i item' (rl_items d (relayer r net))) net)))"

text \<open>
  \<^verbatim>\<open>getDestination\<close>: \<open>destination\<close> is \<open>None\<close> when the call has none, otherwise the error of getting a connection to the peer,
  or the number of that connection.
\<close>

definition getDestination ::
  "nat \<Rightarrow> lazyCallReq \<Rightarrow> nat \<Rightarrow> (gerror + nat) option \<Rightarrow> relayNet \<Rightarrow> (nat option \<times> gerror option) \<times> relayNet" where
  "getDestination r cr call destination net =
     (let i = fh_ID (fr_Header (lr_Frame cr))
      in if map_of (rs_items (rl_outbound (relayer r net))) i \<noteq> None then
           ((None, Some (ErrorString ''callReq with already active ID'')),
            call_event call (Failed (relayMetricsKey ErrCodeProtocol)) net)
         else
           (case destination of
              None \<Rightarrow>
                ((None, Some errBadRelayHost),
                 relay_SendSystemError r i (lazyReq_Span cr) errBadRelayHost (call_event call (Failed ''relay-bad-relay-host'') net))
            | Some (Inl err) \<Rightarrow>
                ((None, None),
                 relay_SendSystemError r i (lazyReq_Span cr) (NewWrappedSystemError ErrCodeNetwork err)
                   (call_event call (Failed ''relay-connection-failed'') net))
            | Some (Inr conn) \<Rightarrow> ((Some conn, None), net)))"

text \<open>The end of \<^verbatim>\<open>handleCallReq\<close>: both relayers can take the call.\<close>

definition relay_call ::
  "nat \<Rightarrow> nat \<Rightarrow> relayTimer option \<Rightarrow> relayTimer option \<Rightarrow> nat \<Rightarrow> lazyCallReq \<Rightarrow> relayNet \<Rightarrow> relayNet go" where
  "relay_call r dest reused1 reused2 call cr net =
     (let origID = fh_ID (fr_Header (lr_Frame cr));
          (destinationID, dc) = NextMessageID (the_conn dest net);
          net1 = put_conn dest dc net
      in go_bind (lazyReq_TTL cr) (\<lambda>ttl.
         go_bind (if ttl > rl_maxTimeout (relayer r net1) then lazyReq_SetTTL (rl_maxTimeout (relayer r net1)) cr else Ret cr) (\<lambda>cr1.
         let span = lazyReq_Span cr1
         in go_bind (addRelayItem dest reused1 False destinationID origID r span call None net1) (\<lambda>(_, net2).
            go_bind (addRelayItem r reused2 True origID destinationID dest span call None net2) (\<lambda>(relayToDest, net3).
              let f = (lr_Frame cr1)\<lparr>fr_Header := (fr_Header (lr_Frame cr1))\<lparr>fh_ID := destinationID\<rparr>\<rparr>;
                  net4 = call_event call (SentBytes (FrameSize (fr_Header f))) net3
              in go_bind (relay_Receive (ri_destination relayToDest) f requestFrame net4) (\<lambda>((sent, failure), net5).
                   if \<not> sent then failRelayItem r Outbound origID failure errFrameNotSent net5 else Ret net5))))))"

text \<open>The state after the call was started: both connections are asked, and the destination is looked up in between.\<close>

definition start_call ::
  "nat \<Rightarrow> (gerror + nat) option \<Rightarrow> relayTimer option \<Rightarrow> relayTimer option \<Rightarrow> nat \<Rightarrow> lazyCallReq \<Rightarrow> relayNet \<Rightarrow>
   (gerror option \<times> relayNet) go" where
  "start_call r destination reused1 reused2 call cr net =
     (let i = fh_ID (fr_Header (lr_Frame cr)); span = lazyReq_Span cr
      in case canHandleNewCall r net of
           ((canHandle, state), net1) \<Rightarrow>
             if \<not> canHandle then
               (let err = ErrConnNotActive ''incoming'' state;
                    net2 = call_event call End (call_event call (Failed ''relay-client-conn-inactive'') net1)
                in Ret (Some err, relay_SendSystemError r i span (NewWrappedSystemError ErrCodeDeclined err) net2))
             else
               (case getDestination r cr call destination net1 of
                  ((None, err), net2) \<Rightarrow>
                    go_bind (decrementPending r net2) (\<lambda>net3. Ret (err, call_event call End net3))
                | ((Some dest, _), net2) \<Rightarrow>
                    (case canHandleNewCall dest net2 of
                       ((remoteCan, remoteState), net3) \<Rightarrow>
                         if \<not> remoteCan then
                           (let err = NewWrappedSystemError ErrCodeNetwork (ErrConnNotActive ''selected remote'' remoteState);
                                net4 = relay_SendSystemError r i span (NewWrappedSystemError ErrCodeDeclined err)
                                         (call_event call (Failed ''relay-remote-inactive'') net3)
                            in go_bind (decrementPending r net4) (\<lambda>net5. Ret (Some err, call_event call End net5)))
                         else go_bind (relay_call r dest reused1 reused2 call cr net3) (\<lambda>net4. Ret (None, net4)))))"

definition relay_fail_start :: "nat \<Rightarrow> bool \<Rightarrow> string \<Rightarrow> relayNet \<Rightarrow> relayNet" where
  "relay_fail_start call has_call reason net =
     (if has_call then call_event call End (call_event call (Failed reason) net) else net)"

definition relay_handleCallReq ::
  "nat \<Rightarrow> start_result \<Rightarrow> (gerror + nat) option \<Rightarrow> relayTimer option \<Rightarrow> relayTimer option \<Rightarrow> lazyCallReq \<Rightarrow> relayNet \<Rightarrow>
   (gerror option \<times> relayNet) go" where
  "relay_handleCallReq r start destination reused1 reused2 cr net0 =
     (let i = fh_ID (fr_Header (lr_Frame cr));
          call = rn_calls net0;
          net = net0\<lparr>rn_calls := call + 1\<rparr>
      in case start of
           StartDropped has_call \<Rightarrow> Ret (None, relay_fail_start call has_call ''relay-dropped'' net)
         | StartFailed err0 has_call \<Rightarrow>
             (let err = (case err0 of SystemError _ _ _ \<Rightarrow> err0 | _ \<Rightarrow> NewSystemError ErrCodeDeclined (Error err0));
                  code = GetSystemErrorCode (Some err);
                  net1 = relay_SendSystemError r i (lazyReq_Span cr) err (relay_fail_start call has_call (relayMetricsKey code) net)
              in if code = ErrCodeProtocol
                 then go_bind (conn_close (the_conn r net1)) (\<lambda>(e, c). Ret (e, put_conn r c net1))
                 else Ret (None, net1))
         | StartOk \<Rightarrow> start_call r destination reused1 reused2 call cr net)"

text \<open>
  \<^verbatim>\<open>handleLocalCallReq\<close>: whether the call was handled here, and the call that was dispatched, if any.
\<close>

definition handleLocalCallReq ::
  "int \<Rightarrow> Context \<Rightarrow> (Connection \<Rightarrow> Connection) \<Rightarrow> nat \<Rightarrow> lazyCallReq \<Rightarrow> relayNet \<Rightarrow>
   (bool \<times> InboundCall option \<times> relayNet) go option" where
  "handleLocalCallReq now base env r cr net =
     (case lazyReq_Service cr of
        Panic \<Rightarrow> Some Panic
      | Ret service \<Rightarrow>
          if string_of_bytes service \<notin> set (rl_localHandler (relayer r net)) then Some (Ret (False, None, net))
          else
            (case lazyReq_HasMoreFragments cr of
               Panic \<Rightarrow> Some Panic
             | Ret True \<Rightarrow>
                 Some (Ret (True, None, relay_SendSystemError r (fh_ID (fr_Header (lr_Frame cr))) (lazyReq_Span cr)
                   errRelayMethodFragmented net))
             | Ret False \<Rightarrow>
                 (case handleFrameNoRelay now base env (lr_Frame cr) (the_conn r net) of
                    None \<Rightarrow> None
                  | Some Panic \<Rightarrow> Some Panic
                  | Some (Ret (release, call, c)) \<Rightarrow>
                      Some (Ret (True, call, put_conn r (if release then pool_Release (lr_Frame cr) c else c) net)))))"

text \<open>\<^verbatim>\<open>Relay\<close>: whether the frame is to be released, the error, and a call dispatched to the local handlers.\<close>

definition Relay ::
  "int \<Rightarrow> Context \<Rightarrow> (Connection \<Rightarrow> Connection) \<Rightarrow> start_result \<Rightarrow> (gerror + nat) option \<Rightarrow> relayTimer option \<Rightarrow>
   relayTimer option \<Rightarrow> nat \<Rightarrow> Frame \<Rightarrow> relayNet \<Rightarrow> (bool \<times> gerror option \<times> InboundCall option \<times> relayNet) go option" where
  "Relay now base env start destination reused1 reused2 r f net =
     (if Frame_messageType f \<noteq> messageTypeCallReq then
        Some (go_bind (handleNonCallReq r f net) (\<lambda>(err, net1).
          if err = Some errUnknownID then
            (case mexset_forwardPeerFrame f (c_outbound (the_conn r net1)) of
               (None, ms) \<Rightarrow> Ret (False, None, None, put_conn r ((the_conn r net1)\<lparr>c_outbound := ms\<rparr>) net1)
             | (Some _, ms) \<Rightarrow> Ret (False, err, None, put_conn r ((the_conn r net1)\<lparr>c_outbound := ms\<rparr>) net1))
          else Ret (False, err, None, net1)))
      else
        (case newLazyCallReq f of
           Panic \<Rightarrow> Some Panic
         | Ret (Inl err) \<Rightarrow> Some (Ret (True, Some err, None, net))
         | Ret (Inr cr) \<Rightarrow>
             (case handleLocalCallReq now base env r cr net of
                None \<Rightarrow> None
              | Some Panic \<Rightarrow> Some Panic
              | Some (Ret (True, call, net1)) \<Rightarrow> Some (Ret (False, None, call, net1))
              | Some (Ret (False, _, net1)) \<Rightarrow>
                  Some (go_bind (relay_handleCallReq r start destination reused1 reused2 cr net1) (\<lambda>(err, net2).
                    Ret (False, err, None, net2))))))"

end
