(* ===== verification/Relay_Invariant.thy ===== *)
theory Relay_Invariant
  imports Relayer Conn_Runs Transport
begin

text \<open>
  The invariant of a relay and that every operation of \<^verbatim>\<open>relay.go\<close> keeps it. Within an operation a call may be counted as
  pending without an item, or its end may be still to be reported; \<open>net_inv\<close> says how many. The operations are taken one at
  a time: a frame is handled, or a timer's goroutine runs, or a tomb is removed.
\<close>

section \<open>The invariant\<close>

definition ends :: "nat \<Rightarrow> (nat \<times> callEvent) list \<Rightarrow> nat" where
  "ends call log = length (filter (\<lambda>(c, e). c = call \<and> e = End) log)"

text \<open>The live items of a call at its originator, over all connections.\<close>

definition originated :: "nat \<Rightarrow> relayNet \<Rightarrow> nat" where
  "originated call net = sum_list (map (\<lambda>R. live (\<lambda>c. c = call) (rl_outbound R)) (rn_relayers net))"

definition held :: "Relayer \<Rightarrow> nat" where
  "held R = live (\<lambda>_. True) (rl_inbound R) + live (\<lambda>_. True) (rl_outbound R)"

definition relayer_inv :: "(set_name \<Rightarrow> uint32 \<Rightarrow> relayItem \<Rightarrow> bool) \<Rightarrow> nat \<Rightarrow> Relayer \<Rightarrow> bool" where
  "relayer_inv P k R \<longleftrightarrow> conn_inv (rl_conn R) \<and> (\<forall>d. table_ok (P d) (rl_items d R)) \<and>
     c_relay (rl_conn R) = Some ((held R + k) mod 2 ^ 32)"

text \<open>
  \<open>P\<close> is what is known of the items of each table, \<open>k\<close> the number of pending calls of a connection that have no live item,
  \<open>e\<close> the number of ends that are still to be reported for a call, and \<open>w\<close> marks the calls that were started.
\<close>

type_synonym expected = "nat \<Rightarrow> set_name \<Rightarrow> uint32 \<Rightarrow> relayItem \<Rightarrow> bool"

definition net_inv :: "expected \<Rightarrow> (nat \<Rightarrow> nat) \<Rightarrow> (nat \<Rightarrow> nat) \<Rightarrow> (nat \<Rightarrow> nat) \<Rightarrow> relayNet \<Rightarrow> bool" where
  "net_inv P k e w net \<longleftrightarrow>
     (\<forall>r < length (rn_relayers net). relayer_inv (P r) (k r) (relayer r net)) \<and>
     (\<forall>r d i it. r < length (rn_relayers net) \<and> map_of (rs_items (rl_items d (relayer r net))) i = Some it \<longrightarrow>
        ri_destination it < length (rn_relayers net) \<and> w (ri_call it) = 1) \<and>
     (\<forall>c. ends c (rn_log net) + originated c net + e c = w c) \<and>
     (\<forall>(c, ev) \<in> set (rn_log net). w c = 1)"

abbreviation all_ok :: expected where
  "all_ok \<equiv> \<lambda>r d. item_ok d"

definition one_item :: "expected \<Rightarrow> nat \<Rightarrow> set_name \<Rightarrow> uint32 \<Rightarrow> (relayItem \<Rightarrow> bool) \<Rightarrow> expected" where
  "one_item P r d i Q = P(r := (P r)(d := (P r d)(i := Q)))"

lemma one_item_simps [simp]:
  "one_item P r d i Q r d i = Q"
  "(r', d', i') \<noteq> (r, d, i) \<Longrightarrow> one_item P r d i Q r' d' i' = P r' d' i'"
  "one_item (one_item P r d i Q) r d i Q' = one_item P r d i Q'"
  "one_item P r d i (P r d i) = P"
  by (auto simp: one_item_def)

lemma one_item_ok: "P r d i = Q \<Longrightarrow> one_item P r d i Q = P"
  by (auto simp: one_item_def)

lemma relayer_puts [simp]:
  "length (rn_relayers (put_items r d rs net)) = length (rn_relayers net)"
  "length (rn_relayers (put_conn r c net)) = length (rn_relayers net)"
  "length (rn_relayers (call_event k ev net)) = length (rn_relayers net)"
  "rn_log (put_items r d rs net) = rn_log net" "rn_log (put_conn r c net) = rn_log net"
  "rn_log (call_event k ev net) = rn_log net @ [(k, ev)]"
  "rn_calls (put_items r d rs net) = rn_calls net" "rn_calls (put_conn r c net) = rn_calls net"
  "rn_calls (call_event k ev net) = rn_calls net"
  "relayer r' (call_event k ev net) = relayer r' net"
  by (simp_all add: put_items_def put_conn_def call_event_def relayer_def)

lemma relayer_put_items:
  "r < length (rn_relayers net) \<Longrightarrow> relayer r' (put_items r d rs net) = (if r' = r then set_rl_items d rs (relayer r net) else relayer r' net)"
  by (simp add: put_items_def relayer_def)

lemma relayer_put_conn:
  "r < length (rn_relayers net) \<Longrightarrow> relayer r' (put_conn r c net) = (if r' = r then (relayer r net)\<lparr>rl_conn := c\<rparr> else relayer r' net)"
  by (simp add: put_conn_def relayer_def)

lemma rl_items_simps [simp]:
  "rl_items d' (set_rl_items d rs R) = (if d' = d then rs else rl_items d' R)" "rl_conn (set_rl_items d rs R) = rl_conn R"
  "rl_items d (R\<lparr>rl_conn := c\<rparr>) = rl_items d R" "rl_items Outbound R = rl_outbound R" "rl_items Inbound R = rl_inbound R"
  by (cases d; cases d'; simp add: rl_items_def set_rl_items_def)+

lemma held_set: "held (set_rl_items d rs R) + live (\<lambda>_. True) (rl_items d R) = held R + live (\<lambda>_. True) rs"
  by (cases d) (simp_all add: held_def set_rl_items_def)

lemma held_conn [simp]: "held (R\<lparr>rl_conn := c\<rparr>) = held R"
  by (simp add: held_def)

lemma originated_put:
  assumes "r < length (rn_relayers net)"
  shows "originated c (put_items r d rs net) + (if d = Outbound then live (\<lambda>x. x = c) (rl_items d (relayer r net)) else 0) =
    originated c net + (if d = Outbound then live (\<lambda>x. x = c) rs else 0)"
proof -
  let ?f = "\<lambda>R. live (\<lambda>x. x = c) (rl_outbound R)" and ?R = "relayer r net"
  have "sum_list (map ?f ((rn_relayers net)[r := R])) + ?f ?R = sum_list (map ?f (rn_relayers net)) + ?f R" for R
    using assms member_le_sum_list [of "?f ?R" "map ?f (rn_relayers net)"]
    by (simp add: map_update sum_list_update relayer_def)
  from this [of "set_rl_items d rs ?R"] show ?thesis
    by (cases d) (simp_all add: originated_def put_items_def set_rl_items_def)
qed

lemma originated_simps [simp]:
  "originated c (call_event k ev net) = originated c net"
  "r < length (rn_relayers net) \<Longrightarrow> originated c (put_conn r cn net) = originated c net"
proof -
  show "originated c (call_event k ev net) = originated c net" by (simp add: originated_def call_event_def)
  assume "r < length (rn_relayers net)"
  then have "map (\<lambda>R. live (\<lambda>x. x = c) (rl_outbound R)) ((rn_relayers net)[r := (relayer r net)\<lparr>rl_conn := cn\<rparr>]) =
      map (\<lambda>R. live (\<lambda>x. x = c) (rl_outbound R)) (rn_relayers net)"
    by (simp add: map_update relayer_def list_update_same_conv)
  then show "originated c (put_conn r cn net) = originated c net" by (simp add: originated_def put_conn_def)
qed

section \<open>Elementary steps\<close>

lemma net_put_items:
  assumes "net_inv P k e w net" and "r < length (rn_relayers net)" and "table_ok Q rs"
    and "live (\<lambda>_. True) rs + k' r = live (\<lambda>_. True) (rl_items d (relayer r net)) + k r" and "\<forall>r'. r' \<noteq> r \<longrightarrow> k' r' = k r'"
    and "\<forall>c. (if d = Outbound then live (\<lambda>x. x = c) rs else 0) + e' c =
      (if d = Outbound then live (\<lambda>x. x = c) (rl_items d (relayer r net)) else 0) + e c"
    and "\<forall>i it. map_of (rs_items rs) i = Some it \<longrightarrow> ri_destination it < length (rn_relayers net) \<and> w (ri_call it) = 1"
  shows "net_inv (P(r := (P r)(d := Q))) k' e' w (put_items r d rs net)"
proof -
  let ?R = "set_rl_items d rs (relayer r net)"
  have R: "relayer_inv (P r) (k r) (relayer r net)" using assms(1,2) by (simp add: net_inv_def)
  have "held ?R + k' r = held (relayer r net) + k r"
    using held_set [of d rs "relayer r net"] assms(4) by linarith
  then have new: "relayer_inv ((P r)(d := Q)) (k' r) ?R"
    using R assms(3) by (simp add: relayer_inv_def)
  have org: "originated c (put_items r d rs net) + e' c = originated c net + e c" for c
    using originated_put [OF assms(2), of c d rs] assms(6) [rule_format, of c] by (cases "d = Outbound") simp_all
  have old: "ends c (rn_log net) + originated c net + e c = w c" for c using assms(1) by (simp add: net_inv_def)
  have sums: "ends c (rn_log net) + originated c (put_items r d rs net) + e' c = w c" for c
    using old [of c] org [of c] by linarith
  show ?thesis
    using assms(1,2,5,7) new sums
    by (auto simp: net_inv_def relayer_put_items split: if_splits)
qed

lemma net_put_conn:
  assumes "net_inv P k e w net" and "r < length (rn_relayers net)" and "conn_inv c" and "c_relay c = Some ((held (relayer r net) + k' r) mod 2 ^ 32)"
    and "\<forall>r'. r' \<noteq> r \<longrightarrow> k' r' = k r'"
  shows "net_inv P k' e w (put_conn r c net)"
  using assms by (auto simp: net_inv_def relayer_put_conn relayer_inv_def)

lemma net_event:
  assumes "net_inv P k e w net" and "w c = 1" and "ev \<noteq> End"
  shows "net_inv P k e w (call_event c ev net)"
  using assms by (auto simp: net_inv_def ends_def)

lemma net_end:
  assumes "net_inv P k e w net" and "w c = 1" and "e c = 1"
  shows "net_inv P k (e(c := 0)) w (call_event c End net)"
proof -
  have old: "ends x (rn_log net) + originated x net + e x = w x" for x using assms(1) by (simp add: net_inv_def)
  have "ends x (rn_log net @ [(c, End)]) + originated x net + (e(c := 0)) x = w x" for x
    using old [of x] assms(3) by (cases "x = c") (simp_all add: ends_def)
  then show ?thesis using assms(1,2) by (auto simp: net_inv_def)
qed

lemma net_conn:
  assumes "net_inv P k e w net" and "r < length (rn_relayers net)"
  shows "conn_inv (the_conn r net)" and "c_relay (the_conn r net) = Some ((held (relayer r net) + k r) mod 2 ^ 32)"
    and "table_ok (P r d) (rl_items d (relayer r net))"
  using assms by (auto simp: net_inv_def relayer_inv_def)

lemma net_item:
  assumes "net_inv P k e w net" and "r < length (rn_relayers net)" and "map_of (rs_items (rl_items d (relayer r net))) i = Some it"
  shows "P r d i it" and "ri_destination it < length (rn_relayers net)" and "w (ri_call it) = 1"
  using assms net_conn(3) [OF assms(1,2)] by (auto simp: net_inv_def dest: table_okD)

text \<open>A change of the connection that is not about its relayed calls.\<close>

lemma net_keep_conn:
  assumes "net_inv P k e w net" and "r < length (rn_relayers net)" and "conn_inv c" and "c_relay c = c_relay (the_conn r net)"
  shows "net_inv P k e w (put_conn r c net)"
  using net_put_conn [OF assms(1-3), of k] assms(4) net_conn(2) [OF assms(1,2)] by simp

lemma pending_Dec_eq: "pending_Dec ((n + 1) mod 2 ^ 32) = n mod 2 ^ 32"
proof -
  have dec: "pending_Dec ((n + 1) mod m) = n mod m" if "m = 2 ^ 32" and "0 < m" for m
  proof -
    have "pending_Dec ((n + 1) mod m) = ((n + 1) mod m + (m - 1)) mod m" using that unfolding pending_Dec_def that(1) [symmetric] by simp
    also have "\<dots> = (n + 1 + (m - 1)) mod m" by (rule mod_add_left_eq)
    also have "n + 1 + (m - 1) = n + m" using that(2) by simp
    finally show ?thesis by simp
  qed
  show ?thesis by (rule dec [OF refl]) simp
qed

lemma pending_Inc_eq: "pending_Inc (n mod 2 ^ 32) = (n + 1) mod 2 ^ 32"
  unfolding pending_Inc_def by (rule mod_add_left_eq)

lemma checkExchanges_relay:
  assumes "conn_inv c"
  obtains c' where "checkExchanges c = Ret c'" and "conn_inv c'" and "c_relay c' = c_relay c"
proof -
  obtain c' where c': "checkExchanges c = Ret c'" "conn_inv c'" using checkExchanges_keeps [OF assms] by (auto simp: keeps_def)
  moreover have "c_relay c' = c_relay c" using checkExchanges_eq [OF assms] c'(1) by simp
  ultimately show ?thesis by (rule that)
qed

lemma decrementPending_ok:
  assumes "net_inv P k e w net" and "r < length (rn_relayers net)" and "k r = Suc j"
  obtains net' where "decrementPending r net = Ret net'" and "net_inv P (k(r := j)) e w net'"
    and "length (rn_relayers net') = length (rn_relayers net)" and "rn_calls net' = rn_calls net"
proof -
  note cn = net_conn [OF assms(1,2)]
  define c where "c = (the_conn r net)\<lparr>c_relay := map_option pending_Dec (c_relay (the_conn r net))\<rparr>"
  have inv: "conn_inv c" using cn(1) by (simp add: conn_inv_def c_def)
  obtain c' where c': "checkExchanges c = Ret c'" "conn_inv c'" "c_relay c' = c_relay c"
    by (rule checkExchanges_relay [OF inv])
  have "c_relay c' = Some ((held (relayer r net) + (k(r := j)) r) mod 2 ^ 32)"
    using cn(2) assms(3) c'(3) pending_Dec_eq [of "held (relayer r net) + j"] by (simp add: c_def add.assoc)
  from net_put_conn [where k' = "k(r := j)", OF assms(1,2) c'(2) this]
  have "net_inv P (k(r := j)) e w (put_conn r c' net)" by simp
  moreover have "decrementPending r net = Ret (put_conn r c' net)"
    using c'(1) unfolding decrementPending_def c_def Let_def by simp
  ultimately show ?thesis by (intro that [of "put_conn r c' net"]) simp_all
qed

lemma net_SendSystemError:
  assumes "net_inv P k e w net" and "r < length (rn_relayers net)"
  shows "net_inv P k e w (relay_SendSystemError r i span err net)"
    and "length (rn_relayers (relay_SendSystemError r i span err net)) = length (rn_relayers net)"
    and "rn_calls (relay_SendSystemError r i span err net) = rn_calls net"
  using net_keep_conn [OF assms SendSystemError_keeps(1) [OF net_conn(1) [OF assms]] relay_count.SendSystemError_part]
  by (simp_all add: relay_SendSystemError_def)

section \<open>Ending an item\<close>

text \<open>The originator of a call reports its end; the other side owes nothing.\<close>

definition owed :: "set_name \<Rightarrow> relayItem \<Rightarrow> (nat \<Rightarrow> nat) \<Rightarrow> nat \<Rightarrow> nat" where
  "owed d it e = (if d = Outbound then e(ri_call it := 1) else e)"

lemma one_item_upd: "P(r := (P r)(d := (P r d)(i := Q))) = one_item P r d i Q"
  by (simp add: one_item_def)

lemma net_unowed:
  assumes "net_inv P k e w net" and "r < length (rn_relayers net)" and "map_of (rs_items (rl_outbound (relayer r net))) i = Some it"
    and "\<not> ri_tomb it"
  shows "e (ri_call it) = 0"
proof -
  let ?c = "ri_call it" and ?R = "relayer r net"
  have "(i, it) \<in> set (rs_items (rl_outbound ?R))" using assms(3) by (rule map_of_SomeD)
  then have "filter (\<lambda>(i, it). \<not> ri_tomb it \<and> ri_call it = ?c) (rs_items (rl_outbound ?R)) \<noteq> []"
    using assms(4) by (auto simp: filter_empty_conv)
  then have pos: "0 < live (\<lambda>x. x = ?c) (rl_outbound ?R)" by (simp add: live_def)
  have "live (\<lambda>x. x = ?c) (rl_outbound ?R) \<le> originated ?c net"
    using assms(2) by (auto simp: originated_def relayer_def intro!: member_le_sum_list)
  moreover have "w ?c = 1" using net_item(3) [OF assms(1,2), of Outbound i it] assms(3) by simp
  moreover have "ends ?c (rn_log net) + originated ?c net + e ?c = w ?c" using assms(1) by (simp add: net_inv_def)
  ultimately show ?thesis using pos by linarith
qed

lemma net_removed:
  assumes "net_inv P k e w net" and "r < length (rn_relayers net)" and "map_of (rs_items (rl_items d (relayer r net))) i = Some it"
    and "\<not> ri_tomb it" and "table_ok ((P r d)(i := Q)) rs"
    and "\<forall>C. live C rs + (if C (ri_call it) then 1 else 0) = live C (rl_items d (relayer r net))"
    and "map_of (rs_items rs) = (map_of (rs_items (rl_items d (relayer r net))))(i := None) \<or>
      map_of (rs_items rs) = (map_of (rs_items (rl_items d (relayer r net))))(i \<mapsto> it\<lparr>ri_tomb := True\<rparr>)"
  shows "net_inv (one_item P r d i Q) (k(r := Suc (k r))) (owed d it e) w (put_items r d rs net)"
  unfolding one_item_upd [symmetric]
proof (rule net_put_items [OF assms(1,2,5)])
  show "live (\<lambda>_. True) rs + (k(r := Suc (k r))) r = live (\<lambda>_. True) (rl_items d (relayer r net)) + k r"
    using assms(6) [rule_format, of "\<lambda>_. True"] by simp
  have e0: "d = Outbound \<Longrightarrow> e (ri_call it) = 0" using net_unowed [OF assms(1,2)] assms(3,4) by simp
  have "(if d = Outbound then live (\<lambda>x. x = c) rs else 0) + owed d it e c =
      (if d = Outbound then live (\<lambda>x. x = c) (rl_items d (relayer r net)) else 0) + e c" for c
    using assms(6) [rule_format, of "\<lambda>x. x = c"] e0 by (cases "ri_call it = c") (auto simp: owed_def)
  then show "\<forall>c. (if d = Outbound then live (\<lambda>x. x = c) rs else 0) + owed d it e c =
      (if d = Outbound then live (\<lambda>x. x = c) (rl_items d (relayer r net)) else 0) + e c" by blast
  have items: "ri_destination it' < length (rn_relayers net) \<and> w (ri_call it') = 1"
    if "map_of (rs_items (rl_items d (relayer r net))) j = Some it'" for j it'
    using net_item(2,3) [OF assms(1,2) that] by simp
  show "\<forall>j it'. map_of (rs_items rs) j = Some it' \<longrightarrow> ri_destination it' < length (rn_relayers net) \<and> w (ri_call it') = 1"
    using assms(7) items items [OF assms(3)] by (auto split: if_splits)
qed simp

text \<open>Reporting the end, if it is owed, and counting the call as done.\<close>

lemma net_settle:
  assumes "net_inv P (k(r := Suc (k r))) (owed d it e) w net" and "r < length (rn_relayers net)"
    and "ri_call it' = ri_call it" and "w (ri_call it) = 1" and "d = Outbound \<Longrightarrow> e (ri_call it) = 0"
  obtains net' where "decrementPending r (if d = Outbound then call_event (ri_call it') End net else net) = Ret net'"
    and "net_inv P k e w net'" and "length (rn_relayers net') = length (rn_relayers net)" and "rn_calls net' = rn_calls net"
proof -
  let ?n = "if d = Outbound then call_event (ri_call it') End net else net"
  have "net_inv P (k(r := Suc (k r))) e w ?n"
  proof (cases "d = Outbound")
    case True
    then have "e(ri_call it := 0) = e" using assms(5) by auto
    then show ?thesis using net_end [OF assms(1), of "ri_call it"] assms(3,4) True by (simp add: owed_def)
  qed (use assms(1) in \<open>simp add: owed_def\<close>)
  moreover have "r < length (rn_relayers ?n)" using assms(2) by simp
  ultimately obtain net' where "decrementPending r ?n = Ret net'" "net_inv P ((k(r := Suc (k r)))(r := k r)) e w net'"
      "length (rn_relayers net') = length (rn_relayers ?n)" "rn_calls net' = rn_calls ?n"
    by (rule decrementPending_ok [where j = "k r"]) simp
  then show ?thesis by (intro that [of net']) (simp_all split: if_splits)
qed

lemma put_items_same [simp]: "put_items r d (rl_items d (relayer r net)) net = net"
proof -
  have "set_rl_items d (rl_items d R) R = R" for R by (cases d) (simp_all add: set_rl_items_def)
  then show ?thesis by (simp add: put_items_def relayer_def)
qed

lemma rl_items_put [simp]:
  "r < length (rn_relayers net) \<Longrightarrow> rl_items d (relayer r (put_items r d rs net)) = rs"
  by (simp add: relayer_put_items)

text \<open>Nothing is known of an item that does not exist.\<close>

lemma net_absent:
  assumes "net_inv P k e w net" and "r < length (rn_relayers net)" and "map_of (rs_items (rl_items d (relayer r net))) i = None"
  shows "net_inv (one_item P r d i Q) k e w net"
proof -
  let ?rs = "rl_items d (relayer r net)"
  have "table_ok (P r d) ?rs" using net_conn(3) [OF assms(1,2)] .
  then have "table_ok ((P r d)(i := Q)) ?rs" using assms(3) by (auto simp: table_ok_def)
  from net_put_items [where rs = ?rs and d = d and k' = k and e' = e, OF assms(1,2) this]
  show ?thesis using net_item(2,3) [OF assms(1,2)] by (simp add: one_item_upd)
qed

text \<open>An item whose timer is at rest becomes a tomb, or is deleted.\<close>

lemma net_entomb:
  assumes "net_inv P k e w net" and "r < length (rn_relayers net)" and "map_of (rs_items (rl_items d (relayer r net))) i = Some it"
    and "idle it" and "\<not> ri_tomb it" and "ri_isOriginator it = (d = Outbound)"
  obtains rs it' where "relayItems_Entomb i (rl_items d (relayer r net)) = Ret ((Some it', True), rs)"
    and "net_inv (one_item P r d i (item_ok d i)) (k(r := Suc (k r))) (owed d it e) w (put_items r d rs net)"
    and "ri_call it' = ri_call it" and "ri_isOriginator it' = (d = Outbound)"
proof -
  obtain rs it' where rs: "relayItems_Entomb i (rl_items d (relayer r net)) = Ret ((Some it', True), rs)"
      "table_ok ((P r d)(i := item_ok d i)) rs"
      "\<forall>C. live C rs + (if C (ri_call it) then 1 else 0) = live C (rl_items d (relayer r net))"
      "map_of (rs_items rs) = (map_of (rs_items (rl_items d (relayer r net))))(i := None) \<or>
       map_of (rs_items rs) = (map_of (rs_items (rl_items d (relayer r net))))(i \<mapsto> it\<lparr>ri_tomb := True\<rparr>)"
      "ri_call it' = ri_call it" "ri_isOriginator it' = ri_isOriginator it"
    by (rule Entomb_ok [OF net_conn(3) [OF assms(1,2)] assms(3-6)])
  from net_removed [OF assms(1-3,5) rs(2-4)] rs(1,5,6) assms(6) show ?thesis by (intro that) simp_all
qed

lemma net_delete:
  assumes "net_inv P k e w net" and "r < length (rn_relayers net)" and "map_of (rs_items (rl_items d (relayer r net))) i = Some it"
    and "idle it" and "\<not> ri_tomb it" and "ri_isOriginator it = (d = Outbound)"
  obtains rs it' where "relayItems_Delete i (rl_items d (relayer r net)) = Ret ((Some it', True), rs)"
    and "net_inv (one_item P r d i (item_ok d i)) (k(r := Suc (k r))) (owed d it e) w (put_items r d rs net)"
    and "ri_call it' = ri_call it" and "ri_isOriginator it' = (d = Outbound)"
proof -
  obtain rs it' where rs: "relayItems_Delete i (rl_items d (relayer r net)) = Ret ((Some it', \<not> ri_tomb it), rs)"
      "table_ok ((P r d)(i := item_ok d i)) rs"
      "\<forall>C. live C rs + (if \<not> ri_tomb it \<and> C (ri_call it) then 1 else 0) = live C (rl_items d (relayer r net))"
      "map_of (rs_items rs) = (map_of (rs_items (rl_items d (relayer r net))))(i := None)"
      "ri_call it' = ri_call it" "ri_isOriginator it' = ri_isOriginator it"
    by (rule Delete_ok [OF net_conn(3) [OF assms(1,2)] assms(3,4)])
  from net_removed [OF assms(1-3,5) rs(2) _ disjI1 [OF rs(4)]] rs(1,3,5,6) assms(5,6) show ?thesis by (intro that) simp_all
qed

lemma net_report:
  assumes "net_inv P k e w net" and "r < length (rn_relayers net)" and "map_of (rs_items (rl_items d (relayer r net))) i = Some it"
    and "\<not> ri_tomb it" and "net_inv P' (k(r := Suc (k r))) (owed d it e) w net1" and "length (rn_relayers net1) = length (rn_relayers net)"
    and "ri_call it' = ri_call it"
  obtains net' where "decrementPending r (if d = Outbound then call_event (ri_call it') End net1 else net1) = Ret net'"
    and "net_inv P' k e w net'" and "length (rn_relayers net') = length (rn_relayers net)" and "rn_calls net' = rn_calls net1"
proof -
  have u: "e (ri_call it) = 0" if "d = Outbound" using net_unowed [OF assms(1,2) _ assms(4)] assms(3) that by simp
  from assms(2,6) have "r < length (rn_relayers net1)" by simp
  from net_settle [OF assms(5) this assms(7) net_item(3) [OF assms(1-3)] u] assms(6) that show ?thesis by metis
qed

text \<open>What keeps the invariant and neither adds connections nor starts calls.\<close>

definition settles :: "expected \<Rightarrow> (nat \<Rightarrow> nat) \<Rightarrow> (nat \<Rightarrow> nat) \<Rightarrow> (nat \<Rightarrow> nat) \<Rightarrow> relayNet \<Rightarrow> relayNet \<Rightarrow> bool" where
  "settles P k e w net net' \<longleftrightarrow> net_inv P k e w net' \<and> length (rn_relayers net') = length (rn_relayers net) \<and> rn_calls net' = rn_calls net"

lemma finishRelayItem_ok:
  assumes "net_inv P k e w net" and "r < length (rn_relayers net)" and "P r d i = halted_ok d"
  obtains net' where "finishRelayItem r d i net = Ret net'" and "settles (one_item P r d i (item_ok d i)) k e w net net'"
proof (cases "map_of (rs_items (rl_items d (relayer r net))) i")
  case None
  show ?thesis
  proof (rule that)
    show "finishRelayItem r d i net = Ret net" by (simp add: finishRelayItem_def Delete_none [OF None])
    show "settles (one_item P r d i (item_ok d i)) k e w net net" using net_absent [OF assms(1,2) None] by (simp add: settles_def)
  qed
next
  case (Some it)
  have it: "idle it" "\<not> ri_tomb it" "ri_isOriginator it = (d = Outbound)"
    using net_item(1) [OF assms(1,2) Some] assms(3) by (simp_all add: halted_ok_def halted_def)
  obtain rs it' where rs: "relayItems_Delete i (rl_items d (relayer r net)) = Ret ((Some it', True), rs)"
      "net_inv (one_item P r d i (item_ok d i)) (k(r := Suc (k r))) (owed d it e) w (put_items r d rs net)"
      "ri_call it' = ri_call it" "ri_isOriginator it' = (d = Outbound)"
    by (rule net_delete [OF assms(1,2) Some it])
  obtain net' where "decrementPending r (if d = Outbound then call_event (ri_call it') End (put_items r d rs net) else put_items r d rs net) = Ret net'"
      "net_inv (one_item P r d i (item_ok d i)) k e w net'" "length (rn_relayers net') = length (rn_relayers net)"
      "rn_calls net' = rn_calls (put_items r d rs net)"
    by (rule net_report [OF assms(1,2) Some it(2) rs(2) _ rs(3)]) simp
  then show ?thesis using rs(1,4) by (intro that [of net']) (simp_all add: finishRelayItem_def settles_def Let_def)
qed

text \<open>Entombing an item and reporting its failure; the error is sent to the caller only by the originator.\<close>

lemma net_fail:
  assumes "net_inv P k e w net" and "r < length (rn_relayers net)" and "map_of (rs_items (rl_items d (relayer r net))) i = Some it"
    and "idle it" and "\<not> ri_tomb it" and "ri_isOriginator it = (d = Outbound)"
  obtains rs it' where "relayItems_Entomb i (rl_items d (relayer r net)) = Ret ((Some it', True), rs)" and "ri_isOriginator it' = (d = Outbound)"
    and "ri_call it' = ri_call it" and "\<forall>reason net1. net1 = put_items r d rs net \<or> (\<exists>span err. net1 = relay_SendSystemError r i span err (put_items r d rs net)) \<longrightarrow>
      (\<exists>net'. decrementPending r (if d = Outbound then call_event (ri_call it') End (call_event (ri_call it') (Failed reason) net1)
                else put_items r d rs net) = Ret net' \<and> settles (one_item P r d i (item_ok d i)) k e w net net')"
proof -
  obtain rs it' where rs: "relayItems_Entomb i (rl_items d (relayer r net)) = Ret ((Some it', True), rs)"
      "net_inv (one_item P r d i (item_ok d i)) (k(r := Suc (k r))) (owed d it e) w (put_items r d rs net)"
      "ri_call it' = ri_call it" "ri_isOriginator it' = (d = Outbound)"
    by (rule net_entomb [OF assms])
  have "\<exists>net'. decrementPending r (if d = Outbound then call_event (ri_call it') End (call_event (ri_call it') (Failed reason) net1)
                else put_items r d rs net) = Ret net' \<and> settles (one_item P r d i (item_ok d i)) k e w net net'"
    if net1: "net1 = put_items r d rs net \<or> (\<exists>span err. net1 = relay_SendSystemError r i span err (put_items r d rs net))" for reason net1
  proof -
    let ?n = "if d = Outbound then call_event (ri_call it') (Failed reason) net1 else put_items r d rs net"
    have r: "r < length (rn_relayers (put_items r d rs net))" using assms(2) by simp
    have inv1: "net_inv (one_item P r d i (item_ok d i)) (k(r := Suc (k r))) (owed d it e) w net1"
      and len1: "length (rn_relayers net1) = length (rn_relayers net)" and calls1: "rn_calls net1 = rn_calls net"
      using net1 rs(2) net_SendSystemError [OF rs(2) r] by auto
    have inv: "net_inv (one_item P r d i (item_ok d i)) (k(r := Suc (k r))) (owed d it e) w ?n"
      using net_event [OF inv1, of "ri_call it'" "Failed reason"] net_item(3) [OF assms(1-3)] rs(2,3) by (cases "d = Outbound") simp_all
    obtain net' where "decrementPending r (if d = Outbound then call_event (ri_call it') End ?n else ?n) = Ret net'"
        "net_inv (one_item P r d i (item_ok d i)) k e w net'" "length (rn_relayers net') = length (rn_relayers net)"
        "rn_calls net' = rn_calls ?n"
      by (rule net_report [OF assms(1-3,5) inv _ rs(3)]) (simp add: len1)
    then show ?thesis using calls1 by (cases "d = Outbound") (auto simp: settles_def)
  qed
  then show ?thesis using rs(1,3,4) by (intro that) blast+
qed

lemma fail_halted:
  assumes "net_inv P k e w net1" and "r < length (rn_relayers net1)" and "relayItems_Get i True (rl_items d (relayer r net)) = Ret (Some (it0, True), rs)"
    and "net1 = put_items r d rs net" and "rl_items d (relayer r net1) = rs" and "map_of (rs_items rs) i = Some it" and "halted_ok d it"
  obtains net' where "failRelayItem r d i reason err net = Ret net'" and "settles (one_item P r d i (item_ok d i)) k e w net1 net'"
proof -
  have it: "idle it" "\<not> ri_tomb it" "ri_isOriginator it = (d = Outbound)"
    using assms(7) by (simp_all add: halted_ok_def halted_def)
  have m: "map_of (rs_items (rl_items d (relayer r net1))) i = Some it" using assms(5,6) by simp
  obtain rs' it' where rs: "relayItems_Entomb i (rl_items d (relayer r net1)) = Ret ((Some it', True), rs')" "ri_isOriginator it' = (d = Outbound)"
      "ri_call it' = ri_call it" and ex: "\<forall>reason net2. net2 = put_items r d rs' net1 \<or> (\<exists>span err. net2 = relay_SendSystemError r i span err (put_items r d rs' net1)) \<longrightarrow>
      (\<exists>net'. decrementPending r (if d = Outbound then call_event (ri_call it') End (call_event (ri_call it') (Failed reason) net2)
                else put_items r d rs' net1) = Ret net' \<and> settles (one_item P r d i (item_ok d i)) k e w net1 net')"
    by (rule net_fail [OF assms(1,2) m it])
  have en: "relayItems_Entomb i rs = Ret ((Some it', True), rs')" using rs(1) assms(5) by simp
  let ?n = "if reason \<noteq> relayErrorSourceConnSlow
    then relay_SendSystemError r i (ri_span it') (ErrorString (reason @ '': '' @ Error err)) (put_items r d rs' net1) else put_items r d rs' net1"
  have n: "?n = put_items r d rs' net1 \<or> (\<exists>span err. ?n = relay_SendSystemError r i span err (put_items r d rs' net1))"
    by (cases "reason = relayErrorSourceConnSlow") auto
  from ex [rule_format, OF n, of reason] obtain net' where "decrementPending r (if d = Outbound then call_event (ri_call it') End (call_event (ri_call it') (Failed reason) ?n)
      else put_items r d rs' net1) = Ret net'" and s: "settles (one_item P r d i (item_ok d i)) k e w net1 net'" by blast
  then have "failRelayItem r d i reason err net = Ret net'"
    using rs(2) en assms(3) unfolding failRelayItem_def Let_def assms(4) by (cases "d = Outbound") simp_all
  from that [OF this s] show ?thesis .
qed

text \<open>Getting an item and stopping its timer: the item is halted now, or it cannot be stopped and nothing changes.\<close>

lemma net_Get_stop:
  assumes "net_inv P k e w net" and "r < length (rn_relayers net)" and "P r d i = item_ok d i"
  obtains (unchanged) res where "relayItems_Get i True (rl_items d (relayer r net)) = Ret (res, rl_items d (relayer r net))"
      and "\<forall>it stopped. res = Some (it, stopped) \<longrightarrow> map_of (rs_items (rl_items d (relayer r net))) i = Some it \<and> (stopped \<longrightarrow> ri_tomb it)"
    | (stopped) it rs where "relayItems_Get i True (rl_items d (relayer r net)) = Ret (Some (it, True), rs)"
      and "net_inv (one_item P r d i (halted_ok d)) k e w (put_items r d rs net)" and "map_of (rs_items rs) i = Some it"
      and "halted_ok d it" and "w (ri_call it) = 1" and "ri_destination it < length (rn_relayers net)"
proof (cases "map_of (rs_items (rl_items d (relayer r net))) i")
  case None
  then show ?thesis using unchanged [of None] by (simp add: Get_none)
next
  case (Some it)
  have ok: "item_ok d i it" using net_item(1) [OF assms(1,2) Some] assms(3) by simp
  note t = net_conn(3) [OF assms(1,2), of d]
  consider "ri_tomb it" | "\<not> ri_tomb it" "\<not> rt_running (ri_timeout it)" | "\<not> ri_tomb it" "rt_running (ri_timeout it)" by blast
  then show ?thesis
  proof cases
    case 1
    then show ?thesis using unchanged [of "Some (it, rt_stopped (ri_timeout it))"] Get_idle [OF Some] ok Some by (simp add: item_ok_def)
  next
    case 2
    then show ?thesis using unchanged [of "Some (it, False)"] Get_firing [OF Some ok] Some by simp
  next
    case 3
    obtain rs where rs: "relayItems_Get i True (rl_items d (relayer r net)) = Ret (Some (halt it, True), rs)" "table_ok ((P r d)(i := halted_ok d)) rs"
        "\<forall>C. live C rs = live C (rl_items d (relayer r net))" "map_of (rs_items rs) = (map_of (rs_items (rl_items d (relayer r net))))(i \<mapsto> halt it)"
      by (rule Get_running [OF t Some ok 3])
    have m: "map_of (rs_items rs) i = Some (halt it)" using rs(4) by simp
    have h: "halted_ok d (halt it)" using table_okD [OF rs(2) m] by simp
    have "net_inv (one_item P r d i (halted_ok d)) k e w (put_items r d rs net)"
      unfolding one_item_upd [symmetric]
      by (rule net_put_items [OF assms(1,2) rs(2)]) (use rs(3,4) net_item(2,3) [OF assms(1,2)] net_item(2,3) [OF assms(1,2) Some] in \<open>auto split: if_splits\<close>)
    from stopped [OF rs(1) this m h] net_item(2,3) [OF assms(1,2) Some] show ?thesis by simp
  qed
qed

lemma settles_refl: "net_inv P k e w net \<Longrightarrow> settles P k e w net net"
  by (simp add: settles_def)

lemma settles_trans: "settles P k e w net1 net2 \<Longrightarrow> length (rn_relayers net1) = length (rn_relayers net) \<Longrightarrow> rn_calls net1 = rn_calls net \<Longrightarrow>
  settles P k e w net net2"
  by (simp add: settles_def)

lemma net_delete_tomb:
  assumes "net_inv P k e w net" and "r < length (rn_relayers net)" and "map_of (rs_items (rl_items d (relayer r net))) i = Some it"
    and "ri_tomb it" and "P r d i = item_ok d i"
  obtains it' rs where "relayItems_Delete i (rl_items d (relayer r net)) = Ret ((Some it', False), rs)" and "settles P k e w net (put_items r d rs net)"
proof -
  have "idle it" using net_item(1) [OF assms(1-3)] assms(4,5) by (simp add: item_ok_def)
  then obtain rs it' where rs: "relayItems_Delete i (rl_items d (relayer r net)) = Ret ((Some it', \<not> ri_tomb it), rs)"
      "table_ok ((P r d)(i := P r d i)) rs"
      "\<forall>C. live C rs + (if \<not> ri_tomb it \<and> C (ri_call it) then 1 else 0) = live C (rl_items d (relayer r net))"
      "map_of (rs_items rs) = (map_of (rs_items (rl_items d (relayer r net))))(i := None)"
    by (rule Delete_ok [OF net_conn(3) [OF assms(1,2)] assms(3)])
  have "net_inv (P(r := (P r)(d := (P r d)(i := P r d i)))) k e w (put_items r d rs net)"
    by (rule net_put_items [OF assms(1,2) rs(2)]) (use rs(3,4) assms(4) net_item(2,3) [OF assms(1,2)] in \<open>auto split: if_splits\<close>)
  then have "settles P k e w net (put_items r d rs net)" by (simp add: settles_def)
  from that [OF _ this] rs(1) assms(4) show ?thesis by simp
qed

lemma net_entomb_tomb:
  assumes "net_inv P k e w net" and "r < length (rn_relayers net)" and "map_of (rs_items (rl_items d (relayer r net))) i = Some it"
    and "ri_tomb it" and "P r d i = item_ok d i"
  obtains it' rs where "relayItems_Entomb i (rl_items d (relayer r net)) = Ret ((Some it', False), rs)" and "settles P k e w net (put_items r d rs net)"
proof (cases "rs_tombs (rl_items d (relayer r net)) > rs_maxTombs (rl_items d (relayer r net))")
  case True
  then show ?thesis using net_delete_tomb [OF assms] that by (auto simp: relayItems_Entomb_def)
next
  case False
  then show ?thesis using that [of it "rl_items d (relayer r net)"] assms(3,4) settles_refl [OF assms(1)] by (simp add: relayItems_Entomb_def)
qed

lemma failRelayItem_ok:
  assumes "net_inv P k e w net" and "r < length (rn_relayers net)" and "P r d i = halted_ok d \<or> P r d i = item_ok d i"
  obtains net' where "failRelayItem r d i reason err net = Ret net'" and "settles (one_item P r d i (item_ok d i)) k e w net net'"
  using assms(3)
proof
  assume P: "P r d i = halted_ok d"
  show ?thesis
  proof (cases "map_of (rs_items (rl_items d (relayer r net))) i")
    case None
    show ?thesis
    proof (rule that)
      show "failRelayItem r d i reason err net = Ret net" by (simp add: failRelayItem_def Get_none [OF None])
      show "settles (one_item P r d i (item_ok d i)) k e w net net" using net_absent [OF assms(1,2) None] by (rule settles_refl)
    qed
  next
    case (Some it)
    have h: "halted_ok d it" using net_item(1) [OF assms(1,2) Some] P by simp
    then have "relayItems_Get i True (rl_items d (relayer r net)) = Ret (Some (it, True), rl_items d (relayer r net))"
      using Get_idle [OF Some] by (simp add: halted_ok_def halted_def)
    from fail_halted [OF assms(1,2) this _ _ Some h] that show ?thesis by (metis put_items_same)
  qed
next
  assume P: "P r d i = item_ok d i"
  then have one: "one_item P r d i (item_ok d i) = P" by (rule one_item_ok)
  show ?thesis
  proof (rule net_Get_stop [OF assms(1,2) P])
    fix res
    assume g: "relayItems_Get i True (rl_items d (relayer r net)) = Ret (res, rl_items d (relayer r net))"
      and res: "\<forall>it stopped. res = Some (it, stopped) \<longrightarrow> map_of (rs_items (rl_items d (relayer r net))) i = Some it \<and> (stopped \<longrightarrow> ri_tomb it)"
    have "\<exists>net'. failRelayItem r d i reason err net = Ret net' \<and> settles P k e w net net'"
    proof (cases "\<exists>it. res = Some (it, True)")
      case True
      then obtain it where it: "res = Some (it, True)" by blast
      then have tomb: "map_of (rs_items (rl_items d (relayer r net))) i = Some it" "ri_tomb it" using res by blast+
      obtain it' rs where "relayItems_Entomb i (rl_items d (relayer r net)) = Ret ((Some it', False), rs)" "settles P k e w net (put_items r d rs net)"
        by (rule net_entomb_tomb [OF assms(1,2) tomb P])
      then show ?thesis using g it by (simp add: failRelayItem_def)
    next
      case False
      then have "failRelayItem r d i reason err net = Ret net" using g by (auto simp: failRelayItem_def split: option.split)
      then show ?thesis using settles_refl [OF assms(1)] by simp
    qed
    then show ?thesis using that one by metis
  next
    fix it rs
    assume "relayItems_Get i True (rl_items d (relayer r net)) = Ret (Some (it, True), rs)"
      "net_inv (one_item P r d i (halted_ok d)) k e w (put_items r d rs net)" "map_of (rs_items rs) i = Some it" "halted_ok d it"
    from fail_halted [OF this(2) _ this(1) refl _ this(3,4)] assms(2) obtain net'
      where "failRelayItem r d i reason err net = Ret net'" "settles (one_item (one_item P r d i (halted_ok d)) r d i (item_ok d i)) k e w (put_items r d rs net) net'"
      by auto
    then show ?thesis by (intro that [of net']) (simp_all add: settles_def)
  qed
qed

section \<open>Timers and tombs\<close>

text \<open>A change of an item that does not end it.\<close>

lemma net_update_item:
  assumes "net_inv P k e w net" and "r < length (rn_relayers net)" and "map_of (rs_items (rl_items d (relayer r net))) i = Some it"
    and "Q it'" and "ri_tomb it' = ri_tomb it" and "ri_call it' = ri_call it" and "ri_destination it' = ri_destination it"
  shows "net_inv (one_item P r d i Q) k e w
    (put_items r d ((rl_items d (relayer r net))\<lparr>rs_items := AList.update i it' (rs_items (rl_items d (relayer r net)))\<rparr>) net)"
proof -
  note up = table_update [where Q = Q and it' = it', OF net_conn(3) [OF assms(1,2)] assms(3,5,4)]
  show ?thesis
    unfolding one_item_upd [symmetric]
    by (rule net_put_items [OF assms(1,2) up(1)])
      (use up(2) [OF assms(6)] assms(6,7) net_item(2,3) [OF assms(1,2)] net_item(2,3) [OF assms(1-3)] in \<open>auto simp: update_conv' split: if_splits\<close>)
qed

lemma fire_timer_ok:
  assumes "net_inv P k e w net" and "r < length (rn_relayers net)" and "P r d i = item_ok d i"
  shows "settles P k e w net (fire_timer d i r net)"
proof (cases "map_of (rs_items (rl_items d (relayer r net))) i")
  case None
  then show ?thesis using settles_refl [OF assms(1)] by (simp add: fire_timer_def)
next
  case (Some it)
  let ?it = "it\<lparr>ri_timeout := (ri_timeout it)\<lparr>rt_running := False\<rparr>\<rparr>"
  have "item_ok d i ?it" using net_item(1) [OF assms(1,2) Some] assms(3) by (simp add: item_ok_def idle_def split: if_splits)
  from net_update_item [where Q = "item_ok d i" and it' = ?it, OF assms(1,2) Some this] one_item_ok [of P r d i, OF assms(3)]
  show ?thesis by (simp add: fire_timer_def Some settles_def Let_def)
qed

lemma timeoutRelayItem_ok:
  assumes "net_inv P k e w net" and "r < length (rn_relayers net)" and "map_of (rs_items (rl_items d (relayer r net))) i = Some it"
    and "idle it" and "\<not> ri_tomb it" and "ri_isOriginator it = (d = Outbound)"
  obtains net' where "timeoutRelayItem r d i (d = Outbound) net = Ret net'" and "settles (one_item P r d i (item_ok d i)) k e w net net'"
proof -
  obtain rs it' where rs: "relayItems_Entomb i (rl_items d (relayer r net)) = Ret ((Some it', True), rs)"
    and ex: "\<forall>reason net1. net1 = put_items r d rs net \<or> (\<exists>span err. net1 = relay_SendSystemError r i span err (put_items r d rs net)) \<longrightarrow>
      (\<exists>net'. decrementPending r (if d = Outbound then call_event (ri_call it') End (call_event (ri_call it') (Failed reason) net1)
                else put_items r d rs net) = Ret net' \<and> settles (one_item P r d i (item_ok d i)) k e w net net')"
    by (rule net_fail [OF assms])
  let ?n = "relay_SendSystemError r i (ri_span it') ErrTimeout (put_items r d rs net)"
  have "?n = put_items r d rs net \<or> (\<exists>span err. ?n = relay_SendSystemError r i span err (put_items r d rs net))" by blast
  from ex [rule_format, OF this, of "''timeout''"] obtain net' where "decrementPending r (if d = Outbound then call_event (ri_call it') End
      (call_event (ri_call it') (Failed ''timeout'') ?n) else put_items r d rs net) = Ret net'"
    and s: "settles (one_item P r d i (item_ok d i)) k e w net net'" by blast
  then have "timeoutRelayItem r d i (d = Outbound) net = Ret net'"
    using rs unfolding timeoutRelayItem_def Let_def by (cases "d = Outbound") simp_all
  from that [OF this s] show ?thesis .
qed

definition firing :: "set_name \<Rightarrow> uint32 \<Rightarrow> nat \<Rightarrow> relayNet \<Rightarrow> bool" where
  "firing d i r net \<longleftrightarrow> (case map_of (rs_items (rl_items d (relayer r net))) i of
     None \<Rightarrow> False | Some it \<Rightarrow> rt_active (ri_timeout it) \<and> \<not> rt_running (ri_timeout it))"

lemma OnTimer_ok:
  assumes "net_inv P k e w net" and "r < length (rn_relayers net)" and "P r d i = item_ok d i" and "firing d i r net"
  obtains net' where "OnTimer d i r net = Ret net'" and "settles P k e w net net'"
proof -
  obtain it where it: "map_of (rs_items (rl_items d (relayer r net))) i = Some it" "rt_active (ri_timeout it)" "\<not> rt_running (ri_timeout it)"
    using assms(4) by (auto simp: firing_def split: option.splits)
  let ?it = "it\<lparr>ri_timeout := markTimerInactive (ri_timeout it)\<rparr>" and ?rs = "rl_items d (relayer r net)"
  let ?rs' = "?rs\<lparr>rs_items := AList.update i (it\<lparr>ri_timeout := markTimerInactive (ri_timeout it)\<rparr>) (rs_items ?rs)\<rparr>"
  have "item_ok d i it" using net_item(1) [OF assms(1,2) it(1)] assms(3) by simp
  then have it': "idle ?it" "\<not> ri_tomb ?it" "ri_isOriginator ?it = (d = Outbound)"
    and ot: "timer_OnTimer (ri_timeout it) = Ret ((Some d, i, d = Outbound), markTimerInactive (ri_timeout it))"
    using it(2,3) by (auto simp: item_ok_def idle_def markTimerInactive_def timer_OnTimer_def split: if_splits)
  have inv: "net_inv (one_item P r d i (\<lambda>_. True)) k e w (put_items r d ?rs' net)"
    by (rule net_update_item [OF assms(1,2) it(1)]) simp_all
  have r: "r < length (rn_relayers (put_items r d ?rs' net))" using assms(2) by simp
  have m: "map_of (rs_items (rl_items d (relayer r (put_items r d ?rs' net)))) i = Some ?it" using assms(2) by (simp add: update_conv')
  obtain net' where "timeoutRelayItem r d i (d = Outbound) (put_items r d ?rs' net) = Ret net'"
      "settles (one_item (one_item P r d i (\<lambda>_. True)) r d i (item_ok d i)) k e w (put_items r d ?rs' net) net'"
    by (rule timeoutRelayItem_ok [OF inv r m it'])
  then show ?thesis using it(1) ot one_item_ok [of P r d i, OF assms(3)]
    by (intro that [of net']) (simp_all add: OnTimer_def settles_def Let_def)
qed

lemma delete_tomb_ok:
  assumes "net_inv P k e w net" and "r < length (rn_relayers net)" and "map_of (rs_items (rl_items d (relayer r net))) i = Some it"
    and "ri_tomb it" and "P r d i = item_ok d i"
  obtains net' where "delete_tomb d i r net = Ret net'" and "settles P k e w net net'"
  by (rule net_delete_tomb [OF assms]) (simp add: that delete_tomb_def)

section \<open>Reading a frame never panics\<close>

lemma sendable_payload:
  assumes "sendable f"
  shows "length (fr_Payload f) = MaxFramePayloadSize" and "i < MaxFramePayloadSize \<Longrightarrow> payload_at i f = Ret (fr_Payload f ! i)"
  using frame_inv_length [of f] assms by (simp_all add: sendable_def payload_at_def)

lemma sendable_header: "sendable f \<Longrightarrow> sendable (f\<lparr>fr_Header := (fr_Header f)\<lparr>fh_ID := i\<rparr>\<rparr>)"
  by (auto simp: sendable_def frame_inv_def SizedPayload_def PayloadSize_def fr_Payload_def Let_def split: if_splits)

lemma sendable_set_Payload:
  assumes "sendable f" and "length p = MaxFramePayloadSize"
  shows "sendable (set_Payload p f)"
proof -
  have inv: "frame_inv f" using assms(1) by (simp add: sendable_def)
  show ?thesis
    using assms PayloadSize_large [of "fr_Header f"] frame_inv_set_Payload [OF inv assms(2)] set_Payload_simps [OF inv]
    by (simp add: sendable_def SizedPayload_def Let_def)
qed

lemma go_bind_Panic_iff: "go_bind m f = Panic \<longleftrightarrow> m = Panic \<or> (\<exists>x. m = Ret x \<and> f x = Panic)"
  by (cases m) simp_all

lemma returnsE:
  assumes "m \<noteq> Panic"
  obtains x where "m = Ret x"
  using assms by (cases m) simp_all

lemma sendable_bytes:
  assumes "sendable f"
  shows "payload_at 0 f \<noteq> Panic" and "payload_at (Suc 0) f \<noteq> Panic" and "hasMoreFragments f \<noteq> Panic" and "SizedPayload f \<noteq> Panic"
proof -
  show 0: "payload_at 0 f \<noteq> Panic" and "payload_at (Suc 0) f \<noteq> Panic"
    using sendable_payload(2) [OF assms, of 0] sendable_payload(2) [OF assms, of "Suc 0"] by (simp_all add: MaxFramePayloadSize_def MaxFrameSize_def)
  from 0 show "hasMoreFragments f \<noteq> Panic" by (simp add: hasMoreFragments_def go_bind_Panic_iff)
qed (use assms in \<open>simp add: sendable_def\<close>)

lemma sendable_reads:
  assumes "sendable f"
  shows "finishesCall f \<noteq> Panic" and "determinesCallSuccess f \<noteq> Panic"
    and "fh_messageType (fr_Header f) = messageTypeCallRes \<Longrightarrow> newLazyCallRes f \<noteq> Panic"
proof -
  note b = sendable_bytes [OF assms]
  show "finishesCall f \<noteq> Panic" using b by (simp add: finishesCall_def go_bind_Panic_iff Let_def)
  show "determinesCallSuccess f \<noteq> Panic"
    using b by (simp add: determinesCallSuccess_def go_bind_Panic_iff lazyError_Code_def isCallResOK_def Frame_messageType_def Let_def)
  show "newLazyCallRes f \<noteq> Panic" if "fh_messageType (fr_Header f) = messageTypeCallRes"
    using b that by (simp add: newLazyCallRes_def go_bind_Panic_iff case_prod_unfold Let_def split: option.split)
qed

lemma sendable_mutated:
  assumes "sendable f"
  obtains f' cs' where "updateMutatedChecksum f cs = Ret (f', cs')" and "sendable f'" and "fr_Header f' = fr_Header f"
proof -
  have inv: "frame_inv f" using assms by (simp add: sendable_def)
  define g where "g b sum = (case b of None \<Rightarrow> f | Some b' \<Rightarrow> set_Payload (copy_at 2 (take (length b') sum) (fr_Payload f)) f)"
    for b :: "byte list option" and sum
  have "length (copy_at 2 b (fr_Payload f)) = MaxFramePayloadSize" for b
    using sendable_payload(1) [OF assms] by (simp add: MaxFramePayloadSize_def MaxFrameSize_def)
  then have "sendable (g b sum)" "fr_Header (g b sum) = fr_Header f" for b sum
    using sendable_set_Payload [OF assms] set_Payload_simps(3) [OF inv] assms by (simp_all add: g_def split: option.split)
  moreover have "\<exists>b sum cs'. updateMutatedChecksum f cs = Ret (g b sum, cs')"
    using SizedPayload_sendable [OF assms] unfolding updateMutatedChecksum_def g_def by (auto simp: case_prod_unfold Let_def)
  ultimately show ?thesis using that by blast
qed

section \<open>Forwarding\<close>

text \<open>While a finished call is forwarded, its item is halted.\<close>

definition forwarding :: "expected \<Rightarrow> nat \<Rightarrow> set_name \<Rightarrow> uint32 \<Rightarrow> bool \<Rightarrow> expected" where
  "forwarding P r d i finished = (if finished then one_item P r d i (halted_ok d) else P)"

text \<open>Getting an item, with its timer stopped if the frame ends the call: it is forwarded further, or nothing changes.\<close>

lemma net_Get:
  assumes "net_inv P k e w net" and "r < length (rn_relayers net)" and "P r d i = item_ok d i"
  obtains (dropped) res where "relayItems_Get i finished (rl_items d (relayer r net)) = Ret (res, rl_items d (relayer r net))"
      and "\<forall>it stopped. res = Some (it, stopped) \<longrightarrow> ri_tomb it \<or> finished \<and> \<not> stopped"
    | (found) it rs where "relayItems_Get i finished (rl_items d (relayer r net)) = Ret (Some (it, finished), rs)"
      and "\<not> ri_tomb it" and "net_inv (forwarding P r d i finished) k e w (put_items r d rs net)" and "map_of (rs_items rs) i = Some it"
      and "w (ri_call it) = 1" and "ri_destination it < length (rn_relayers net)"
proof (cases finished)
  case True
  show ?thesis
  proof (rule net_Get_stop [OF assms])
    fix res
    assume g: "relayItems_Get i True (rl_items d (relayer r net)) = Ret (res, rl_items d (relayer r net))"
      and "\<forall>it stopped. res = Some (it, stopped) \<longrightarrow> map_of (rs_items (rl_items d (relayer r net))) i = Some it \<and> (stopped \<longrightarrow> ri_tomb it)"
    then have "\<forall>it stopped. res = Some (it, stopped) \<longrightarrow> ri_tomb it \<or> finished \<and> \<not> stopped" using True by blast
    from dropped [OF _ this] g True show ?thesis by simp
  next
    fix it rs
    assume "relayItems_Get i True (rl_items d (relayer r net)) = Ret (Some (it, True), rs)"
      and "net_inv (one_item P r d i (halted_ok d)) k e w (put_items r d rs net)" and "map_of (rs_items rs) i = Some it"
      and "halted_ok d it" and "w (ri_call it) = 1" and "ri_destination it < length (rn_relayers net)"
    then show ?thesis using found [of it rs] True by (simp add: forwarding_def halted_ok_def halted_def)
  qed
next
  case False
  show ?thesis
  proof (cases "map_of (rs_items (rl_items d (relayer r net))) i")
    case None
    then show ?thesis using dropped [of None] False by simp
  next
    case (Some it)
    then show ?thesis
      using dropped [of "Some (it, False)"] found [of it "rl_items d (relayer r net)"] False assms(1) net_item(2,3) [OF assms(1,2) Some]
      by (cases "ri_tomb it") (simp_all add: forwarding_def)
  qed
qed

lemma forwarding_end:
  assumes "P r d i = item_ok d i"
  shows "one_item (forwarding P r d i finished) r d i (item_ok d i) = P"
    and "forwarding P r d i finished r d i = (if finished then halted_ok d else item_ok d i)"
  using assms one_item_ok [of P r d i, OF assms] by (simp_all add: forwarding_def)

lemma report_outcome_ok:
  assumes "net_inv P k e w net" and "w (ri_call it) = 1" and "sendable f"
  obtains net' where "report_outcome fType f it net = Ret net'" and "settles P k e w net net'"
proof -
  obtain b m where bm: "determinesCallSuccess f = Ret (b, m)" using sendable_reads(2) [OF assms(3)] by (cases "determinesCallSuccess f") auto
  have "settles P k e w net (call_event (ri_call it) ev net)" if "ev \<noteq> End" for ev
    using net_event [OF assms(1,2) that] by (simp add: settles_def)
  then show ?thesis using that settles_refl [OF assms(1)] bm by (cases "fType = responseFrame") (auto simp: report_outcome_def)
qed

lemma net_send:
  assumes "net_inv P k e w net" and "r < length (rn_relayers net)"
  shows "settles P k e w net (put_conn r ((the_conn r net)\<lparr>c_sendCh := fs\<rparr>) net)"
  using net_keep_conn [OF assms, of "(the_conn r net)\<lparr>c_sendCh := fs\<rparr>"] net_conn(1) [OF assms] by (simp add: settles_def conn_inv_def)

lemma enqueue_frame_ok:
  assumes "net_inv P' k e w net" and "r < length (rn_relayers net)" and "P r d i = item_ok d i" and "P' = forwarding P r d i finished"
  obtains res net' where "enqueue_frame r d i finished f fType net = Ret (res, net')" and "settles P k e w net net'"
proof (cases "length (c_sendCh (the_conn r net)) < c_sendCap (the_conn r net)")
  case True
  let ?net = "put_conn r ((the_conn r net)\<lparr>c_sendCh := c_sendCh (the_conn r net) @ [f]\<rparr>) net"
  have s: "settles P' k e w net ?net" by (rule net_send [OF assms(1,2)])
  show ?thesis
  proof (cases finished)
    case True
    have "net_inv P' k e w ?net" "r < length (rn_relayers ?net)" "P' r d i = halted_ok d"
      using s assms(2,4) True forwarding_end(2) [where P = P, OF assms(3)] by (simp_all add: settles_def)
    from finishRelayItem_ok [OF this] obtain net' where "finishRelayItem r d i ?net = Ret net'"
        "settles (one_item P' r d i (item_ok d i)) k e w ?net net'" by metis
    then show ?thesis
      using that True \<open>length (c_sendCh (the_conn r net)) < c_sendCap (the_conn r net)\<close> forwarding_end(1) [where P = P, OF assms(3)] assms(4)
      by (simp add: enqueue_frame_def settles_def Let_def)
  next
    case False
    then show ?thesis using that s True assms(4) by (simp add: enqueue_frame_def forwarding_def Let_def)
  qed
next
  case False
  have "P' r d i = halted_ok d \<or> P' r d i = item_ok d i" using forwarding_end(2) [where P = P, OF assms(3)] assms(4) by simp
  from failRelayItem_ok [OF assms(1,2) this] obtain net' where
    "failRelayItem r d i (if fType = responseFrame then relayErrorSourceConnSlow else relayErrorDestConnSlow) errFrameNotSent net = Ret net'"
    "settles (one_item P' r d i (item_ok d i)) k e w net net'" by metis
  then show ?thesis using that False forwarding_end(1) [where P = P, OF assms(3)] assms(4) by (simp add: enqueue_frame_def Let_def)
qed

lemma relay_Receive_ok:
  assumes "net_inv P k e w net" and "r < length (rn_relayers net)" and "sendable f"
    and "P r (receiverItems fType) (fh_ID (fr_Header f)) = item_ok (receiverItems fType) (fh_ID (fr_Header f))"
  obtains res net' where "relay_Receive r f fType net = Ret (res, net')" and "settles P k e w net net'"
proof -
  define d i where "d = receiverItems fType" and "i = fh_ID (fr_Header f)"
  obtain finished where fin: "finishesCall f = Ret finished" using returnsE [OF sendable_reads(1) [OF assms(3)]] .
  have P: "P r d i = item_ok d i" using assms(4) by (simp add: d_def i_def)
  show ?thesis
  proof (rule net_Get [OF assms(1,2) P])
    fix res
    assume "relayItems_Get i finished (rl_items d (relayer r net)) = Ret (res, rl_items d (relayer r net))"
      and "\<forall>it stopped. res = Some (it, stopped) \<longrightarrow> ri_tomb it \<or> finished \<and> \<not> stopped"
    then have "\<exists>res'. relay_Receive r f fType net = Ret (res', net)"
      using fin by (cases res) (auto simp: relay_Receive_def d_def i_def)
    then show ?thesis using that settles_refl [OF assms(1)] by blast
  next
    fix it rs
    assume g: "relayItems_Get i finished (rl_items d (relayer r net)) = Ret (Some (it, finished), rs)" and t: "\<not> ri_tomb it"
      and inv: "net_inv (forwarding P r d i finished) k e w (put_items r d rs net)" and call: "w (ri_call it) = 1"
    obtain net2 where n2: "report_outcome fType f it (put_items r d rs net) = Ret net2"
        "settles (forwarding P r d i finished) k e w (put_items r d rs net) net2"
      by (rule report_outcome_ok [OF inv call assms(3)])
    then have "net_inv (forwarding P r d i finished) k e w net2" "r < length (rn_relayers net2)" using assms(2) by (simp_all add: settles_def)
    from enqueue_frame_ok [OF this P refl] obtain res net' where
      "enqueue_frame r d i finished f fType net2 = Ret (res, net')" "settles P k e w net2 net'" by metis
    then show ?thesis
      using that [of res net'] g t n2 fin by (auto simp: relay_Receive_def settles_def Let_def d_def [symmetric] i_def [symmetric])
  qed
qed

lemma inspect_frame_ok:
  assumes "net_inv P k e w net" and "r < length (rn_relayers net)" and "map_of (rs_items (rl_items d (relayer r net))) (fh_ID (fr_Header f)) = Some it"
    and "P r d (fh_ID (fr_Header f)) = halted_ok d \<or> P r d (fh_ID (fr_Header f)) = item_ok d (fh_ID (fr_Header f))" and "sendable f"
  obtains f' net' where "inspect_frame r d f it net = Ret (f', net')" and "sendable f'" and "fr_Header f' = fr_Header f" and "settles P k e w net net'"
proof -
  let ?i = "fh_ID (fr_Header f)" and ?rs = "rl_items d (relayer r net)"
  consider "Frame_messageType f = messageTypeCallRes"
    | cs where "Frame_messageType f = messageTypeCallReqContinue" "ri_mutatedChecksum it = Some cs"
    | "Frame_messageType f \<noteq> messageTypeCallRes" "Frame_messageType f = messageTypeCallReqContinue \<longrightarrow> ri_mutatedChecksum it = None" by fastforce
  then show ?thesis
  proof cases
    case 1
    then have "newLazyCallRes f \<noteq> Panic" using sendable_reads(3) [OF assms(5)] by (simp add: Frame_messageType_def)
    then obtain res where "newLazyCallRes f = Ret res" by (rule returnsE)
    moreover have "settles P k e w net (call_event (ri_call it) (CallResponse cr) net)" for cr
      using net_event [OF assms(1) net_item(3) [OF assms(1-3)], of "CallResponse cr"] by (simp add: settles_def)
    ultimately show ?thesis
      using that [of f] 1 assms(5) settles_refl [OF assms(1)] by (cases res) (simp_all add: inspect_frame_def)
  next
    case 2
    obtain f' cs' where f': "updateMutatedChecksum f cs = Ret (f', cs')" "sendable f'" "fr_Header f' = fr_Header f"
      by (rule sendable_mutated [OF assms(5)])
    let ?it = "it\<lparr>ri_mutatedChecksum := Some cs'\<rparr>"
    have "P r d ?i ?it" using net_item(1) [OF assms(1-3)] assms(4)
      by (auto simp: halted_ok_def halted_def idle_def item_ok_def split: if_splits)
    from net_update_item [where Q = "P r d ?i" and it' = ?it, OF assms(1-3) this]
    have "settles P k e w net (put_items r d (?rs\<lparr>rs_items := AList.update ?i ?it (rs_items ?rs)\<rparr>) net)" by (simp add: settles_def)
    then show ?thesis using that [OF _ f'(2,3)] 2 f'(1) by (simp add: inspect_frame_def Let_def)
  next
    case 3
    then show ?thesis using that [of f net] assms(5) settles_refl [OF assms(1)] by (auto simp: inspect_frame_def Let_def)
  qed
qed

text \<open>The end of \<^verbatim>\<open>handleNonCallReq\<close>, once the frame was given to the other side.\<close>

lemma forward_end:
  assumes "net_inv P' k e w net" and "r < length (rn_relayers net)" and "P r d i = item_ok d i" and "P' = forwarding P r d i finished"
  obtains net' where "(if \<not> sent then go_bind (failRelayItem r d i failure errFrameNotSent net) (\<lambda>net'. Ret (None :: gerror option, net'))
      else if finished then go_bind (finishRelayItem r d i net) (\<lambda>net'. Ret (None, net')) else Ret (None, net)) = Ret (None, net')"
    and "settles P k e w net net'"
proof -
  note fe = forwarding_end [of P r d i, OF assms(3), of finished, folded assms(4)]
  have fail: "P' r d i = halted_ok d \<or> P' r d i = item_ok d i" using fe(2) by simp
  consider "\<not> sent" | "sent" "finished" | "sent" "\<not> finished" by blast
  then show ?thesis
  proof cases
    case 1
    from failRelayItem_ok [OF assms(1,2) fail] obtain net' where "failRelayItem r d i failure errFrameNotSent net = Ret net'"
      "settles (one_item P' r d i (item_ok d i)) k e w net net'" by metis
    then show ?thesis using that 1 fe(1) by simp
  next
    case 2
    then have "P' r d i = halted_ok d" using fe(2) by simp
    from finishRelayItem_ok [OF assms(1,2) this] obtain net' where "finishRelayItem r d i net = Ret net'"
      "settles (one_item P' r d i (item_ok d i)) k e w net net'" by metis
    then show ?thesis using that 2 fe(1) by simp
  next
    case 3
    then show ?thesis using that settles_refl [OF assms(1)] assms(4) by (simp add: forwarding_def)
  qed
qed

lemma frameTypeFor_call:
  assumes "isMessageTypeCall f"
  obtains fType where "frameTypeFor f = Ret fType"
  using assms that by (auto simp: isMessageTypeCall_def frameTypeFor_def)

lemma forwarding_other:
  assumes "d' \<noteq> d"
  shows "forwarding P r d i finished r' d' = P r' d'"
  using assms by (auto simp: forwarding_def one_item_def)

lemma handleNonCallReq_ok:
  assumes "net_inv all_ok k e w net" and "r < length (rn_relayers net)" and "sendable f" and "isMessageTypeCall f"
  obtains err net' where "handleNonCallReq r f net = Ret (err, net')" and "settles all_ok k e w net net'"
proof -
  obtain fType where ft: "frameTypeFor f = Ret fType" by (rule frameTypeFor_call [OF assms(4)])
  obtain finished where fin: "finishesCall f = Ret finished" using returnsE [OF sendable_reads(1) [OF assms(3)]] .
  define d i where "d = (if fType = responseFrame then Inbound else Outbound)" and "i = fh_ID (fr_Header f)"
  let ?P = "forwarding all_ok r d i finished"
  show ?thesis
  proof (rule net_Get [where P = all_ok and d = d and i = i and finished = finished, OF assms(1,2) refl])
    fix res
    assume "relayItems_Get i finished (rl_items d (relayer r net)) = Ret (res, rl_items d (relayer r net))"
      and "\<forall>it stopped. res = Some (it, stopped) \<longrightarrow> ri_tomb it \<or> finished \<and> \<not> stopped"
    then have "\<exists>err. handleNonCallReq r f net = Ret (err, net)"
      unfolding handleNonCallReq_def ft fin go_bind.simps Let_def d_def [symmetric] i_def [symmetric] by (cases res) auto
    then show ?thesis using that settles_refl [OF assms(1)] by blast
  next
    fix it rs
    assume g: "relayItems_Get i finished (rl_items d (relayer r net)) = Ret (Some (it, finished), rs)" and t: "\<not> ri_tomb it"
      and inv: "net_inv ?P k e w (put_items r d rs net)" and m: "map_of (rs_items rs) i = Some it"
      and call: "w (ri_call it) = 1" and dest: "ri_destination it < length (rn_relayers net)"
    have r: "r < length (rn_relayers (put_items r d rs net))"
      and m': "map_of (rs_items (rl_items d (relayer r (put_items r d rs net)))) (fh_ID (fr_Header f)) = Some it"
      and P: "?P r d (fh_ID (fr_Header f)) = halted_ok d \<or> ?P r d (fh_ID (fr_Header f)) = item_ok d (fh_ID (fr_Header f))"
      using assms(2) m forwarding_end(2) [of all_ok r d i, OF refl] by (simp_all add: i_def)
    obtain f1 net2 where f1: "inspect_frame r d f it (put_items r d rs net) = Ret (f1, net2)" "sendable f1" "fr_Header f1 = fr_Header f"
        "settles ?P k e w (put_items r d rs net) net2"
      by (rule inspect_frame_ok [OF inv r m' P assms(3)])
    let ?n3 = "reportRelayBytes fType (FrameSize (fr_Header f1)) it net2"
    let ?f2 = "f1\<lparr>fr_Header := (fr_Header f1)\<lparr>fh_ID := ri_remapID it\<rparr>\<rparr>"
    have n3: "net_inv ?P k e w ?n3" "length (rn_relayers ?n3) = length (rn_relayers net)" "rn_calls ?n3 = rn_calls net"
      using f1(4) net_event [where P = ?P and net = net2 and w = w and c = "ri_call it", OF _ call] by (simp_all add: settles_def reportRelayBytes_def)
    have "receiverItems fType \<noteq> d" by (cases fType) (simp_all add: receiverItems_def d_def)
    then have P2: "?P (ri_destination it) (receiverItems fType) (fh_ID (fr_Header ?f2)) = item_ok (receiverItems fType) (fh_ID (fr_Header ?f2))"
      by (simp add: forwarding_other)
    have dest': "ri_destination it < length (rn_relayers ?n3)" using dest n3(2) by simp
    obtain res net4 where n4: "relay_Receive (ri_destination it) ?f2 fType ?n3 = Ret (res, net4)" "settles ?P k e w ?n3 net4"
      by (rule relay_Receive_ok [OF n3(1) dest' sendable_header [OF f1(2)] P2])
    obtain sent failure where res: "res = (sent, failure)" by force
    have n4': "net_inv ?P k e w net4" "r < length (rn_relayers net4)" using n4(2) n3(2) assms(2) by (simp_all add: settles_def)
    obtain net' where n': "(if \<not> sent then go_bind (failRelayItem r d i failure errFrameNotSent net4) (\<lambda>net'. Ret (None :: gerror option, net'))
      else if finished then go_bind (finishRelayItem r d i net4) (\<lambda>net'. Ret (None, net')) else Ret (None, net4)) = Ret (None, net')"
      "settles all_ok k e w net4 net'"
      by (rule forward_end [where P = all_ok and sent = sent and failure = failure, OF n4' refl refl])
    have "handleNonCallReq r f net = Ret (None, net')"
      using n'(1) n4(1) res f1(1) g t unfolding handleNonCallReq_def ft fin go_bind.simps Let_def d_def [symmetric] i_def [symmetric]
      by (cases sent; cases finished) simp_all
    moreover have "settles all_ok k e w net net'" using n'(2) n4(2) n3(2,3) by (simp add: settles_def)
    ultimately show ?thesis by (rule that)
  qed
qed

section \<open>Starting a call\<close>

lemma net_started:
  assumes "net_inv P k e w net" and "w call = 0"
  shows "net_inv P k (e(call := 1)) (w(call := 1)) net" and "e call = 0"
proof -
  have old: "ends c (rn_log net) + originated c net + e c = w c" for c using assms(1) by (simp add: net_inv_def)
  have z: "ends call (rn_log net) + originated call net + e call = 0" using old [of call] assms(2) by simp
  then show "e call = 0" by simp
  have "ends c (rn_log net) + originated c net + (e(call := 1)) c = (w(call := 1)) c" for c
    using z old [of c] by (cases "c = call") simp_all
  then show "net_inv P k (e(call := 1)) (w(call := 1)) net" using assms by (auto simp: net_inv_def)
qed

lemma canHandle_ok:
  assumes "net_inv P k e w net" and "r < length (rn_relayers net)" and "canHandleNewCall r net = ((True, st), net')"
  shows "settles P (k(r := Suc (k r))) e w net net'" and "rl_items d (relayer r' net') = rl_items d (relayer r' net)"
    and "c_nextMessageID (the_conn r' net') = c_nextMessageID (the_conn r' net)"
proof -
  let ?c = "(the_conn r net)\<lparr>c_relay := map_option pending_Inc (c_relay (the_conn r net))\<rparr>"
  have net': "net' = put_conn r ?c net" using assms(3) by (auto simp: canHandleNewCall_def Let_def split: if_splits)
  note cn = net_conn [OF assms(1,2)]
  have "c_relay ?c = Some ((held (relayer r net) + (k(r := Suc (k r))) r) mod 2 ^ 32)"
    using cn(2) pending_Inc_eq [of "held (relayer r net) + k r"] by (simp add: add.assoc)
  from net_put_conn [where k' = "k(r := Suc (k r))", OF assms(1,2) _ this] cn(1)
  show "settles P (k(r := Suc (k r))) e w net net'" by (simp add: net' settles_def conn_inv_def)
  show "rl_items d (relayer r' net') = rl_items d (relayer r' net)" and "c_nextMessageID (the_conn r' net') = c_nextMessageID (the_conn r' net)"
    using assms(2) by (simp_all add: net' relayer_put_conn)
qed

lemma canHandle_no: "canHandleNewCall r net = ((False, st), net') \<Longrightarrow> net' = net"
  by (auto simp: canHandleNewCall_def Let_def split: if_splits)

text \<open>A timer that was released to the pool is at rest.\<close>

definition reusable :: "relayTimer option \<Rightarrow> bool" where
  "reusable reused \<longleftrightarrow> (case reused of None \<Rightarrow> True | Some rt \<Rightarrow> \<not> rt_active rt \<and> \<not> rt_running rt)"

lemma timer_Start_ok:
  assumes "reusable reused"
  obtains rt where "timer_Start d i b (timerPool_Get reused) = Ret rt" and "\<not> rt_released rt" and "rt_active rt" and "\<not> rt_stopped rt"
    and "rt_running rt" and "rt_items rt = Some d" and "rt_id rt = i" and "rt_isOriginator rt = b"
proof -
  let ?rt = "timerPool_Get reused"
  have "\<not> rt_released ?rt" "\<not> rt_active ?rt" "\<not> rt_running ?rt"
    using assms by (cases reused; simp add: timerPool_Get_def reusable_def)+
  then have "timer_Start d i b ?rt = Ret (?rt\<lparr>rt_active := True, rt_stopped := False, rt_items := Some d, rt_id := i,
      rt_isOriginator := b, rt_running := True\<rparr>)"
    by (simp add: timer_Start_def)
  from that [OF this] show ?thesis using \<open>\<not> rt_released ?rt\<close> by simp
qed

lemma addRelayItem_ok:
  assumes "net_inv P k e w net" and "r < length (rn_relayers net)" and "reusable reused" and "d = (if orig then Outbound else Inbound)"
    and "map_of (rs_items (rl_items d (relayer r net))) i = None" and "dest < length (rn_relayers net)" and "w call = 1" and "k r = Suc j"
    and "orig \<Longrightarrow> e call = 1" and "P r d i = item_ok d i"
  obtains it where "addRelayItem r reused orig i remapID dest span call cs net = Ret (it, put_items r d (relayItems_Add i it (rl_items d (relayer r net))) net)"
    and "ri_destination it = dest" and "ri_remapID it = remapID" and "item_ok d i it" and "ri_call it = call" and "\<not> ri_tomb it"
    and "rt_running (ri_timeout it)" and "net_inv P (k(r := j)) (if orig then e(call := 0) else e) w (put_items r d (relayItems_Add i it (rl_items d (relayer r net))) net)"
proof -
  obtain rt where rt: "timer_Start d i orig (timerPool_Get reused) = Ret rt" "\<not> rt_released rt" "rt_active rt" "\<not> rt_stopped rt"
      "rt_running rt" "rt_items rt = Some d" "rt_id rt = i" "rt_isOriginator rt = orig"
    by (rule timer_Start_ok [OF assms(3)])
  define it where "it = \<lparr>ri_remapID = remapID, ri_tomb = False, ri_isOriginator = orig, ri_call = call, ri_destination = dest, ri_span = span,
    ri_timeout = rt, ri_mutatedChecksum = cs\<rparr>"
  let ?rs = "relayItems_Add i it (rl_items d (relayer r net))"
  have ok: "item_ok d i it" "\<not> ri_tomb it" "ri_call it = call" "ri_destination it = dest" "ri_remapID it = remapID" "rt_running (ri_timeout it)"
    using rt assms(4) by (simp_all add: item_ok_def it_def)
  note add = Add_ok [where Q = "item_ok d i" and it = it, OF net_conn(3) [OF assms(1,2)] assms(5) ok(1,2)]
  have "net_inv (P(r := (P r)(d := (P r d)(i := item_ok d i)))) (k(r := j)) (if orig then e(call := 0) else e) w (put_items r d ?rs net)"
  proof (rule net_put_items [OF assms(1,2) add(1)])
    show "live (\<lambda>_. True) ?rs + (k(r := j)) r = live (\<lambda>_. True) (rl_items d (relayer r net)) + k r" using add(2) assms(8) by simp
    show "\<forall>c. (if d = Outbound then live (\<lambda>x. x = c) ?rs else 0) + (if orig then e(call := 0) else e) c =
        (if d = Outbound then live (\<lambda>x. x = c) (rl_items d (relayer r net)) else 0) + e c"
      using add(2) assms(4,9) ok(3) by (cases orig) simp_all
    show "\<forall>j it'. map_of (rs_items ?rs) j = Some it' \<longrightarrow> ri_destination it' < length (rn_relayers net) \<and> w (ri_call it') = 1"
      using net_item(2,3) [OF assms(1,2)] assms(6,7) ok(3,4) by (auto simp: relayItems_Add_def update_conv' split: if_splits)
  qed simp
  then have "net_inv P (k(r := j)) (if orig then e(call := 0) else e) w (put_items r d ?rs net)"
    using one_item_ok [of P r d i, OF assms(10)] by (simp only: one_item_upd)
  moreover have "addRelayItem r reused orig i remapID dest span call cs net = Ret (it, put_items r d ?rs net)"
    using rt(1) assms(4) by (simp add: addRelayItem_def it_def Let_def split del: if_split)
  ultimately show ?thesis using ok by (intro that [of it]) simp_all
qed

text \<open>The id that the destination gives to the call next is not in use there.\<close>

definition fresh_id :: "nat \<Rightarrow> relayNet \<Rightarrow> bool" where
  "fresh_id dest net \<longleftrightarrow> map_of (rs_items (rl_inbound (relayer dest net))) (c_nextMessageID (the_conn dest net) + 1) = None"

text \<open>Both sides of the call get their item.\<close>

lemma add_both_ok:
  assumes "net_inv all_ok k2 e1 w net" and "k2 = k1(dest := Suc (k1 dest))" and "k1 = k(r := Suc (k r))" and "e1 = e(call := 1)"
    and "r < length (rn_relayers net)" and "dest < length (rn_relayers net)" and "reusable reused1" and "reusable reused2"
    and "map_of (rs_items (rl_inbound (relayer dest net))) di = None" and "map_of (rs_items (rl_outbound (relayer r net))) i = None"
    and "w call = 1" and "e call = 0"
  obtains it1 it2 net2 net3 where "addRelayItem dest reused1 False di i r span call None net = Ret (it1, net2)"
    and "addRelayItem r reused2 True i di dest span call None net2 = Ret (it2, net3)" and "settles all_ok k e w net net3"
    and "ri_destination it2 = dest"
    and "net2 = put_items dest Inbound (relayItems_Add di it1 (rl_inbound (relayer dest net))) net"
    and "net3 = put_items r Outbound (relayItems_Add i it2 (rl_outbound (relayer r net))) net2"
    and "ri_destination it1 = r" and "ri_remapID it1 = i" and "ri_remapID it2 = di" and "\<not> ri_tomb it1" and "\<not> ri_tomb it2"
    and "rt_running (ri_timeout it1)" and "rt_running (ri_timeout it2)" and "ri_call it1 = call" and "ri_call it2 = call"
    and "item_ok Inbound di it1" and "item_ok Outbound i it2"
proof -
  have k2: "k2 dest = Suc (k1 dest)" "k2(dest := k1 dest) = k1" and k1: "k1 r = Suc (k r)" "k1(r := k r) = k"
    and e1: "e1 call = 1" "e1(call := 0) = e"
    using assms(2-4,12) by (auto simp: fun_eq_iff)
  have none: "map_of (rs_items (rl_items Inbound (relayer dest net))) di = None" using assms(9) by simp
  obtain it1 where it1: "addRelayItem dest reused1 False di i r span call None net =
        Ret (it1, put_items dest Inbound (relayItems_Add di it1 (rl_items Inbound (relayer dest net))) net)"
      "ri_destination it1 = r" "ri_remapID it1 = i" "item_ok Inbound di it1" "ri_call it1 = call" "\<not> ri_tomb it1" "rt_running (ri_timeout it1)"
      "net_inv all_ok (k2(dest := k1 dest)) (if False then e1(call := 0) else e1) w
        (put_items dest Inbound (relayItems_Add di it1 (rl_items Inbound (relayer dest net))) net)"
    by (rule addRelayItem_ok [where d = Inbound and orig = False and P = all_ok, OF assms(1,6,7) _ none assms(5,11) k2(1)]) simp_all
  define net2 where "net2 = put_items dest Inbound (relayItems_Add di it1 (rl_inbound (relayer dest net))) net"
  have n2: "net_inv all_ok k1 e1 w net2" using it1(8) k2(2) by (simp add: net2_def)
  have ln: "length (rn_relayers net2) = length (rn_relayers net)" and out: "rl_outbound (relayer r net2) = rl_outbound (relayer r net)"
    using assms(6) by (simp_all add: net2_def relayer_put_items set_rl_items_def)
  have lr: "r < length (rn_relayers net2)" "dest < length (rn_relayers net2)" using ln assms(5,6) by simp_all
  have none2: "map_of (rs_items (rl_items Outbound (relayer r net2))) i = None" using assms(10) out by simp
  obtain it2 where it2: "addRelayItem r reused2 True i di dest span call None net2 =
        Ret (it2, put_items r Outbound (relayItems_Add i it2 (rl_items Outbound (relayer r net2))) net2)"
      "ri_destination it2 = dest" "ri_remapID it2 = di" "item_ok Outbound i it2" "ri_call it2 = call" "\<not> ri_tomb it2" "rt_running (ri_timeout it2)"
      "net_inv all_ok (k1(r := k r)) (if True then e1(call := 0) else e1) w
        (put_items r Outbound (relayItems_Add i it2 (rl_items Outbound (relayer r net2))) net2)"
    by (rule addRelayItem_ok [where d = Outbound and orig = True and P = all_ok, OF n2 lr(1) assms(8) _ none2 lr(2) assms(11) k1(1)])
      (simp_all add: e1(1))
  define net3 where "net3 = put_items r Outbound (relayItems_Add i it2 (rl_outbound (relayer r net))) net2"
  have "settles all_ok k e w net net3"
    using it2(8) k1(2) e1(2) ln by (simp add: settles_def net3_def out) (simp add: net2_def)
  then show ?thesis
    using it1(1-7) it2(1-7) out by (intro that [of it1 net2 it2 net3]) (simp_all add: net2_def net3_def)
qed

text \<open>The time to live is read, and capped at the maximum of the relay.\<close>

definition capTTL :: "duration \<Rightarrow> lazyCallReq \<Rightarrow> lazyCallReq" where
  "capTTL m cr =
     (case lazyReq_TTL cr of
        Panic \<Rightarrow> cr
      | Ret ttl \<Rightarrow> if ttl > m then (case lazyReq_SetTTL m cr of Panic \<Rightarrow> cr | Ret cr' \<Rightarrow> cr') else cr)"

lemma cap_ok:
  assumes "sendable (lr_Frame cr)"
  obtains ttl where "lazyReq_TTL cr = Ret ttl" and "(if ttl > m then lazyReq_SetTTL m cr else Ret cr) = Ret (capTTL m cr)"
    and "sendable (lr_Frame (capTTL m cr))" and "fr_Header (lr_Frame (capTTL m cr)) = fr_Header (lr_Frame cr)"
proof -
  have len: "length (fr_Payload (lr_Frame cr)) = 65519"
    using sendable_payload(1) [OF assms] by (simp add: MaxFramePayloadSize_def MaxFrameSize_def)
  obtain ttl where ttl: "lazyReq_TTL cr = Ret ttl" using len by (simp add: lazyReq_TTL_def subslice_def)
  define cr' where "cr' = cr\<lparr>lr_Frame := set_Payload (copy_at ttlIndex (PutUint32 (of_int (m sdiv Millisecond))) (fr_Payload (lr_Frame cr))) (lr_Frame cr)\<rparr>"
  have set: "lazyReq_SetTTL m cr = Ret cr'" using len by (simp add: lazyReq_SetTTL_def cr'_def)
  have inv: "frame_inv (lr_Frame cr)" using assms by (simp add: sendable_def)
  have "sendable (lr_Frame cr')" "fr_Header (lr_Frame cr') = fr_Header (lr_Frame cr)"
    using sendable_set_Payload [OF assms, of "copy_at ttlIndex (PutUint32 (of_int (m sdiv Millisecond))) (fr_Payload (lr_Frame cr))"] len
      set_Payload_simps(3) [OF inv]
    by (simp_all add: cr'_def MaxFramePayloadSize_def MaxFrameSize_def)
  then show ?thesis using assms ttl set by (intro that [of ttl]) (simp_all add: capTTL_def)
qed

lemma relay_call_ok:
  assumes "net_inv all_ok k2 e1 w net" and "k2 = k1(dest := Suc (k1 dest))" and "k1 = k(r := Suc (k r))" and "e1 = e(call := 1)"
    and "r < length (rn_relayers net)" and "dest < length (rn_relayers net)" and "reusable reused1" and "reusable reused2"
    and "fresh_id dest net" and "map_of (rs_items (rl_outbound (relayer r net))) (fh_ID (fr_Header (lr_Frame cr))) = None"
    and "w call = 1" and "e call = 0" and "sendable (lr_Frame cr)"
  obtains net' where "relay_call r dest reused1 reused2 call cr net = Ret net'" and "settles all_ok k e w net net'"
proof -
  define i di where "i = fh_ID (fr_Header (lr_Frame cr))" and "di = c_nextMessageID (the_conn dest net) + 1"
  define net1 where "net1 = put_conn dest ((the_conn dest net)\<lparr>c_nextMessageID := di\<rparr>) net"
  have n1: "net_inv all_ok k2 e1 w net1"
    using net_keep_conn [OF assms(1,6), of "(the_conn dest net)\<lparr>c_nextMessageID := di\<rparr>"] net_conn(1) [OF assms(1,6)]
    by (simp add: net1_def conn_inv_def)
  have items1: "rl_inbound (relayer q net1) = rl_inbound (relayer q net)" "rl_outbound (relayer q net1) = rl_outbound (relayer q net)" for q
    using assms(6) by (simp_all add: net1_def relayer_put_conn)
  have ln1: "length (rn_relayers net1) = length (rn_relayers net)" "rn_calls net1 = rn_calls net" by (simp_all add: net1_def)
  have lr1: "r < length (rn_relayers net1)" "dest < length (rn_relayers net1)" using ln1 assms(5,6) by simp_all
  have free: "map_of (rs_items (rl_inbound (relayer dest net1))) di = None" "map_of (rs_items (rl_outbound (relayer r net1))) i = None"
    using assms(9,10) items1 by (simp_all add: fresh_id_def i_def di_def)
  obtain ttl where ttl: "lazyReq_TTL cr = Ret ttl" and cap: "(if ttl > rl_maxTimeout (relayer r net1) then lazyReq_SetTTL (rl_maxTimeout (relayer r net1)) cr else Ret cr) =
        Ret (capTTL (rl_maxTimeout (relayer r net1)) cr)" "sendable (lr_Frame (capTTL (rl_maxTimeout (relayer r net1)) cr))"
    by (rule cap_ok [OF assms(13)])
  define cr1 where "cr1 = capTTL (rl_maxTimeout (relayer r net1)) cr"
  obtain it1 it2 net2 net3 where add: "addRelayItem dest reused1 False di i r (lazyReq_Span cr1) call None net1 = Ret (it1, net2)"
      "addRelayItem r reused2 True i di dest (lazyReq_Span cr1) call None net2 = Ret (it2, net3)" "settles all_ok k e w net1 net3" "ri_destination it2 = dest"
    by (rule add_both_ok [OF n1 assms(2-4) lr1 assms(7,8) free assms(11,12)])
  define f where "f = (lr_Frame cr1)\<lparr>fr_Header := (fr_Header (lr_Frame cr1))\<lparr>fh_ID := di\<rparr>\<rparr>"
  define net4 where "net4 = call_event call (SentBytes (FrameSize (fr_Header f))) net3"
  have n4: "net_inv all_ok k e w net4" "dest < length (rn_relayers net4)" "length (rn_relayers net4) = length (rn_relayers net)" "rn_calls net4 = rn_calls net"
    using add(3) net_event [where net = net3 and w = w and c = call, OF _ assms(11)] ln1 assms(6) by (simp_all add: settles_def net4_def)
  have sf: "sendable f" unfolding f_def by (rule sendable_header) (use cap(2) cr1_def in simp)
  obtain res net5 where n5: "relay_Receive dest f requestFrame net4 = Ret (res, net5)" "settles all_ok k e w net4 net5"
    by (rule relay_Receive_ok [OF n4(1,2) sf]) (rule refl)
  obtain sent failure where res: "res = (sent, failure)" by force
  have n5': "net_inv all_ok k e w net5" "r < length (rn_relayers net5)" using n5(2) n4(3) assms(5) by (simp_all add: settles_def)
  obtain net6 where n6: "failRelayItem r Outbound i failure errFrameNotSent net5 = Ret net6" "settles (one_item all_ok r Outbound i (item_ok Outbound i)) k e w net5 net6"
    by (rule failRelayItem_ok [OF n5', where d = Outbound and i = i]) simp_all
  have nm: "NextMessageID (the_conn dest net) = (di, (the_conn dest net)\<lparr>c_nextMessageID := di\<rparr>)" by (simp add: NextMessageID_def di_def)
  have "relay_call r dest reused1 reused2 call cr net = (if \<not> sent then Ret net6 else Ret net5)"
    unfolding relay_call_def nm Let_def prod.case net1_def [symmetric] ttl go_bind.simps cap(1) cr1_def [symmetric] i_def [symmetric]
      add(1,2) f_def [symmetric] net4_def [symmetric] add(4) n5(1) res n6(1) ..
  then show ?thesis
    using that [of net5] that [of net6] n5(2) n6(2) n4(3,4) one_item_simps(4) [of all_ok r Outbound i] by (cases sent) (simp_all add: settles_def)
qed

lemma settles_event:
  assumes "settles P k e w net0 net" and "w c = 1" and "ev \<noteq> End"
  shows "settles P k e w net0 (call_event c ev net)"
  using assms net_event [of P k e w net c ev] by (simp add: settles_def)

lemma settles_SendSystemError:
  assumes "settles P k e w net0 net" and "r < length (rn_relayers net0)"
  shows "settles P k e w net0 (relay_SendSystemError r i span err net)"
  using assms net_SendSystemError [of P k e w net r i span err] by (simp add: settles_def)

lemma settles_end:
  assumes "settles P k e1 w net0 net" and "w call = 1" and "e1 = e(call := 1)" and "e call = 0"
  shows "settles P k e w net0 (call_event call End net)"
proof -
  have "e1(call := 0) = e" "e1 call = 1" using assms(3,4) by auto
  then show ?thesis using assms(1,2) net_end [of P k e1 w net call] by (simp add: settles_def)
qed

text \<open>A call that came no further than to be counted on its own connection.\<close>

lemma end_pending:
  assumes "settles P k1 e1 w net0 net" and "k1 = k(r := Suc (k r))" and "e1 = e(call := 1)" and "e call = 0" and "w call = 1"
    and "r < length (rn_relayers net0)"
  obtains net' where "decrementPending r net = Ret net'" and "settles P k e w net0 (call_event call End net')"
proof -
  have inv: "net_inv P k1 e1 w net" and r: "r < length (rn_relayers net)" using assms(1,6) by (simp_all add: settles_def)
  have k: "k1 r = Suc (k r)" "k1(r := k r) = k" using assms(2) by auto
  obtain net' where n: "decrementPending r net = Ret net'" "net_inv P (k1(r := k r)) e1 w net'"
      "length (rn_relayers net') = length (rn_relayers net)" "rn_calls net' = rn_calls net"
    by (rule decrementPending_ok [OF inv r k(1)])
  then have "settles P k e1 w net0 net'" using assms(1) k(2) by (simp add: settles_def)
  from settles_end [OF this assms(5,3,4)] n(1) show ?thesis by (intro that)
qed

lemma getDestination_ok:
  assumes "settles P k e w net0 net" and "r < length (rn_relayers net0)" and "w call = 1"
    and "getDestination r cr call destination net = ((x, err), net')"
  shows "settles P k e w net0 net'"
    and "x = Some dest \<Longrightarrow> net' = net \<and> destination = Some (Inr dest) \<and>
      map_of (rs_items (rl_outbound (relayer r net))) (fh_ID (fr_Header (lr_Frame cr))) = None"
proof -
  note ev = settles_event [OF assms(1,3)]
  note send = settles_SendSystemError [OF _ assms(2)]
  show "settles P k e w net0 net'"
    using assms(1,4) ev ev [THEN send]
    by (auto simp: getDestination_def Let_def split: if_splits option.splits sum.splits)
  show "net' = net \<and> destination = Some (Inr dest) \<and> map_of (rs_items (rl_outbound (relayer r net))) (fh_ID (fr_Header (lr_Frame cr))) = None"
    if "x = Some dest"
    using assms(4) that by (auto simp: getDestination_def Let_def split: if_splits option.splits sum.splits)
qed

text \<open>What is asked of the destination that the relay host chose and of the timers of the pool.\<close>

definition start_ready :: "(gerror + nat) option \<Rightarrow> relayTimer option \<Rightarrow> relayTimer option \<Rightarrow> relayNet \<Rightarrow> bool" where
  "start_ready destination reused1 reused2 net \<longleftrightarrow> reusable reused1 \<and> reusable reused2 \<and>
     (case destination of Some (Inr dest) \<Rightarrow> dest < length (rn_relayers net) \<and> fresh_id dest net | _ \<Rightarrow> True)"

lemma start_call_ok:
  assumes "net_inv all_ok k e1 w net" and "e1 = e(call := 1)" and "e call = 0" and "w call = 1" and "r < length (rn_relayers net)"
    and "sendable (lr_Frame cr)" and "start_ready destination reused1 reused2 net"
  obtains err net' where "start_call r destination reused1 reused2 call cr net = Ret (err, net')" and "settles all_ok k e w net net'"
proof -
  define k1 where "k1 = k(r := Suc (k r))"
  obtain b st net1 where ch: "canHandleNewCall r net = ((b, st), net1)" by (metis prod.exhaust)
  show ?thesis
  proof (cases b)
    case False
    then have "net1 = net" using canHandle_no ch by metis
    then have "settles all_ok k e w net (call_event call End (call_event call (Failed ''relay-client-conn-inactive'') net1))"
      by (intro settles_end [OF settles_event [where w = w and c = call, OF _ assms(4)] assms(4,2,3)]) (simp_all add: settles_refl [OF assms(1)])
    from settles_SendSystemError [OF this assms(5)] show ?thesis
      using ch False by (intro that) (simp_all add: start_call_def Let_def)
  next
    case True
    then have ch1: "canHandleNewCall r net = ((True, st), net1)" using ch by simp
    note c1 = canHandle_ok [OF assms(1,5) ch1]
    have s1: "settles all_ok k1 e1 w net net1" using c1(1) by (simp add: k1_def)
    obtain x err net2 where gd: "getDestination r cr call destination net1 = ((x, err), net2)" by (metis prod.exhaust)
    note gd1 = getDestination_ok [OF s1 assms(5,4) gd]
    show ?thesis
    proof (cases x)
      case None
      obtain net3 where "decrementPending r net2 = Ret net3" "settles all_ok k e w net (call_event call End net3)"
        by (rule end_pending [OF gd1(1) k1_def assms(2-5)])
      then show ?thesis using ch1 gd None by (intro that) (simp_all add: start_call_def Let_def)
    next
      case (Some dest)
      note gd2 = gd1(2) [OF Some]
      have dest: "dest < length (rn_relayers net)" "fresh_id dest net" using assms(7) gd2 by (simp_all add: start_ready_def)
      have n1: "net_inv all_ok k1 e1 w net1" "dest < length (rn_relayers net1)" "r < length (rn_relayers net1)"
        using s1 dest(1) assms(5) by (simp_all add: settles_def)
      obtain b' st' net3 where rc: "canHandleNewCall dest net1 = ((b', st'), net3)" by (metis prod.exhaust)
      show ?thesis
      proof (cases b')
        case False
        then have n3: "net3 = net1" using canHandle_no rc by metis
        let ?err = "NewWrappedSystemError ErrCodeNetwork (ErrConnNotActive ''selected remote'' st')"
        let ?n4 = "relay_SendSystemError r (fh_ID (fr_Header (lr_Frame cr))) (lazyReq_Span cr) (NewWrappedSystemError ErrCodeDeclined ?err)
          (call_event call (Failed ''relay-remote-inactive'') net3)"
        have s4: "settles all_ok k1 e1 w net ?n4"
          by (rule settles_SendSystemError [OF settles_event [where w = w and c = call, OF _ assms(4)] assms(5)]) (use s1 n3 in simp_all)
        obtain net5 where "decrementPending r ?n4 = Ret net5" "settles all_ok k e w net (call_event call End net5)"
          by (rule end_pending [OF s4 k1_def assms(2-5)])
        then show ?thesis using ch1 gd gd2 Some rc False by (intro that) (simp_all add: start_call_def Let_def)
      next
        case True
        then have rc1: "canHandleNewCall dest net1 = ((True, st'), net3)" using rc by simp
        note c3 = canHandle_ok [OF n1(1,2) rc1]
        have n3: "net_inv all_ok (k1(dest := Suc (k1 dest))) e1 w net3" "r < length (rn_relayers net3)" "dest < length (rn_relayers net3)"
          using c3(1) n1(2,3) by (simp_all add: settles_def)
        have free: "fresh_id dest net3" "map_of (rs_items (rl_outbound (relayer r net3))) (fh_ID (fr_Header (lr_Frame cr))) = None"
          using dest(2) gd2 c1(2) [of Inbound] c1(3) c3(2) [of Inbound] c3(2) [of Outbound] c3(3) by (simp_all add: fresh_id_def)
        have re: "reusable reused1" "reusable reused2" using assms(7) by (simp_all add: start_ready_def)
        obtain net4 where "relay_call r dest reused1 reused2 call cr net3 = Ret net4" "settles all_ok k e w net3 net4"
          by (rule relay_call_ok [OF n3(1) refl k1_def assms(2) n3(2,3) re free assms(4,3,6)])
        then show ?thesis
          using ch1 gd gd2 Some rc1 c3(1) s1 by (intro that [of None net4]) (simp_all add: start_call_def settles_def Let_def)
      qed
    qed
  qed
qed

section \<open>All the frames of a connection\<close>

text \<open>Between the operations nothing is pending that has no item, and every call that was started and has no live item has ended.\<close>

definition net_ok :: "relayNet \<Rightarrow> bool" where
  "net_ok net \<longleftrightarrow> (\<exists>w. net_inv all_ok (\<lambda>_. 0) (\<lambda>_. 0) w net \<and> (\<forall>c \<ge> rn_calls net. w c = 0))"

lemma net_okI: "settles all_ok (\<lambda>_. 0) (\<lambda>_. 0) w net0 net \<Longrightarrow> \<forall>c \<ge> rn_calls net0. w c = 0 \<Longrightarrow> net_ok net"
  unfolding net_ok_def settles_def by (intro exI [of _ w]) simp

lemma net_okE:
  assumes "net_ok net"
  obtains w where "net_inv all_ok (\<lambda>_. 0) (\<lambda>_. 0) w net" and "\<forall>c \<ge> rn_calls net. w c = 0"
  using assms by (auto simp: net_ok_def)

lemma net_inv_calls: "net_inv P k e w (net\<lparr>rn_calls := n\<rparr>) = net_inv P k e w net"
  by (simp add: net_inv_def relayer_def originated_def)

lemma relayer_calls [simp]: "relayer r (net\<lparr>rn_calls := n\<rparr>) = relayer r net"
  by (simp add: relayer_def)

lemma conn_close_ok:
  assumes "conn_inv c"
  obtains err c' where "conn_close c = Ret (err, c')" and "conn_inv c'" and "c_relay c' = c_relay c"
proof -
  obtain x where x: "conn_close c = Ret x" "conn_inv (snd x)" using conn_close_keeps [OF assms] by (auto simp: keeps_def go_bind_Ret_iff)
  then have "conn_close c = Ret (fst x, snd x)" by simp
  from that [OF this x(2) relay_count.conn_close_part [OF this]] show ?thesis .
qed

text \<open>A call that the relay host refused.\<close>

lemma fail_start_ok:
  assumes "net_ok net" and "r < length (rn_relayers net)"
  shows "\<exists>w. settles all_ok (\<lambda>_. 0) (\<lambda>_. 0) w (net\<lparr>rn_calls := rn_calls net + 1\<rparr>)
      (relay_fail_start (rn_calls net) has_call reason (net\<lparr>rn_calls := rn_calls net + 1\<rparr>)) \<and> (\<forall>c \<ge> rn_calls net + 1. w c = 0)"
proof -
  let ?call = "rn_calls net" and ?net = "net\<lparr>rn_calls := rn_calls net + 1\<rparr>" and ?e = "(\<lambda>_. 0 :: nat)"
  obtain w where w: "net_inv all_ok (\<lambda>_. 0) ?e w net" "\<forall>c \<ge> ?call. w c = 0" by (rule net_okE [OF assms(1)])
  have inv: "net_inv all_ok (\<lambda>_. 0) ?e w ?net" using w(1) by (simp add: net_inv_calls)
  show ?thesis
  proof (cases has_call)
    case True
    have "net_inv all_ok (\<lambda>_. 0) (?e(?call := 1)) (w(?call := 1)) ?net" using net_started(1) [OF inv, of ?call] w(2) by simp
    then have "settles all_ok (\<lambda>_. 0) ?e (w(?call := 1)) ?net (call_event ?call End (call_event ?call (Failed reason) ?net))"
      by (intro settles_end [OF settles_event [where w = "w(?call := 1)" and c = ?call]] settles_refl) simp_all
    then show ?thesis using True w(2) by (intro exI [of _ "w(?call := 1)"]) (simp add: relay_fail_start_def)
  next
    case False
    then show ?thesis using settles_refl [OF inv] w(2) by (intro exI [of _ w]) (simp add: relay_fail_start_def)
  qed
qed

lemma relay_handleCallReq_ok:
  assumes "net_ok net" and "r < length (rn_relayers net)" and "sendable (lr_Frame cr)" and "start_ready destination reused1 reused2 net"
  obtains err net' where "relay_handleCallReq r start destination reused1 reused2 cr net = Ret (err, net')" and "net_ok net'"
proof (cases start)
  case StartOk
  let ?call = "rn_calls net" and ?net = "net\<lparr>rn_calls := rn_calls net + 1\<rparr>" and ?e = "(\<lambda>_. 0 :: nat)"
  obtain w where w: "net_inv all_ok (\<lambda>_. 0) ?e w net" "\<forall>c \<ge> ?call. w c = 0" by (rule net_okE [OF assms(1)])
  have inv: "net_inv all_ok (\<lambda>_. 0) (?e(?call := 1)) (w(?call := 1)) ?net"
    using net_started(1) [OF w(1), of ?call] w(2) by (simp add: net_inv_calls)
  have ready: "start_ready destination reused1 reused2 ?net"
    using assms(4) by (auto simp: start_ready_def fresh_id_def split: option.splits sum.splits)
  obtain err net' where n: "start_call r destination reused1 reused2 ?call cr ?net = Ret (err, net')"
      "settles all_ok (\<lambda>_. 0) ?e (w(?call := 1)) ?net net'"
    by (rule start_call_ok [OF inv refl _ _ _ assms(3) ready]) (use assms(2) in simp_all)
  have "net_ok net'" using net_okI [OF n(2)] w(2) by simp
  from that [OF _ this] n(1) StartOk show ?thesis by (simp add: relay_handleCallReq_def Let_def)
next
  case (StartDropped has_call)
  let ?net = "relay_fail_start (rn_calls net) has_call ''relay-dropped'' (net\<lparr>rn_calls := rn_calls net + 1\<rparr>)"
  have "net_ok ?net" using fail_start_ok [OF assms(1,2), of has_call "''relay-dropped''"] by (auto intro: net_okI)
  from that [OF _ this] StartDropped show ?thesis by (simp add: relay_handleCallReq_def Let_def)
next
  case (StartFailed err0 has_call)
  define err where "err = (case err0 of SystemError _ _ _ \<Rightarrow> err0 | _ \<Rightarrow> NewSystemError ErrCodeDeclined (Error err0))"
  define n1 where "n1 = relay_SendSystemError r (fh_ID (fr_Header (lr_Frame cr))) (lazyReq_Span cr) err
    (relay_fail_start (rn_calls net) has_call (relayMetricsKey (GetSystemErrorCode (Some err))) (net\<lparr>rn_calls := rn_calls net + 1\<rparr>))"
  let ?n0 = "net\<lparr>rn_calls := rn_calls net + 1\<rparr>"
  have r0: "r < length (rn_relayers ?n0)" using assms(2) by simp
  obtain w where s0: "settles all_ok (\<lambda>_. 0) (\<lambda>_. 0) w ?n0 (relay_fail_start (rn_calls net) has_call
      (relayMetricsKey (GetSystemErrorCode (Some err))) ?n0)" and w: "\<forall>c \<ge> rn_calls net + 1. w c = 0"
    using fail_start_ok [OF assms(1,2)] by blast
  have s: "settles all_ok (\<lambda>_. 0) (\<lambda>_. 0) w ?n0 n1" unfolding n1_def by (rule settles_SendSystemError [OF s0 r0])
  have n1: "net_inv all_ok (\<lambda>_. 0) (\<lambda>_. 0) w n1" "r < length (rn_relayers n1)" "rn_calls n1 = rn_calls net + 1"
    using s assms(2) by (simp_all add: settles_def)
  obtain e c' where c: "conn_close (the_conn r n1) = Ret (e, c')" "conn_inv c'" "c_relay c' = c_relay (the_conn r n1)"
    by (rule conn_close_ok [OF net_conn(1) [OF n1(1,2)]])
  have "relay_handleCallReq r start destination reused1 reused2 cr net =
      (if GetSystemErrorCode (Some err) = ErrCodeProtocol then Ret (e, put_conn r c' n1) else Ret (None, n1))"
    unfolding relay_handleCallReq_def Let_def StartFailed start_result.case err_def [symmetric] n1_def [symmetric] c(1) by simp
  moreover have "net_ok n1" "net_ok (put_conn r c' n1)"
    using n1 w net_keep_conn [OF n1(1,2) c(2,3)] by (auto simp: net_ok_def)
  ultimately show ?thesis using that by (cases "GetSystemErrorCode (Some err) = ErrCodeProtocol") simp_all
qed

lemma handleLocalCallReq_ok:
  assumes "net_ok net" and "r < length (rn_relayers net)" and "sendable (lr_Frame cr)"
  obtains b call net' where "handleLocalCallReq now base (\<lambda>c. c) r cr net = Some (Ret (b, call, net'))" and "net_ok net'"
    and "\<not> b \<Longrightarrow> net' = net"
proof -
  obtain w where w: "net_inv all_ok (\<lambda>_. 0) (\<lambda>_. 0) w net" "\<forall>c \<ge> rn_calls net. w c = 0" by (rule net_okE [OF assms(1)])
  have len: "length (fr_Payload (lr_Frame cr)) = 65519"
    using sendable_payload(1) [OF assms(3)] by (simp add: MaxFramePayloadSize_def MaxFrameSize_def)
  have "31 + unat l \<le> 65519" for l :: byte using unsigned_less [of l, where ?'a = nat] by simp
  then obtain service where sv: "lazyReq_Service cr = Ret service"
    using len by (simp add: lazyReq_Service_def payload_at_def subslice_def)
  obtain more where more: "lazyReq_HasMoreFragments cr = Ret more"
    using len by (simp add: lazyReq_HasMoreFragments_def payload_at_def)
  obtain rel call c' where h: "handleFrameNoRelay now base (\<lambda>c. c) (lr_Frame cr) (the_conn r net) = Some (Ret (rel, call, c'))" "conn_inv c'"
    using handleFrameNoRelay_ok [OF net_conn(1) [OF w(1) assms(2)] sendable_bytes(4) [OF assms(3)]] by blast
  let ?c = "if rel then pool_Release (lr_Frame cr) c' else c'"
  have c: "conn_inv ?c" "c_relay ?c = c_relay (the_conn r net)"
    using h(2) relay_count.handleFrameNoRelay_part [OF h(1)] by (simp_all add: conn_inv_def pool_Release_def)
  have ok: "net_ok (put_conn r ?c net)" "net_ok (relay_SendSystemError r i span err net)" for i span err
    using net_okI [of w net] w net_keep_conn [OF w(1) assms(2) c] net_SendSystemError [OF w(1) assms(2)] by (simp_all add: settles_def)
  consider "string_of_bytes service \<notin> set (rl_localHandler (relayer r net))"
    | "string_of_bytes service \<in> set (rl_localHandler (relayer r net))" "more"
    | "string_of_bytes service \<in> set (rl_localHandler (relayer r net))" "\<not> more" by blast
  then show ?thesis
  proof cases
    case 1
    then have "handleLocalCallReq now base (\<lambda>c. c) r cr net = Some (Ret (False, None, net))" using sv by (simp add: handleLocalCallReq_def)
    from that [OF this assms(1)] show ?thesis by simp
  next
    case 2
    then show ?thesis using that [OF _ ok(2)] sv more by (simp add: handleLocalCallReq_def)
  next
    case 3
    then have "handleLocalCallReq now base (\<lambda>c. c) r cr net = Some (Ret (True, call, put_conn r ?c net))"
      using sv more h(1) by (simp add: handleLocalCallReq_def)
    from that [OF this ok(1)] show ?thesis by simp
  qed
qed

lemma newLazyCallReq_returns:
  assumes "sendable f" and "Frame_messageType f = messageTypeCallReq"
  obtains err where "newLazyCallReq f = Ret (Inl err)" | cr where "newLazyCallReq f = Ret (Inr cr)" and "lr_Frame cr = f"
proof -
  have "newLazyCallReq f \<noteq> Panic"
    using sendable_bytes [OF assms(1)] assms(2)
    by (simp add: newLazyCallReq_def Frame_messageType_def go_bind_Panic_iff case_prod_unfold Let_def split: option.split)
  then obtain res where res: "newLazyCallReq f = Ret res" by (rule returnsE)
  show ?thesis
  proof (cases res)
    case (Inl err)
    then show ?thesis using that(1) res by simp
  next
    case (Inr cr)
    then have "newLazyCallReq f = Ret (Inr cr)" using res by simp
    from that(2) [OF this] newLazyCallReq_layout [OF this] show ?thesis by metis
  qed
qed

lemma Relay_ok:
  assumes "net_ok net" and "r < length (rn_relayers net)" and "sendable f" and "isMessageTypeCall f" and "start_ready destination reused1 reused2 net"
  obtains res net' where "Relay now base (\<lambda>c. c) start destination reused1 reused2 r f net = Some (Ret (fst res, fst (snd res), snd (snd res), net'))"
    and "net_ok net'"
proof (cases "Frame_messageType f = messageTypeCallReq")
  case False
  obtain w where w: "net_inv all_ok (\<lambda>_. 0) (\<lambda>_. 0) w net" "\<forall>c \<ge> rn_calls net. w c = 0" by (rule net_okE [OF assms(1)])
  obtain err net1 where n1: "handleNonCallReq r f net = Ret (err, net1)" "settles all_ok (\<lambda>_. 0) (\<lambda>_. 0) w net net1"
    by (rule handleNonCallReq_ok [OF w(1) assms(2-4)])
  have inv1: "net_inv all_ok (\<lambda>_. 0) (\<lambda>_. 0) w net1" and r1: "r < length (rn_relayers net1)" using n1(2) assms(2) by (simp_all add: settles_def)
  note c1 = net_conn(1) [OF inv1 r1]
  obtain e ms where fw: "mexset_forwardPeerFrame f (c_outbound (the_conn r net1)) = (e, ms)" by force
  have "mexset_inv ms" using mexset_inv_forward [OF conn_invD(2) [OF c1], of f] fw by simp
  then have "net_inv all_ok (\<lambda>_. 0) (\<lambda>_. 0) w (put_conn r ((the_conn r net1)\<lparr>c_outbound := ms\<rparr>) net1)"
    using net_keep_conn [OF inv1 r1, of "(the_conn r net1)\<lparr>c_outbound := ms\<rparr>"] c1 by (simp add: conn_inv_def)
  then have "net_ok net1" "net_ok (put_conn r ((the_conn r net1)\<lparr>c_outbound := ms\<rparr>) net1)"
    using net_okI [of w net] n1(2) w(2) by (simp_all add: settles_def)
  then show ?thesis
    using that [of "(False, None, None)"] that [of "(False, err, None)"] False n1(1) fw
    by (cases "err = Some errUnknownID"; cases e) (simp_all add: Relay_def)
next
  case True
  show ?thesis
  proof (rule newLazyCallReq_returns [OF assms(3) True])
    fix err
    assume "newLazyCallReq f = Ret (Inl err)"
    then show ?thesis using that [of "(True, Some err, None)" net] True assms(1) by (simp add: Relay_def)
  next
    fix cr
    assume cr: "newLazyCallReq f = Ret (Inr cr)" "lr_Frame cr = f"
    then have sf: "sendable (lr_Frame cr)" using assms(3) by simp
    obtain b call net1 where l: "handleLocalCallReq now base (\<lambda>c. c) r cr net = Some (Ret (b, call, net1))" "net_ok net1" "\<not> b \<longrightarrow> net1 = net"
      by (rule handleLocalCallReq_ok [OF assms(1,2) sf]) blast
    obtain err net2 where c: "relay_handleCallReq r start destination reused1 reused2 cr net = Ret (err, net2)" "net_ok net2"
      by (rule relay_handleCallReq_ok [OF assms(1,2) sf assms(5)])
    show ?thesis
      using that [of "(False, None, call)" net1] that [of "(False, err, None)" net2] True cr(1) l c by (cases b) (simp_all add: Relay_def)
  qed
qed

end
