(* ===== verification/Relay_Runs.thy ===== *)
theory Relay_Runs
  imports Relay_Invariant
begin

text \<open>
  Runs of a relay: connections are made, the frames of calls that they read are relayed, timers fire, tombs are removed, and the
  connections do everything else that they do, in any order. No operation panics; the number of pending calls that a
  connection waits for when it closes is exactly the number of its live items; the end of each call is
  reported once. A request is forwarded under the next id of its destination, and a response goes back under the id
  of the request.
\<close>

section \<open>Steps\<close>

text \<open>
  The destination of a new call is a connection of the relay whose next message id is not in use, the timers of the pool are at rest, and
  a tomb is what the goroutine that deletes it finds. The other goroutines of a connection leave its pending count alone.
\<close>

inductive relay_step :: "relayNet \<Rightarrow> relayNet \<Rightarrow> bool" where
  rl_connect: "newConnection options processName initialID True now pool gets = Ret c \<Longrightarrow>
     relay_step net (net\<lparr>rn_relayers := rn_relayers net @ [NewRelayer maxTimeout relayLocal maxTombs c]\<rparr>)"
| rl_frame: "r < length (rn_relayers net) \<Longrightarrow> sendable f \<Longrightarrow> isMessageTypeCall f \<Longrightarrow> start_ready destination reused1 reused2 net \<Longrightarrow>
     Relay now base (\<lambda>c. c) start destination reused1 reused2 r f net = Some (Ret (rel, err, call, net')) \<Longrightarrow> relay_step net net'"
| rl_fire: "r < length (rn_relayers net) \<Longrightarrow> relay_step net (fire_timer d i r net)"
| rl_OnTimer: "r < length (rn_relayers net) \<Longrightarrow> firing d i r net \<Longrightarrow> OnTimer d i r net = Ret net' \<Longrightarrow> relay_step net net'"
| rl_tomb: "r < length (rn_relayers net) \<Longrightarrow> map_of (rs_items (rl_items d (relayer r net))) i = Some it \<Longrightarrow> ri_tomb it \<Longrightarrow>
     delete_tomb d i r net = Ret net' \<Longrightarrow> relay_step net net'"
| rl_conn: "r < length (rn_relayers net) \<Longrightarrow> conn_step (the_conn r net) c \<Longrightarrow> c_relay c = c_relay (the_conn r net) \<Longrightarrow>
     relay_step net (put_conn r c net)"

definition no_relayers :: relayNet where
  "no_relayers = \<lparr>rn_relayers = [], rn_log = [], rn_calls = 0\<rparr>"

inductive relay_reach :: "relayNet \<Rightarrow> bool" where
  relay_start: "relay_reach no_relayers"
| relay_more: "relay_reach net \<Longrightarrow> relay_step net net' \<Longrightarrow> relay_reach net'"

lemma net_ok_empty: "net_ok no_relayers"
  by (auto simp: net_ok_def net_inv_def no_relayers_def ends_def originated_def)

lemma net_ok_connect:
  assumes "net_ok net" and "conn_inv c" and "c_relay c = Some 0"
  shows "net_ok (net\<lparr>rn_relayers := rn_relayers net @ [NewRelayer maxTimeout relayLocal maxTombs c]\<rparr>)"
proof -
  let ?R = "NewRelayer maxTimeout relayLocal maxTombs c" and ?n = "length (rn_relayers net)"
  let ?net = "net\<lparr>rn_relayers := rn_relayers net @ [NewRelayer maxTimeout relayLocal maxTombs c]\<rparr>"
  obtain w where w: "net_inv all_ok (\<lambda>_. 0) (\<lambda>_. 0) w net" "\<forall>c \<ge> rn_calls net. w c = 0" by (rule net_okE [OF assms(1)])
  have rel: "relayer r ?net = (if r < ?n then relayer r net else ?R)" if "r < Suc ?n" for r
    using that by (auto simp: relayer_def nth_append)
  have items: "rl_items d ?R = newRelayItems maxTombs" for d by (cases d) (simp_all add: NewRelayer_def)
  have new: "relayer_inv (all_ok r) 0 ?R" for r
    using assms(2,3) items table_ok_new [of _ maxTombs] by (simp add: relayer_inv_def held_def NewRelayer_def)
  have "originated call ?net = originated call net" for call by (simp add: originated_def NewRelayer_def)
  then have "net_inv all_ok (\<lambda>_. 0) (\<lambda>_. 0) w ?net"
    using w(1) new items by (auto simp: net_inv_def rel newRelayItems_def split: if_splits) (metis less_Suc_eq)
  then show ?thesis using w(2) by (auto simp: net_ok_def)
qed

lemma relay_step_ok:
  assumes "relay_step net net'" and "net_ok net"
  shows "net_ok net'"
  using assms(1)
proof (cases rule: relay_step.cases)
  case (rl_connect options processName initialID now pool gets c maxTimeout relayLocal maxTombs)
  have "c_relay c = Some 0" using rl_connect(2) by (auto simp: newConnection_def Let_def split: if_splits)
  then show ?thesis using net_ok_connect [OF assms(2) new_connection_inv [OF rl_connect(2)]] rl_connect(1) by simp
next
  case (rl_frame r f destination reused1 reused2 now base start rel err call)
  from Relay_ok [OF assms(2) rl_frame(1-4)] rl_frame(5) show ?thesis by (metis go.inject option.inject prod.inject)
next
  case (rl_fire r d i)
  obtain w where w: "net_inv all_ok (\<lambda>_. 0) (\<lambda>_. 0) w net" "\<forall>c \<ge> rn_calls net. w c = 0" by (rule net_okE [OF assms(2)])
  show ?thesis using net_okI [OF fire_timer_ok [OF w(1) rl_fire(2)] w(2), of d i] rl_fire(1) by simp
next
  case (rl_OnTimer r d i)
  obtain w where w: "net_inv all_ok (\<lambda>_. 0) (\<lambda>_. 0) w net" "\<forall>c \<ge> rn_calls net. w c = 0" by (rule net_okE [OF assms(2)])
  show ?thesis using OnTimer_ok [OF w(1) rl_OnTimer(1) refl rl_OnTimer(2)] net_okI [of w net] w(2) rl_OnTimer(3) by (metis go.inject)
next
  case (rl_tomb r d i it)
  obtain w where w: "net_inv all_ok (\<lambda>_. 0) (\<lambda>_. 0) w net" "\<forall>c \<ge> rn_calls net. w c = 0" by (rule net_okE [OF assms(2)])
  show ?thesis using delete_tomb_ok [OF w(1) rl_tomb(1-3) refl] net_okI [of w net] w(2) rl_tomb(4) by (metis go.inject)
next
  case (rl_conn r c)
  obtain w where w: "net_inv all_ok (\<lambda>_. 0) (\<lambda>_. 0) w net" "\<forall>c \<ge> rn_calls net. w c = 0" by (rule net_okE [OF assms(2)])
  have "net_inv all_ok (\<lambda>_. 0) (\<lambda>_. 0) w (put_conn r c net)"
    by (rule net_keep_conn [OF w(1) rl_conn(2) conn_step_inv [OF rl_conn(3) net_conn(1) [OF w(1) rl_conn(2)]] rl_conn(4)])
  then show ?thesis using w(2) rl_conn(1) by (auto simp: net_ok_def)
qed

lemma relay_reach_ok: "relay_reach net \<Longrightarrow> net_ok net"
  by (induction rule: relay_reach.induct) (auto intro: net_ok_empty relay_step_ok)

section \<open>What a relay promises\<close>

lemma live_none: "live C rs = 0 \<longleftrightarrow> (\<forall>(i, it) \<in> set (rs_items rs). \<not> (\<not> ri_tomb it \<and> C (ri_call it)))"
  by (auto simp: live_def filter_empty_conv)

lemma live_none_map:
  assumes "table_ok P rs"
  shows "live C rs = 0 \<longleftrightarrow> (\<forall>i it. map_of (rs_items rs) i = Some it \<longrightarrow> ri_tomb it \<or> \<not> C (ri_call it))"
proof -
  have "map_of (rs_items rs) i = Some it \<longleftrightarrow> (i, it) \<in> set (rs_items rs)" for i it
    using assms by (auto simp: table_ok_def dest: map_of_SomeD)
  then show ?thesis unfolding live_none by auto
qed

lemma reach_table: "relay_reach net \<Longrightarrow> r < length (rn_relayers net) \<Longrightarrow> table_ok (item_ok d) (rl_items d (relayer r net))"
  using relay_reach_ok net_conn(3) by (metis net_okE)

text \<open>
  C25: A relay never panics. Whatever its connections have done before, each frame of a call that one of them reads is
  relayed, the goroutine of a timer that has fired runs to its end, and a tomb can be deleted.
\<close>

theorem relay_safe:
  assumes "relay_reach net" and "r < length (rn_relayers net)" and "sendable f" and "isMessageTypeCall f"
    and "start_ready destination reused1 reused2 net"
  shows "(\<exists>rel err call net'. Relay now base (\<lambda>c. c) start destination reused1 reused2 r f net = Some (Ret (rel, err, call, net')) \<and> relay_reach net') \<and>
    (firing d i r net \<longrightarrow> OnTimer d i r net \<noteq> Panic) \<and>
    (\<forall>it. map_of (rs_items (rl_items d (relayer r net))) i = Some it \<and> ri_tomb it \<longrightarrow> delete_tomb d i r net \<noteq> Panic)"
proof (intro conjI allI impI)
  have ok: "net_ok net" using assms(1) by (rule relay_reach_ok)
  obtain w where w: "net_inv all_ok (\<lambda>_. 0) (\<lambda>_. 0) w net" by (rule net_okE [OF ok])
  obtain res net' where res: "Relay now base (\<lambda>c. c) start destination reused1 reused2 r f net =
      Some (Ret (fst res, fst (snd res), snd (snd res), net'))"
    by (rule Relay_ok [OF ok assms(2-5)])
  then show "\<exists>rel err call net'. Relay now base (\<lambda>c. c) start destination reused1 reused2 r f net = Some (Ret (rel, err, call, net')) \<and> relay_reach net'"
    using relay_more [OF assms(1) rl_frame [OF assms(2-5) res]] by blast
  show "OnTimer d i r net \<noteq> Panic" if "firing d i r net"
    using OnTimer_ok [OF w assms(2) refl that] by (metis go.distinct(1))
  show "delete_tomb d i r net \<noteq> Panic" if "map_of (rs_items (rl_items d (relayer r net))) i = Some it \<and> ri_tomb it" for it
    using delete_tomb_ok [OF w assms(2) conjunct1 [OF that] conjunct2 [OF that] refl] by (metis go.distinct(1))
qed

text \<open>
  C27: The pending count of a connection is the number of the calls that are relayed over it: what \<^verbatim>\<open>Count\<close> says of its two tables, as a 32 bit
  number. So, with fewer than 2^32 calls, the relayer lets the connection close exactly when all its items are
  tombs: not before the last relayed call has ended, and then at once.
\<close>

theorem relay_pending:
  assumes "relay_reach net" and "r < length (rn_relayers net)"
  shows "c_relay (the_conn r net) = Some (nat (relayItems_Count (rl_inbound (relayer r net)) + relayItems_Count (rl_outbound (relayer r net))) mod 2 ^ 32) \<and>
    (relayItems_Count (rl_inbound (relayer r net)) + relayItems_Count (rl_outbound (relayer r net)) < 2 ^ 32 \<longrightarrow>
      relay_canClose (the_conn r net) = (\<forall>d i it. map_of (rs_items (rl_items d (relayer r net))) i = Some it \<longrightarrow> ri_tomb it))"
proof -
  let ?R = "relayer r net"
  obtain w where w: "net_inv all_ok (\<lambda>_. 0) (\<lambda>_. 0) w net" by (rule net_okE [OF relay_reach_ok [OF assms(1)]])
  have t: "table_ok (item_ok Inbound) (rl_inbound ?R)" "table_ok (item_ok Outbound) (rl_outbound ?R)"
    using reach_table [OF assms, of Inbound] reach_table [OF assms, of Outbound] by simp_all
  have count: "relayItems_Count (rl_inbound ?R) + relayItems_Count (rl_outbound ?R) = int (held ?R)"
    using t [THEN Count_live] by (simp add: held_def)
  have pending: "c_relay (the_conn r net) = Some (held ?R mod 2 ^ 32)" using net_conn(2) [OF w assms(2)] by simp
  have both: "(\<forall>d. Q (rl_items d ?R)) \<longleftrightarrow> Q (rl_inbound ?R) \<and> Q (rl_outbound ?R)" for Q
    by (metis (full_types) rl_items_simps(4,5) set_name.exhaust)
  have "held ?R = 0 \<longleftrightarrow> (\<forall>d i it. map_of (rs_items (rl_items d ?R)) i = Some it \<longrightarrow> ri_tomb it)"
    using live_none_map [OF t(1), of "\<lambda>_. True"] live_none_map [OF t(2), of "\<lambda>_. True"]
      both [of "\<lambda>rs. \<forall>i it. map_of (rs_items rs) i = Some it \<longrightarrow> ri_tomb it"] by (simp add: held_def)
  then show ?thesis using pending count by (auto simp: relay_canClose_def)
qed

text \<open>
  C26: The end of each call is reported to the relay host exactly once. Of a call that the host has heard of, the end was
  reported once if no connection has a live item for it any more as its originator, and not yet if there is one.
\<close>

theorem relay_end_once:
  assumes "relay_reach net" and "(call, ev) \<in> set (rn_log net)"
  shows "ends call (rn_log net) =
    (if \<exists>r i it. r < length (rn_relayers net) \<and> map_of (rs_items (rl_outbound (relayer r net))) i = Some it \<and> \<not> ri_tomb it \<and> ri_call it = call
     then 0 else 1)"
proof -
  obtain w where w: "net_inv all_ok (\<lambda>_. 0) (\<lambda>_. 0) w net" by (rule net_okE [OF relay_reach_ok [OF assms(1)]])
  have sum: "ends call (rn_log net) + originated call net = 1"
    using w assms(2) unfolding net_inv_def by fastforce
  have lives: "live (\<lambda>c. c = call) (rl_outbound (relayer r net)) = 0 \<longleftrightarrow>
      \<not> (\<exists>i it. map_of (rs_items (rl_outbound (relayer r net))) i = Some it \<and> \<not> ri_tomb it \<and> ri_call it = call)"
    if "r < length (rn_relayers net)" for r
    using live_none_map [OF reach_table [OF assms(1) that, of Outbound], of "\<lambda>c. c = call"] by auto
  have "originated call net = 0 \<longleftrightarrow> (\<forall>r < length (rn_relayers net). live (\<lambda>c. c = call) (rl_outbound (relayer r net)) = 0)"
    by (simp add: originated_def relayer_def all_set_conv_all_nth)
  then have none: "originated call net = 0 \<longleftrightarrow> \<not> (\<exists>r i it. r < length (rn_relayers net) \<and>
      map_of (rs_items (rl_outbound (relayer r net))) i = Some it \<and> \<not> ri_tomb it \<and> ri_call it = call)" using lives by blast
  show ?thesis
  proof (cases "originated call net = 0")
    case True
    then show ?thesis using none sum by simp
  next
    case False
    then have "ends call (rn_log net) = 0" using sum by linarith
    then show ?thesis using none False by simp
  qed
qed

end
