(* ===== verification/Relay_Forward.thy ===== *)
theory Relay_Forward
  imports Relay_Runs
begin

text \<open>
  What a relay does with the frames of a call when nothing goes wrong: the request goes out under the id that the destination gave it, the
  response comes back under the id of the request, and then nothing of the call is left. The time to live is capped.
\<close>

section \<open>What one can see of a relay\<close>

declare rl_items_simps(4,5) [simp del]

abbreviation item_at :: "nat \<Rightarrow> set_name \<Rightarrow> uint32 \<Rightarrow> relayNet \<Rightarrow> relayItem option" where
  "item_at r d i net \<equiv> map_of (rs_items (rl_items d (relayer r net))) i"

abbreviation sent_to :: "nat \<Rightarrow> relayNet \<Rightarrow> Frame list" where
  "sent_to r net \<equiv> c_sendCh (the_conn r net)"

lemma view_put_items:
  assumes "r < length (rn_relayers net)"
  shows "item_at q d' i (put_items r d rs net) = (if q = r \<and> d' = d then map_of (rs_items rs) i else item_at q d' i net)"
    and "the_conn q (put_items r d rs net) = the_conn q net"
  using assms by (simp_all add: relayer_put_items)

lemma view_put_conn:
  assumes "r < length (rn_relayers net)"
  shows "item_at q d i (put_conn r c net) = item_at q d i net"
    and "the_conn q (put_conn r c net) = (if q = r then c else the_conn q net)"
  using assms by (simp_all add: relayer_put_conn)

lemma view_event:
  "item_at q d i (call_event c ev net) = item_at q d i net" "the_conn q (call_event c ev net) = the_conn q net"
  by simp_all

text \<open>A decrement of the pending count may close the connection, and that is all.\<close>

lemma decrement_view:
  assumes "conn_inv (the_conn r net)" and "r < length (rn_relayers net)"
  obtains c where "decrementPending r net = Ret (put_conn r c net)" and "conn_inv c" and "c_sendCh c = sent_to r net"
proof -
  define c where "c = (the_conn r net)\<lparr>c_relay := map_option pending_Dec (c_relay (the_conn r net))\<rparr>"
  have inv: "conn_inv c" using assms(1) by (simp add: conn_inv_def c_def)
  obtain c' where c': "checkExchanges c = Ret c'" "conn_inv c'" using checkExchanges_keeps [OF inv] by (auto simp: keeps_def)
  have "c_sendCh c' = sent_to r net" using checkExchanges_eq [OF inv] c'(1) by (auto simp: c_def)
  moreover have "decrementPending r net = Ret (put_conn r c' net)" using c'(1) by (simp add: decrementPending_def c_def Let_def)
  ultimately show ?thesis using c'(2) that by blast
qed

lemma finish_view:
  assumes "conn_inv (the_conn r net)" and "r < length (rn_relayers net)" and "item_at r d i net = Some it" and "halted_ok d it"
  obtains net' where "finishRelayItem r d i net = Ret net'"
    and "\<forall>q d' j. item_at q d' j net' = (if q = r \<and> d' = d \<and> j = i then None else item_at q d' j net)"
    and "\<forall>q. sent_to q net' = sent_to q net" and "rn_log net' = rn_log net @ (if d = Outbound then [(ri_call it, End)] else [])"
    and "length (rn_relayers net') = length (rn_relayers net)" and "\<forall>q. q \<noteq> r \<longrightarrow> the_conn q net' = the_conn q net"
proof -
  define rs where "rs = (rl_items d (relayer r net))\<lparr>rs_items := AList.delete i (rs_items (rl_items d (relayer r net)))\<rparr>"
  define it' where "it' = it\<lparr>ri_timeout := (ri_timeout it)\<lparr>rt_released := True\<rparr>\<rparr>"
  have it: "idle it" "\<not> ri_tomb it" "ri_isOriginator it = (d = Outbound)" using assms(4) by (simp_all add: halted_ok_def halted_def)
  have del: "relayItems_Delete i (rl_items d (relayer r net)) = Ret ((Some it', True), rs)"
    using assms(3) it(1,2) by (simp add: relayItems_Delete_def timer_Release_def idle_def rs_def it'_def)
  let ?n1 = "put_items r d rs net"
  let ?n2 = "if d = Outbound then call_event (ri_call it) End ?n1 else ?n1"
  have n2: "conn_inv (the_conn r ?n2)" "r < length (rn_relayers ?n2)" using assms(1,2) by (simp_all add: view_put_items)
  obtain c where c: "decrementPending r ?n2 = Ret (put_conn r c ?n2)" "conn_inv c" "c_sendCh c = sent_to r ?n2"
    by (rule decrement_view [OF n2])
  have "finishRelayItem r d i net = Ret (put_conn r c ?n2)"
    using del it(3) c(1) unfolding finishRelayItem_def Let_def by (cases "d = Outbound") (simp_all add: it'_def)
  then show ?thesis
    using assms(2) c(3) by (intro that [of "put_conn r c ?n2"])
      (simp_all add: view_put_items view_put_conn rs_def delete_conv' split: if_splits)
qed

lemma stop_view:
  assumes "r < length (rn_relayers net)" and "item_at r d i net = Some it" and "item_ok d i it" and "\<not> ri_tomb it" and "rt_running (ri_timeout it)"
  obtains rs where "relayItems_Get i True (rl_items d (relayer r net)) = Ret (Some (halt it, True), rs)" and "halted_ok d (halt it)"
    and "\<forall>q d' j. item_at q d' j (put_items r d rs net) = (if q = r \<and> d' = d \<and> j = i then Some (halt it) else item_at q d' j net)"
proof -
  let ?rs = "(rl_items d (relayer r net))\<lparr>rs_items := AList.update i (halt it) (rs_items (rl_items d (relayer r net)))\<rparr>"
  have h: "halted_ok d (halt it)"
    using assms(3-5) by (simp add: halted_ok_def halted_def idle_def item_ok_def) (simp add: halt_def markTimerInactive_def)
  have g: "relayItems_Get i True (rl_items d (relayer r net)) = Ret (Some (halt it, True), ?rs)"
    using assms(2-5) by (simp add: relayItems_Get_def timer_Stop_def item_ok_def halt_def Let_def)
  show ?thesis by (rule that [OF g h]) (simp add: view_put_items [OF assms(1)] update_conv')
qed

lemma inspect_view:
  assumes "sendable f" and "Frame_messageType f \<noteq> messageTypeCallReqContinue \<or> ri_mutatedChecksum it = None"
  obtains evs where "inspect_frame r d f it net = Ret (f, fold (call_event (ri_call it)) evs net)" and "End \<notin> set evs"
proof (cases "Frame_messageType f = messageTypeCallRes")
  case True
  then have "newLazyCallRes f \<noteq> Panic" using sendable_reads(3) [OF assms(1)] by (simp add: Frame_messageType_def)
  then obtain res where res: "newLazyCallRes f = Ret res" by (rule returnsE)
  show ?thesis
  proof (cases res)
    case (Inl err)
    then show ?thesis using that [of "[]"] True res by (simp add: inspect_frame_def)
  next
    case (Inr cr)
    then show ?thesis using that [of "[CallResponse cr]"] True res by (simp add: inspect_frame_def)
  qed
next
  case False
  then show ?thesis using that [of "[]"] assms(2) by (auto simp: inspect_frame_def Let_def)
qed

lemma report_view:
  assumes "sendable f"
  obtains evs where "report_outcome fType f it net = Ret (fold (call_event (ri_call it)) evs net)" and "End \<notin> set evs"
proof (cases "fType = responseFrame")
  case True
  obtain b m where "determinesCallSuccess f = Ret (b, m)" using sendable_reads(2) [OF assms] by (cases "determinesCallSuccess f") auto
  then show ?thesis
    using that [of "[Succeeded]"] that [of "[Failed m]"] that [of "[]"] True by (cases b; cases m) (simp_all add: report_outcome_def)
next
  case False
  then show ?thesis using that [of "[]"] by (simp add: report_outcome_def)
qed

lemma view_events [simp]:
  "relayer q (fold (call_event c) evs net) = relayer q net"
  "length (rn_relayers (fold (call_event c) evs net)) = length (rn_relayers net)"
  "rn_log (fold (call_event c) evs net) = rn_log net @ map (Pair c) evs"
  by (induction evs arbitrary: net) simp_all

lemma ends_append [simp]: "ends c (xs @ ys) = ends c xs + ends c ys"
  by (simp add: ends_def)

lemma ends_none: "End \<notin> set evs \<Longrightarrow> ends c (map (Pair c') evs) = 0"
  by (auto simp: ends_def filter_empty_conv)

section \<open>The response goes back\<close>

definition live_item :: "set_name \<Rightarrow> uint32 \<Rightarrow> relayItem \<Rightarrow> bool" where
  "live_item d i it \<longleftrightarrow> item_ok d i it \<and> \<not> ri_tomb it \<and> rt_running (ri_timeout it)"

lemma receive_finished:
  assumes "conn_inv (the_conn r net)" and "r < length (rn_relayers net)" and "sendable g" and "finishesCall g = Ret True"
    and "item_at r Outbound (fh_ID (fr_Header g)) net = Some it" and "live_item Outbound (fh_ID (fr_Header g)) it"
    and "length (sent_to r net) < c_sendCap (the_conn r net)"
  obtains net' evs where "relay_Receive r g responseFrame net = Ret ((True, []), net')"
    and "\<forall>q d j. item_at q d j net' = (if q = r \<and> d = Outbound \<and> j = fh_ID (fr_Header g) then None else item_at q d j net)"
    and "\<forall>q. sent_to q net' = (if q = r then sent_to r net @ [g] else sent_to q net)" and "\<forall>q. q \<noteq> r \<longrightarrow> the_conn q net' = the_conn q net"
    and "rn_log net' = rn_log net @ map (Pair (ri_call it)) evs @ [(ri_call it, End)]" and "End \<notin> set evs"
    and "length (rn_relayers net') = length (rn_relayers net)"
proof -
  define i where "i = fh_ID (fr_Header g)"
  have it: "item_at r Outbound i net = Some it" "item_ok Outbound i it" "\<not> ri_tomb it" "rt_running (ri_timeout it)"
    using assms(5,6) by (simp_all add: live_item_def i_def)
  obtain rs where rs: "relayItems_Get i True (rl_items Outbound (relayer r net)) = Ret (Some (halt it, True), rs)" "halted_ok Outbound (halt it)"
      "\<forall>q d' j. item_at q d' j (put_items r Outbound rs net) = (if q = r \<and> d' = Outbound \<and> j = i then Some (halt it) else item_at q d' j net)"
    by (rule stop_view [OF assms(2) it])
  obtain evs where ev: "report_outcome responseFrame g (halt it) (put_items r Outbound rs net) =
      Ret (fold (call_event (ri_call (halt it))) evs (put_items r Outbound rs net))" "End \<notin> set evs"
    by (rule report_view [OF assms(3)])
  define net2 where "net2 = fold (call_event (ri_call it)) evs (put_items r Outbound rs net)"
  define net3 where "net3 = put_conn r ((the_conn r net2)\<lparr>c_sendCh := sent_to r net2 @ [g]\<rparr>) net2"
  have c2: "the_conn q net2 = the_conn q net" for q by (simp add: net2_def view_put_items [OF assms(2)])
  have len2: "length (rn_relayers net2) = length (rn_relayers net)" by (simp add: net2_def)
  have r2: "r < length (rn_relayers net2)" using len2 assms(2) by simp
  have item3: "item_at q d j net3 = (if q = r \<and> d = Outbound \<and> j = i then Some (halt it) else item_at q d j net)" for q d j
  proof -
    have "item_at q d j net3 = item_at q d j net2" unfolding net3_def by (rule view_put_conn(1) [OF r2])
    then show ?thesis using rs(3) by (simp add: net2_def)
  qed
  have conn3: "the_conn q net3 = (if q = r then (the_conn r net)\<lparr>c_sendCh := sent_to r net @ [g]\<rparr> else the_conn q net)" for q
    by (simp add: net3_def view_put_conn [OF r2] c2)
  have inv3: "conn_inv (the_conn r net3)" using assms(1) conn3 by (simp add: conn_inv_def)
  have r3: "r < length (rn_relayers net3)" using r2 by (simp add: net3_def)
  have m3: "item_at r Outbound i net3 = Some (halt it)" using item3 by simp
  obtain net' where n': "finishRelayItem r Outbound i net3 = Ret net'"
      "\<forall>q d' j. item_at q d' j net' = (if q = r \<and> d' = Outbound \<and> j = i then None else item_at q d' j net3)"
      "\<forall>q. sent_to q net' = sent_to q net3" "rn_log net' = rn_log net3 @ (if Outbound = Outbound then [(ri_call (halt it), End)] else [])"
      "length (rn_relayers net') = length (rn_relayers net3)" "\<forall>q. q \<noteq> r \<longrightarrow> the_conn q net' = the_conn q net3"
    by (rule finish_view [OF inv3 r3 m3 rs(2)])
  have enq: "enqueue_frame r Outbound i True g responseFrame net2 = Ret ((True, []), net')"
    using assms(7) n'(1) by (simp add: enqueue_frame_def Let_def c2 net3_def)
  have d: "receiverItems responseFrame = Outbound" by (simp add: receiverItems_def)
  have "relay_Receive r g responseFrame net = Ret ((True, []), net')"
    using rs(1) ev(1) enq it(3) unfolding relay_Receive_def Let_def d assms(4) go_bind.simps i_def [symmetric]
    by (simp add: net2_def)
  moreover have "rn_log net' = rn_log net @ map (Pair (ri_call it)) evs @ [(ri_call it, End)]"
    using n'(4) by (simp add: net3_def net2_def)
  ultimately show ?thesis
    using n'(2,3,5,6) item3 conn3 ev(2) len2 by (intro that [of net' evs]) (simp_all add: i_def [symmetric] net3_def)
qed

definition linked :: "nat \<Rightarrow> uint32 \<Rightarrow> nat \<Rightarrow> uint32 \<Rightarrow> nat \<Rightarrow> relayNet \<Rightarrow> bool" where
  "linked r i dest di call net \<longleftrightarrow>
     (case (item_at dest Inbound di net, item_at r Outbound i net) of
        (Some there, Some here) \<Rightarrow>
          live_item Inbound di there \<and> live_item Outbound i here \<and> ri_destination there = r \<and> ri_remapID there = i \<and>
          ri_destination here = dest \<and> ri_remapID here = di \<and> ri_call there = call \<and> ri_call here = call
      | _ \<Rightarrow> False)"

lemma linkedE:
  assumes "linked r i dest di call net"
  obtains there here where "item_at dest Inbound di net = Some there" and "item_at r Outbound i net = Some here"
    and "live_item Inbound di there" and "live_item Outbound i here" and "ri_destination there = r" and "ri_remapID there = i"
    and "ri_call there = call" and "ri_call here = call"
  using assms by (auto simp: linked_def split: option.splits)

text \<open>
  C29: A response goes back to its caller. When the last frame of a response arrives on the connection to which a call was relayed, the frame is
  queued on the connection that the call came from, under the id that the caller gave to the call, and the call is over: both its items are
  gone, its end is reported, and nothing else has changed in the tables or has been sent.
\<close>

theorem relay_returns:
  assumes "relay_reach net" and "linked r i dest di call net" and "r < length (rn_relayers net)" and "dest < length (rn_relayers net)" and "r \<noteq> dest"
    and "sendable g" and "fh_ID (fr_Header g) = di" and "frameTypeFor g = Ret responseFrame" and "finishesCall g = Ret True"
    and "length (sent_to r net) < c_sendCap (the_conn r net)"
  shows "\<exists>net'. handleNonCallReq dest g net = Ret (None, net') \<and>
    (\<forall>q. sent_to q net' = (if q = r then sent_to r net @ [g\<lparr>fr_Header := (fr_Header g)\<lparr>fh_ID := i\<rparr>\<rparr>] else sent_to q net)) \<and>
    (\<forall>q d j. item_at q d j net' =
       (if q = r \<and> d = Outbound \<and> j = i \<or> q = dest \<and> d = Inbound \<and> j = di then None else item_at q d j net)) \<and>
    ends call (rn_log net') = ends call (rn_log net) + 1"
proof -
  obtain there here where t: "item_at dest Inbound di net = Some there" and h: "item_at r Outbound i net = Some here"
      "live_item Inbound di there" "live_item Outbound i here" "ri_destination there = r" "ri_remapID there = i"
      "ri_call there = call" "ri_call here = call"
    by (rule linkedE [OF assms(2)])
  obtain w where w: "net_inv all_ok (\<lambda>_. 0) (\<lambda>_. 0) w net" by (rule net_okE [OF relay_reach_ok [OF assms(1)]])
  note inv = net_conn(1) [OF w]
  have lt: "item_ok Inbound di there" "\<not> ri_tomb there" "rt_running (ri_timeout there)" using h(2) by (simp_all add: live_item_def)
  obtain rs where rs: "relayItems_Get di True (rl_items Inbound (relayer dest net)) = Ret (Some (halt there, True), rs)" "halted_ok Inbound (halt there)"
      "\<forall>q d' j. item_at q d' j (put_items dest Inbound rs net) = (if q = dest \<and> d' = Inbound \<and> j = di then Some (halt there) else item_at q d' j net)"
    by (rule stop_view [OF assms(4) t lt])
  have "fh_messageType (fr_Header g) \<noteq> messageTypeCallReqContinue" using assms(8) by (auto simp: frameTypeFor_def Let_def)
  then have ty: "Frame_messageType g \<noteq> messageTypeCallReqContinue \<or> ri_mutatedChecksum (halt there) = None" by (simp add: Frame_messageType_def)
  obtain evs1 where ev1: "inspect_frame dest Inbound g (halt there) (put_items dest Inbound rs net) =
      Ret (g, fold (call_event (ri_call (halt there))) evs1 (put_items dest Inbound rs net))" "End \<notin> set evs1"
    by (rule inspect_view [OF assms(6) ty])
  define net3 where "net3 = reportRelayBytes responseFrame (FrameSize (fr_Header g)) (halt there)
    (fold (call_event (ri_call (halt there))) evs1 (put_items dest Inbound rs net))"
  define g' where "g' = g\<lparr>fr_Header := (fr_Header g)\<lparr>fh_ID := i\<rparr>\<rparr>"
  have conn3: "the_conn q net3 = the_conn q net" for q
    by (simp add: net3_def reportRelayBytes_def view_put_items [OF assms(4)])
  have item3: "item_at q d j net3 = (if q = dest \<and> d = Inbound \<and> j = di then Some (halt there) else item_at q d j net)" for q d j
    using rs(3) by (simp add: net3_def reportRelayBytes_def)
  have len3: "length (rn_relayers net3) = length (rn_relayers net)" by (simp add: net3_def reportRelayBytes_def)
  have pre: "conn_inv (the_conn r net3)" "r < length (rn_relayers net3)" "sendable g'" "finishesCall g' = Ret True"
      "item_at r Outbound (fh_ID (fr_Header g')) net3 = Some here" "live_item Outbound (fh_ID (fr_Header g')) here"
      "length (sent_to r net3) < c_sendCap (the_conn r net3)"
    using inv [OF assms(3)] conn3 len3 assms(3,9,10) sendable_header [OF assms(6)] item3 h(1,3)
    by (simp_all add: g'_def finishesCall_def Frame_messageType_def payload_at_def fr_Payload_def Let_def split: if_splits)
  obtain net4 evs2 where n4: "relay_Receive r g' responseFrame net3 = Ret ((True, []), net4)"
      "\<forall>q d j. item_at q d j net4 = (if q = r \<and> d = Outbound \<and> j = fh_ID (fr_Header g') then None else item_at q d j net3)"
      "\<forall>q. sent_to q net4 = (if q = r then sent_to r net3 @ [g'] else sent_to q net3)" "\<forall>q. q \<noteq> r \<longrightarrow> the_conn q net4 = the_conn q net3"
      "rn_log net4 = rn_log net3 @ map (Pair (ri_call here)) evs2 @ [(ri_call here, End)]" "End \<notin> set evs2"
      "length (rn_relayers net4) = length (rn_relayers net3)"
    by (rule receive_finished [OF pre])
  have d4: "conn_inv (the_conn dest net4)" "dest < length (rn_relayers net4)" "item_at dest Inbound di net4 = Some (halt there)"
    using n4(2,4,7) conn3 inv [OF assms(4)] assms(4,5) len3 item3 by simp_all
  obtain net' where n': "finishRelayItem dest Inbound di net4 = Ret net'"
      "\<forall>q d' j. item_at q d' j net' = (if q = dest \<and> d' = Inbound \<and> j = di then None else item_at q d' j net4)"
      "\<forall>q. sent_to q net' = sent_to q net4" "rn_log net' = rn_log net4 @ (if Inbound = Outbound then [(ri_call (halt there), End)] else [])"
    by (rule finish_view [OF d4 rs(2)])
  show ?thesis
  proof (intro exI [of _ net'] conjI)
    show "handleNonCallReq dest g net = Ret (None, net')"
      using rs(1) lt(2) ev1(1) n4(1) n'(1) h(4,5) unfolding handleNonCallReq_def assms(7-9) go_bind.simps Let_def
      by (simp add: net3_def g'_def)
    show "\<forall>q. sent_to q net' = (if q = r then sent_to r net @ [g\<lparr>fr_Header := (fr_Header g)\<lparr>fh_ID := i\<rparr>\<rparr>] else sent_to q net)"
      using n'(3) n4(3) conn3 by (simp add: g'_def)
    show "\<forall>q d j. item_at q d j net' =
       (if q = r \<and> d = Outbound \<and> j = i \<or> q = dest \<and> d = Inbound \<and> j = di then None else item_at q d j net)"
      using n'(2) n4(2) item3 by (simp add: g'_def)
    show "ends call (rn_log net') = ends call (rn_log net) + 1"
      using n'(4) n4(5,6) ev1(2) h(6,7) ends_none [of evs1] ends_none [of evs2] by (simp add: net3_def reportRelayBytes_def) (simp add: ends_def)
  qed
qed

section \<open>The request goes out\<close>

text \<open>The item that \<^verbatim>\<open>addRelayItem\<close> makes.\<close>

lemma addRelayItem_eq:
  assumes "reusable reused" and "d = (if orig then Outbound else Inbound)"
  obtains it where "addRelayItem r reused orig i remapID dest span call cs net = Ret (it, put_items r d (relayItems_Add i it (rl_items d (relayer r net))) net)"
    and "live_item d i it" and "ri_destination it = dest" and "ri_remapID it = remapID" and "ri_call it = call"
proof -
  obtain rt where rt: "timer_Start d i orig (timerPool_Get reused) = Ret rt" "\<not> rt_released rt" "rt_active rt" "\<not> rt_stopped rt"
      "rt_running rt" "rt_items rt = Some d" "rt_id rt = i" "rt_isOriginator rt = orig"
    by (rule timer_Start_ok [OF assms(1)])
  let ?it = "\<lparr>ri_remapID = remapID, ri_tomb = False, ri_isOriginator = orig, ri_call = call, ri_destination = dest, ri_span = span,
    ri_timeout = rt, ri_mutatedChecksum = cs\<rparr>"
  show ?thesis
    using rt assms(2) by (intro that [of ?it]) (simp_all add: addRelayItem_def live_item_def item_ok_def Let_def)
qed

lemma view_Add:
  assumes "r < length (rn_relayers net)"
  shows "item_at q d' j (put_items r d (relayItems_Add i it (rl_items d (relayer r net))) net) =
    (if q = r \<and> d' = d \<and> j = i then Some it else item_at q d' j net)"
  by (simp add: view_put_items [OF assms] relayItems_Add_def update_conv')

lemma receive_request:
  assumes "r < length (rn_relayers net)" and "Frame_messageType f = messageTypeCallReq"
    and "item_at r Inbound (fh_ID (fr_Header f)) net = Some it" and "\<not> ri_tomb it" and "length (sent_to r net) < c_sendCap (the_conn r net)"
  shows "relay_Receive r f requestFrame net = Ret ((True, []), put_conn r ((the_conn r net)\<lparr>c_sendCh := sent_to r net @ [f]\<rparr>) net)"
proof -
  have fin: "finishesCall f = Ret False" and d: "receiverItems requestFrame = Inbound"
    using assms(2) by (simp_all add: finishesCall_def receiverItems_def)
  show ?thesis
    using assms(3-5) unfolding relay_Receive_def Let_def d fin go_bind.simps by (simp add: report_outcome_def enqueue_frame_def Let_def)
qed

lemma relay_call_forwards:
  assumes "r < length (rn_relayers net)" and "dest < length (rn_relayers net)" and "r \<noteq> dest" and "reusable reused1" and "reusable reused2"
    and "sendable (lr_Frame cr)" and "Frame_messageType (lr_Frame cr) = messageTypeCallReq" and "i = fh_ID (fr_Header (lr_Frame cr))"
    and "length (sent_to dest net) < c_sendCap (the_conn dest net)" and "di = c_nextMessageID (the_conn dest net) + 1"
    and "f = lr_Frame (capTTL (rl_maxTimeout (relayer r net)) cr)"
  obtains net' where "relay_call r dest reused1 reused2 call cr net = Ret net'" and "linked r i dest di call net'"
    and "\<forall>q. sent_to q net' = (if q = dest then sent_to dest net @ [f\<lparr>fr_Header := (fr_Header f)\<lparr>fh_ID := di\<rparr>\<rparr>] else sent_to q net)"
    and "\<forall>q d j. item_at q d j net' \<noteq> item_at q d j net \<longrightarrow> q = r \<and> d = Outbound \<and> j = i \<or> q = dest \<and> d = Inbound \<and> j = di"
    and "rn_log net' = rn_log net @ [(call, SentBytes (FrameSize (fr_Header f)))]" and "\<forall>q. c_sendCap (the_conn q net') = c_sendCap (the_conn q net)"
    and "length (rn_relayers net') = length (rn_relayers net)"
proof -
  define net1 where "net1 = put_conn dest ((the_conn dest net)\<lparr>c_nextMessageID := di\<rparr>) net"
  have l1: "length (rn_relayers net1) = length (rn_relayers net)" by (simp add: net1_def)
  have r1: "r < length (rn_relayers net1)" "dest < length (rn_relayers net1)" using l1 assms(1,2) by simp_all
  have max: "rl_maxTimeout (relayer r net1) = rl_maxTimeout (relayer r net)" using assms(2,3) by (simp add: net1_def relayer_put_conn)
  obtain ttl where ttl: "lazyReq_TTL cr = Ret ttl" and cap: "(if ttl > rl_maxTimeout (relayer r net) then lazyReq_SetTTL (rl_maxTimeout (relayer r net)) cr else Ret cr) =
        Ret (capTTL (rl_maxTimeout (relayer r net)) cr)" "fr_Header (lr_Frame (capTTL (rl_maxTimeout (relayer r net)) cr)) = fr_Header (lr_Frame cr)"
    by (rule cap_ok [OF assms(6)])
  define cr1 where "cr1 = capTTL (rl_maxTimeout (relayer r net)) cr"
  have f: "lr_Frame cr1 = f" "fr_Header f = fr_Header (lr_Frame cr)" using cap(2) by (simp_all add: cr1_def assms(11))
  obtain there where th: "addRelayItem dest reused1 False di i r (lazyReq_Span cr1) call None net1 =
        Ret (there, put_items dest Inbound (relayItems_Add di there (rl_items Inbound (relayer dest net1))) net1)"
      "live_item Inbound di there" "ri_destination there = r" "ri_remapID there = i" "ri_call there = call"
    by (rule addRelayItem_eq [where orig = False, OF assms(4)]) simp_all
  define net2 where "net2 = put_items dest Inbound (relayItems_Add di there (rl_items Inbound (relayer dest net1))) net1"
  have l2: "length (rn_relayers net2) = length (rn_relayers net)" by (simp add: net2_def l1)
  have r2: "r < length (rn_relayers net2)" "dest < length (rn_relayers net2)" using l2 assms(1,2) by simp_all
  obtain here where he: "addRelayItem r reused2 True i di dest (lazyReq_Span cr1) call None net2 =
        Ret (here, put_items r Outbound (relayItems_Add i here (rl_items Outbound (relayer r net2))) net2)"
      "live_item Outbound i here" "ri_destination here = dest" "ri_remapID here = di" "ri_call here = call"
    by (rule addRelayItem_eq [where orig = True, OF assms(5)]) simp_all
  define net3 where "net3 = put_items r Outbound (relayItems_Add i here (rl_items Outbound (relayer r net2))) net2"
  define f' where "f' = f\<lparr>fr_Header := (fr_Header f)\<lparr>fh_ID := di\<rparr>\<rparr>"
  define net4 where "net4 = call_event call (SentBytes (FrameSize (fr_Header f'))) net3"
  have l4: "length (rn_relayers net4) = length (rn_relayers net)" by (simp add: net4_def net3_def l2)
  then have r4: "dest < length (rn_relayers net4)" using assms(2) by simp
  have item2: "item_at q d j net2 = (if q = dest \<and> d = Inbound \<and> j = di then Some there else item_at q d j net)" for q d j
    using view_Add [OF r1(2)] view_put_conn(1) [OF assms(2)] by (simp add: net2_def net1_def)
  have item4: "item_at q d j net4 = (if q = r \<and> d = Outbound \<and> j = i then Some here else item_at q d j net2)" for q d j
    using view_Add [OF r2(1)] by (simp add: net4_def net3_def)
  have conn4: "the_conn q net4 = (if q = dest then (the_conn dest net)\<lparr>c_nextMessageID := di\<rparr> else the_conn q net)" for q
    using view_put_items(2) [OF r2(1)] view_put_items(2) [OF r1(2)] view_put_conn(2) [OF assms(2)]
    by (simp add: net4_def net3_def net2_def net1_def)
  have ty: "Frame_messageType f' = messageTypeCallReq" "fh_ID (fr_Header f') = di" using assms(7) f by (simp_all add: f'_def Frame_messageType_def)
  have there4: "item_at dest Inbound (fh_ID (fr_Header f')) net4 = Some there" "\<not> ri_tomb there" "length (sent_to dest net4) < c_sendCap (the_conn dest net4)"
    using item4 item2 ty(2) th(2) conn4 assms(9) by (simp_all add: live_item_def)
  note rcv = receive_request [OF r4 ty(1) there4]
  define net' where "net' = put_conn dest ((the_conn dest net4)\<lparr>c_sendCh := sent_to dest net4 @ [f']\<rparr>) net4"
  have nm: "NextMessageID (the_conn dest net) = (di, (the_conn dest net)\<lparr>c_nextMessageID := di\<rparr>)" by (simp add: NextMessageID_def assms(10))
  have "relay_call r dest reused1 reused2 call cr net = Ret net'"
    unfolding relay_call_def nm Let_def prod.case net1_def [symmetric] ttl go_bind.simps max cap(1) cr1_def [symmetric] assms(8) [symmetric]
      th(1) net2_def [symmetric] he(1) net3_def [symmetric] f(1) f'_def [symmetric] net4_def [symmetric] he(3) rcv net'_def [symmetric] by simp
  moreover have item': "item_at q d j net' = item_at q d j net4" for q d j unfolding net'_def by (rule view_put_conn(1) [OF r4])
  moreover have "the_conn q net' = (if q = dest then (the_conn dest net4)\<lparr>c_sendCh := sent_to dest net4 @ [f']\<rparr> else the_conn q net4)" for q
    unfolding net'_def by (rule view_put_conn(2) [OF r4])
  moreover have "rn_log net' = rn_log net @ [(call, SentBytes (FrameSize (fr_Header f)))]"
    by (simp add: net'_def net4_def net3_def net2_def net1_def f'_def FrameSize_def)
  ultimately show ?thesis
    using item4 item2 conn4 l4 th(2-5) he(2-5) by (intro that [of net']) (auto simp: linked_def f'_def net'_def)
qed

lemma canHandle_active:
  assumes "c_state (the_conn r net) = connectionActive" and "r < length (rn_relayers net)"
  obtains net' where "canHandleNewCall r net = ((True, connectionActive), net')" and "\<forall>q d j. item_at q d j net' = item_at q d j net"
    and "\<forall>q. sent_to q net' = sent_to q net \<and> c_sendCap (the_conn q net') = c_sendCap (the_conn q net) \<and> c_state (the_conn q net') = c_state (the_conn q net) \<and>
      c_nextMessageID (the_conn q net') = c_nextMessageID (the_conn q net) \<and> rl_maxTimeout (relayer q net') = rl_maxTimeout (relayer q net)"
    and "rn_log net' = rn_log net" and "length (rn_relayers net') = length (rn_relayers net)"
proof -
  let ?net = "put_conn r ((the_conn r net)\<lparr>c_relay := map_option pending_Inc (c_relay (the_conn r net))\<rparr>) net"
  show ?thesis by (rule that [of ?net]) (use assms in \<open>simp_all add: canHandleNewCall_def relayer_put_conn Let_def\<close>)
qed

lemma request_forwarded:
  assumes "r < length (rn_relayers net)" and "dest < length (rn_relayers net)" and "r \<noteq> dest" and "reusable reused1" and "reusable reused2"
    and "sendable f" and "newLazyCallReq f = Ret (Inr cr)" and "lazyReq_Service cr = Ret s" and "string_of_bytes s \<notin> set (rl_localHandler (relayer r net))"
    and "c_state (the_conn r net) = connectionActive" and "c_state (the_conn dest net) = connectionActive"
    and "item_at r Outbound (fh_ID (fr_Header f)) net = None" and "length (sent_to dest net) < c_sendCap (the_conn dest net)"
  obtains net' g where "Relay now base env StartOk (Some (Inr dest)) reused1 reused2 r f net = Some (Ret (False, None, None, net'))"
    and "g = lr_Frame (capTTL (rl_maxTimeout (relayer r net)) cr)"
    and "linked r (fh_ID (fr_Header f)) dest (c_nextMessageID (the_conn dest net) + 1) (rn_calls net) net'"
    and "\<forall>q. sent_to q net' = (if q = dest then sent_to dest net @ [g\<lparr>fr_Header := (fr_Header g)\<lparr>fh_ID := c_nextMessageID (the_conn dest net) + 1\<rparr>\<rparr>]
      else sent_to q net)"
    and "\<forall>q d j. item_at q d j net' \<noteq> item_at q d j net \<longrightarrow>
      q = r \<and> d = Outbound \<and> j = fh_ID (fr_Header f) \<or> q = dest \<and> d = Inbound \<and> j = c_nextMessageID (the_conn dest net) + 1"
    and "rn_log net' = rn_log net @ [(rn_calls net, SentBytes (FrameSize (fr_Header g)))]" and "\<forall>q. c_sendCap (the_conn q net') = c_sendCap (the_conn q net)"
    and "length (rn_relayers net') = length (rn_relayers net)"
proof -
  have fr: "lr_Frame cr = f" and ty: "Frame_messageType f = messageTypeCallReq"
    using newLazyCallReq_layout [OF assms(7)] by (metis, metis Frame_messageType_def)
  let ?n0 = "net\<lparr>rn_calls := rn_calls net + 1\<rparr>" and ?call = "rn_calls net"
  have n0: "c_state (the_conn r ?n0) = connectionActive" "r < length (rn_relayers ?n0)" using assms(1,10) by simp_all
  obtain net1 where n1: "canHandleNewCall r ?n0 = ((True, connectionActive), net1)" "\<forall>q d j. item_at q d j net1 = item_at q d j ?n0"
      "\<forall>q. sent_to q net1 = sent_to q ?n0 \<and> c_sendCap (the_conn q net1) = c_sendCap (the_conn q ?n0) \<and> c_state (the_conn q net1) = c_state (the_conn q ?n0) \<and>
      c_nextMessageID (the_conn q net1) = c_nextMessageID (the_conn q ?n0) \<and> rl_maxTimeout (relayer q net1) = rl_maxTimeout (relayer q ?n0)"
      "rn_log net1 = rn_log ?n0" "length (rn_relayers net1) = length (rn_relayers ?n0)"
    by (rule canHandle_active [OF n0])
  have "item_at r Outbound (fh_ID (fr_Header f)) net1 = None" using n1(2) assms(12) by simp
  then have gd: "getDestination r cr ?call (Some (Inr dest)) net1 = ((Some dest, None), net1)"
    by (simp add: getDestination_def fr rl_items_simps(4) Let_def)
  have d1: "c_state (the_conn dest net1) = connectionActive" "dest < length (rn_relayers net1)" using n1(3,5) assms(2,11) by simp_all
  obtain net2 where n2: "canHandleNewCall dest net1 = ((True, connectionActive), net2)" "\<forall>q d j. item_at q d j net2 = item_at q d j net1"
      "\<forall>q. sent_to q net2 = sent_to q net1 \<and> c_sendCap (the_conn q net2) = c_sendCap (the_conn q net1) \<and> c_state (the_conn q net2) = c_state (the_conn q net1) \<and>
      c_nextMessageID (the_conn q net2) = c_nextMessageID (the_conn q net1) \<and> rl_maxTimeout (relayer q net2) = rl_maxTimeout (relayer q net1)"
      "rn_log net2 = rn_log net1" "length (rn_relayers net2) = length (rn_relayers net1)"
    by (rule canHandle_active [OF d1])
  have v2: "item_at q d j net2 = item_at q d j net" "sent_to q net2 = sent_to q net" "c_sendCap (the_conn q net2) = c_sendCap (the_conn q net)"
      "c_nextMessageID (the_conn q net2) = c_nextMessageID (the_conn q net)" "rl_maxTimeout (relayer q net2) = rl_maxTimeout (relayer q net)" for q d j
    using n1(2,3) n2(2,3) by simp_all
  have l2: "r < length (rn_relayers net2)" "dest < length (rn_relayers net2)" using n1(5) n2(5) assms(1,2) by simp_all
  have cr: "sendable (lr_Frame cr)" "Frame_messageType (lr_Frame cr) = messageTypeCallReq" "length (sent_to dest net2) < c_sendCap (the_conn dest net2)"
    using fr assms(6,13) ty v2 by simp_all
  obtain net' where n': "relay_call r dest reused1 reused2 ?call cr net2 = Ret net'"
      "linked r (fh_ID (fr_Header (lr_Frame cr))) dest (c_nextMessageID (the_conn dest net2) + 1) ?call net'"
      "\<forall>q. sent_to q net' = (if q = dest then sent_to dest net2 @ [(lr_Frame (capTTL (rl_maxTimeout (relayer r net2)) cr))
        \<lparr>fr_Header := (fr_Header (lr_Frame (capTTL (rl_maxTimeout (relayer r net2)) cr)))\<lparr>fh_ID := c_nextMessageID (the_conn dest net2) + 1\<rparr>\<rparr>] else sent_to q net2)"
      "\<forall>q d j. item_at q d j net' \<noteq> item_at q d j net2 \<longrightarrow> q = r \<and> d = Outbound \<and> j = fh_ID (fr_Header (lr_Frame cr)) \<or>
        q = dest \<and> d = Inbound \<and> j = c_nextMessageID (the_conn dest net2) + 1"
      "rn_log net' = rn_log net2 @ [(?call, SentBytes (FrameSize (fr_Header (lr_Frame (capTTL (rl_maxTimeout (relayer r net2)) cr)))))]" "\<forall>q. c_sendCap (the_conn q net') = c_sendCap (the_conn q net2)" "length (rn_relayers net') = length (rn_relayers net2)"
    by (rule relay_call_forwards [OF l2 assms(3-5) cr(1,2) refl cr(3) refl refl])
  have local: "handleLocalCallReq now base env r cr net = Some (Ret (False, None, net))" using assms(8,9) by (simp add: handleLocalCallReq_def)
  have start: "start_call r (Some (Inr dest)) reused1 reused2 ?call cr ?n0 = Ret (None, net')"
    using n1(1) gd n2(1) n'(1) by (simp add: start_call_def Let_def)
  have "Relay now base env StartOk (Some (Inr dest)) reused1 reused2 r f net = Some (Ret (False, None, None, net'))"
    using ty assms(7) local start by (simp add: Relay_def relay_handleCallReq_def Let_def)
  then show ?thesis by (rule that) (use n'(2-7) v2 n1(4,5) n2(4,5) fr in simp_all)
qed

text \<open>
  C28: A call is forwarded. When a connection reads the first frame of a call that is not for the relay itself, and the relay host has a destination
  for it, then the frame is queued on the connection to the destination, under the next message id of that connection and with its
  time to live capped; the two connections remember each other's id of the call, and nothing else has changed in the tables or has been sent.
\<close>

theorem relay_forwards:
  assumes "r < length (rn_relayers net)" and "dest < length (rn_relayers net)" and "r \<noteq> dest" and "reusable reused1" and "reusable reused2"
    and "sendable f" and "newLazyCallReq f = Ret (Inr cr)" and "lazyReq_Service cr = Ret s" and "string_of_bytes s \<notin> set (rl_localHandler (relayer r net))"
    and "c_state (the_conn r net) = connectionActive" and "c_state (the_conn dest net) = connectionActive"
    and "item_at r Outbound (fh_ID (fr_Header f)) net = None" and "length (sent_to dest net) < c_sendCap (the_conn dest net)"
  shows "\<exists>net' g. Relay now base env StartOk (Some (Inr dest)) reused1 reused2 r f net = Some (Ret (False, None, None, net')) \<and>
    g = lr_Frame (capTTL (rl_maxTimeout (relayer r net)) cr) \<and>
    linked r (fh_ID (fr_Header f)) dest (c_nextMessageID (the_conn dest net) + 1) (rn_calls net) net' \<and>
    (\<forall>q. sent_to q net' = (if q = dest then sent_to dest net @ [g\<lparr>fr_Header := (fr_Header g)\<lparr>fh_ID := c_nextMessageID (the_conn dest net) + 1\<rparr>\<rparr>]
      else sent_to q net)) \<and>
    (\<forall>q d j. item_at q d j net' \<noteq> item_at q d j net \<longrightarrow>
      q = r \<and> d = Outbound \<and> j = fh_ID (fr_Header f) \<or> q = dest \<and> d = Inbound \<and> j = c_nextMessageID (the_conn dest net) + 1) \<and>
    rn_log net' = rn_log net @ [(rn_calls net, SentBytes (FrameSize (fr_Header g)))]"
  by (rule request_forwarded [OF assms, of now base env]) (intro exI conjI, assumption+)

section \<open>The time to live\<close>

lemma validated_timeout:
  "0 < validateRelayMaxTimeout d \<and> Millisecond \<le> validateRelayMaxTimeout d \<and> validateRelayMaxTimeout d < 2 ^ 32 * Millisecond"
proof (cases "0 < d sdiv Millisecond \<and> d sdiv Millisecond \<le> 4294967295")
  case True
  have "0 < d"
  proof (rule ccontr)
    assume "\<not> 0 < d"
    then have "d sdiv Millisecond \<le> 0" by (cases "d = 0") (simp_all add: signed_divide_int_def Millisecond_def pos_imp_zdiv_nonneg_iff)
    then show False using True by simp
  qed
  then have "d sdiv Millisecond = d div Millisecond" by (simp add: signed_divide_int_def Millisecond_def)
  then have "1 \<le> d div 1000000" "d div 1000000 \<le> 4294967295" using True by (simp_all add: Millisecond_def)
  then have "1000000 \<le> d" "d < 4294967296000000" by linarith+
  then show ?thesis using True \<open>0 < d\<close> by (simp add: validateRelayMaxTimeout_def Millisecond_def)
next
  case False
  then show ?thesis by (auto simp: validateRelayMaxTimeout_def defaultRelayMaxTimeout_def Second_def Millisecond_def)
qed

text \<open>
  C30: The time to live that a relay writes fits. Whatever maximum was configured, the maximum that is used makes at least one millisecond, and
  writing it into a request and reading it from the frame gives the same time, up to the part of a millisecond that the wire cannot carry.
\<close>

theorem relay_ttl_bounds:
  assumes "sendable (lr_Frame cr)"
  shows "\<exists>cr' t. lazyReq_SetTTL (validateRelayMaxTimeout d) cr = Ret cr' \<and> lazyReq_TTL cr' = Ret t \<and>
    0 < t \<and> t \<le> validateRelayMaxTimeout d \<and> validateRelayMaxTimeout d < t + Millisecond"
proof -
  let ?m = "validateRelayMaxTimeout d" and ?p = "fr_Payload (lr_Frame cr)"
  let ?w = "of_int (?m sdiv Millisecond) :: uint32"
  have inv: "frame_inv (lr_Frame cr)" using assms by (simp add: sendable_def)
  have len: "length ?p = 65519" using sendable_payload(1) [OF assms] by (simp add: MaxFramePayloadSize_def MaxFrameSize_def)
  define cr' where "cr' = cr\<lparr>lr_Frame := set_Payload (copy_at ttlIndex (PutUint32 ?w) ?p) (lr_Frame cr)\<rparr>"
  have set: "lazyReq_SetTTL ?m cr = Ret cr'" using len by (simp add: lazyReq_SetTTL_def cr'_def)
  have pl: "fr_Payload (lr_Frame cr') = copy_at 1 (PutUint32 ?w) ?p" using set_Payload_simps(1) [OF inv] by (simp add: cr'_def)
  have "take 4 (drop 1 (copy_at 1 (PutUint32 ?w) ?p)) = PutUint32 ?w" using len by (simp add: copy_at_fits)
  then have "lazyReq_TTL cr' = Ret (uint ?w * Millisecond)" using len by (simp add: lazyReq_TTL_def subslice_def pl)
  moreover have "uint ?w = ?m div Millisecond" using ttl_millis validated_timeout [of d] by simp
  moreover have "0 < ?m div Millisecond * Millisecond" "?m div Millisecond * Millisecond \<le> ?m" "?m < ?m div Millisecond * Millisecond + Millisecond"
    using validated_timeout [of d] by (simp_all add: Millisecond_def pos_imp_zdiv_pos_iff)
  ultimately show ?thesis using set by metis
qed

section \<open>A relay with two connections\<close>

definition relay_conn :: Connection where
  "relay_conn = new_conn\<lparr>c_relay := Some 0\<rparr>"

definition two_conns :: relayNet where
  "two_conns = \<lparr>rn_relayers = replicate 2 (NewRelayer defaultRelayMaxTimeout [] 0 relay_conn), rn_log = [], rn_calls = 0\<rparr>"

lemma relay_conn_new: "\<exists>opts. newConnection opts [] 0 True 0 (\<lambda>_. NewFrame MaxFramePayloadSize) 0 = Ret relay_conn"
  by (intro exI [of _ "\<lparr>co_SendBufferSize = 0, co_SendBufferSizeOverrides = [], co_ChecksumType = 0,
      co_HealthChecks = \<lparr>hco_Interval = 0, hco_Timeout = 0, hco_FailuresToClose = 0\<rparr>\<rparr>"])
    (simp add: relay_conn_def new_conn_def newConnection_def co_withDefaults_def getSendBufferSize_def DefaultConnectionBufferSize_def Let_def)

lemma two_conns_reach: "relay_reach two_conns"
proof -
  obtain opts where o: "newConnection opts [] 0 True 0 (\<lambda>_. NewFrame MaxFramePayloadSize) 0 = Ret relay_conn" using relay_conn_new by blast
  note step = relay_more [OF _ rl_connect [OF o, of _ defaultRelayMaxTimeout "[]" 0]]
  from step [OF step [OF relay_start]] show ?thesis by (simp add: two_conns_def no_relayers_def numeral_2_eq_2)
qed

lemma two_conns_simps [simp]:
  "length (rn_relayers two_conns) = 2" "r < 2 \<Longrightarrow> relayer r two_conns = NewRelayer defaultRelayMaxTimeout [] 0 relay_conn"
  "rn_log two_conns = []" "rn_calls two_conns = 0" "r < 2 \<Longrightarrow> item_at r d i two_conns = None"
  by (cases d; simp add: two_conns_def relayer_def NewRelayer_def rl_items_def newRelayItems_def)+

lemma new_items [simp]: "rs_items (rl_items d (NewRelayer m l t c)) = []"
  by (cases d) (simp_all add: NewRelayer_def rl_items_def newRelayItems_def)

lemma relay_conn_simps [simp]:
  "c_state relay_conn = connectionActive" "c_sendCh relay_conn = []" "0 < c_sendCap relay_conn" "c_nextMessageID relay_conn = 0"
  "rl_conn (NewRelayer m l t c) = c" "rl_localHandler (NewRelayer m l t c) = l" "rl_maxTimeout (NewRelayer m l t c) = m"
  by (simp_all add: relay_conn_def new_conn_def newConnection_def co_withDefaults_def getSendBufferSize_def DefaultConnectionBufferSize_def
      NewRelayer_def Let_def)

definition relay_request :: Frame where
  "relay_request = \<lparr>fr_buffer = fr_buffer lazy_example @ replicate 65471 0, fr_Header = (fr_Header lazy_example)\<lparr>fh_ID := 7\<rparr>\<rparr>"

lemma lazy_example_simps:
  "length (fr_buffer lazy_example) = 64" "fh_size (fr_Header lazy_example) = 64" "fh_messageType (fr_Header lazy_example) = messageTypeCallReq"
  "length (fh_reserved (fr_Header lazy_example)) = 8"
  by (simp_all add: lazy_example_def zeroHeader_def Let_def)

lemma relay_request_simps:
  "sendable relay_request" "fh_ID (fr_Header relay_request) = 7" "fh_messageType (fr_Header relay_request) = messageTypeCallReq"
  "SizedPayload relay_request = SizedPayload lazy_example" "hasMoreFragments relay_request = hasMoreFragments lazy_example"
proof -
  note ls = lazy_example_simps
  show sp: "SizedPayload relay_request = SizedPayload lazy_example"
    by (simp add: relay_request_def SizedPayload_def fr_Payload_def PayloadSize_def ls)
  then show "sendable relay_request"
    by (simp add: sendable_def frame_inv_def ls relay_request_def) (simp add: SizedPayload_def fr_Payload_def PayloadSize_def ls MaxFrameSize_def)
  show "hasMoreFragments relay_request = hasMoreFragments lazy_example"
    by (simp add: hasMoreFragments_def payload_at_def fr_Payload_def relay_request_def ls nth_append)
qed (simp_all add: relay_request_def lazy_example_simps)

lemma lazyReq_headers_frame:
  "lazyReq_headers n (cr\<lparr>lr_Frame := f\<rparr>) r = ((fst (lazyReq_headers n cr r))\<lparr>lr_Frame := f\<rparr>, snd (lazyReq_headers n cr r))"
proof (induction n arbitrary: cr r)
  case (Suc n)
  have "lazyReq_header k v (cr\<lparr>lr_Frame := f\<rparr>) = (lazyReq_header k v cr)\<lparr>lr_Frame := f\<rparr>" for k v by (simp add: lazyReq_header_def)
  then show ?case using Suc.IH by (simp add: case_prod_unfold Let_def)
qed simp

text \<open>The lazy parser reads only the payload and the flags.\<close>

lemma newLazyCallReq_frame:
  assumes "newLazyCallReq f0 = Ret (Inr cr)" and "fh_messageType (fr_Header f) = fh_messageType (fr_Header f0)"
    and "SizedPayload f = SizedPayload f0" and "hasMoreFragments f = hasMoreFragments f0"
  shows "\<exists>cr'. newLazyCallReq f = Ret (Inr cr')"
proof -
  have t: "fh_messageType (fr_Header f0) = messageTypeCallReq" using assms(1) by (auto simp: newLazyCallReq_def split: if_splits)
  obtain p where p: "SizedPayload f0 = Ret p" using assms(1) by (cases "SizedPayload f0") (auto simp: newLazyCallReq_def split: if_splits)
  define r0 where "r0 = SkipBytes 30 (NewReadBuffer p)"
  obtain sl r1 where r1: "ReadSingleByte r0 = (sl, r1)" by force
  define r2 where "r2 = SkipBytes (unat sl) r1"
  obtain nh r3 where r3: "ReadSingleByte r2 = (nh, r3)" by force
  obtain c4 r4 where r4: "lazyReq_headers (unat nh) (lazyCallReq_of f0) r3 = (c4, r4)" by force
  obtain ty r5 where r5: "ReadSingleByte r4 = (ty, r5)" by force
  define r6 where "r6 = SkipBytes (ChecksumSize ty) r5"
  obtain l1 r7 where r7: "ReadUint16 r6 = (l1, r7)" by force
  obtain m r8 where r8: "ReadBytes (unat l1) r7 = (m, r8)" by force
  obtain l2 r9 where r9: "ReadUint16 r8 = (l2, r9)" by force
  define r10 where "r10 = SkipBytes (unat l2) r9"
  have "lazyCallReq_of f = (lazyCallReq_of f0)\<lparr>lr_Frame := f\<rparr>" by (simp add: lazyCallReq_of_def)
  then have r4': "lazyReq_headers (unat nh) (lazyCallReq_of f) r3 = (c4\<lparr>lr_Frame := f\<rparr>, r4)" using lazyReq_headers_frame [where cr = "lazyCallReq_of f0" and f = f] r4 by simp
  note rs = r1 r3 r4 r4' r5 r7 r8 r9 r0_def [symmetric] r2_def [symmetric] r6_def [symmetric] r10_def [symmetric]
  define res where "res h c = (if \<not> ChecksumType_valid ty then Ret (Inl errInvalidChecksumType)
      else go_bind (if rb_BytesRemaining r10 = 0 then h else Ret False) (\<lambda>b.
        case rb_err (if b then r10 else SkipBytes 2 r10) of Some err \<Rightarrow> Ret (Inl err)
        | None \<Rightarrow> Ret (Inr (c\<lparr>lr_checksumTypeOffset := of_nat (BytesRead r4), lr_checksumType := ty, lr_method := opt_bytes m,
        lr_arg2StartOffset := of_nat (BytesRead r9), lr_arg2EndOffset := of_nat (BytesRead r9) + l2, lr_isArg2Fragmented := b,
        lr_arg3StartOffset := (if b then 0 else of_nat (BytesRead (if b then r10 else SkipBytes 2 r10)))\<rparr>))))"
    for h :: "bool go" and c :: lazyCallReq
  have "newLazyCallReq f0 = res (hasMoreFragments f0) c4" "newLazyCallReq f = res (hasMoreFragments f0) (c4\<lparr>lr_Frame := f\<rparr>)"
    unfolding newLazyCallReq_def assms(2-4) p t res_def
    by (simp_all only: rs Let_def go_bind.simps prod.case simp_thms if_False serviceLenIndex_def)
  moreover have "\<exists>cr'. res h c' = Ret (Inr cr')" if "res h c = Ret (Inr cr)" for h c c'
    using that by (auto simp: res_def go_bind_Ret_iff split: if_splits option.splits)
  ultimately show ?thesis using assms(1) by metis
qed

lemma relay_request_accepted: "\<exists>cr s. newLazyCallReq relay_request = Ret (Inr cr) \<and> lr_Frame cr = relay_request \<and> lazyReq_Service cr = Ret s"
proof -
  obtain cr0 where "newLazyCallReq lazy_example = Ret (Inr cr0)" using lazy_example_accepted by blast
  from newLazyCallReq_frame [OF this, of relay_request] obtain cr where cr: "newLazyCallReq relay_request = Ret (Inr cr)"
    by (auto simp: relay_request_simps lazy_example_simps)
  then have fr: "lr_Frame cr = relay_request" using newLazyCallReq_layout by metis
  have "length (fr_Payload relay_request) = 65519"
    using sendable_payload(1) [OF relay_request_simps(1)] by (simp add: MaxFramePayloadSize_def MaxFrameSize_def)
  moreover have "31 + unat l \<le> 65519" for l :: byte using unsigned_less [of l, where ?'a = nat] by simp
  ultimately have "\<exists>s. lazyReq_Service cr = Ret s" by (simp add: lazyReq_Service_def payload_at_def subslice_def fr)
  then show ?thesis using cr fr by auto
qed

text \<open>The request comes in on one connection and is forwarded to the other.\<close>

definition relaying :: relayNet where
  "relaying = (case Relay 0 context_Background (\<lambda>c. c) StartOk (Some (Inr 1)) None None 0 relay_request two_conns of
     Some (Ret (_, _, _, net)) \<Rightarrow> net | _ \<Rightarrow> two_conns)"

lemma relaying_facts:
  "Relay 0 context_Background (\<lambda>c. c) StartOk (Some (Inr 1)) None None 0 relay_request two_conns = Some (Ret (False, None, None, relaying))"
  "linked 0 7 1 1 0 relaying" "sent_to 0 relaying = []" "\<exists>n. rn_log relaying = [(0, SentBytes n)]" "c_sendCap (the_conn 0 relaying) = c_sendCap relay_conn"
  "length (rn_relayers relaying) = 2"
proof -
  obtain cr s where cr: "newLazyCallReq relay_request = Ret (Inr cr)" "lazyReq_Service cr = Ret s" using relay_request_accepted by blast
  have pre: "(0 :: nat) < length (rn_relayers two_conns)" "1 < length (rn_relayers two_conns)" "(0 :: nat) \<noteq> 1" "reusable None"
      "string_of_bytes s \<notin> set (rl_localHandler (relayer 0 two_conns))" "c_state (the_conn 0 two_conns) = connectionActive"
      "c_state (the_conn 1 two_conns) = connectionActive" "item_at 0 Outbound (fh_ID (fr_Header relay_request)) two_conns = None"
      "length (sent_to 1 two_conns) < c_sendCap (the_conn 1 two_conns)"
    by (simp_all add: reusable_def)
  obtain net' g where n: "Relay 0 context_Background (\<lambda>c. c) StartOk (Some (Inr 1)) None None 0 relay_request two_conns = Some (Ret (False, None, None, net'))"
      "linked 0 (fh_ID (fr_Header relay_request)) 1 (c_nextMessageID (the_conn 1 two_conns) + 1) (rn_calls two_conns) net'"
      "\<forall>q. sent_to q net' = (if q = 1 then sent_to 1 two_conns @ [g\<lparr>fr_Header := (fr_Header g)\<lparr>fh_ID := c_nextMessageID (the_conn 1 two_conns) + 1\<rparr>\<rparr>]
        else sent_to q two_conns)" "rn_log net' = rn_log two_conns @ [(rn_calls two_conns, SentBytes (FrameSize (fr_Header g)))]"
      "\<forall>q. c_sendCap (the_conn q net') = c_sendCap (the_conn q two_conns)" "length (rn_relayers net') = length (rn_relayers two_conns)"
    by (rule request_forwarded [OF pre(1-4,4) relay_request_simps(1) cr pre(5-9)])
  have "relaying = net'" using n(1) by (simp add: relaying_def)
  then show "Relay 0 context_Background (\<lambda>c. c) StartOk (Some (Inr 1)) None None 0 relay_request two_conns = Some (Ret (False, None, None, relaying))"
    "linked 0 7 1 1 0 relaying" "sent_to 0 relaying = []" "\<exists>n. rn_log relaying = [(0, SentBytes n)]" "c_sendCap (the_conn 0 relaying) = c_sendCap relay_conn"
    "length (rn_relayers relaying) = 2"
    using n by (simp_all add: relay_request_simps(2))
qed

lemma relaying_reach: "relay_reach relaying"
  by (rule relay_more [OF two_conns_reach rl_frame [OF _ _ _ _ relaying_facts(1)]])
    (simp_all add: relay_request_simps isMessageTypeCall_def start_ready_def reusable_def fresh_id_def rl_items_simps(5) [symmetric])

text \<open>The other side answers with an error.\<close>

definition relay_error :: Frame where
  "relay_error = \<lparr>fr_buffer = replicate 65535 0, fr_Header = zeroHeader\<lparr>fh_size := 64, fh_messageType := messageTypeError, fh_ID := 1\<rparr>\<rparr>"

lemma relay_error_simps:
  "sendable relay_error" "fh_ID (fr_Header relay_error) = 1" "frameTypeFor relay_error = Ret responseFrame" "finishesCall relay_error = Ret True"
  "isMessageTypeCall relay_error"
  by (simp_all add: relay_error_def sendable_def frame_inv_def zeroHeader_def MaxFrameSize_def SizedPayload_def fr_Payload_def PayloadSize_def
      frameTypeFor_def finishesCall_def Frame_messageType_def isMessageTypeCall_def)

theorem relay_forwards_witness:
  "\<exists>net'. Relay 0 context_Background (\<lambda>c. c) StartOk (Some (Inr 1)) None None 0 relay_request two_conns = Some (Ret (False, None, None, net')) \<and>
    linked 0 7 1 1 0 net'"
proof -
  obtain cr s where cr: "newLazyCallReq relay_request = Ret (Inr cr)" "lazyReq_Service cr = Ret s" using relay_request_accepted by blast
  have pre: "(0 :: nat) < length (rn_relayers two_conns)" "1 < length (rn_relayers two_conns)" "(0 :: nat) \<noteq> 1" "reusable None"
      "string_of_bytes s \<notin> set (rl_localHandler (relayer 0 two_conns))" "c_state (the_conn 0 two_conns) = connectionActive"
      "c_state (the_conn 1 two_conns) = connectionActive" "item_at 0 Outbound (fh_ID (fr_Header relay_request)) two_conns = None"
      "length (sent_to 1 two_conns) < c_sendCap (the_conn 1 two_conns)"
    by (simp_all add: reusable_def)
  show ?thesis
    using relay_forwards [OF pre(1-4,4) relay_request_simps(1) cr pre(5-9), of 0 context_Background "\<lambda>c. c"] relay_request_simps(2)
    by (auto simp del: One_nat_def)
qed

theorem relay_returns_witness:
  "\<exists>net'. handleNonCallReq 1 relay_error relaying = Ret (None, net') \<and> sent_to 0 net' = [relay_error\<lparr>fr_Header := (fr_Header relay_error)\<lparr>fh_ID := 7\<rparr>\<rparr>] \<and>
    item_at 0 Outbound 7 net' = None \<and> item_at 1 Inbound 1 net' = None \<and> ends 0 (rn_log net') = 1"
proof -
  have "ends 0 (rn_log relaying) = 0" using relaying_facts(4) by (auto simp: ends_def)
  moreover obtain net' where "handleNonCallReq 1 relay_error relaying = Ret (None, net')"
      "\<forall>q. sent_to q net' = (if q = 0 then sent_to 0 relaying @ [relay_error\<lparr>fr_Header := (fr_Header relay_error)\<lparr>fh_ID := 7\<rparr>\<rparr>] else sent_to q relaying)"
      "\<forall>q d j. item_at q d j net' = (if q = 0 \<and> d = Outbound \<and> j = 7 \<or> q = 1 \<and> d = Inbound \<and> j = 1 then None else item_at q d j relaying)"
      "ends 0 (rn_log net') = ends 0 (rn_log relaying) + 1"
    using relay_returns [OF relaying_reach relaying_facts(2) _ _ _ relay_error_simps(1-4)] relaying_facts(3,5,6) by (simp del: One_nat_def) blast
  ultimately show ?thesis using relaying_facts(3) by (intro exI [of _ net']) simp
qed

theorem relay_safe_witness:
  "\<exists>rel err call net'. Relay 0 context_Background (\<lambda>c. c) StartOk None None None 1 relay_error relaying = Some (Ret (rel, err, call, net')) \<and> relay_reach net'"
  using relay_safe [OF relaying_reach _ relay_error_simps(1,5), of 1 None None None] relaying_facts(6)
  by (simp add: start_ready_def reusable_def)

theorem relay_pending_witness: "relay_canClose (the_conn 0 two_conns) \<and> relay_reach two_conns"
  using relay_pending [OF two_conns_reach, of 0] two_conns_reach
  by (simp add: relayItems_Count_def rl_items_simps(4,5) [symmetric]) (simp add: rl_items_simps newRelayItems_def NewRelayer_def)

theorem relay_end_once_witness: "relay_reach relaying \<and> ends 0 (rn_log relaying) \<le> 1"
  using relay_end_once [OF relaying_reach] relaying_facts(4) relaying_reach by (metis le_numeral_extra(4) list.set_intros(1) zero_le)

theorem relay_ttl_bounds_witness:
  "\<exists>cr' t. lazyReq_SetTTL (validateRelayMaxTimeout (-1)) (lazyCallReq_of relay_request) = Ret cr' \<and> lazyReq_TTL cr' = Ret t \<and> 0 < t"
  using relay_ttl_bounds [of "lazyCallReq_of relay_request" "-1"] relay_request_simps(1) by (auto simp: lazyCallReq_of_def)

end
