(* ===== verification/Peer_Heap.thy ===== *)
theory Peer_Heap
  imports Go_Prelude "HOL-Library.Multiset" "HOL-Library.Product_Lexorder"
begin

text \<open>
  The heap of peers of \<^verbatim>\<open>peer_heap.go\<close> and the routines of \<^verbatim>\<open>container/heap\<close> that it is used with. A \<^verbatim>\<open>peerScore\<close> is shared
  between the heap and the map of its peer list, so it is an address into \<open>hs_scores\<close>; it knows its index in the heap, which
  every swap has to keep up to date. An index that is out of range panics. The random numbers of \<^verbatim>\<open>math/rand\<close> are drawn from a
  sequence \<open>rand\<close>.
\<close>

section \<open>The heap\<close>

record peerScore =
  ps_Peer :: nat
  ps_score :: uint64
  ps_index :: int
  ps_order :: uint64

record peerHeap =
  hs_scores :: "peerScore list"
  ph_peerScores :: "nat list"
  ph_order :: uint64
  ph_draws :: nat

definition newPeerHeap :: peerHeap where
  "newPeerHeap = \<lparr>hs_scores = [], ph_peerScores = [], ph_order = 0, ph_draws = 0\<rparr>"

definition rng_Intn :: "(nat \<Rightarrow> nat) \<Rightarrow> nat \<Rightarrow> peerHeap \<Rightarrow> (nat \<times> peerHeap) go" where
  "rng_Intn rand n ph = (if n = 0 then Panic else Ret (rand (ph_draws ph) mod n, ph\<lparr>ph_draws := ph_draws ph + 1\<rparr>))"

definition ph_Len :: "peerHeap \<Rightarrow> nat" where
  "ph_Len ph = length (ph_peerScores ph)"

abbreviation score_at :: "nat \<Rightarrow> peerHeap \<Rightarrow> peerScore" where
  "score_at a ph \<equiv> hs_scores ph ! a"

definition set_score :: "nat \<Rightarrow> peerScore \<Rightarrow> peerHeap \<Rightarrow> peerHeap" where
  "set_score a ps ph = ph\<lparr>hs_scores := (hs_scores ph)[a := ps]\<rparr>"

definition ph_Less :: "nat \<Rightarrow> nat \<Rightarrow> peerHeap \<Rightarrow> bool go" where
  "ph_Less i j ph =
     (if i < ph_Len ph \<and> j < ph_Len ph then
        (let a = score_at (ph_peerScores ph ! i) ph; b = score_at (ph_peerScores ph ! j) ph
         in Ret (if ps_score a = ps_score b then ps_order a < ps_order b else ps_score a < ps_score b))
      else Panic)"

definition set_index :: "nat \<Rightarrow> int \<Rightarrow> peerHeap \<Rightarrow> peerHeap" where
  "set_index a i ph = set_score a ((score_at a ph)\<lparr>ps_index := i\<rparr>) ph"

definition ph_Swap :: "nat \<Rightarrow> nat \<Rightarrow> peerHeap \<Rightarrow> peerHeap go" where
  "ph_Swap i j ph =
     (if i < ph_Len ph \<and> j < ph_Len ph then
        (let a = ph_peerScores ph ! i; b = ph_peerScores ph ! j;
             ph1 = ph\<lparr>ph_peerScores := (ph_peerScores ph)[i := b, j := a]\<rparr>
         in Ret (set_index (ph_peerScores ph1 ! j) (int j) (set_index (ph_peerScores ph1 ! i) (int i) ph1)))
      else Panic)"

definition ph_Push :: "nat \<Rightarrow> peerHeap \<Rightarrow> peerHeap" where
  "ph_Push a ph = (set_index a (int (ph_Len ph)) ph)\<lparr>ph_peerScores := ph_peerScores ph @ [a]\<rparr>"

definition ph_Pop :: "peerHeap \<Rightarrow> (nat \<times> peerHeap) go" where
  "ph_Pop ph =
     (if ph_Len ph = 0 then Panic
      else (let a = last (ph_peerScores ph) in Ret (a, (set_index a (-1) ph)\<lparr>ph_peerScores := butlast (ph_peerScores ph)\<rparr>)))"

section \<open>\<^verbatim>\<open>container/heap\<close>\<close>

function heap_up :: "nat \<Rightarrow> peerHeap \<Rightarrow> peerHeap go" where
  "heap_up j ph =
     (if j = 0 then Ret ph
      else
        (case ph_Less j ((j - 1) div 2) ph of
           Panic \<Rightarrow> Panic
         | Ret lt \<Rightarrow>
             if \<not> lt then Ret ph
             else (case ph_Swap ((j - 1) div 2) j ph of Panic \<Rightarrow> Panic | Ret ph' \<Rightarrow> heap_up ((j - 1) div 2) ph')))"
  by auto
termination by (relation "measure fst") auto

text \<open>Where the element ends up, and the heap.\<close>

function heap_down :: "nat \<Rightarrow> nat \<Rightarrow> peerHeap \<Rightarrow> (nat \<times> peerHeap) go" where
  "heap_down i n ph =
     (if 2 * i + 1 \<ge> n then Ret (i, ph)
      else
        (case (if 2 * i + 2 < n then ph_Less (2 * i + 2) (2 * i + 1) ph else Ret False) of
           Panic \<Rightarrow> Panic
         | Ret right \<Rightarrow>
             (let j = (if right then 2 * i + 2 else 2 * i + 1)
              in case ph_Less j i ph of
                   Panic \<Rightarrow> Panic
                 | Ret lt \<Rightarrow>
                     if \<not> lt then Ret (i, ph)
                     else (case ph_Swap i j ph of Panic \<Rightarrow> Panic | Ret ph' \<Rightarrow> heap_down j n ph'))))"
  by auto
termination by (relation "measure (\<lambda>(i, n, ph). n - i)") auto

declare heap_up.simps [simp del] heap_down.simps [simp del]

definition heap_down_up :: "nat \<Rightarrow> nat \<Rightarrow> peerHeap \<Rightarrow> peerHeap go" where
  "heap_down_up i n ph = go_bind (heap_down i n ph) (\<lambda>(i', ph'). if i' > i then Ret ph' else heap_up i ph')"

definition heap_Push :: "nat \<Rightarrow> peerHeap \<Rightarrow> peerHeap go" where
  "heap_Push a ph = (let ph1 = ph_Push a ph in heap_up (ph_Len ph1 - 1) ph1)"

definition heap_Pop :: "peerHeap \<Rightarrow> (nat \<times> peerHeap) go" where
  "heap_Pop ph =
     (if ph_Len ph = 0 then Panic
      else
        (let n = ph_Len ph - 1
         in go_bind (ph_Swap 0 n ph) (\<lambda>ph1. go_bind (heap_down 0 n ph1) (\<lambda>(_, ph2). ph_Pop ph2))))"

text \<open>The index of an element that is not in the heap is -1: removing it panics, and fixing it does nothing.\<close>

definition heap_Remove :: "int \<Rightarrow> peerHeap \<Rightarrow> (nat \<times> peerHeap) go" where
  "heap_Remove i ph =
     (if i < 0 \<or> ph_Len ph = 0 then Panic
      else
        (let n = ph_Len ph - 1
         in go_bind (if n \<noteq> nat i then go_bind (ph_Swap (nat i) n ph) (heap_down_up (nat i) n) else Ret ph) ph_Pop))"

definition heap_Fix :: "int \<Rightarrow> peerHeap \<Rightarrow> peerHeap go" where
  "heap_Fix i ph = (if i < 0 then Ret ph else heap_down_up (nat i) (ph_Len ph) ph)"

section \<open>The operations of \<^verbatim>\<open>peer_heap.go\<close>\<close>

definition ph_updatePeer :: "nat \<Rightarrow> peerHeap \<Rightarrow> peerHeap go" where
  "ph_updatePeer a ph = heap_Fix (ps_index (score_at a ph)) ph"

definition ph_removePeer :: "nat \<Rightarrow> peerHeap \<Rightarrow> peerHeap go" where
  "ph_removePeer a ph = go_bind (heap_Remove (ps_index (score_at a ph)) ph) (\<lambda>(_, ph'). Ret ph')"

definition ph_popPeer :: "peerHeap \<Rightarrow> (nat \<times> peerHeap) go" where
  "ph_popPeer ph = heap_Pop ph"

definition ph_pushPeer :: "(nat \<Rightarrow> nat) \<Rightarrow> nat \<Rightarrow> peerHeap \<Rightarrow> peerHeap go" where
  "ph_pushPeer rand a ph0 =
     (let ph1 = ph0\<lparr>ph_order := ph_order ph0 + 1\<rparr>;
          newOrder = ph_order ph1;
          randRange = ph_Len ph1 div 2 + 1
      in go_bind (rng_Intn rand randRange ph1) (\<lambda>(r, ph2).
           heap_Push a (set_score a ((score_at a ph2)\<lparr>ps_order := newOrder + of_nat r\<rparr>) ph2)))"

definition ph_swapOrder :: "nat \<Rightarrow> nat \<Rightarrow> peerHeap \<Rightarrow> peerHeap go" where
  "ph_swapOrder i j ph =
     (if i = j then Ret ph
      else if i < ph_Len ph \<and> j < ph_Len ph then
        (let a = ph_peerScores ph ! i; b = ph_peerScores ph ! j;
             x = ps_order (score_at a ph); y = ps_order (score_at b ph);
             ph1 = set_score a ((score_at a ph)\<lparr>ps_order := y\<rparr>) ph;
             ph2 = set_score b ((score_at b ph1)\<lparr>ps_order := x\<rparr>) ph1
         in go_bind (heap_Fix (int i) ph2) (heap_Fix (int j)))
      else Panic)"

definition ph_addPeer :: "(nat \<Rightarrow> nat) \<Rightarrow> nat \<Rightarrow> peerHeap \<Rightarrow> peerHeap go" where
  "ph_addPeer rand a ph =
     go_bind (ph_pushPeer rand a ph) (\<lambda>ph1.
       go_bind (rng_Intn rand (ph_Len ph1) ph1) (\<lambda>(r, ph2).
         if ps_index (score_at a ph2) < 0 then Panic else ph_swapOrder (nat (ps_index (score_at a ph2))) r ph2))"

definition ph_peek :: "peerHeap \<Rightarrow> nat go" where
  "ph_peek ph = (if ph_Len ph = 0 then Panic else Ret (hd (ph_peerScores ph)))"

section \<open>Heap order\<close>

text \<open>
  The order of a binary heap on the first \<open>n\<close> elements of a list, everywhere, and everywhere but around an index \<open>i\<close> whose
  element may be too large for its children, too small for its parent, or either.
\<close>

definition heap_ordered :: "('a \<Rightarrow> 'k :: linorder) \<Rightarrow> nat \<Rightarrow> 'a list \<Rightarrow> bool" where
  "heap_ordered k n xs \<longleftrightarrow> (\<forall>x < n. 0 < x \<longrightarrow> k (xs ! ((x - 1) div 2)) \<le> k (xs ! x))"

definition grand_ordered :: "('a \<Rightarrow> 'k :: linorder) \<Rightarrow> nat \<Rightarrow> nat \<Rightarrow> 'a list \<Rightarrow> bool" where
  "grand_ordered k i n xs \<longleftrightarrow> (\<forall>x < n. 0 < x \<and> (x - 1) div 2 = i \<and> 0 < i \<longrightarrow> k (xs ! ((i - 1) div 2)) \<le> k (xs ! x))"

definition ordered_below :: "('a \<Rightarrow> 'k :: linorder) \<Rightarrow> nat \<Rightarrow> nat \<Rightarrow> 'a list \<Rightarrow> bool" where
  "ordered_below k i n xs \<longleftrightarrow>
     (\<forall>x < n. 0 < x \<and> (x - 1) div 2 \<noteq> i \<longrightarrow> k (xs ! ((x - 1) div 2)) \<le> k (xs ! x)) \<and> grand_ordered k i n xs"

definition ordered_above :: "('a \<Rightarrow> 'k :: linorder) \<Rightarrow> nat \<Rightarrow> nat \<Rightarrow> 'a list \<Rightarrow> bool" where
  "ordered_above k i n xs \<longleftrightarrow>
     (\<forall>x < n. 0 < x \<and> x \<noteq> i \<longrightarrow> k (xs ! ((x - 1) div 2)) \<le> k (xs ! x)) \<and> grand_ordered k i n xs"

definition ordered_around :: "('a \<Rightarrow> 'k :: linorder) \<Rightarrow> nat \<Rightarrow> nat \<Rightarrow> 'a list \<Rightarrow> bool" where
  "ordered_around k i n xs \<longleftrightarrow>
     (\<forall>x < n. 0 < x \<and> x \<noteq> i \<and> (x - 1) div 2 \<noteq> i \<longrightarrow> k (xs ! ((x - 1) div 2)) \<le> k (xs ! x)) \<and> grand_ordered k i n xs"

definition swapped :: "nat \<Rightarrow> nat \<Rightarrow> 'a list \<Rightarrow> 'a list" where
  "swapped i j xs = xs[i := xs ! j, j := xs ! i]"

lemma swapped_length [simp]: "length (swapped i j xs) = length xs"
  by (simp add: swapped_def)

lemma swapped_nth:
  assumes "i < length xs" and "j < length xs" and "x < length xs"
  shows "swapped i j xs ! x = (if x = i then xs ! j else if x = j then xs ! i else xs ! x)"
  using assms by (auto simp: swapped_def nth_list_update)

lemma swapped_mset [simp]: "i < length xs \<Longrightarrow> j < length xs \<Longrightarrow> mset (swapped i j xs) = mset xs"
  unfolding swapped_def by (metis mset_swap)

lemma parent_less:
  assumes "0 < (x :: nat)"
  shows "(x - 1) div 2 < x"
  using div_le_dividend [of "x - 1" 2] assms by linarith

lemma child_cases:
  fixes x i :: nat
  assumes "(x - 1) div 2 = i" and "0 < x"
  obtains "x = 2 * i + 1" | "x = 2 * i + 2"
proof -
  from assms have "x = 2 * i + 1 \<or> x = 2 * i + 2" by presburger
  with that show thesis by blast
qed

lemma ordered_belowD:
  assumes "ordered_below k i n xs" and "x < n" and "0 < x" and "(x - 1) div 2 \<noteq> i"
  shows "k (xs ! ((x - 1) div 2)) \<le> k (xs ! x)"
  using assms unfolding ordered_below_def by blast

lemma grand_orderedD:
  assumes "grand_ordered k i n xs" and "x < n" and "0 < x" and "(x - 1) div 2 = i" and "0 < i"
  shows "k (xs ! ((i - 1) div 2)) \<le> k (xs ! x)"
  using assms unfolding grand_ordered_def by blast

lemma below_step:
  assumes below: "ordered_below k i n xs" and n: "n \<le> length xs"
    and j: "(j - 1) div 2 = i" "0 < j" "j < n"
    and least: "\<And>x. x < n \<Longrightarrow> 0 < x \<Longrightarrow> (x - 1) div 2 = i \<Longrightarrow> k (xs ! j) \<le> k (xs ! x)"
    and less: "k (xs ! j) < k (xs ! i)"
  shows "ordered_below k j n (swapped i j xs)"
proof -
  have ij: "i < j" "i < n" using j parent_less [OF j(2)] by simp_all
  have nth: "swapped i j xs ! x = (if x = i then xs ! j else if x = j then xs ! i else xs ! x)" if "x < n" for x
    using that ij j n by (intro swapped_nth) simp_all
  have grand: "grand_ordered k i n xs" using below by (simp add: ordered_below_def)
  have 1: "k (swapped i j xs ! ((x - 1) div 2)) \<le> k (swapped i j xs ! x)"
    if x: "x < n" "0 < x" "(x - 1) div 2 \<noteq> j" for x
  proof -
    have px: "(x - 1) div 2 < x" "(x - 1) div 2 < n" using x parent_less [OF x(2)] by linarith+
    show ?thesis
    proof (cases "(x - 1) div 2 = i")
      case True
      then show ?thesis using px x ij least [OF x(1,2) True] less by (auto simp: nth)
    next
      case False
      note le = ordered_belowD [OF below x(1,2) False]
      show ?thesis
      proof (cases "x = i")
        case True
        with grand_orderedD [OF grand j(3,2,1)] x px ij show ?thesis by (auto simp: nth)
      next
        case ne: False
        have "x \<noteq> j" using False j by blast
        with ne False x px le show ?thesis by (auto simp: nth)
      qed
    qed
  qed
  have 2: "grand_ordered k j n (swapped i j xs)"
    unfolding grand_ordered_def
  proof (intro allI impI)
    fix x assume x: "x < n" "0 < x \<and> (x - 1) div 2 = j \<and> 0 < j"
    then have "j < x" "(x - 1) div 2 \<noteq> i" using ij parent_less [of x] by auto
    with ordered_belowD [OF below x(1), of] x ij j show "k (swapped i j xs ! ((j - 1) div 2)) \<le> k (swapped i j xs ! x)"
      by (auto simp: nth)
  qed
  from 1 2 show ?thesis by (auto simp: ordered_below_def)
qed

lemma below_stop:
  assumes "ordered_below k i n xs"
    and "\<And>x. x < n \<Longrightarrow> 0 < x \<Longrightarrow> (x - 1) div 2 = i \<Longrightarrow> k (xs ! i) \<le> k (xs ! x)"
  shows "heap_ordered k n xs"
  using assms unfolding heap_ordered_def ordered_below_def by blast

lemma above_step:
  assumes above: "ordered_above k j n xs" and n: "n \<le> length xs" and j: "0 < j" "j < n"
    and less: "k (xs ! j) < k (xs ! ((j - 1) div 2))"
  shows "ordered_above k ((j - 1) div 2) n (swapped ((j - 1) div 2) j xs)"
proof -
  define i where "i = (j - 1) div 2"
  have lt: "k (xs ! j) < k (xs ! i)" using less by (simp add: i_def)
  have ij: "i < j" "i < n" using j parent_less [OF j(1)] by (simp_all add: i_def)
  have nth: "swapped i j xs ! x = (if x = i then xs ! j else if x = j then xs ! i else xs ! x)" if "x < n" for x
    using that ij j n by (intro swapped_nth) simp_all
  have old: "k (xs ! ((x - 1) div 2)) \<le> k (xs ! x)" if "x < n" "0 < x" "x \<noteq> j" for x
    using above that by (simp add: ordered_above_def)
  have grand: "grand_ordered k j n xs" using above by (simp add: ordered_above_def)
  have "k (swapped i j xs ! ((x - 1) div 2)) \<le> k (swapped i j xs ! x)"
    if x: "x < n" "0 < x" "x \<noteq> i" for x
  proof -
    have px: "(x - 1) div 2 < x" "(x - 1) div 2 < n" using x parent_less [OF x(2)] by linarith+
    consider "x = j" | "x \<noteq> j" "(x - 1) div 2 = i" | "x \<noteq> j" "(x - 1) div 2 = j" | "x \<noteq> j" "(x - 1) div 2 \<noteq> i" "(x - 1) div 2 \<noteq> j"
      by blast
    then show ?thesis
    proof cases
      case 1
      then have "(x - 1) div 2 = i" by (simp add: i_def)
      then show ?thesis using 1 lt x ij by (simp add: nth)
    next
      case 2
      then show ?thesis using lt old [OF x(1,2)] x ij by (simp add: nth)
    next
      case 3
      then have "k (xs ! i) \<le> k (xs ! x)" using grand_orderedD [OF grand x(1,2)] j by (simp add: i_def)
      then show ?thesis using 3 x ij j by (simp add: nth)
    next
      case 4
      then show ?thesis using old [OF x(1,2)] x px by (simp add: nth)
    qed
  qed
  moreover have "grand_ordered k i n (swapped i j xs)"
    unfolding grand_ordered_def
  proof (intro allI impI)
    fix x assume x: "x < n" "0 < x \<and> (x - 1) div 2 = i \<and> 0 < i"
    have pi: "(i - 1) div 2 < i" "(i - 1) div 2 < n" using x ij parent_less [of i] by linarith+
    have le: "k (xs ! ((i - 1) div 2)) \<le> k (xs ! i)" using old [of i] x ij by simp
    show "k (swapped i j xs ! ((i - 1) div 2)) \<le> k (swapped i j xs ! x)"
    proof (cases "x = j")
      case True
      then show ?thesis using le pi ij x by (simp add: nth)
    next
      case False
      have "x \<noteq> i" using x parent_less [of x] by auto
      then show ?thesis using le old [of x] False pi ij x by (auto simp: nth)
    qed
  qed
  ultimately show ?thesis by (simp add: ordered_above_def i_def)
qed

lemma above_stop:
  assumes "ordered_above k j n xs" and "j = 0 \<or> k (xs ! ((j - 1) div 2)) \<le> k (xs ! j)"
  shows "heap_ordered k n xs"
  using assms unfolding heap_ordered_def ordered_above_def by blast

lemma around_below:
  assumes around: "ordered_around k i n xs"
    and x: "x < n" "0 < x" "(x - 1) div 2 = i" and less: "k (xs ! x) < k (xs ! i)"
  shows "ordered_below k i n xs"
  unfolding ordered_below_def
proof (intro conjI allI impI)
  show grand: "grand_ordered k i n xs" using around by (simp add: ordered_around_def)
  fix y assume y: "y < n" "0 < y \<and> (y - 1) div 2 \<noteq> i"
  show "k (xs ! ((y - 1) div 2)) \<le> k (xs ! y)"
  proof (cases "y = i")
    case True
    then show ?thesis using grand_orderedD [OF grand x] y less by simp
  next
    case False
    then show ?thesis using around y by (simp add: ordered_around_def)
  qed
qed

lemma around_above:
  assumes "ordered_around k i n xs"
    and "\<And>x. x < n \<Longrightarrow> 0 < x \<Longrightarrow> (x - 1) div 2 = i \<Longrightarrow> k (xs ! i) \<le> k (xs ! x)"
  shows "ordered_above k i n xs"
  using assms unfolding ordered_above_def ordered_around_def by blast

section \<open>The heap operations\<close>

definition heap_key :: "peerHeap \<Rightarrow> nat \<Rightarrow> uint64 \<times> uint64" where
  "heap_key ph a = (ps_score (score_at a ph), ps_order (score_at a ph))"

text \<open>Every element of the heap is a score and is in it once, and knows its index.\<close>

definition indexed :: "peerHeap \<Rightarrow> bool" where
  "indexed ph \<longleftrightarrow>
     distinct (ph_peerScores ph) \<and>
     (\<forall>x < ph_Len ph. ph_peerScores ph ! x < length (hs_scores ph) \<and> ps_index (score_at (ph_peerScores ph ! x) ph) = int x)"

definition heap_wf :: "peerHeap \<Rightarrow> bool" where
  "heap_wf ph \<longleftrightarrow> indexed ph \<and> heap_ordered (heap_key ph) (ph_Len ph) (ph_peerScores ph)"

text \<open>What moving elements about leaves alone: all but the indexes, and all of the scores outside the heap.\<close>

definition moved :: "peerHeap \<Rightarrow> peerHeap \<Rightarrow> bool" where
  "moved ph ph' \<longleftrightarrow>
     length (hs_scores ph') = length (hs_scores ph) \<and>
     (\<forall>a. (score_at a ph')\<lparr>ps_index := 0\<rparr> = (score_at a ph)\<lparr>ps_index := 0\<rparr>) \<and>
     (\<forall>a. a \<notin> set (ph_peerScores ph) \<longrightarrow> score_at a ph' = score_at a ph) \<and>
     ph_order ph' = ph_order ph \<and> ph_draws ph' = ph_draws ph \<and> mset (ph_peerScores ph') = mset (ph_peerScores ph)"

lemma moved_refl [simp]: "moved ph ph"
  by (simp add: moved_def)

lemma moved_trans:
  assumes "moved ph ph1" and "moved ph1 ph2"
  shows "moved ph ph2"
proof -
  have "set (ph_peerScores ph1) = set (ph_peerScores ph)" using assms(1) mset_eq_setD by (auto simp: moved_def)
  with assms show ?thesis by (simp add: moved_def)
qed

lemma movedD:
  assumes "moved ph ph'"
  shows moved_length: "length (hs_scores ph') = length (hs_scores ph)"
    and moved_Len: "ph_Len ph' = ph_Len ph"
    and moved_set: "set (ph_peerScores ph') = set (ph_peerScores ph)"
    and moved_key: "heap_key ph' = heap_key ph"
    and moved_Peer: "ps_Peer (score_at a ph') = ps_Peer (score_at a ph)"
    and moved_score: "ps_score (score_at a ph') = ps_score (score_at a ph)"
    and moved_outside: "a \<notin> set (ph_peerScores ph) \<Longrightarrow> score_at a ph' = score_at a ph"
proof -
  note m = assms [unfolded moved_def]
  have at: "(score_at a ph')\<lparr>ps_index := 0\<rparr> = (score_at a ph)\<lparr>ps_index := 0\<rparr>" for a using m by blast
  have eq: "ps_Peer (score_at a ph') = ps_Peer (score_at a ph)" "ps_score (score_at a ph') = ps_score (score_at a ph)"
    "ps_order (score_at a ph') = ps_order (score_at a ph)" for a
    using arg_cong [OF at, of ps_Peer a] arg_cong [OF at, of ps_score a] arg_cong [OF at, of ps_order a] by simp_all
  show "length (hs_scores ph') = length (hs_scores ph)" using m by simp
  show "ph_Len ph' = ph_Len ph" using m mset_eq_length unfolding ph_Len_def by blast
  show "set (ph_peerScores ph') = set (ph_peerScores ph)" using m mset_eq_setD by blast
  show "heap_key ph' = heap_key ph" by (simp add: heap_key_def eq fun_eq_iff)
  show "ps_Peer (score_at a ph') = ps_Peer (score_at a ph)" "ps_score (score_at a ph') = ps_score (score_at a ph)"
    by (fact eq)+
  show "a \<notin> set (ph_peerScores ph) \<Longrightarrow> score_at a ph' = score_at a ph" using m by blast
qed

lemma indexedD:
  assumes "indexed ph" and "x < ph_Len ph"
  shows "ph_peerScores ph ! x < length (hs_scores ph)" and "ps_index (score_at (ph_peerScores ph ! x) ph) = int x"
  using assms by (simp_all add: indexed_def)

lemma ph_Less_key:
  assumes "i < ph_Len ph" and "j < ph_Len ph"
  shows "ph_Less i j ph = Ret (heap_key ph (ph_peerScores ph ! i) < heap_key ph (ph_peerScores ph ! j))"
  using assms by (auto simp: ph_Less_def heap_key_def Let_def)

lemma score_at_set_index:
  "score_at b (set_index a i ph) =
     (if b = a \<and> a < length (hs_scores ph) then (score_at a ph)\<lparr>ps_index := i\<rparr> else score_at b ph)"
  by (cases "a < length (hs_scores ph)") (auto simp: set_index_def set_score_def nth_list_update list_update_beyond)

lemma set_index_simps [simp]:
  "length (hs_scores (set_index a i ph)) = length (hs_scores ph)"
  "ph_peerScores (set_index a i ph) = ph_peerScores ph"
  "ph_order (set_index a i ph) = ph_order ph"
  "ph_draws (set_index a i ph) = ph_draws ph"
  "ph_Len (set_index a i ph) = ph_Len ph"
  by (simp_all add: set_index_def set_score_def ph_Len_def)

lemma ph_Swap_ok:
  assumes ix: "indexed ph" and i: "i < ph_Len ph" and j: "j < ph_Len ph"
  obtains ph' where "ph_Swap i j ph = Ret ph'" and "indexed ph'" and "moved ph ph'"
    and "ph_peerScores ph' = swapped i j (ph_peerScores ph)"
proof -
  define xs where "xs = ph_peerScores ph"
  define ph1 where "ph1 = ph\<lparr>ph_peerScores := swapped i j xs\<rparr>"
  define ph' where "ph' = set_index (xs ! i) (int j) (set_index (xs ! j) (int i) ph1)"
  have len: "i < length xs" "j < length xs" using i j by (simp_all add: ph_Len_def xs_def)
  note nth = swapped_nth [OF len]
  have eq: "ph_Swap i j ph = Ret ph'"
    using i j len nth [OF len(1)] nth [OF len(2)]
    by (auto simp: ph_Swap_def Let_def ph'_def ph1_def xs_def [symmetric] swapped_def)
  have dist: "distinct xs" using ix by (simp add: indexed_def xs_def)
  have ok: "xs ! x < length (hs_scores ph)" "ps_index (score_at (xs ! x) ph) = int x" if "x < length xs" for x
    using indexedD [OF ix, of x] that by (simp_all add: xs_def ph_Len_def)
  have ps: "ph_peerScores ph' = swapped i j xs" by (simp add: ph'_def ph1_def)
  have mset: "mset (swapped i j xs) = mset xs" using len by simp
  have at: "score_at b ph' = (if b = xs ! i then (score_at b ph)\<lparr>ps_index := int j\<rparr>
      else if b = xs ! j then (score_at b ph)\<lparr>ps_index := int i\<rparr> else score_at b ph)" for b
    using ok(1) [OF len(1)] ok(1) [OF len(2)]
    by (auto simp: ph'_def ph1_def score_at_set_index)
  have "moved ph ph'"
    unfolding moved_def using len mset
    by (auto simp: at ps xs_def [symmetric]) (simp_all add: ph'_def ph1_def)
  moreover have "indexed ph'"
    unfolding indexed_def
  proof (intro conjI allI impI)
    show "distinct (ph_peerScores ph')" using dist mset ps mset_eq_imp_distinct_iff by metis
    fix x assume "x < ph_Len ph'"
    then have x: "x < length xs" by (simp add: ph_Len_def ps)
    have l: "length (hs_scores ph') = length (hs_scores ph)" by (simp add: ph'_def ph1_def)
    show "ph_peerScores ph' ! x < length (hs_scores ph')"
      unfolding ps l nth [OF x] using ok(1) x len by auto
    show "ps_index (score_at (ph_peerScores ph' ! x) ph') = int x"
      unfolding ps nth [OF x] at using ok(2) x len dist by (auto simp: nth_eq_iff_index_eq)
  qed
  ultimately show thesis using that [OF eq] ps by (simp add: xs_def)
qed

abbreviation key_at :: "peerHeap \<Rightarrow> nat \<Rightarrow> uint64 \<times> uint64" where
  "key_at ph x \<equiv> heap_key ph (ph_peerScores ph ! x)"

text \<open>Elements have only been moved among the first \<open>n\<close>, and the result of a call that does so.\<close>

definition settled :: "nat \<Rightarrow> peerHeap \<Rightarrow> peerHeap \<Rightarrow> bool" where
  "settled n ph ph' \<longleftrightarrow>
     indexed ph' \<and> moved ph ph' \<and> (\<forall>x. n \<le> x \<and> x < ph_Len ph \<longrightarrow> ph_peerScores ph' ! x = ph_peerScores ph ! x)"

abbreviation sorted_to :: "nat \<Rightarrow> peerHeap \<Rightarrow> bool" where
  "sorted_to n ph \<equiv> heap_ordered (heap_key ph) n (ph_peerScores ph)"

lemma settled_refl [simp]: "indexed ph \<Longrightarrow> settled n ph ph"
  by (simp add: settled_def)

lemma settled_trans: "settled n ph ph1 \<Longrightarrow> settled n ph1 ph2 \<Longrightarrow> settled n ph ph2"
proof -
  assume 1: "settled n ph ph1" and 2: "settled n ph1 ph2"
  then have m: "moved ph ph1" "moved ph1 ph2" by (simp_all add: settled_def)
  show ?thesis using 1 2 moved_trans [OF m] moved_Len [OF m(1)] by (simp add: settled_def)
qed

lemma swap_settled:
  assumes ix: "indexed ph" and ij: "i < n" "j < n" and n: "n \<le> ph_Len ph"
  obtains ph1 where "ph_Swap i j ph = Ret ph1" and "settled n ph ph1" and "heap_key ph1 = heap_key ph"
    and "ph_Len ph1 = ph_Len ph" and "indexed ph1" and "ph_peerScores ph1 = swapped i j (ph_peerScores ph)"
proof -
  from ij n have "i < ph_Len ph" "j < ph_Len ph" by simp_all
  from ph_Swap_ok [OF ix this] obtain ph1 where sw: "ph_Swap i j ph = Ret ph1" and ix1: "indexed ph1" and m1: "moved ph ph1"
    and xs1: "ph_peerScores ph1 = swapped i j (ph_peerScores ph)" .
  have "ph_peerScores ph1 ! x = ph_peerScores ph ! x" if "n \<le> x" "x < ph_Len ph" for x
    unfolding xs1 using that ij n by (subst swapped_nth) (auto simp: ph_Len_def)
  then have "settled n ph ph1" using ix1 m1 by (simp add: settled_def)
  from that [OF sw this moved_key [OF m1] moved_Len [OF m1] ix1 xs1] show thesis .
qed

lemma heap_up_ok:
  assumes "indexed ph" and "j < n" and "n \<le> ph_Len ph"
  shows "\<exists>ph'. heap_up j ph = Ret ph' \<and> settled n ph ph' \<and>
           (ordered_above (heap_key ph) j n (ph_peerScores ph) \<longrightarrow> sorted_to n ph')"
  using assms
proof (induction j ph rule: heap_up.induct)
  case (1 j ph)
  let ?i = "(j - 1) div 2"
  note ix = 1(2) and jn = 1(3) and n = 1(4)
  have j: "j < ph_Len ph" using jn n by simp
  show ?case
  proof (cases "j = 0 \<or> \<not> key_at ph j < key_at ph ?i")
    case True
    then have "ordered_above (heap_key ph) j n (ph_peerScores ph) \<longrightarrow> sorted_to n ph"
      using above_stop [of "heap_key ph" j n "ph_peerScores ph"] by (simp add: not_less)
    moreover have "heap_up j ph = Ret ph"
      using True j parent_less [of j] ph_Less_key [of j ph ?i] by (subst heap_up.simps) auto
    ultimately show ?thesis using ix by simp
  next
    case False
    then have lt: "key_at ph j < key_at ph ?i" and j0: "0 < j" by auto
    have i: "?i < ph_Len ph" "?i < n" using j jn parent_less [OF j0] by linarith+
    have less: "ph_Less j ?i ph = Ret True" using ph_Less_key [OF j i(1)] lt by simp
    from swap_settled [OF ix i(2) jn n] obtain ph1 where sw: "ph_Swap ?i j ph = Ret ph1" and s: "settled n ph ph1"
      and k: "heap_key ph1 = heap_key ph" and l: "ph_Len ph1 = ph_Len ph" and ix1: "indexed ph1"
      and xs1: "ph_peerScores ph1 = swapped ?i j (ph_peerScores ph)" .
    have "ordered_above (heap_key ph) j n (ph_peerScores ph) \<longrightarrow> ordered_above (heap_key ph1) ?i n (ph_peerScores ph1)"
      using above_step [OF _ _ j0 jn lt] n unfolding k xs1 by (simp add: ph_Len_def)
    with 1(1) [OF _ less _ sw ix1] j0 i n l
    obtain ph' where "heap_up ?i ph1 = Ret ph'" "settled n ph1 ph'"
      "ordered_above (heap_key ph) j n (ph_peerScores ph) \<longrightarrow> sorted_to n ph'" by auto
    moreover have "heap_up j ph = heap_up ?i ph1" using j0 less sw by (subst heap_up.simps) simp
    ultimately show ?thesis using settled_trans [OF s] by auto
  qed
qed

lemma heap_down_stop:
  assumes n: "n \<le> ph_Len ph"
    and stop: "\<And>x. x < n \<Longrightarrow> 0 < x \<Longrightarrow> (x - 1) div 2 = i \<Longrightarrow> key_at ph i \<le> key_at ph x"
  shows "heap_down i n ph = Ret (i, ph)"
proof (cases "2 * i + 1 \<ge> n")
  case True
  then show ?thesis by (subst heap_down.simps) simp
next
  case False
  have l: "\<not> key_at ph (2 * i + 1) < key_at ph i" using stop [of "2 * i + 1"] False by auto
  have r: "\<not> key_at ph (2 * i + 2) < key_at ph i" if "2 * i + 2 < n" using stop [of "2 * i + 2"] that by auto
  show ?thesis using False n l r
    by (subst heap_down.simps) (auto simp: ph_Less_key simp del: mult_Suc_right)
qed

lemma heap_down_step:
  assumes ix: "indexed ph" and n: "n \<le> ph_Len ph"
    and x: "x < n" "0 < x" "(x - 1) div 2 = i" and lt: "key_at ph x < key_at ph i"
  obtains j ph1 where "heap_down i n ph = heap_down j n ph1" and "i < j" and "j < n"
    and "settled n ph ph1" and "ph_Len ph1 = ph_Len ph" and "indexed ph1"
    and "ordered_below (heap_key ph) i n (ph_peerScores ph) \<longrightarrow> ordered_below (heap_key ph1) j n (ph_peerScores ph1)"
proof -
  define right where "right \<longleftrightarrow> 2 * i + 2 < n \<and> key_at ph (2 * i + 2) < key_at ph (2 * i + 1)"
  define j where "j = (if right then 2 * i + 2 else 2 * i + 1)"
  have ch: "x = 2 * i + 1 \<or> x = 2 * i + 2" using child_cases [OF x(3,2)] by blast
  then have n1: "\<not> 2 * i + 1 \<ge> n" using x by auto
  have j: "j < n" "0 < j" "(j - 1) div 2 = i" "i < n" using n1 by (auto simp: j_def right_def)
  have least: "key_at ph j \<le> key_at ph y" if "y < n" "0 < y" "(y - 1) div 2 = i" for y
    by (rule child_cases [OF that(3,2)]) (use that(1) in \<open>auto simp: j_def right_def not_less\<close>)
  have jlt: "key_at ph j < key_at ph i" using least [OF x] lt by simp
  have less: "ph_Less j i ph = Ret True" using j n jlt by (simp add: ph_Less_key)
  have b: "(if 2 * i + 2 < n then ph_Less (2 * i + 2) (2 * i + 1) ph else Ret False) = Ret right"
    using n n1 by (auto simp: ph_Less_key right_def)
  have ij: "i < j" using parent_less [OF j(2)] j(3) by simp
  from swap_settled [OF ix j(4,1) n] obtain ph1 where sw: "ph_Swap i j ph = Ret ph1" and s: "settled n ph ph1"
    and k: "heap_key ph1 = heap_key ph" and l: "ph_Len ph1 = ph_Len ph" and ix1: "indexed ph1"
    and xs1: "ph_peerScores ph1 = swapped i j (ph_peerScores ph)" .
  have eq: "heap_down i n ph = heap_down j n ph1"
    by (subst heap_down.simps) (simp only: n1 b if_False go.case Let_def j_def [symmetric] less sw not_True_eq_False)
  have "ordered_below (heap_key ph) i n (ph_peerScores ph) \<longrightarrow> ordered_below (heap_key ph1) j n (ph_peerScores ph1)"
    unfolding k xs1 using below_step [OF _ _ j(3,2,1) least jlt] n by (simp add: ph_Len_def)
  from that [OF eq ij j(1) s l ix1 this] show thesis .
qed

lemma heap_down_ok:
  assumes "indexed ph" and "n \<le> ph_Len ph"
  shows "\<exists>i' ph'. heap_down i n ph = Ret (i', ph') \<and> i \<le> i' \<and> settled n ph ph' \<and>
           (ordered_below (heap_key ph) i n (ph_peerScores ph) \<longrightarrow> sorted_to n ph')"
  using assms
proof (induction "n - i" arbitrary: i ph rule: less_induct)
  case (less i ph)
  note ix = less(2) and n = less(3)
  show ?case
  proof (cases "\<exists>x < n. 0 < x \<and> (x - 1) div 2 = i \<and> key_at ph x < key_at ph i")
    case False
    then have stop: "key_at ph i \<le> key_at ph x" if "x < n" "0 < x" "(x - 1) div 2 = i" for x
      using that not_less [of "key_at ph x" "key_at ph i"] by blast
    from heap_down_stop [OF n stop] below_stop [where k = "heap_key ph" and xs = "ph_peerScores ph", OF _ stop] ix show ?thesis by simp
  next
    case True
    then obtain x where x: "x < n" "0 < x" "(x - 1) div 2 = i" "key_at ph x < key_at ph i" by blast
    from heap_down_step [OF ix n x] obtain j ph1 where eq: "heap_down i n ph = heap_down j n ph1" and j: "i < j" "j < n"
      and s: "settled n ph ph1" and l: "ph_Len ph1 = ph_Len ph" and ix1: "indexed ph1"
      and o: "ordered_below (heap_key ph) i n (ph_peerScores ph) \<longrightarrow> ordered_below (heap_key ph1) j n (ph_peerScores ph1)" .
    from less(1) [OF _ ix1, of j] j n l obtain i' ph' where "heap_down j n ph1 = Ret (i', ph')" "j \<le> i'" "settled n ph1 ph'"
      "ordered_below (heap_key ph1) j n (ph_peerScores ph1) \<longrightarrow> sorted_to n ph'" by (auto simp: diff_less_mono2)
    then show ?thesis using eq j o settled_trans [OF s] by auto
  qed
qed

lemma heap_down_up_ok:
  assumes ix: "indexed ph" and i: "i < n" and n: "n \<le> ph_Len ph"
  shows "\<exists>ph'. heap_down_up i n ph = Ret ph' \<and> settled n ph ph' \<and>
           (ordered_around (heap_key ph) i n (ph_peerScores ph) \<longrightarrow> sorted_to n ph')"
proof (cases "\<exists>x < n. 0 < x \<and> (x - 1) div 2 = i \<and> key_at ph x < key_at ph i")
  case False
  then have stop: "key_at ph i \<le> key_at ph x" if "x < n" "0 < x" "(x - 1) div 2 = i" for x
    using that not_less [of "key_at ph x" "key_at ph i"] by blast
  show ?thesis using heap_down_stop [OF n stop] heap_up_ok [OF ix i n] around_above [where k = "heap_key ph" and xs = "ph_peerScores ph", OF _ stop]
    by (auto simp: heap_down_up_def)
next
  case True
  then obtain x where x: "x < n" "0 < x" "(x - 1) div 2 = i" "key_at ph x < key_at ph i" by blast
  from heap_down_step [OF ix n x] obtain j ph1 where eq: "heap_down i n ph = heap_down j n ph1" and j: "i < j" "j < n"
    and s: "settled n ph ph1" and l: "ph_Len ph1 = ph_Len ph" and ix1: "indexed ph1"
    and o: "ordered_below (heap_key ph) i n (ph_peerScores ph) \<longrightarrow> ordered_below (heap_key ph1) j n (ph_peerScores ph1)" .
  from heap_down_ok [OF ix1, of n j] n l obtain i' ph' where d: "heap_down j n ph1 = Ret (i', ph')" "j \<le> i'" "settled n ph1 ph'"
    "ordered_below (heap_key ph1) j n (ph_peerScores ph1) \<longrightarrow> sorted_to n ph'" by auto
  have "ordered_around (heap_key ph) i n (ph_peerScores ph) \<longrightarrow> sorted_to n ph'"
    using around_below [OF _ x] o d(4) by blast
  then show ?thesis using eq d j settled_trans [OF s] by (auto simp: heap_down_up_def)
qed

text \<open>What the operations leave alone: all but the indexes of the scores in \<open>B\<close>.\<close>

definition kept :: "nat set \<Rightarrow> peerHeap \<Rightarrow> peerHeap \<Rightarrow> bool" where
  "kept B ph ph' \<longleftrightarrow>
     length (hs_scores ph') = length (hs_scores ph) \<and>
     (\<forall>a. (score_at a ph')\<lparr>ps_index := 0\<rparr> = (score_at a ph)\<lparr>ps_index := 0\<rparr>) \<and>
     (\<forall>a. a \<notin> B \<longrightarrow> score_at a ph' = score_at a ph) \<and> ph_order ph' = ph_order ph \<and> ph_draws ph' = ph_draws ph"

lemma moved_kept: "moved ph ph' \<Longrightarrow> kept (set (ph_peerScores ph)) ph ph'"
  by (simp add: moved_def kept_def)

lemma kept_refl [simp]: "kept B ph ph"
  by (simp add: kept_def)

lemma kept_trans: "kept B ph ph1 \<Longrightarrow> kept C ph1 ph2 \<Longrightarrow> kept (B \<union> C) ph ph2"
  by (simp add: kept_def)

lemma kept_mono: "kept B ph ph' \<Longrightarrow> B \<subseteq> C \<Longrightarrow> kept C ph ph'"
  unfolding kept_def by blast

lemma keptD:
  assumes "kept B ph ph'"
  shows kept_length: "length (hs_scores ph') = length (hs_scores ph)"
    and kept_key: "heap_key ph' = heap_key ph"
    and kept_Peer: "ps_Peer (score_at a ph') = ps_Peer (score_at a ph)"
    and kept_outside: "a \<notin> B \<Longrightarrow> score_at a ph' = score_at a ph"
proof -
  note m = assms [unfolded kept_def]
  have at: "(score_at a ph')\<lparr>ps_index := 0\<rparr> = (score_at a ph)\<lparr>ps_index := 0\<rparr>" for a using m by blast
  have eq: "ps_Peer (score_at a ph') = ps_Peer (score_at a ph)" "ps_score (score_at a ph') = ps_score (score_at a ph)"
    "ps_order (score_at a ph') = ps_order (score_at a ph)" for a
    using arg_cong [OF at, of ps_Peer a] arg_cong [OF at, of ps_score a] arg_cong [OF at, of ps_order a] by simp_all
  show "length (hs_scores ph') = length (hs_scores ph)" using m by simp
  show "heap_key ph' = heap_key ph" by (simp add: heap_key_def eq fun_eq_iff)
  show "ps_Peer (score_at a ph') = ps_Peer (score_at a ph)" by (fact eq)
  show "a \<notin> B \<Longrightarrow> score_at a ph' = score_at a ph" using m by blast
qed

lemma heap_ordered_cong:
  assumes "\<And>x. x < n \<Longrightarrow> k' (ys ! x) = k (xs ! x)"
  shows "heap_ordered k' n ys = heap_ordered k n xs"
proof -
  have "k' (ys ! ((x - 1) div 2)) = k (xs ! ((x - 1) div 2))" if "x < n" "0 < x" for x
    using assms [of "(x - 1) div 2"] parent_less [OF that(2)] that(1) by simp
  with assms show ?thesis unfolding heap_ordered_def by auto
qed

lemma heap_ordered_min:
  assumes "heap_ordered k n xs"
  shows "x < n \<Longrightarrow> k (xs ! 0) \<le> k (xs ! x)"
proof (induction x rule: less_induct)
  case (less x)
  show ?case
  proof (cases "x = 0")
    case False
    then have "k (xs ! 0) \<le> k (xs ! ((x - 1) div 2))" using less parent_less [of x] by simp
    also have "\<dots> \<le> k (xs ! x)" using assms less False by (simp add: heap_ordered_def)
    finally show ?thesis .
  qed simp
qed

lemma heap_Push_ok:
  assumes ix: "indexed ph" and a: "a \<notin> set (ph_peerScores ph)" "a < length (hs_scores ph)"
  obtains ph' where "heap_Push a ph = Ret ph'" and "indexed ph'" and "heap_wf ph \<longrightarrow> heap_wf ph'" and "kept (insert a (set (ph_peerScores ph))) ph ph'"
    and "mset (ph_peerScores ph') = add_mset a (mset (ph_peerScores ph))"
proof -
  define ph1 where "ph1 = ph_Push a ph"
  let ?n = "ph_Len ph"
  have xs1: "ph_peerScores ph1 = ph_peerScores ph @ [a]" and l1: "ph_Len ph1 = Suc ?n"
    by (simp_all add: ph1_def ph_Push_def ph_Len_def)
  have at: "score_at b ph1 = (if b = a then (score_at a ph)\<lparr>ps_index := int ?n\<rparr> else score_at b ph)" for b
    using a by (simp add: ph1_def ph_Push_def score_at_set_index)
  have k1: "kept {a} ph ph1" unfolding kept_def at by (simp add: ph1_def ph_Push_def)
  have nth: "ph_peerScores ph1 ! x = ph_peerScores ph ! x" "ph_peerScores ph ! x \<noteq> a" if "x < ?n" for x
    using that a nth_mem [of x "ph_peerScores ph"] by (auto simp: xs1 nth_append ph_Len_def)
  have last: "ph_peerScores ph1 ! ?n = a" by (simp add: xs1 nth_append ph_Len_def)
  have old: "ph_peerScores ph1 ! x < length (hs_scores ph1) \<and> ps_index (score_at (ph_peerScores ph1 ! x) ph1) = int x"
    if "x < ?n" for x using nth [OF that] indexedD [OF ix that] kept_length [OF k1] by (simp add: at)
  have new: "a < length (hs_scores ph1) \<and> ps_index (score_at a ph1) = int ?n" using a kept_length [OF k1] by (simp add: at)
  have "distinct (ph_peerScores ph1)" using ix a by (simp add: xs1 indexed_def)
  then have ix1: "indexed ph1" unfolding indexed_def l1 less_Suc_eq using old new last by blast
  have "ordered_above (heap_key ph1) ?n (Suc ?n) (ph_peerScores ph1)" if hp: "sorted_to ?n ph"
    unfolding ordered_above_def grand_ordered_def
  proof (intro conjI allI impI)
    fix x assume x: "x < Suc ?n" "0 < x \<and> x \<noteq> ?n"
    then show "heap_key ph1 (ph_peerScores ph1 ! ((x - 1) div 2)) \<le> heap_key ph1 (ph_peerScores ph1 ! x)"
      using hp nth [of x] nth [of "(x - 1) div 2"] parent_less [of x] kept_key [OF k1] by (simp add: heap_ordered_def)
  next
    fix x assume "x < Suc ?n" "0 < x \<and> (x - 1) div 2 = ?n \<and> 0 < ?n"
    then show "heap_key ph1 (ph_peerScores ph1 ! ((?n - 1) div 2)) \<le> heap_key ph1 (ph_peerScores ph1 ! x)"
      using parent_less [of x] by linarith
  qed
  with heap_up_ok [OF ix1, of ?n "Suc ?n"] l1
  obtain ph' where up: "heap_up ?n ph1 = Ret ph'" and s: "settled (Suc ?n) ph1 ph'"
    and o: "sorted_to ?n ph \<Longrightarrow> sorted_to (Suc ?n) ph'" by auto
  have w: "indexed ph'" "moved ph1 ph'" using s by (simp_all add: settled_def)
  have wf: "heap_wf ph \<longrightarrow> heap_wf ph'" using o w l1 moved_Len [OF w(2)] by (simp add: heap_wf_def)
  have "heap_Push a ph = Ret ph'" using up l1 by (simp add: heap_Push_def ph1_def [symmetric])
  moreover have "kept (insert a (set (ph_peerScores ph))) ph ph'"
    using kept_trans [OF k1 moved_kept [OF w(2)]] by (simp add: xs1)
  moreover have "mset (ph_peerScores ph') = add_mset a (mset (ph_peerScores ph))"
    using w(2) by (simp add: moved_def xs1)
  ultimately show thesis using that w(1) wf by blast
qed

lemma ph_Pop_ok:
  assumes ix: "indexed ph" and n: "ph_Len ph = Suc n"
  obtains ph' where "ph_Pop ph = Ret (ph_peerScores ph ! n, ph')" and "indexed ph'" and "sorted_to n ph \<longrightarrow> heap_wf ph'" and "kept {ph_peerScores ph ! n} ph ph'"
    and "mset (ph_peerScores ph') = mset (ph_peerScores ph) - {#ph_peerScores ph ! n#}"
    and "ps_index (score_at (ph_peerScores ph ! n) ph') = -1"
proof -
  define a where "a = ph_peerScores ph ! n"
  define ph' where "ph' = (set_index a (-1) ph)\<lparr>ph_peerScores := butlast (ph_peerScores ph)\<rparr>"
  have len: "length (ph_peerScores ph) = Suc n" using n by (simp add: ph_Len_def)
  then have ne: "ph_peerScores ph \<noteq> []" by auto
  have last: "last (ph_peerScores ph) = a" using last_conv_nth [OF ne] len by (simp add: a_def)
  have xs: "ph_peerScores ph = butlast (ph_peerScores ph) @ [a]" using append_butlast_last_id [OF ne] last by simp
  have xs': "ph_peerScores ph' = butlast (ph_peerScores ph)" and n': "ph_Len ph' = n" using len by (simp_all add: ph'_def ph_Len_def)
  have a: "a < length (hs_scores ph)" using indexedD(1) [OF ix, of n] n by (simp add: a_def)
  have at: "score_at b ph' = (if b = a then (score_at a ph)\<lparr>ps_index := -1\<rparr> else score_at b ph)" for b
    using a by (simp add: ph'_def score_at_set_index)
  have k: "kept {a} ph ph'" unfolding kept_def at by (simp add: ph'_def)
  have nth: "ph_peerScores ph' ! x = ph_peerScores ph ! x" "ph_peerScores ph ! x \<noteq> a" if "x < n" for x
    using that len ix by (auto simp: xs' nth_butlast a_def indexed_def nth_eq_iff_index_eq)
  have "distinct (ph_peerScores ph')" using ix by (simp add: indexed_def xs' distinct_butlast)
  moreover have "ph_peerScores ph' ! x < length (hs_scores ph') \<and> ps_index (score_at (ph_peerScores ph' ! x) ph') = int x"
    if "x < n" for x using that n nth [OF that] indexedD [OF ix, of x] kept_length [OF k] by (simp add: at)
  ultimately have ix': "indexed ph'" by (simp add: indexed_def n')
  then have wf: "sorted_to n ph \<longrightarrow> heap_wf ph'"
    using heap_ordered_cong [of n "heap_key ph'" "ph_peerScores ph'" "heap_key ph" "ph_peerScores ph"] nth kept_key [OF k]
    by (simp add: heap_wf_def n')
  have "mset (ph_peerScores ph') = mset (ph_peerScores ph) - {#a#}"
    using arg_cong [OF xs, of mset] by (simp add: xs')
  moreover have "ph_Pop ph = Ret (a, ph')" using n last by (simp add: ph_Pop_def ph'_def Let_def)
  ultimately show thesis using that [of ph'] ix' wf k at by (simp add: a_def [symmetric])
qed

lemma heap_Pop_ok:
  assumes ix: "indexed ph" and n: "0 < ph_Len ph"
  obtains ph' where "heap_Pop ph = Ret (ph_peerScores ph ! 0, ph')" and "indexed ph'" and "heap_wf ph \<longrightarrow> heap_wf ph'"
    and "kept (set (ph_peerScores ph)) ph ph'"
    and "mset (ph_peerScores ph') = mset (ph_peerScores ph) - {#ph_peerScores ph ! 0#}"
    and "ps_index (score_at (ph_peerScores ph ! 0) ph') = -1"
proof -
  obtain m where m: "ph_Len ph = Suc m" using n by (cases "ph_Len ph") auto
  let ?xs = "ph_peerScores ph"
  have len: "0 < length ?xs" "m < length ?xs" using m by (auto simp: ph_Len_def)
  from swap_settled [OF ix, of 0 "Suc m" m] m obtain ph1 where sw: "ph_Swap 0 m ph = Ret ph1" and s1: "settled (Suc m) ph ph1"
    and k1: "heap_key ph1 = heap_key ph" and l1: "ph_Len ph1 = Suc m" and ix1: "indexed ph1"
    and xs1: "ph_peerScores ph1 = swapped 0 m ?xs" by auto
  have below: "ordered_below (heap_key ph1) 0 m (ph_peerScores ph1)" if "heap_wf ph"
    unfolding ordered_below_def grand_ordered_def
  proof (intro conjI allI impI)
    fix x assume x: "x < m" "0 < x \<and> (x - 1) div 2 \<noteq> 0"
    have "(x - 1) div 2 < m" using x parent_less [of x] by linarith
    then show "heap_key ph1 (ph_peerScores ph1 ! ((x - 1) div 2)) \<le> heap_key ph1 (ph_peerScores ph1 ! x)"
      using that x m len swapped_nth [OF len, of x] swapped_nth [OF len, of "(x - 1) div 2"]
      by (simp add: k1 xs1 heap_wf_def heap_ordered_def)
  qed simp
  from heap_down_ok [OF ix1, of m 0] l1 below obtain i' ph2 where d: "heap_down 0 m ph1 = Ret (i', ph2)" and s2: "settled m ph1 ph2"
    and o: "heap_wf ph \<Longrightarrow> sorted_to m ph2" by auto
  have m12: "moved ph1 ph2" "indexed ph2" using s2 by (simp_all add: settled_def)
  have l2: "ph_Len ph2 = Suc m" using moved_Len [OF m12(1)] l1 by simp
  have at: "ph_peerScores ph2 ! m = ?xs ! 0"
    using s2 l1 swapped_nth [OF len, of m] len by (cases "m = 0") (auto simp: settled_def xs1)
  from ph_Pop_ok [OF m12(2) l2] obtain ph' where p: "ph_Pop ph2 = Ret (?xs ! 0, ph')" and ix': "indexed ph'"
    and wf': "sorted_to m ph2 \<longrightarrow> heap_wf ph'" and k: "kept {?xs ! 0} ph2 ph'"
    and ms: "mset (ph_peerScores ph') = mset (ph_peerScores ph2) - {#?xs ! 0#}" and neg: "ps_index (score_at (?xs ! 0) ph') = -1"
    unfolding at .
  have m1: "moved ph ph1" using s1 by (simp add: settled_def)
  have m02: "moved ph ph2" by (rule moved_trans [OF m1 m12(1)])
  have "kept (set ?xs) ph ph'"
    using kept_mono [OF kept_trans [OF moved_kept [OF m02] k], of "set ?xs"] len by simp
  moreover have "heap_Pop ph = Ret (?xs ! 0, ph')" using m sw d p by (simp add: heap_Pop_def Let_def)
  moreover have "mset (ph_peerScores ph') = mset ?xs - {#?xs ! 0#}" using ms m02 by (simp add: moved_def)
  moreover have "heap_wf ph \<longrightarrow> heap_wf ph'" using o wf' by blast
  ultimately show thesis using that ix' neg by blast
qed

lemma around_swapped:
  assumes hp: "heap_ordered k (Suc n) xs" and len: "length xs = Suc n" and i: "i < n"
  shows "ordered_around k i n (swapped i n xs)"
proof -
  have nth: "swapped i n xs ! x = (if x = i then xs ! n else xs ! x)" if "x < n" for x
    using that i len swapped_nth [of i xs n x] by auto
  have le: "k (xs ! ((x - 1) div 2)) \<le> k (xs ! x)" if "x < n" "0 < x" for x
    using hp that by (simp add: heap_ordered_def)
  have "k (swapped i n xs ! ((x - 1) div 2)) \<le> k (swapped i n xs ! x)"
    if "x < n" "0 < x" "x \<noteq> i" "(x - 1) div 2 \<noteq> i" for x
  proof -
    have "(x - 1) div 2 < n" using parent_less [OF that(2)] that(1) by linarith
    then show ?thesis using le [OF that(1,2)] nth that by simp
  qed
  moreover have "k (swapped i n xs ! ((i - 1) div 2)) \<le> k (swapped i n xs ! x)"
    if "x < n" "0 < x" "(x - 1) div 2 = i" "0 < i" for x
  proof -
    have px: "(i - 1) div 2 < i" "i < x" using parent_less [OF that(4)] parent_less [OF that(2)] that(3) by simp_all
    have "k (xs ! ((i - 1) div 2)) \<le> k (xs ! i)" using le [of i] i that by simp
    also have "\<dots> \<le> k (xs ! x)" using le [OF that(1,2)] that(3) by simp
    finally show ?thesis using nth [of x] nth [of "(i - 1) div 2"] px that by simp
  qed
  ultimately show ?thesis by (simp add: ordered_around_def grand_ordered_def)
qed

lemma heap_Remove_ok:
  assumes ix: "indexed ph" and i: "i < ph_Len ph"
  obtains ph' where "heap_Remove (int i) ph = Ret (ph_peerScores ph ! i, ph')" and "indexed ph'"
    and "heap_wf ph \<longrightarrow> heap_wf ph'" and "kept (set (ph_peerScores ph)) ph ph'"
    and "mset (ph_peerScores ph') = mset (ph_peerScores ph) - {#ph_peerScores ph ! i#}"
    and "ps_index (score_at (ph_peerScores ph ! i) ph') = -1"
proof -
  obtain m where m: "ph_Len ph = Suc m" using i by (cases "ph_Len ph") auto
  let ?xs = "ph_peerScores ph"
  have len: "length ?xs = Suc m" "i < length ?xs" using i m by (simp_all add: ph_Len_def)
  have "\<exists>ph2. (if m \<noteq> i then go_bind (ph_Swap i m ph) (heap_down_up i m) else Ret ph) = Ret ph2 \<and> moved ph ph2 \<and> indexed ph2 \<and>
          (heap_wf ph \<longrightarrow> sorted_to m ph2) \<and> ph_peerScores ph2 ! m = ?xs ! i"
  proof (cases "m = i")
    case True
    have "sorted_to m ph" if "heap_wf ph" using that m by (auto simp: heap_wf_def heap_ordered_def)
    then show ?thesis using True ix by simp
  next
    case False
    then have im: "i < m" using i m by simp
    from swap_settled [OF ix, of i "Suc m" m] m im obtain ph1 where sw: "ph_Swap i m ph = Ret ph1" and s1: "settled (Suc m) ph ph1"
      and k1: "heap_key ph1 = heap_key ph" and l1: "ph_Len ph1 = Suc m" and ix1: "indexed ph1"
      and xs1: "ph_peerScores ph1 = swapped i m ?xs" by auto
    from heap_down_up_ok [OF ix1 im] l1 obtain ph2 where d: "heap_down_up i m ph1 = Ret ph2" and s2: "settled m ph1 ph2"
      and o: "ordered_around (heap_key ph1) i m (ph_peerScores ph1) \<longrightarrow> sorted_to m ph2" by auto
    have "heap_wf ph \<longrightarrow> sorted_to m ph2"
      using o around_swapped [of "heap_key ph" m ?xs i] len im m by (simp add: heap_wf_def k1 xs1)
    moreover have "ph_peerScores ph2 ! m = ?xs ! i"
      using s2 l1 swapped_nth [of i ?xs m m] len im by (simp add: settled_def xs1)
    moreover have "moved ph ph2" using s1 s2 moved_trans by (auto simp: settled_def)
    ultimately show ?thesis using sw d s2 False by (simp add: settled_def)
  qed
  then obtain ph2 where c: "(if m \<noteq> i then go_bind (ph_Swap i m ph) (heap_down_up i m) else Ret ph) = Ret ph2" and m02: "moved ph ph2"
    and ix2: "indexed ph2" and o: "heap_wf ph \<longrightarrow> sorted_to m ph2" and at: "ph_peerScores ph2 ! m = ?xs ! i" by blast
  have l2: "ph_Len ph2 = Suc m" using moved_Len [OF m02] m by simp
  from ph_Pop_ok [OF ix2 l2] obtain ph' where p: "ph_Pop ph2 = Ret (?xs ! i, ph')" and ix': "indexed ph'"
    and wf': "sorted_to m ph2 \<longrightarrow> heap_wf ph'" and k: "kept {?xs ! i} ph2 ph'"
    and ms: "mset (ph_peerScores ph') = mset (ph_peerScores ph2) - {#?xs ! i#}" and neg: "ps_index (score_at (?xs ! i) ph') = -1"
    unfolding at .
  have "kept (set ?xs) ph ph'"
    using kept_mono [OF kept_trans [OF moved_kept [OF m02] k], of "set ?xs"] len by simp
  moreover have "heap_Remove (int i) ph = Ret (?xs ! i, ph')" using m c p
    by (cases "m = i") (simp_all add: heap_Remove_def Let_def)
  moreover have "mset (ph_peerScores ph') = mset ?xs - {#?xs ! i#}" using ms m02 by (simp add: moved_def)
  moreover have "heap_wf ph \<longrightarrow> heap_wf ph'" using o wf' by blast
  ultimately show thesis using that ix' neg by blast
qed

lemma heap_Fix_ok:
  assumes ix: "indexed ph" and i: "i < ph_Len ph"
  obtains ph' where "heap_Fix (int i) ph = Ret ph'" and "indexed ph'" and "moved ph ph'"
    and "ordered_around (heap_key ph) i (ph_Len ph) (ph_peerScores ph) \<longrightarrow> heap_wf ph'"
proof -
  from heap_down_up_ok [OF ix i order_refl] obtain ph' where d: "heap_down_up i (ph_Len ph) ph = Ret ph'"
    and s: "settled (ph_Len ph) ph ph'"
    and o: "ordered_around (heap_key ph) i (ph_Len ph) (ph_peerScores ph) \<longrightarrow> sorted_to (ph_Len ph) ph'" by blast
  from s have ix': "indexed ph'" and m: "moved ph ph'" by (simp_all add: settled_def)
  have "heap_Fix (int i) ph = Ret ph'" using d by (simp add: heap_Fix_def)
  from that [OF this ix' m] o ix' moved_Len [OF m] show thesis by (simp add: heap_wf_def)
qed

text \<open>What the operations on peers leave alone: the peers and their scores, and all of what is outside the heap.\<close>

definition stays :: "nat set \<Rightarrow> peerHeap \<Rightarrow> peerHeap \<Rightarrow> bool" where
  "stays B ph ph' \<longleftrightarrow>
     length (hs_scores ph') = length (hs_scores ph) \<and>
     (\<forall>a. ps_Peer (score_at a ph') = ps_Peer (score_at a ph) \<and> ps_score (score_at a ph') = ps_score (score_at a ph)) \<and>
     (\<forall>a. a \<notin> B \<longrightarrow> score_at a ph' = score_at a ph)"

lemma stays_refl [simp]: "stays B ph ph"
  by (simp add: stays_def)

lemma stays_trans: "stays B ph ph1 \<Longrightarrow> stays C ph1 ph2 \<Longrightarrow> stays (B \<union> C) ph ph2"
  by (simp add: stays_def)

lemma stays_mono: "stays B ph ph' \<Longrightarrow> B \<subseteq> C \<Longrightarrow> stays C ph ph'"
  unfolding stays_def by blast

lemma kept_stays:
  assumes "kept B ph ph'"
  shows "stays B ph ph'"
proof -
  have "ps_score (score_at a ph') = ps_score (score_at a ph)" for a
    using fun_cong [OF kept_key [OF assms], of a] by (simp add: heap_key_def)
  with assms show ?thesis using kept_Peer [OF assms] by (simp add: stays_def kept_def)
qed

lemma score_at_set_score:
  "score_at b (set_score a s ph) = (if b = a \<and> a < length (hs_scores ph) then s else score_at b ph)"
  by (cases "a < length (hs_scores ph)") (auto simp: set_score_def nth_list_update list_update_beyond)

lemma set_score_simps [simp]:
  "length (hs_scores (set_score a s ph)) = length (hs_scores ph)"
  "ph_peerScores (set_score a s ph) = ph_peerScores ph"
  "ph_Len (set_score a s ph) = ph_Len ph"
  by (simp_all add: set_score_def ph_Len_def)

lemma set_score_indexed:
  assumes "indexed ph" and "ps_index s = ps_index (score_at a ph)"
  shows "indexed (set_score a s ph)"
  using assms by (auto simp: indexed_def score_at_set_score)

lemma rescored_around:
  assumes wf: "heap_wf ph" and i: "i < ph_Len ph"
  shows "ordered_around (heap_key (set_score (ph_peerScores ph ! i) s ph)) i (ph_Len ph) (ph_peerScores ph)"
proof -
  let ?xs = "ph_peerScores ph"
  let ?ph = "set_score (?xs ! i) s ph"
  have len: "length ?xs = ph_Len ph" by (simp add: ph_Len_def)
  have dist: "distinct ?xs" using wf by (simp add: heap_wf_def indexed_def)
  have key: "heap_key ?ph (?xs ! x) = key_at ph x" if "x < ph_Len ph" "x \<noteq> i" for x
    using that i dist len by (simp add: heap_key_def score_at_set_score nth_eq_iff_index_eq)
  have le: "key_at ph ((x - 1) div 2) \<le> key_at ph x" if "x < ph_Len ph" "0 < x" for x
    using wf that by (simp add: heap_wf_def heap_ordered_def)
  have "heap_key ?ph (?xs ! ((x - 1) div 2)) \<le> heap_key ?ph (?xs ! x)"
    if "x < ph_Len ph" "0 < x" "x \<noteq> i" "(x - 1) div 2 \<noteq> i" for x
    using le [OF that(1,2)] key [OF that(1,3)] key [OF _ that(4)] parent_less [OF that(2)] that(1) by simp
  moreover have "heap_key ?ph (?xs ! ((i - 1) div 2)) \<le> heap_key ?ph (?xs ! x)"
    if "x < ph_Len ph" "0 < x" "(x - 1) div 2 = i" "0 < i" for x
  proof -
    have px: "(i - 1) div 2 < i" "i < x" using parent_less [OF that(4)] parent_less [OF that(2)] that(3) by simp_all
    have "key_at ph ((i - 1) div 2) \<le> key_at ph i" using le [of i] i that by simp
    also have "\<dots> \<le> key_at ph x" using le [OF that(1,2)] that(3) by simp
    finally show ?thesis using key [of x] key [of "(i - 1) div 2"] px that by simp
  qed
  ultimately show ?thesis by (simp add: ordered_around_def grand_ordered_def)
qed

lemma ph_pushPeer_ok:
  assumes ix: "indexed ph" and a: "a \<notin> set (ph_peerScores ph)" "a < length (hs_scores ph)"
  obtains ph' where "ph_pushPeer rand a ph = Ret ph'" and "indexed ph'" and "heap_wf ph \<longrightarrow> heap_wf ph'"
    and "stays (insert a (set (ph_peerScores ph))) ph ph'"
    and "mset (ph_peerScores ph') = add_mset a (mset (ph_peerScores ph))"
proof -
  define r where "r = rand (ph_draws ph) mod (ph_Len ph div 2 + 1)"
  define ph1 where "ph1 = ph\<lparr>ph_order := ph_order ph + 1, ph_draws := ph_draws ph + 1\<rparr>"
  define ph2 where "ph2 = set_score a ((score_at a ph1)\<lparr>ps_order := ph_order ph + 1 + of_nat r\<rparr>) ph1"
  have at: "score_at b ph2 = (if b = a then (score_at a ph)\<lparr>ps_order := ph_order ph + 1 + of_nat r\<rparr> else score_at b ph)" for b
    using a by (simp add: ph2_def score_at_set_score ph1_def)
  have xs2: "ph_peerScores ph2 = ph_peerScores ph" "length (hs_scores ph2) = length (hs_scores ph)" "ph_Len ph2 = ph_Len ph"
    by (simp_all add: ph2_def ph1_def ph_Len_def)
  have out: "ph_peerScores ph ! x \<noteq> a" if "x < ph_Len ph" for x using that a nth_mem by (auto simp: ph_Len_def)
  have ix2: "indexed ph2" using ix out unfolding indexed_def xs2 at by auto
  have wf2: "heap_wf ph \<longrightarrow> heap_wf ph2"
    using ix2 out heap_ordered_cong [of "ph_Len ph" "heap_key ph2" "ph_peerScores ph" "heap_key ph" "ph_peerScores ph"]
    unfolding heap_wf_def xs2 by (auto simp: heap_key_def at)
  have st: "stays {a} ph ph2" by (simp add: stays_def at xs2)
  from heap_Push_ok [OF ix2, of a] a xs2 obtain ph' where p: "heap_Push a ph2 = Ret ph'" and ix': "indexed ph'"
    and wf': "heap_wf ph2 \<longrightarrow> heap_wf ph'" and k: "kept (insert a (set (ph_peerScores ph))) ph2 ph'"
    and ms: "mset (ph_peerScores ph') = add_mset a (mset (ph_peerScores ph))" by auto
  have "ph_pushPeer rand a ph = Ret ph'"
    using p by (simp add: ph_pushPeer_def rng_Intn_def Let_def ph2_def ph1_def r_def ph_Len_def)
  moreover have "stays (insert a (set (ph_peerScores ph))) ph ph'" using stays_trans [OF st kept_stays [OF k]] by simp
  ultimately show thesis using that ix' wf2 wf' ms by blast
qed

lemma ph_swapOrder_ok:
  assumes ix: "indexed ph" and i: "i < ph_Len ph" and j: "j < ph_Len ph"
  obtains ph' where "ph_swapOrder i j ph = Ret ph'" and "indexed ph'" and "stays (set (ph_peerScores ph)) ph ph'"
    and "mset (ph_peerScores ph') = mset (ph_peerScores ph)"
proof (cases "i = j")
  case True
  then show thesis using that [of ph] ix by (simp add: ph_swapOrder_def)
next
  case False
  define a where "a = ph_peerScores ph ! i"
  define b where "b = ph_peerScores ph ! j"
  define ph1 where "ph1 = set_score a ((score_at a ph)\<lparr>ps_order := ps_order (score_at b ph)\<rparr>) ph"
  define ph2 where "ph2 = set_score b ((score_at b ph1)\<lparr>ps_order := ps_order (score_at a ph)\<rparr>) ph1"
  have ab: "a \<in> set (ph_peerScores ph)" "b \<in> set (ph_peerScores ph)" using i j by (simp_all add: a_def b_def ph_Len_def)
  have ix2: "indexed ph2" unfolding ph2_def ph1_def by (intro set_score_indexed ix) (simp_all add: score_at_set_score)
  have l2: "ph_Len ph2 = ph_Len ph" "ph_peerScores ph2 = ph_peerScores ph" by (simp_all add: ph2_def ph1_def)
  have st: "stays (set (ph_peerScores ph)) ph ph2"
    using ab by (auto simp: stays_def ph2_def ph1_def score_at_set_score)
  from heap_Fix_ok [OF ix2, of i] i l2 obtain ph3 where f3: "heap_Fix (int i) ph2 = Ret ph3" and ix3: "indexed ph3" and m3: "moved ph2 ph3"
    by auto
  from heap_Fix_ok [OF ix3, of j] j l2 moved_Len [OF m3] obtain ph' where f': "heap_Fix (int j) ph3 = Ret ph'" and ix': "indexed ph'"
    and m': "moved ph3 ph'" by auto
  have m: "moved ph2 ph'" by (rule moved_trans [OF m3 m'])
  have "ph_swapOrder i j ph = Ret ph'"
    using False i j f3 f' by (simp add: ph_swapOrder_def Let_def a_def [symmetric] b_def [symmetric] ph1_def [symmetric] ph2_def [symmetric])
  moreover have "stays (set (ph_peerScores ph)) ph ph'"
    using stays_trans [OF st kept_stays [OF moved_kept [OF m]]] by (simp add: l2)
  moreover have "mset (ph_peerScores ph') = mset (ph_peerScores ph)" using m by (simp add: moved_def l2)
  ultimately show thesis using that ix' by blast
qed

lemma indexed_in:
  assumes "indexed ph" and "a \<in> set (ph_peerScores ph)"
  obtains i where "i < ph_Len ph" and "ph_peerScores ph ! i = a" and "ps_index (score_at a ph) = int i" and "a < length (hs_scores ph)"
proof -
  from assms(2) obtain i where i: "i < ph_Len ph" "ph_peerScores ph ! i = a" by (auto simp: in_set_conv_nth ph_Len_def)
  from that [OF i] indexedD [OF assms(1) i(1)] i(2) show thesis by simp
qed

lemma ph_addPeer_ok:
  assumes ix: "indexed ph" and a: "a \<notin> set (ph_peerScores ph)" "a < length (hs_scores ph)"
  obtains ph' where "ph_addPeer rand a ph = Ret ph'" and "indexed ph'"
    and "stays (insert a (set (ph_peerScores ph))) ph ph'"
    and "mset (ph_peerScores ph') = add_mset a (mset (ph_peerScores ph))"
proof -
  from ph_pushPeer_ok [OF ix a, of rand] obtain ph1 where p: "ph_pushPeer rand a ph = Ret ph1" and ix1: "indexed ph1"
    and "heap_wf ph \<longrightarrow> heap_wf ph1" and st: "stays (insert a (set (ph_peerScores ph))) ph ph1"
    and ms: "mset (ph_peerScores ph1) = add_mset a (mset (ph_peerScores ph))" .
  define ph2 where "ph2 = ph1\<lparr>ph_draws := ph_draws ph1 + 1\<rparr>"
  have a1: "set (ph_peerScores ph1) = insert a (set (ph_peerScores ph))" using arg_cong [OF ms, of set_mset] by simp
  then have "a \<in> set (ph_peerScores ph1)" by simp
  from ix1 this obtain i where "ph_peerScores ph1 ! i = a" and i: "i < ph_Len ph1" "ps_index (score_at a ph1) = int i"
    by (rule indexed_in)
  have ix2: "indexed ph2" using ix1 by (simp add: indexed_def ph2_def ph_Len_def)
  have l2: "ph_Len ph2 = ph_Len ph1" by (simp add: ph2_def ph_Len_def)
  define r where "r = rand (ph_draws ph1) mod ph_Len ph1"
  have r: "i < ph_Len ph2" "r < ph_Len ph2" using i by (simp_all add: l2 r_def)
  from ph_swapOrder_ok [OF ix2 r] obtain ph' where s: "ph_swapOrder i r ph2 = Ret ph'" and ix': "indexed ph'"
    and st': "stays (set (ph_peerScores ph2)) ph2 ph'" and ms': "mset (ph_peerScores ph') = mset (ph_peerScores ph2)" .
  have "rng_Intn rand (ph_Len ph1) ph1 = Ret (r, ph2)" using i by (simp add: rng_Intn_def ph2_def r_def)
  moreover have "ps_index (score_at a ph2) = int i" using i by (simp add: ph2_def)
  ultimately have "ph_addPeer rand a ph = Ret ph'" using p s by (simp add: ph_addPeer_def)
  moreover have "stays (insert a (set (ph_peerScores ph))) ph ph'"
  proof -
    have "stays (set (ph_peerScores ph1)) ph1 ph'" using st' by (simp add: stays_def ph2_def)
    from stays_trans [OF st this] show ?thesis unfolding a1 by simp
  qed
  moreover have "mset (ph_peerScores ph') = add_mset a (mset (ph_peerScores ph))" using ms ms' by (simp add: ph2_def)
  ultimately show thesis using that ix' by blast
qed

end
