(* ===== verification/Peers.thy ===== *)
theory Peers
  imports Peer_Heap Health
begin

text \<open>
  Peers and lists of peers, from \<^verbatim>\<open>peer.go\<close>, \<^verbatim>\<open>root_peer_list.go\<close> and \<^verbatim>\<open>peer_strategies.go\<close>. Peers are shared
  between the root list, which makes them, and the lists of the channel and its subchannels, so a peer is an address into
  \<open>pw_peers\<close>; likewise a connection is an address into \<open>pw_conns\<close>. A strategy is a function of a peer, which the user of the
  package may supply. The callback \<^verbatim>\<open>onStatusChanged\<close> is the user's too: \<open>pw_status\<close> records the peers it is told of.
\<close>

section \<open>Peers\<close>

datatype connectionDirection = inbound | outbound

record Peer =
  p_hostPort :: string
  p_scCount :: uint32
  p_inbound :: "nat list"
  p_outbound :: "nat list"
  p_chosenCount :: uint64

record peerWorld =
  pw_conns :: "nat \<Rightarrow> Connection"
  pw_peers :: "Peer list"
  pw_root :: "(string \<times> nat) list"
  pw_status :: "nat list"

definition ErrNoPeers :: gerror where "ErrNoPeers = ErrorString ''no peers available''"
definition ErrPeerNotFound :: gerror where "ErrPeerNotFound = ErrorString ''peer not found''"
definition ErrNoNewPeers :: gerror where "ErrNoNewPeers = ErrorString ''no new peer available''"

definition newPeer :: "string \<Rightarrow> Peer go" where
  "newPeer hostPort =
     (if hostPort = [] then Panic
      else Ret \<lparr>p_hostPort = hostPort, p_scCount = 0, p_inbound = [], p_outbound = [], p_chosenCount = 0\<rparr>)"

abbreviation peer_at :: "nat \<Rightarrow> peerWorld \<Rightarrow> Peer" where
  "peer_at p w \<equiv> pw_peers w ! p"

definition set_peer :: "nat \<Rightarrow> Peer \<Rightarrow> peerWorld \<Rightarrow> peerWorld" where
  "set_peer p q w = w\<lparr>pw_peers := (pw_peers w)[p := q]\<rparr>"

definition getConn :: "nat \<Rightarrow> Peer \<Rightarrow> nat go" where
  "getConn i p =
     (if i < length (p_inbound p) then Ret (p_inbound p ! i)
      else if i - length (p_inbound p) < length (p_outbound p) then Ret (p_outbound p ! (i - length (p_inbound p)))
      else Panic)"

fun getActiveConn_loop :: "(nat \<Rightarrow> Connection) \<Rightarrow> Peer \<Rightarrow> nat \<Rightarrow> nat \<Rightarrow> nat list \<Rightarrow> nat option go" where
  "getActiveConn_loop conns p allConns startOffset [] = Ret None"
| "getActiveConn_loop conns p allConns startOffset (i # is) =
     (case getConn ((i + startOffset) mod allConns) p of
        Panic \<Rightarrow> Panic
      | Ret c \<Rightarrow> if IsActive (conns c) then Ret (Some c) else getActiveConn_loop conns p allConns startOffset is)"

text \<open>\<open>r\<close> is the number drawn from \<^verbatim>\<open>peerRng\<close>.\<close>

definition getActiveConnLocked :: "nat \<Rightarrow> (nat \<Rightarrow> Connection) \<Rightarrow> Peer \<Rightarrow> nat option go" where
  "getActiveConnLocked r conns p =
     (let allConns = length (p_inbound p) + length (p_outbound p)
      in if allConns = 0 then Ret None
         else getActiveConn_loop conns p allConns (if allConns > 1 then r mod allConns else 0) [0..<allConns])"

text \<open>
  \<open>connect\<close> makes a connection; \<open>env\<close> is what happens while the goroutine waits for the lock that only one may hold to make one.
\<close>

definition GetConnection ::
  "(string \<Rightarrow> peerWorld \<Rightarrow> (gerror + nat) \<times> peerWorld) \<Rightarrow> (peerWorld \<Rightarrow> peerWorld) \<Rightarrow> nat \<Rightarrow> nat \<Rightarrow> nat \<Rightarrow> peerWorld \<Rightarrow>
   ((gerror + nat) \<times> peerWorld) go" where
  "GetConnection connect env r1 r2 p w =
     go_bind (getActiveConnLocked r1 (pw_conns w) (peer_at p w)) (\<lambda>conn.
       case conn of
         Some c \<Rightarrow> Ret (Inr c, w)
       | None \<Rightarrow>
           (let w1 = env w
            in go_bind (getActiveConnLocked r2 (pw_conns w1) (peer_at p w1)) (\<lambda>conn.
                 case conn of Some c \<Rightarrow> Ret (Inr c, w1) | None \<Rightarrow> Ret (connect (p_hostPort (peer_at p w1)) w1))))"

definition relay_connect_timeout :: "duration \<Rightarrow> duration \<Rightarrow> duration" where
  "relay_connect_timeout callTimeout relayMaxConnTimeout =
     (if callTimeout > relayMaxConnTimeout \<and> relayMaxConnTimeout > 0 then relayMaxConnTimeout else callTimeout)"

definition getConnectionRelay ::
  "(duration \<Rightarrow> string \<Rightarrow> peerWorld \<Rightarrow> (gerror + nat) \<times> peerWorld) \<Rightarrow> (peerWorld \<Rightarrow> peerWorld) \<Rightarrow> nat \<Rightarrow> nat \<Rightarrow>
   duration \<Rightarrow> duration \<Rightarrow> nat \<Rightarrow> peerWorld \<Rightarrow> ((gerror + nat) \<times> peerWorld) go" where
  "getConnectionRelay connect env r1 r2 callTimeout relayMaxConnTimeout p w =
     GetConnection (connect (relay_connect_timeout callTimeout relayMaxConnTimeout)) env r1 r2 p w"

definition addSC :: "nat \<Rightarrow> peerWorld \<Rightarrow> peerWorld" where
  "addSC p w = set_peer p ((peer_at p w)\<lparr>p_scCount := p_scCount (peer_at p w) + 1\<rparr>) w"

definition delSC :: "nat \<Rightarrow> peerWorld \<Rightarrow> peerWorld" where
  "delSC p w = set_peer p ((peer_at p w)\<lparr>p_scCount := p_scCount (peer_at p w) - 1\<rparr>) w"

definition canRemove :: "Peer \<Rightarrow> bool" where
  "canRemove p \<longleftrightarrow> length (p_inbound p) + length (p_outbound p) + unat (p_scCount p) = 0"

definition onStatusChanged :: "nat \<Rightarrow> peerWorld \<Rightarrow> peerWorld" where
  "onStatusChanged p w = w\<lparr>pw_status := pw_status w @ [p]\<rparr>"

definition peer_addConnection :: "nat \<Rightarrow> nat \<Rightarrow> connectionDirection \<Rightarrow> peerWorld \<Rightarrow> gerror option \<times> peerWorld" where
  "peer_addConnection p c direction w =
     (if c_state (pw_conns w c) \<noteq> connectionActive then (Some ErrInvalidConnectionState, w)
      else
        (let q = peer_at p w;
             q' = (if direction = inbound then q\<lparr>p_inbound := p_inbound q @ [c]\<rparr> else q\<lparr>p_outbound := p_outbound q @ [c]\<rparr>)
         in (None, onStatusChanged p (set_peer p q' w))))"

text \<open>The first occurrence is replaced by the last connection.\<close>

fun removeConnection_loop :: "nat list \<Rightarrow> nat \<Rightarrow> nat list \<Rightarrow> nat list \<times> bool" where
  "removeConnection_loop conns changed [] = (conns, False)"
| "removeConnection_loop conns changed (i # is) =
     (if conns ! i = changed then (butlast (conns[i := last conns]), True) else removeConnection_loop conns changed is)"

definition removeConnection :: "nat list \<Rightarrow> nat \<Rightarrow> nat list \<times> bool" where
  "removeConnection conns changed = removeConnection_loop conns changed [0..<length conns]"

section \<open>The root list\<close>

definition root_Get :: "string \<Rightarrow> peerWorld \<Rightarrow> nat option" where
  "root_Get hostPort w = map_of (pw_root w) hostPort"

definition root_Add :: "string \<Rightarrow> peerWorld \<Rightarrow> (nat \<times> peerWorld) go" where
  "root_Add hostPort w =
     (case map_of (pw_root w) hostPort of
        Some p \<Rightarrow> Ret (p, w)
      | None \<Rightarrow>
          go_bind (newPeer hostPort) (\<lambda>q.
            let p = length (pw_peers w)
            in Ret (p, w\<lparr>pw_peers := pw_peers w @ [q], pw_root := AList.update hostPort p (pw_root w)\<rparr>)))"

definition root_GetOrAdd :: "string \<Rightarrow> peerWorld \<Rightarrow> (nat \<times> peerWorld) go" where
  "root_GetOrAdd hostPort w = (case root_Get hostPort w of Some p \<Rightarrow> Ret (p, w) | None \<Rightarrow> root_Add hostPort w)"

definition onClosedConnRemoved :: "nat \<Rightarrow> peerWorld \<Rightarrow> peerWorld" where
  "onClosedConnRemoved peer w =
     (let hostPort = p_hostPort (peer_at peer w)
      in case root_Get hostPort w of
           None \<Rightarrow> w
         | Some p \<Rightarrow> if canRemove (peer_at p w) then w\<lparr>pw_root := AList.delete hostPort (pw_root w)\<rparr> else w)"

definition peer_connectionCloseStateChange :: "nat \<Rightarrow> nat \<Rightarrow> peerWorld \<Rightarrow> peerWorld" where
  "peer_connectionCloseStateChange p changed w =
     (if IsActive (pw_conns w changed) then w
      else
        (let q = peer_at p w;
             (ins, found) = removeConnection (p_inbound q) changed;
             q1 = q\<lparr>p_inbound := ins\<rparr>;
             (q2, found') =
               (if found then (q1, True)
                else (let (outs, f) = removeConnection (p_outbound q1) changed in (q1\<lparr>p_outbound := outs\<rparr>, f)));
             w1 = set_peer p q2 w
         in if found' then onStatusChanged p (onClosedConnRemoved p w1) else w1))"

definition NumConnections :: "Peer \<Rightarrow> nat \<times> nat" where
  "NumConnections p = (length (p_inbound p), length (p_outbound p))"

definition NumPendingOutbound :: "(nat \<Rightarrow> Connection) \<Rightarrow> Peer \<Rightarrow> nat" where
  "NumPendingOutbound conns p =
     (let count = fold (\<lambda>c n. n + ms_count (c_outbound (conns c))) (p_outbound p) 0
      in fold (\<lambda>c n. n + ms_count (c_outbound (conns c))) (p_inbound p) count)"

section \<open>Strategies\<close>

type_synonym ScoreCalculator = "(nat \<Rightarrow> Connection) \<Rightarrow> Peer \<Rightarrow> uint64"

definition zeroCalculator :: ScoreCalculator where
  "zeroCalculator conns p = 0"

definition leastPendingCalculator :: ScoreCalculator where
  "leastPendingCalculator conns p =
     (let (ins, outs) = NumConnections p
      in if ins + outs = 0 then -1 else of_nat (NumPendingOutbound conns p))"

definition preferIncomingCalculator :: ScoreCalculator where
  "preferIncomingCalculator conns p =
     (let (ins, outs) = NumConnections p
      in if ins + outs = 0 then -1
         else
           (let numPendingOutbound = of_nat (NumPendingOutbound conns p)
            in if ins = 0 then 2147483647 + numPendingOutbound else numPendingOutbound))"

text \<open>The strategy of \<^verbatim>\<open>peers/prefer.go\<close>: rendezvous hashing on 32-bit integers.\<close>

unbundle bit_operations_syntax

definition mod2_31 :: "uint32 \<Rightarrow> uint32" where
  "mod2_31 v = v AND (push_bit 31 1 - 1)"

fun fnv32a_loop :: "string \<Rightarrow> uint32 \<Rightarrow> uint32" where
  "fnv32a_loop [] hash = hash"
| "fnv32a_loop (c # s) hash = fnv32a_loop s ((hash XOR of_nat (of_char c)) * 16777619)"

definition fnv32a :: "string \<Rightarrow> uint32" where
  "fnv32a s = fnv32a_loop s 2166136261"

definition hrwScoreCalc :: "uint32 \<Rightarrow> ScoreCalculator" where
  "hrwScoreCalc clientID conns p =
     (let server = mod2_31 (fnv32a (p_hostPort p));
          v = 1103515245 * ((1103515245 * clientID + 12345) XOR server) + 12345
      in ucast (mod2_31 v))"

definition NewHRWScorer :: "uint32 \<Rightarrow> ScoreCalculator" where
  "NewHRWScorer clientID = hrwScoreCalc (mod2_31 clientID)"

section \<open>Peer lists\<close>

record PeerList =
  pl_peersByHostPort :: "(string \<times> nat) list"
  pl_peerHeap :: peerHeap
  pl_scoreCalculator :: ScoreCalculator

definition newPeerList :: PeerList where
  "newPeerList = \<lparr>pl_peersByHostPort = [], pl_peerHeap = newPeerHeap, pl_scoreCalculator = preferIncomingCalculator\<rparr>"

definition newPeerScore :: "nat \<Rightarrow> uint64 \<Rightarrow> peerScore" where
  "newPeerScore p score = \<lparr>ps_Peer = p, ps_score = score, ps_index = -1, ps_order = 0\<rparr>"

definition pl_exists :: "string \<Rightarrow> PeerList \<Rightarrow> nat option" where
  "pl_exists hostPort l = map_of (pl_peersByHostPort l) hostPort"

definition pl_Add :: "(nat \<Rightarrow> nat) \<Rightarrow> string \<Rightarrow> PeerList \<times> peerWorld \<Rightarrow> (nat \<times> PeerList \<times> peerWorld) go" where
  "pl_Add rand hostPort = (\<lambda>(l, w).
     case pl_exists hostPort l of
       Some a \<Rightarrow> Ret (ps_Peer (score_at a (pl_peerHeap l)), l, w)
     | None \<Rightarrow>
         go_bind (root_Add hostPort w) (\<lambda>(p, w1).
           let w2 = addSC p w1;
               ps = newPeerScore p (pl_scoreCalculator l (pw_conns w2) (peer_at p w2));
               a = length (hs_scores (pl_peerHeap l));
               h = (pl_peerHeap l)\<lparr>hs_scores := hs_scores (pl_peerHeap l) @ [ps]\<rparr>;
               m = AList.update hostPort a (pl_peersByHostPort l)
           in go_bind (ph_addPeer rand a h) (\<lambda>h'.
                Ret (p, l\<lparr>pl_peersByHostPort := m, pl_peerHeap := h'\<rparr>, w2))))"

definition pl_GetOrAdd :: "(nat \<Rightarrow> nat) \<Rightarrow> string \<Rightarrow> PeerList \<times> peerWorld \<Rightarrow> (nat \<times> PeerList \<times> peerWorld) go" where
  "pl_GetOrAdd rand hostPort lw =
     (case pl_exists hostPort (fst lw) of
        Some a \<Rightarrow> Ret (ps_Peer (score_at a (pl_peerHeap (fst lw))), lw)
      | None \<Rightarrow> pl_Add rand hostPort lw)"

definition canChoosePeer :: "string list \<Rightarrow> bool \<Rightarrow> string \<Rightarrow> bool" where
  "canChoosePeer prevSelected avoidHost hostPort =
     (if hostPort \<in> set prevSelected then False
      else if avoidHost \<and> getHost hostPort \<in> set prevSelected then False
      else True)"

fun choose_pop :: "(nat \<Rightarrow> bool) \<Rightarrow> nat \<Rightarrow> nat list \<Rightarrow> peerHeap \<Rightarrow> (nat option \<times> nat list \<times> peerHeap) go" where
  "choose_pop can 0 psPopList h = Ret (None, psPopList, h)"
| "choose_pop can (Suc k) psPopList h =
     (case ph_popPeer h of
        Panic \<Rightarrow> Panic
      | Ret (a, h') \<Rightarrow> if can (ps_Peer (score_at a h')) then Ret (Some a, psPopList, h') else choose_pop can k (psPopList @ [a]) h')"

fun choose_push :: "nat list \<Rightarrow> peerHeap \<Rightarrow> peerHeap go" where
  "choose_push [] h = Ret h"
| "choose_push (a # as) h = (case heap_Push a h of Panic \<Rightarrow> Panic | Ret h' \<Rightarrow> choose_push as h')"

definition choosePeer ::
  "(nat \<Rightarrow> nat) \<Rightarrow> string list \<Rightarrow> bool \<Rightarrow> PeerList \<times> peerWorld \<Rightarrow> (nat option \<times> PeerList \<times> peerWorld) go" where
  "choosePeer rand prevSelected avoidHost = (\<lambda>(l, w).
     let can = (\<lambda>p. canChoosePeer prevSelected avoidHost (p_hostPort (peer_at p w)))
     in go_bind (choose_pop can (ph_Len (pl_peerHeap l)) [] (pl_peerHeap l)) (\<lambda>(ps, psPopList, h).
          go_bind (choose_push psPopList h) (\<lambda>h1.
            case ps of
              None \<Rightarrow> Ret (None, l\<lparr>pl_peerHeap := h1\<rparr>, w)
            | Some a \<Rightarrow>
                go_bind (ph_pushPeer rand a h1) (\<lambda>h2.
                  let p = ps_Peer (score_at a h2)
                  in Ret (Some p, l\<lparr>pl_peerHeap := h2\<rparr>,
                          set_peer p ((peer_at p w)\<lparr>p_chosenCount := p_chosenCount (peer_at p w) + 1\<rparr>) w)))))"

definition GetNew ::
  "(nat \<Rightarrow> nat) \<Rightarrow> string list \<Rightarrow> PeerList \<times> peerWorld \<Rightarrow> ((gerror + nat) \<times> PeerList \<times> peerWorld) go" where
  "GetNew rand prevSelected lw =
     (if ph_Len (pl_peerHeap (fst lw)) = 0 then Ret (Inl ErrNoPeers, lw)
      else
        go_bind (choosePeer rand prevSelected True lw) (\<lambda>(peer, lw1).
          case peer of
            Some p \<Rightarrow> Ret (Inr p, lw1)
          | None \<Rightarrow>
              go_bind (choosePeer rand prevSelected False lw1) (\<lambda>(peer, lw2).
                case peer of Some p \<Rightarrow> Ret (Inr p, lw2) | None \<Rightarrow> Ret (Inl ErrNoNewPeers, lw2))))"

text \<open>\<open>env\<close> is what happens between the two times that the lock is held.\<close>

definition pl_Get ::
  "(nat \<Rightarrow> nat) \<Rightarrow> (PeerList \<times> peerWorld \<Rightarrow> PeerList \<times> peerWorld) \<Rightarrow> string list \<Rightarrow> PeerList \<times> peerWorld \<Rightarrow>
   ((gerror + nat) \<times> PeerList \<times> peerWorld) go" where
  "pl_Get rand env prevSelected lw =
     go_bind (GetNew rand prevSelected lw) (\<lambda>(r, lw1).
       case r of
         Inr p \<Rightarrow> Ret (Inr p, lw1)
       | Inl err \<Rightarrow>
           if err = ErrNoNewPeers then
             go_bind (choosePeer rand [] False (env lw1)) (\<lambda>(peer, lw2).
               case peer of Some p \<Rightarrow> Ret (Inr p, lw2) | None \<Rightarrow> Ret (Inl ErrNoPeers, lw2))
           else Ret (Inl err, lw1))"

definition pl_Remove :: "string \<Rightarrow> PeerList \<times> peerWorld \<Rightarrow> (gerror option \<times> PeerList \<times> peerWorld) go" where
  "pl_Remove hostPort = (\<lambda>(l, w).
     case map_of (pl_peersByHostPort l) hostPort of
       None \<Rightarrow> Ret (Some ErrPeerNotFound, l, w)
     | Some a \<Rightarrow>
         (let w1 = delSC (ps_Peer (score_at a (pl_peerHeap l))) w;
              m = AList.delete hostPort (pl_peersByHostPort l)
          in go_bind (ph_removePeer a (pl_peerHeap l)) (\<lambda>h'.
               Ret (None, l\<lparr>pl_peersByHostPort := m, pl_peerHeap := h'\<rparr>, w1))))"

definition pl_Copy :: "PeerList \<Rightarrow> (string \<times> nat) list" where
  "pl_Copy l = map (\<lambda>(k, v). (k, ps_Peer (score_at v (pl_peerHeap l)))) (pl_peersByHostPort l)"

definition pl_Len :: "PeerList \<Rightarrow> nat" where
  "pl_Len l = ph_Len (pl_peerHeap l)"

definition pl_updatePeer :: "nat \<Rightarrow> uint64 \<Rightarrow> PeerList \<Rightarrow> PeerList go" where
  "pl_updatePeer a newScore l =
     (let h = pl_peerHeap l
      in if ps_score (score_at a h) = newScore then Ret l
         else go_bind (ph_updatePeer a (set_score a ((score_at a h)\<lparr>ps_score := newScore\<rparr>) h)) (\<lambda>h'.
                Ret (l\<lparr>pl_peerHeap := h'\<rparr>)))"

text \<open>The score is read and calculated without the lock; the list may change before it is taken again.\<close>

definition onPeerChange ::
  "(PeerList \<times> peerWorld \<Rightarrow> PeerList \<times> peerWorld) \<Rightarrow> nat \<Rightarrow> PeerList \<times> peerWorld \<Rightarrow> (PeerList \<times> peerWorld) go" where
  "onPeerChange env p = (\<lambda>(l, w).
     case map_of (pl_peersByHostPort l) (p_hostPort (peer_at p w)) of
       None \<Rightarrow> Ret (l, w)
     | Some a \<Rightarrow>
         (let newScore = pl_scoreCalculator l (pw_conns w) (peer_at (ps_Peer (score_at a (pl_peerHeap l))) w)
          in if newScore = ps_score (score_at a (pl_peerHeap l)) then Ret (l, w)
             else (let (l1, w1) = env (l, w) in go_bind (pl_updatePeer a newScore l1) (\<lambda>l2. Ret (l2, w1)))))"

text \<open>\<open>order\<close> is the order in which the map is ranged over.\<close>

fun SetStrategy_loop :: "nat list \<Rightarrow> PeerList \<times> peerWorld \<Rightarrow> (PeerList \<times> peerWorld) go" where
  "SetStrategy_loop [] (l, w) = Ret (l, w)"
| "SetStrategy_loop (a # as) (l, w) =
     (case pl_updatePeer a (pl_scoreCalculator l (pw_conns w) (peer_at (ps_Peer (score_at a (pl_peerHeap l))) w)) l of
        Panic \<Rightarrow> Panic
      | Ret l' \<Rightarrow> SetStrategy_loop as (l', w))"

definition SetStrategy ::
  "((string \<times> nat) list \<Rightarrow> nat list) \<Rightarrow> ScoreCalculator \<Rightarrow> PeerList \<times> peerWorld \<Rightarrow> (PeerList \<times> peerWorld) go" where
  "SetStrategy order sc = (\<lambda>(l, w).
     SetStrategy_loop (order (pl_peersByHostPort l)) (l\<lparr>pl_scoreCalculator := sc\<rparr>, w))"

section \<open>Connections of a peer\<close>

text \<open>Whatever number is drawn, an active connection is found if the peer has one.\<close>

lemma getConn_all:
  assumes "i < length (p_inbound p) + length (p_outbound p)"
  shows "getConn i p = Ret ((p_inbound p @ p_outbound p) ! i)"
  using assms by (auto simp: getConn_def nth_append)

lemma getActiveConn_loop_ok:
  assumes "n = length (p_inbound p) + length (p_outbound p)" and "0 < n"
  shows "\<exists>r. getActiveConn_loop conns p n k is = Ret r \<and>
    (case r of
       None \<Rightarrow> \<forall>i \<in> set is. \<not> IsActive (conns ((p_inbound p @ p_outbound p) ! ((i + k) mod n)))
     | Some c \<Rightarrow> c \<in> set (p_inbound p @ p_outbound p) \<and> IsActive (conns c))"
proof (induction "is")
  case (Cons i "is")
  let ?c = "(p_inbound p @ p_outbound p) ! ((i + k) mod n)"
  have lt: "(i + k) mod n < length (p_inbound p) + length (p_outbound p)" using assms by simp
  have mem: "?c \<in> set (p_inbound p @ p_outbound p)" using lt by (intro nth_mem) simp
  show ?case
  proof (cases "IsActive (conns ?c)")
    case True
    then have "getActiveConn_loop conns p n k (i # is) = Ret (Some ?c)" by (simp add: getConn_all [OF lt])
    with True mem show ?thesis by simp
  next
    case False
    then have "getActiveConn_loop conns p n k (i # is) = getActiveConn_loop conns p n k is" by (simp add: getConn_all [OF lt])
    with Cons.IH False show ?thesis by (auto split: option.splits)
  qed
qed simp

lemma getActiveConnLocked_ok:
  obtains conn where "getActiveConnLocked r conns p = Ret conn"
    and "conn = None \<longleftrightarrow> (\<forall>c \<in> set (p_inbound p @ p_outbound p). \<not> IsActive (conns c))"
    and "\<And>c. conn = Some c \<Longrightarrow> c \<in> set (p_inbound p @ p_outbound p) \<and> IsActive (conns c)"
proof -
  define cs where "cs = p_inbound p @ p_outbound p"
  define n where "n = length (p_inbound p) + length (p_outbound p)"
  define k where "k = (if n > 1 then r mod n else 0)"
  have len: "length cs = n" by (simp add: cs_def n_def)
  show thesis
  proof (cases "n = 0")
    case True
    then show thesis using that [of None] by (simp add: getActiveConnLocked_def n_def)
  next
    case False
    then obtain conn where eq: "getActiveConn_loop conns p n k [0..<n] = Ret conn"
      and c: "case conn of None \<Rightarrow> \<forall>i \<in> set [0..<n]. \<not> IsActive (conns (cs ! ((i + k) mod n)))
        | Some c \<Rightarrow> c \<in> set cs \<and> IsActive (conns c)"
      using getActiveConn_loop_ok [OF n_def, of conns k "[0..<n]", folded cs_def] by auto
    have all: "\<exists>i < n. cs ! ((i + k) mod n) = x" if x: "x \<in> set cs" for x
    proof -
      obtain j where j: "j < n" "x = cs ! j" using x len by (auto simp: in_set_conv_nth)
      have "k < n" using False by (simp add: k_def)
      then have "((j + (n - k)) mod n + k) mod n = (j + n) mod n" by (simp add: mod_simps)
      with j False show ?thesis by (intro exI [of _ "(j + (n - k)) mod n"]) simp
    qed
    have "getActiveConnLocked r conns p = Ret conn"
      using eq False by (simp add: getActiveConnLocked_def Let_def n_def [symmetric] k_def)
    moreover have "conn = None \<longleftrightarrow> (\<forall>c \<in> set cs. \<not> IsActive (conns c))"
    proof
      assume "conn = None"
      with c all show "\<forall>c \<in> set cs. \<not> IsActive (conns c)" by fastforce
    next
      assume "\<forall>c \<in> set cs. \<not> IsActive (conns c)"
      with c show "conn = None" by (cases conn) auto
    qed
    ultimately show thesis using that [of conn] c by (cases conn) (simp_all add: cs_def)
  qed
qed

section \<open>Choosing from the heap\<close>

lemma heap_wf_least:
  assumes "heap_wf ph" and "b \<in> set (ph_peerScores ph)"
  shows "heap_key ph (ph_peerScores ph ! 0) \<le> heap_key ph b"
proof -
  from assms(2) obtain x where "x < ph_Len ph" "b = ph_peerScores ph ! x" by (auto simp: in_set_conv_nth ph_Len_def)
  with assms(1) heap_ordered_min [of "heap_key ph" "ph_Len ph" "ph_peerScores ph" x] show ?thesis by (simp add: heap_wf_def)
qed

definition popped_ok :: "(nat \<Rightarrow> bool) \<Rightarrow> peerHeap \<Rightarrow> nat option \<Rightarrow> nat list \<Rightarrow> peerHeap \<Rightarrow> bool" where
  "popped_ok can h ps pops h' \<longleftrightarrow>
     indexed h' \<and> (heap_wf h \<longrightarrow> heap_wf h') \<and> kept (set (ph_peerScores h)) h h' \<and>
     mset (ph_peerScores h) = mset (ph_peerScores h') + mset pops + (case ps of None \<Rightarrow> {#} | Some a \<Rightarrow> {#a#}) \<and>
     (\<forall>a \<in> set pops. \<not> can (ps_Peer (score_at a h)) \<and> ps_index (score_at a h') = -1) \<and>
     (\<forall>a. ps = Some a \<longrightarrow> can (ps_Peer (score_at a h)) \<and> ps_index (score_at a h') = -1 \<and>
        (heap_wf h \<longrightarrow> (\<forall>b \<in> set (ph_peerScores h'). heap_key h a \<le> heap_key h b)))"

lemma popped_ok_step:
  assumes k: "kept (set (ph_peerScores h)) h h1" and wf: "heap_wf h \<longrightarrow> heap_wf h1" and a: "a \<in> set (ph_peerScores h)"
    and d: "indexed h" and ms: "mset (ph_peerScores h1) = mset (ph_peerScores h) - {#a#}"
    and neg: "ps_index (score_at a h1) = -1" "\<not> can (ps_Peer (score_at a h1))" and ok: "popped_ok can h1 ps pops h'"
  shows "popped_ok can h ps (a # pops) h'"
proof -
  have "count (mset (ph_peerScores h)) a = 1" using d a by (simp add: indexed_def distinct_count_atmost_1)
  then have "a \<notin># mset (ph_peerScores h1)" unfolding ms by (simp add: not_in_iff)
  then have out: "a \<notin> set (ph_peerScores h1)" by simp
  have sub: "set (ph_peerScores h1) \<subseteq> set (ph_peerScores h)" using ms by (metis in_diffD set_mset_mset subsetI)
  have k': "kept (set (ph_peerScores h1)) h1 h'" using ok by (simp add: popped_ok_def)
  have kk: "kept (set (ph_peerScores h)) h h'" using kept_mono [OF kept_trans [OF k k']] sub by blast
  have ai: "ps_index (score_at a h') = -1" using kept_outside [OF k' out] neg by simp
  have key: "heap_key h1 = heap_key h" "\<And>x. ps_Peer (score_at x h1) = ps_Peer (score_at x h)"
    using kept_key [OF k] kept_Peer [OF k] by auto
  have mm: "mset (ph_peerScores h) = add_mset a (mset (ph_peerScores h1))" using ms a by simp
  show ?thesis using ok wf kk ai neg unfolding popped_ok_def key mm by auto
qed

lemma choose_pop_ok:
  assumes "indexed h" and "k \<le> ph_Len h"
  shows "\<exists>ps pops h'. choose_pop can k acc h = Ret (ps, acc @ pops, h') \<and> popped_ok can h ps pops h' \<and>
           (ps = None \<longrightarrow> length pops = k)"
  using assms
proof (induction k arbitrary: acc h)
  case 0
  then show ?case by (simp add: popped_ok_def)
next
  case (Suc k)
  let ?a = "ph_peerScores h ! 0"
  have n: "0 < ph_Len h" using Suc(3) by simp
  then have a: "?a \<in> set (ph_peerScores h)" using nth_mem [of 0 "ph_peerScores h"] by (simp add: ph_Len_def)
  from heap_Pop_ok [OF Suc(2) n] obtain h1 where pop: "heap_Pop h = Ret (?a, h1)" and ix1: "indexed h1"
    and wf1: "heap_wf h \<longrightarrow> heap_wf h1" and k1: "kept (set (ph_peerScores h)) h h1"
    and ms: "mset (ph_peerScores h1) = mset (ph_peerScores h) - {#?a#}" and neg: "ps_index (score_at ?a h1) = -1" .
  have sub: "set (ph_peerScores h1) \<subseteq> set (ph_peerScores h)" using ms by (metis in_diffD set_mset_mset subsetI)
  show ?case
  proof (cases "can (ps_Peer (score_at ?a h1))")
    case True
    have "popped_ok can h (Some ?a) [] h1"
      using ix1 wf1 k1 ms neg True a sub heap_wf_least [of h] kept_Peer [OF k1, of ?a] unfolding popped_ok_def by auto
    moreover have "choose_pop can (Suc k) acc h = Ret (Some ?a, acc @ [], h1)" using pop True by (simp add: ph_popPeer_def)
    ultimately show ?thesis by blast
  next
    case False
    have "size (mset (ph_peerScores h1)) = ph_Len h - 1" unfolding ms using a by (simp add: size_Diff_singleton ph_Len_def)
    then have "k \<le> ph_Len h1" using Suc(3) by (simp add: ph_Len_def)
    from Suc(1) [OF ix1 this, of "acc @ [?a]"] obtain ps pops h' where
      rec: "choose_pop can k (acc @ [?a]) h1 = Ret (ps, (acc @ [?a]) @ pops, h')" and ok: "popped_ok can h1 ps pops h'"
      and len: "ps = None \<longrightarrow> length pops = k" by blast
    have "choose_pop can (Suc k) acc h = Ret (ps, acc @ (?a # pops), h')" using pop False rec by (simp add: ph_popPeer_def)
    with popped_ok_step [OF k1 wf1 a Suc(2) ms neg False ok] len show ?thesis by (metis length_Cons)
  qed
qed

lemma choose_push_ok:
  assumes "indexed h" and "distinct as" and "set as \<inter> set (ph_peerScores h) = {}" and "\<forall>a \<in> set as. a < length (hs_scores h)"
  shows "\<exists>h'. choose_push as h = Ret h' \<and> indexed h' \<and> (heap_wf h \<longrightarrow> heap_wf h') \<and>
           kept (set as \<union> set (ph_peerScores h)) h h' \<and> mset (ph_peerScores h') = mset (ph_peerScores h) + mset as"
  using assms
proof (induction as arbitrary: h)
  case Nil
  then show ?case by simp
next
  case (Cons a as)
  from Cons.prems have a: "a \<notin> set (ph_peerScores h)" "a < length (hs_scores h)" by auto
  from heap_Push_ok [OF Cons.prems(1) a] obtain h1 where p: "heap_Push a h = Ret h1" and ix1: "indexed h1"
    and wf1: "heap_wf h \<longrightarrow> heap_wf h1" and k1: "kept (insert a (set (ph_peerScores h))) h h1"
    and ms: "mset (ph_peerScores h1) = add_mset a (mset (ph_peerScores h))" .
  have s1: "set (ph_peerScores h1) = insert a (set (ph_peerScores h))" using arg_cong [OF ms, of set_mset] by simp
  have "\<exists>h'. choose_push as h1 = Ret h' \<and> indexed h' \<and> (heap_wf h1 \<longrightarrow> heap_wf h') \<and>
           kept (set as \<union> set (ph_peerScores h1)) h1 h' \<and> mset (ph_peerScores h') = mset (ph_peerScores h1) + mset as"
    using Cons.prems s1 kept_length [OF k1] by (intro Cons.IH ix1) auto
  then obtain h' where h': "choose_push as h1 = Ret h'" "indexed h'" "heap_wf h1 \<longrightarrow> heap_wf h'"
    "kept (set as \<union> set (ph_peerScores h1)) h1 h'" "mset (ph_peerScores h') = mset (ph_peerScores h1) + mset as" by blast
  have "kept (set (a # as) \<union> set (ph_peerScores h)) h h'"
    by (rule kept_mono [OF kept_trans [OF k1 h'(4)]]) (auto simp: s1)
  then show ?case using p h' wf1 ms by auto
qed

section \<open>Well-formed lists\<close>

text \<open>
  The root list maps a host and port to a peer that has it. The scores of the map are those of the heap, each once, and know
  their index; a score that is not in the heap has no index; and the map leads from a host and port to the peer that has it.
\<close>

definition root_wf :: "peerWorld \<Rightarrow> bool" where
  "root_wf w \<longleftrightarrow> (\<forall>hp p. map_of (pw_root w) hp = Some p \<longrightarrow> p < length (pw_peers w) \<and> p_hostPort (peer_at p w) = hp)"

definition map_wf :: "(string \<times> nat) list \<Rightarrow> peerHeap \<Rightarrow> Peer list \<Rightarrow> bool" where
  "map_wf m h peers \<longleftrightarrow>
     distinct (map fst m) \<and> mset (map snd m) = mset (ph_peerScores h) \<and>
     (\<forall>(hp, a) \<in> set m. ps_Peer (score_at a h) < length peers \<and> p_hostPort (peers ! ps_Peer (score_at a h)) = hp)"

definition pl_wf :: "PeerList \<times> peerWorld \<Rightarrow> bool" where
  "pl_wf = (\<lambda>(l, w).
     root_wf w \<and> indexed (pl_peerHeap l) \<and> map_wf (pl_peersByHostPort l) (pl_peerHeap l) (pw_peers w) \<and>
     (\<forall>a < length (hs_scores (pl_peerHeap l)). a \<notin> set (ph_peerScores (pl_peerHeap l)) \<longrightarrow>
        ps_index (score_at a (pl_peerHeap l)) = -1))"

text \<open>Scores and peers are never lost, and a peer keeps its host and port.\<close>

definition peers_later :: "peerWorld \<Rightarrow> peerWorld \<Rightarrow> bool" where
  "peers_later w w' \<longleftrightarrow>
     length (pw_peers w) \<le> length (pw_peers w') \<and>
     (\<forall>p < length (pw_peers w). p_hostPort (peer_at p w') = p_hostPort (peer_at p w))"

definition pl_later :: "PeerList \<times> peerWorld \<Rightarrow> PeerList \<times> peerWorld \<Rightarrow> bool" where
  "pl_later = (\<lambda>(l, w) (l', w').
     length (hs_scores (pl_peerHeap l)) \<le> length (hs_scores (pl_peerHeap l')) \<and> peers_later w w')"

lemma peers_later_refl [simp]: "peers_later w w"
  by (simp add: peers_later_def)

lemma peers_later_trans: "peers_later w w1 \<Longrightarrow> peers_later w1 w2 \<Longrightarrow> peers_later w w2"
  by (auto simp: peers_later_def)

lemma pl_later_refl [simp]: "pl_later s s"
  by (simp add: pl_later_def split_def)

lemma pl_later_trans: "pl_later s s1 \<Longrightarrow> pl_later s1 s2 \<Longrightarrow> pl_later s s2"
  by (auto simp: pl_later_def split_def intro: peers_later_trans)

lemma map_wf_later:
  assumes "map_wf m h (pw_peers w)" and "peers_later w w'"
  shows "map_wf m h (pw_peers w')"
  using assms by (fastforce simp: map_wf_def peers_later_def)

lemma set_peer_simps [simp]:
  "length (pw_peers (set_peer p q w)) = length (pw_peers w)" "pw_root (set_peer p q w) = pw_root w"
  "pw_conns (set_peer p q w) = pw_conns w"
  by (simp_all add: set_peer_def)

lemma set_peer_later:
  assumes "p_hostPort q = p_hostPort (peer_at p w)"
  shows "peers_later w (set_peer p q w)"
  using assms by (cases "p < length (pw_peers w)") (auto simp: peers_later_def set_peer_def nth_list_update list_update_beyond)

lemma set_peer_root:
  assumes "root_wf w" and "p_hostPort q = p_hostPort (peer_at p w)"
  shows "root_wf (set_peer p q w)"
  using assms set_peer_later [OF assms(2)] by (simp add: root_wf_def peers_later_def)

lemma map_wf_set:
  assumes "map_wf m h peers"
  shows "set (ph_peerScores h) = snd ` set m"
  using assms mset_eq_setD [of "map snd m" "ph_peerScores h"] by (simp add: map_wf_def)

lemma map_wf_in:
  assumes "map_wf m h peers" and "map_of m hp = Some a"
  shows "a \<in> set (ph_peerScores h)" and "ps_Peer (score_at a h) < length peers" and "p_hostPort (peers ! ps_Peer (score_at a h)) = hp"
proof -
  have i: "(hp, a) \<in> set m" using assms(2) by (rule map_of_SomeD)
  then show "a \<in> set (ph_peerScores h)" using map_wf_set [OF assms(1)] by force
  show "ps_Peer (score_at a h) < length peers" "p_hostPort (peers ! ps_Peer (score_at a h)) = hp"
    using assms(1) i by (auto simp: map_wf_def)
qed

lemma map_wf_of:
  assumes "map_wf m h peers" and "a \<in> set (ph_peerScores h)"
  obtains hp where "map_of m hp = Some a" and "p_hostPort (peers ! ps_Peer (score_at a h)) = hp"
proof -
  from assms(2) map_wf_set [OF assms(1)] obtain hp where i: "(hp, a) \<in> set m" by force
  with assms(1) have "map_of m hp = Some a" by (simp add: map_wf_def map_of_eq_Some_iff)
  with map_wf_in(3) [OF assms(1) this] that show thesis by blast
qed

lemma map_wf_stays:
  assumes "map_wf m h peers" and "\<And>a. ps_Peer (score_at a h') = ps_Peer (score_at a h)"
    and "mset (ph_peerScores h') = mset (ph_peerScores h)"
  shows "map_wf m h' peers"
  using assms by (simp add: map_wf_def)

text \<open>An operation that only rearranges the heap.\<close>

lemma pl_wf_stays:
  assumes wf: "pl_wf (l, w)" and ix: "indexed h'" and st: "stays (set (ph_peerScores (pl_peerHeap l))) (pl_peerHeap l) h'"
    and ms: "mset (ph_peerScores h') = mset (ph_peerScores (pl_peerHeap l))"
  shows "pl_wf (l\<lparr>pl_peerHeap := h'\<rparr>, w)" and "pl_later (l, w) (l\<lparr>pl_peerHeap := h'\<rparr>, w)"
proof -
  have s: "set (ph_peerScores h') = set (ph_peerScores (pl_peerHeap l))" using ms mset_eq_setD by blast
  have mw: "map_wf (pl_peersByHostPort l) (pl_peerHeap l) (pw_peers w)" using wf by (simp add: pl_wf_def)
  have pe: "ps_Peer (score_at a h') = ps_Peer (score_at a (pl_peerHeap l))" for a using st unfolding stays_def by blast
  note map_wf_stays [OF mw pe ms]
  moreover have "ps_index (score_at a h') = -1" if "a < length (hs_scores h')" "a \<notin> set (ph_peerScores h')" for a
  proof -
    have "score_at a h' = score_at a (pl_peerHeap l)" "length (hs_scores h') = length (hs_scores (pl_peerHeap l))"
      using st that(2) unfolding s stays_def by blast+
    then show ?thesis using wf that by (simp add: pl_wf_def s)
  qed
  ultimately show "pl_wf (l\<lparr>pl_peerHeap := h'\<rparr>, w)" using wf ix by (simp add: pl_wf_def)
  show "pl_later (l, w) (l\<lparr>pl_peerHeap := h'\<rparr>, w)" using st by (simp add: pl_later_def stays_def)
qed

lemma pl_wf_world:
  assumes "pl_wf (l, w)" and "peers_later w w'" and "root_wf w'"
  shows "pl_wf (l, w')" and "pl_later (l, w) (l, w')"
proof -
  have "map_wf (pl_peersByHostPort l) (pl_peerHeap l) (pw_peers w)" using assms(1) by (simp add: pl_wf_def)
  from map_wf_later [OF this assms(2)] assms show "pl_wf (l, w')" "pl_later (l, w) (l, w')"
    by (simp_all add: pl_wf_def pl_later_def)
qed

text \<open>What is popped is put back.\<close>

lemma choose_put_back:
  assumes ix: "indexed h" and ok: "popped_ok can h ps pops h1"
  obtains h2 where "choose_push pops h1 = Ret h2" and "indexed h2" and "heap_wf h \<longrightarrow> heap_wf h2"
    and "kept (set (ph_peerScores h)) h h2"
    and "mset (ph_peerScores h) = mset (ph_peerScores h2) + (case ps of None \<Rightarrow> {#} | Some a \<Rightarrow> {#a#})"
proof -
  have k1: "kept (set (ph_peerScores h)) h h1" and ix1: "indexed h1" and wf1: "heap_wf h \<longrightarrow> heap_wf h1"
    and ms1: "mset (ph_peerScores h) = mset (ph_peerScores h1) + mset pops + (case ps of None \<Rightarrow> {#} | Some a \<Rightarrow> {#a#})"
    using ok by (simp_all add: popped_ok_def)
  have eq: "mset (ph_peerScores h) = mset (ph_peerScores h1 @ pops @ (case ps of None \<Rightarrow> [] | Some a \<Rightarrow> [a]))"
    using ms1 by (cases ps) simp_all
  have "distinct (ph_peerScores h)" using ix by (simp add: indexed_def)
  then have dist: "distinct (ph_peerScores h1 @ pops @ (case ps of None \<Rightarrow> [] | Some a \<Rightarrow> [a]))"
    using mset_eq_imp_distinct_iff [OF eq] by blast
  have s: "set (ph_peerScores h1) \<union> set pops \<subseteq> set (ph_peerScores h)" using mset_eq_setD [OF eq] by auto
  have bound: "a < length (hs_scores h1)" if "a \<in> set pops" for a
  proof -
    have "a \<in> set (ph_peerScores h)" using s that by blast
    from indexed_in [OF ix this] show ?thesis using kept_length [OF k1] by metis
  qed
  have d: "distinct pops" "set pops \<inter> set (ph_peerScores h1) = {}" using dist by auto
  from choose_push_ok [OF ix1 d] bound obtain h2 where push: "choose_push pops h1 = Ret h2" and ix2: "indexed h2"
    and wf2: "heap_wf h1 \<longrightarrow> heap_wf h2" and k2: "kept (set pops \<union> set (ph_peerScores h1)) h1 h2"
    and ms2: "mset (ph_peerScores h2) = mset (ph_peerScores h1) + mset pops" by blast
  have "kept (set (ph_peerScores h)) h h2" using kept_mono [OF kept_trans [OF k1 k2], of "set (ph_peerScores h)"] s by blast
  moreover have "mset (ph_peerScores h) = mset (ph_peerScores h2) + (case ps of None \<Rightarrow> {#} | Some a \<Rightarrow> {#a#})"
    using ms1 ms2 by simp
  ultimately show thesis using that push ix2 wf1 wf2 by blast
qed

text \<open>What can be said of the peer chosen from a list, and of choosing none.\<close>

definition chosen_ok :: "string list \<Rightarrow> bool \<Rightarrow> PeerList \<Rightarrow> nat option \<Rightarrow> bool" where
  "chosen_ok prev avoid l r =
     (case r of
        None \<Rightarrow> \<forall>hp a. map_of (pl_peersByHostPort l) hp = Some a \<longrightarrow> \<not> canChoosePeer prev avoid hp
      | Some p \<Rightarrow> \<exists>hp a. map_of (pl_peersByHostPort l) hp = Some a \<and> ps_Peer (score_at a (pl_peerHeap l)) = p \<and>
           canChoosePeer prev avoid hp \<and>
           (heap_wf (pl_peerHeap l) \<longrightarrow>
             (\<forall>hp' b. map_of (pl_peersByHostPort l) hp' = Some b \<and> canChoosePeer prev avoid hp' \<longrightarrow>
                heap_key (pl_peerHeap l) a \<le> heap_key (pl_peerHeap l) b)))"

lemma popped_chosen:
  assumes wf: "pl_wf (l, w)" and h: "h = pl_peerHeap l"
    and can: "can = (\<lambda>p. canChoosePeer prev avoid (p_hostPort (peer_at p w)))"
    and ok: "popped_ok can h ps pops h1" and len: "ps = None \<longrightarrow> length pops = ph_Len h"
  shows "chosen_ok prev avoid l (map_option (\<lambda>a. ps_Peer (score_at a h)) ps)"
proof -
  have mw: "map_wf (pl_peersByHostPort l) h (pw_peers w)" using wf by (simp add: pl_wf_def h)
  have can_hp: "can (ps_Peer (score_at a h)) = canChoosePeer prev avoid hp" if "map_of (pl_peersByHostPort l) hp = Some a" for hp a
    using map_wf_in(3) [OF mw that] by (simp add: can)
  have ms: "mset (ph_peerScores h) = mset (ph_peerScores h1) + mset pops + (case ps of None \<Rightarrow> {#} | Some a \<Rightarrow> {#a#})"
    and no: "\<And>a. a \<in> set pops \<Longrightarrow> \<not> can (ps_Peer (score_at a h))" using ok by (auto simp: popped_ok_def)
  have s: "set (ph_peerScores h) = set (ph_peerScores h1) \<union> set pops \<union> set_option ps"
    using arg_cong [OF ms, of set_mset] by (cases ps) auto
  show ?thesis
  proof (cases ps)
    case None
    have "ph_peerScores h1 = []" using arg_cong [OF ms, of size] len None by (simp add: ph_Len_def)
    then have "\<not> canChoosePeer prev avoid hp" if "map_of (pl_peersByHostPort l) hp = Some a" for hp a
      using no [of a] map_wf_in(1) [OF mw that] can_hp [OF that] s None by simp
    then show ?thesis using None by (auto simp: chosen_ok_def)
  next
    case (Some a)
    then have "a \<in> set (ph_peerScores h)" using s by simp
    from map_wf_of [OF mw this] obtain hp where hp: "map_of (pl_peersByHostPort l) hp = Some a" by blast
    have c: "canChoosePeer prev avoid hp" using can_hp [OF hp] ok Some by (simp add: popped_ok_def)
    have "heap_key h a \<le> heap_key h b"
      if "heap_wf h" "map_of (pl_peersByHostPort l) hp' = Some b" "canChoosePeer prev avoid hp'" for hp' b
    proof -
      have "b \<notin> set pops" using no [of b] can_hp [OF that(2)] that(3) by blast
      then have "b \<in> set (ph_peerScores h1) \<or> b = a" using map_wf_in(1) [OF mw that(2)] s Some by auto
      then show ?thesis using ok that(1) Some by (auto simp: popped_ok_def)
    qed
    with hp c Some show ?thesis unfolding chosen_ok_def h by auto
  qed
qed

lemma choosePeer_ok:
  assumes wf: "pl_wf (l, w)"
  obtains r l' w' where "choosePeer rand prev avoid (l, w) = Ret (r, l', w')" and "pl_wf (l', w')" and "pl_later (l, w) (l', w')"
    and "pl_peersByHostPort l' = pl_peersByHostPort l" and "heap_wf (pl_peerHeap l) \<longrightarrow> heap_wf (pl_peerHeap l')"
    and "chosen_ok prev avoid l r"
proof -
  define h where "h = pl_peerHeap l"
  define can where "can = (\<lambda>p. canChoosePeer prev avoid (p_hostPort (peer_at p w)))"
  have ix: "indexed h" and rw: "root_wf w" using wf by (simp_all add: pl_wf_def h_def)
  from choose_pop_ok [OF ix order_refl, of can "[]"] obtain ps pops h1 where pop: "choose_pop can (ph_Len h) [] h = Ret (ps, pops, h1)"
    and ok: "popped_ok can h ps pops h1" and len: "ps = None \<longrightarrow> length pops = ph_Len h" by auto
  note chosen = popped_chosen [OF wf h_def can_def ok len]
  from choose_put_back [OF ix ok] obtain h2 where push: "choose_push pops h1 = Ret h2" and ix2: "indexed h2"
    and wf2: "heap_wf h \<longrightarrow> heap_wf h2" and k2: "kept (set (ph_peerScores h)) h h2"
    and ms2: "mset (ph_peerScores h) = mset (ph_peerScores h2) + (case ps of None \<Rightarrow> {#} | Some a \<Rightarrow> {#a#})" .
  show thesis
  proof (cases ps)
    case None
    have eq: "choosePeer rand prev avoid (l, w) = Ret (None, l\<lparr>pl_peerHeap := h2\<rparr>, w)"
      using pop push None by (simp add: choosePeer_def Let_def h_def can_def)
    have ms: "mset (ph_peerScores h2) = mset (ph_peerScores h)" using ms2 None by simp
    note lw = pl_wf_stays [OF wf ix2, folded h_def, OF kept_stays [OF k2] ms]
    show thesis using that [OF eq lw] wf2 chosen None by (simp add: h_def)
  next
    case (Some a)
    have ms': "mset (ph_peerScores h) = add_mset a (mset (ph_peerScores h2))" using ms2 Some by simp
    then have "distinct (a # ph_peerScores h2)"
      using ix mset_eq_imp_distinct_iff [of "ph_peerScores h" "a # ph_peerScores h2"] by (simp add: indexed_def)
    moreover have ah: "a \<in> set (ph_peerScores h)" using arg_cong [OF ms', of set_mset] by simp
    moreover have "a < length (hs_scores h)" using indexed_in [OF ix ah] by metis
    ultimately have a: "a \<notin> set (ph_peerScores h2)" "a < length (hs_scores h2)" using kept_length [OF k2] by simp_all
    from ph_pushPeer_ok [OF ix2 a, of rand] obtain h3 where pp: "ph_pushPeer rand a h2 = Ret h3" and ix3: "indexed h3"
      and wf3: "heap_wf h2 \<longrightarrow> heap_wf h3" and st3: "stays (insert a (set (ph_peerScores h2))) h2 h3"
      and ms3: "mset (ph_peerScores h3) = add_mset a (mset (ph_peerScores h2))" .
    have ms: "mset (ph_peerScores h3) = mset (ph_peerScores h)" using ms' ms3 by simp
    have s3: "insert a (set (ph_peerScores h2)) = set (ph_peerScores h)" using arg_cong [OF ms', of set_mset] by simp
    have st: "stays (set (ph_peerScores h)) h h3" using stays_trans [OF kept_stays [OF k2] st3] unfolding s3 by simp
    define p where "p = ps_Peer (score_at a h)"
    define w' where "w' = set_peer p ((peer_at p w)\<lparr>p_chosenCount := p_chosenCount (peer_at p w) + 1\<rparr>) w"
    have p3: "ps_Peer (score_at a h3) = p" using st by (simp add: stays_def p_def)
    have eq: "choosePeer rand prev avoid (l, w) = Ret (Some p, l\<lparr>pl_peerHeap := h3\<rparr>, w')"
      using pop push Some pp p3 by (simp add: choosePeer_def Let_def h_def can_def w'_def)
    note lw = pl_wf_stays [OF wf ix3, folded h_def, OF st ms]
    have lt: "peers_later w w'" "root_wf w'" unfolding w'_def by (intro set_peer_later set_peer_root rw, simp)+
    note lw' = pl_wf_world [OF lw(1) lt]
    show thesis using that [OF eq lw'(1) pl_later_trans [OF lw(2) lw'(2)]] wf2 wf3 chosen Some by (simp add: h_def p_def)
  qed
qed

section \<open>The operations on a list\<close>

lemma root_Add_ok:
  assumes rw: "root_wf w" and hp: "hostPort \<noteq> []"
  obtains p w' where "root_Add hostPort w = Ret (p, w')" and "root_wf w'" and "peers_later w w'" and "pw_conns w' = pw_conns w"
    and "p < length (pw_peers w')" and "p_hostPort (peer_at p w') = hostPort"
proof (cases "map_of (pw_root w) hostPort")
  case (Some p)
  then show thesis using that [of p w] rw by (simp add: root_Add_def root_wf_def)
next
  case None
  define q where "q = \<lparr>p_hostPort = hostPort, p_scCount = 0, p_inbound = [], p_outbound = [], p_chosenCount = 0\<rparr>"
  define w' where "w' = w\<lparr>pw_peers := pw_peers w @ [q], pw_root := AList.update hostPort (length (pw_peers w)) (pw_root w)\<rparr>"
  have "root_Add hostPort w = Ret (length (pw_peers w), w')"
    using None hp by (simp add: root_Add_def newPeer_def w'_def q_def Let_def)
  moreover have "root_wf w'"
    using rw by (auto simp: root_wf_def w'_def q_def update_conv nth_append split: if_splits dest: less_SucI)
  moreover have "peers_later w w'" by (simp add: peers_later_def w'_def nth_append)
  ultimately show thesis using that by (simp add: w'_def q_def)
qed

lemma addSC_ok:
  assumes "root_wf w"
  shows "root_wf (addSC p w)" and "peers_later w (addSC p w)" and "root_wf (delSC p w)" and "peers_later w (delSC p w)"
  unfolding addSC_def delSC_def by (intro set_peer_root set_peer_later assms, simp)+

lemma update_new: "map_of m k = None \<Longrightarrow> AList.update k v m = m @ [(k, v)]"
  by (induction m) (auto split: if_splits)

lemma map_wf_add:
  assumes mw: "map_wf m h peers" and new: "map_of m hp = None"
    and p: "p < length peers" "p_hostPort (peers ! p) = hp"
    and len: "a = length (hs_scores h)" and ix: "indexed h"
    and pe: "\<And>b. ps_Peer (score_at b h') = ps_Peer ((hs_scores h @ [newPeerScore p s]) ! b)"
    and ms: "mset (ph_peerScores h') = add_mset a (mset (ph_peerScores h))"
  shows "map_wf (AList.update hp a m) h' peers"
proof -
  have upd: "AList.update hp a m = m @ [(hp, a)]" by (rule update_new [OF new])
  have old: "ps_Peer (score_at b h') = ps_Peer (score_at b h)" if "(k, b) \<in> set m" for k b
  proof -
    have "b \<in> set (ph_peerScores h)" using map_wf_set [OF mw] that by force
    from indexed_in [OF ix this] have "b < length (hs_scores h)" by metis
    then show ?thesis using pe by (simp add: nth_append)
  qed
  have "ps_Peer (score_at a h') = p" using pe by (simp add: len newPeerScore_def)
  then show ?thesis
    using mw p ms old new unfolding map_wf_def upd by (auto simp: map_of_eq_None_iff)
qed

lemma pl_Add_ok:
  assumes wf: "pl_wf (l, w)" and hp: "hostPort \<noteq> []"
  obtains p l' w' where "pl_Add rand hostPort (l, w) = Ret (p, l', w')" and "pl_wf (l', w')" and "pl_later (l, w) (l', w')"
    and "p_hostPort (peer_at p w') = hostPort" and "\<exists>a. map_of (pl_peersByHostPort l') hostPort = Some a \<and> ps_Peer (score_at a (pl_peerHeap l')) = p"
proof (cases "map_of (pl_peersByHostPort l) hostPort")
  case (Some a)
  have mw: "map_wf (pl_peersByHostPort l) (pl_peerHeap l) (pw_peers w)" using wf by (simp add: pl_wf_def)
  show thesis using that [of "ps_Peer (score_at a (pl_peerHeap l))" l w] Some wf map_wf_in(3) [OF mw Some]
    by (simp add: pl_Add_def pl_exists_def)
next
  case None
  define h where "h = pl_peerHeap l"
  define a where "a = length (hs_scores h)"
  have ix: "indexed h" and mw: "map_wf (pl_peersByHostPort l) h (pw_peers w)" and rw: "root_wf w"
    using wf by (simp_all add: pl_wf_def h_def)
  from root_Add_ok [OF rw hp] obtain p w1 where add: "root_Add hostPort w = Ret (p, w1)" and rw1: "root_wf w1" and lt1: "peers_later w w1"
    and "pw_conns w1 = pw_conns w" and p: "p < length (pw_peers w1)" "p_hostPort (peer_at p w1) = hostPort" .
  define w2 where "w2 = addSC p w1"
  note sc = addSC_ok(1,2) [OF rw1, of p, folded w2_def]
  have lt2: "peers_later w w2" by (rule peers_later_trans [OF lt1 sc(2)])
  have p2: "p < length (pw_peers w2)" "p_hostPort (peer_at p w2) = hostPort" using p sc(2) by (auto simp: peers_later_def)
  define ps where "ps = newPeerScore p (pl_scoreCalculator l (pw_conns w2) (peer_at p w2))"
  define h1 where "h1 = h\<lparr>hs_scores := hs_scores h @ [ps]\<rparr>"
  have l1: "ph_Len h1 = ph_Len h" "ph_peerScores h1 = ph_peerScores h" by (simp_all add: h1_def ph_Len_def)
  have ix1: "indexed h1" using ix by (auto simp: indexed_def l1) (auto simp: h1_def nth_append)
  have lt_a: "b < a" if "b \<in> set (ph_peerScores h)" for b using indexed_in [OF ix that] a_def by metis
  have a: "a \<notin> set (ph_peerScores h1)" "a < length (hs_scores h1)" using lt_a l1 by (auto simp: h1_def a_def)
  from ph_addPeer_ok [OF ix1 a, of rand] obtain h' where ap: "ph_addPeer rand a h1 = Ret h'" and ix': "indexed h'"
    and st: "stays (insert a (set (ph_peerScores h1))) h1 h'" and ms: "mset (ph_peerScores h') = add_mset a (mset (ph_peerScores h1))" .
  define l' where "l' = l\<lparr>pl_peersByHostPort := AList.update hostPort a (pl_peersByHostPort l), pl_peerHeap := h'\<rparr>"
  have eq: "pl_Add rand hostPort (l, w) = Ret (p, l', w2)"
    using None add ap by (simp add: pl_Add_def pl_exists_def Let_def l'_def w2_def [symmetric] h_def [symmetric] a_def [symmetric]
        ps_def [symmetric] h1_def [symmetric])
  have pe: "ps_Peer (score_at b h') = ps_Peer ((hs_scores h @ [ps]) ! b)" for b using st by (simp add: stays_def h1_def)
  have mw': "map_wf (AList.update hostPort a (pl_peersByHostPort l)) h' (pw_peers w2)"
    using map_wf_add [OF map_wf_later [OF mw lt2] None p2 a_def ix pe [unfolded ps_def]] ms by (simp add: l1)
  have len: "length (hs_scores h') = Suc (length (hs_scores h))" using st by (simp add: stays_def h1_def)
  have s': "set (ph_peerScores h') = insert a (set (ph_peerScores h))" using arg_cong [OF ms, of set_mset] by (simp add: l1)
  have out: "ps_index (score_at b h') = -1" if b: "b < length (hs_scores h')" "b \<notin> set (ph_peerScores h')" for b
  proof -
    have "b < length (hs_scores h)" using b len s' by (auto simp: a_def less_Suc_eq)
    moreover have "score_at b h' = score_at b h1" using st b by (simp add: stays_def s' l1)
    ultimately show ?thesis using wf b s' by (simp add: pl_wf_def h_def [symmetric] h1_def nth_append)
  qed
  have "pl_wf (l', w2)" using ix' mw' sc(1) out by (simp add: pl_wf_def l'_def)
  moreover have "pl_later (l, w) (l', w2)" using lt2 len by (simp add: pl_later_def l'_def h_def [symmetric])
  moreover have "ps_Peer (score_at a h') = p" using pe [of a] by (simp add: a_def ps_def newPeerScore_def)
  ultimately show thesis using that [OF eq] p2 by (simp add: l'_def update_conv)
qed

lemma map_wf_remove:
  assumes mw: "map_wf m h peers" and hp: "map_of m hp = Some a"
    and pe: "\<And>b. ps_Peer (score_at b h') = ps_Peer (score_at b h)"
    and ms: "mset (ph_peerScores h') = mset (ph_peerScores h) - {#a#}"
  shows "map_wf (AList.delete hp m) h' peers"
proof -
  have d: "distinct (map fst m)" using mw by (simp add: map_wf_def)
  have "add_mset a (image_mset snd (mset (AList.delete hp m))) = image_mset snd (mset m)"
    using d hp
  proof (induction m)
    case (Cons x m)
    have id: "AList.delete hp m = m" if "hp \<notin> fst ` set m" using that by (simp add: delete_id)
    show ?case using Cons id by (cases x) (auto split: if_splits)
  qed simp
  then have "image_mset snd (mset (AList.delete hp m)) = mset (ph_peerScores h')"
    using mw ms by (simp add: map_wf_def) (metis add_mset_remove_trivial)
  moreover have "set (AList.delete hp m) \<subseteq> set m" by (auto simp: AList.delete_eq)
  ultimately show ?thesis using mw pe distinct_delete [OF d] by (auto simp: map_wf_def)
qed

lemma pl_Remove_ok:
  assumes wf: "pl_wf (l, w)"
  obtains e l' w' where "pl_Remove hostPort (l, w) = Ret (e, l', w')" and "pl_wf (l', w')" and "pl_later (l, w) (l', w')"
    and "pl_peersByHostPort l' = AList.delete hostPort (pl_peersByHostPort l)"
    and "e = (if hostPort \<in> dom (map_of (pl_peersByHostPort l)) then None else Some ErrPeerNotFound)"
proof (cases "map_of (pl_peersByHostPort l) hostPort")
  case None
  then have "AList.delete hostPort (pl_peersByHostPort l) = pl_peersByHostPort l" by (intro delete_id) (simp add: map_of_eq_None_iff)
  then show thesis using that [of "Some ErrPeerNotFound" l w] None wf by (simp add: pl_Remove_def domIff)
next
  case (Some a)
  define h where "h = pl_peerHeap l"
  have ix: "indexed h" and mw: "map_wf (pl_peersByHostPort l) h (pw_peers w)" and rw: "root_wf w"
    using wf by (simp_all add: pl_wf_def h_def)
  have ah: "a \<in> set (ph_peerScores h)" by (rule map_wf_in(1) [OF mw Some])
  from ix ah obtain i where i: "i < ph_Len h" and at: "ph_peerScores h ! i = a" and idx: "ps_index (score_at a h) = int i"
    by (rule indexed_in)
  from heap_Remove_ok [OF ix i] obtain h' where rm: "heap_Remove (int i) h = Ret (a, h')" and ix': "indexed h'"
    and "heap_wf h \<longrightarrow> heap_wf h'" and k: "kept (set (ph_peerScores h)) h h'"
    and ms: "mset (ph_peerScores h') = mset (ph_peerScores h) - {#a#}" and neg: "ps_index (score_at a h') = -1"
    unfolding at .
  define w' where "w' = delSC (ps_Peer (score_at a h)) w"
  define l' where "l' = l\<lparr>pl_peersByHostPort := AList.delete hostPort (pl_peersByHostPort l), pl_peerHeap := h'\<rparr>"
  note sc = addSC_ok(3,4) [OF rw, of "ps_Peer (score_at a h)", folded w'_def]
  have eq: "pl_Remove hostPort (l, w) = Ret (None, l', w')"
    using Some rm idx by (simp add: pl_Remove_def ph_removePeer_def Let_def l'_def w'_def h_def)
  have out: "ps_index (score_at b h') = -1" if b: "b < length (hs_scores h')" "b \<notin> set (ph_peerScores h')" for b
  proof (cases "b = a")
    case False
    have "b \<notin># mset (ph_peerScores h')" using b by simp
    then have "b \<notin> set (ph_peerScores h)" unfolding ms in_diff_count using False by simp
    then show ?thesis using wf b kept_outside [OF k] kept_length [OF k] by (simp add: pl_wf_def h_def)
  qed (simp add: neg)
  have "pl_wf (l', w')"
    using ix' sc(1) out map_wf_remove [OF map_wf_later [OF mw sc(2)] Some kept_Peer [OF k] ms] by (simp add: pl_wf_def l'_def)
  moreover have "pl_later (l, w) (l', w')" using sc(2) kept_length [OF k] by (simp add: pl_later_def l'_def h_def)
  ultimately show thesis using that [OF eq] Some by (simp add: l'_def domIff)
qed

text \<open>An update of a score that has left the heap does nothing but change it.\<close>

lemma pl_updatePeer_ok:
  assumes wf: "pl_wf (l, w)" and a: "a < length (hs_scores (pl_peerHeap l))"
  obtains l' where "pl_updatePeer a newScore l = Ret l'" and "pl_wf (l', w)" and "pl_later (l, w) (l', w)"
    and "pl_later (l', w) (l, w)" and "pl_peersByHostPort l' = pl_peersByHostPort l"
    and "pl_scoreCalculator l' = pl_scoreCalculator l" and "heap_wf (pl_peerHeap l) \<longrightarrow> heap_wf (pl_peerHeap l')"
    and "ps_score (score_at a (pl_peerHeap l')) = newScore"
proof (cases "ps_score (score_at a (pl_peerHeap l)) = newScore")
  case True
  then show thesis using that [of l] wf by (simp add: pl_updatePeer_def)
next
  case False
  define h where "h = pl_peerHeap l"
  define s where "s = (score_at a h)\<lparr>ps_score := newScore\<rparr>"
  define h1 where "h1 = set_score a s h"
  have ix: "indexed h" and mw: "map_wf (pl_peersByHostPort l) h (pw_peers w)" and rw: "root_wf w" using wf by (simp_all add: pl_wf_def h_def)
  have ix1: "indexed h1" unfolding h1_def by (rule set_score_indexed [OF ix]) (simp add: s_def)
  have at1: "score_at b h1 = (if b = a then s else score_at b h)" for b using a by (simp add: h1_def score_at_set_score h_def)
  have xs1: "ph_peerScores h1 = ph_peerScores h" "ph_Len h1 = ph_Len h" "length (hs_scores h1) = length (hs_scores h)"
    by (simp_all add: h1_def)
  have "\<exists>h'. ph_updatePeer a h1 = Ret h' \<and> indexed h' \<and> moved h1 h' \<and> (heap_wf h \<longrightarrow> heap_wf h')"
  proof (cases "a \<in> set (ph_peerScores h)")
    case True
    with ix obtain i where i: "i < ph_Len h" and at: "ph_peerScores h ! i = a" and idx: "ps_index (score_at a h) = int i"
      by (rule indexed_in)
    from heap_Fix_ok [OF ix1, of i] i xs1(2) obtain h' where fx: "heap_Fix (int i) h1 = Ret h'" and ix': "indexed h'" and m: "moved h1 h'"
      and o: "ordered_around (heap_key h1) i (ph_Len h1) (ph_peerScores h1) \<longrightarrow> heap_wf h'" by auto
    have "heap_wf h \<longrightarrow> heap_wf h'" using o rescored_around [of h i s] i at by (simp add: xs1 h1_def)
    then show ?thesis using fx ix' m idx by (simp add: ph_updatePeer_def at1 s_def)
  next
    case False
    then have "ps_index (score_at a h) = -1" using wf a by (simp add: pl_wf_def h_def)
    moreover have "heap_wf h1" if "heap_wf h"
    proof -
      have "heap_key h1 (ph_peerScores h ! x) = heap_key h (ph_peerScores h ! x)" if "x < ph_Len h" for x
        using that False nth_mem [of x "ph_peerScores h"] by (auto simp: heap_key_def at1 ph_Len_def)
      with that ix1 heap_ordered_cong [of "ph_Len h" "heap_key h1" "ph_peerScores h" "heap_key h" "ph_peerScores h"] show ?thesis
        by (simp add: heap_wf_def xs1)
    qed
    ultimately show ?thesis using ix1 by (simp add: ph_updatePeer_def heap_Fix_def at1 s_def)
  qed
  then obtain h' where up: "ph_updatePeer a h1 = Ret h'" and ix': "indexed h'" and m: "moved h1 h'" and o: "heap_wf h \<longrightarrow> heap_wf h'" by blast
  define l' where "l' = l\<lparr>pl_peerHeap := h'\<rparr>"
  have eq: "pl_updatePeer a newScore l = Ret l'"
    using False up by (simp add: pl_updatePeer_def Let_def h_def [symmetric] s_def [symmetric] h1_def [symmetric] l'_def)
  have pe: "ps_Peer (score_at b h') = ps_Peer (score_at b h)" for b using moved_Peer [OF m, of b] by (simp add: at1 s_def)
  have ms: "mset (ph_peerScores h') = mset (ph_peerScores h)" using m by (simp add: moved_def xs1)
  have out: "ps_index (score_at b h') = -1" if b: "b < length (hs_scores h')" "b \<notin> set (ph_peerScores h')" for b
  proof -
    have "b \<notin> set (ph_peerScores h)" "b < length (hs_scores h)" using b moved_set [OF m] moved_length [OF m] by (simp_all add: xs1)
    then have "ps_index (score_at b h1) = -1" using wf by (auto simp: pl_wf_def h_def at1 s_def)
    then show ?thesis using moved_outside [OF m] \<open>b \<notin> set (ph_peerScores h)\<close> by (simp add: xs1)
  qed
  have "pl_wf (l', w)" using ix' rw out map_wf_stays [OF mw pe ms] by (simp add: pl_wf_def l'_def)
  moreover have "pl_later (l, w) (l', w)" "pl_later (l', w) (l, w)"
    using moved_length [OF m] by (simp_all add: pl_later_def l'_def h_def [symmetric] xs1)
  moreover have "ps_score (score_at a h') = newScore" using moved_score [OF m, of a] by (simp add: at1 s_def)
  ultimately show thesis using that [OF eq] o by (simp add: l'_def h_def [symmetric])
qed

lemma SetStrategy_loop_ok:
  assumes "pl_wf (l, w)" and "\<forall>a \<in> set as. a < length (hs_scores (pl_peerHeap l))"
  shows "\<exists>l'. SetStrategy_loop as (l, w) = Ret (l', w) \<and> pl_wf (l', w) \<and> pl_later (l, w) (l', w) \<and>
           (heap_wf (pl_peerHeap l) \<longrightarrow> heap_wf (pl_peerHeap l'))"
  using assms
proof (induction as arbitrary: l)
  case Nil
  then show ?case by simp
next
  case (Cons a as)
  let ?s = "pl_scoreCalculator l (pw_conns w) (peer_at (ps_Peer (score_at a (pl_peerHeap l))) w)"
  from Cons.prems(2) have a: "a < length (hs_scores (pl_peerHeap l))" by simp
  from pl_updatePeer_ok [OF Cons.prems(1) a, of ?s] obtain l1 where up: "pl_updatePeer a ?s l = Ret l1" and wf1: "pl_wf (l1, w)"
    and lt1: "pl_later (l, w) (l1, w)" and o1: "heap_wf (pl_peerHeap l) \<longrightarrow> heap_wf (pl_peerHeap l1)" by metis
  have "\<forall>a \<in> set as. a < length (hs_scores (pl_peerHeap l1))" using Cons.prems(2) lt1 by (auto simp: pl_later_def)
  from Cons.IH [OF wf1 this] obtain l' where "SetStrategy_loop as (l1, w) = Ret (l', w)" "pl_wf (l', w)" "pl_later (l1, w) (l', w)"
    "heap_wf (pl_peerHeap l1) \<longrightarrow> heap_wf (pl_peerHeap l')" by blast
  with up o1 pl_later_trans [OF lt1] show ?case by auto
qed

lemma pl_scores_bound:
  assumes "pl_wf (l, w)" and "(hp, a) \<in> set (pl_peersByHostPort l)"
  shows "a < length (hs_scores (pl_peerHeap l))"
proof -
  have ix: "indexed (pl_peerHeap l)" and mw: "map_wf (pl_peersByHostPort l) (pl_peerHeap l) (pw_peers w)"
    using assms(1) by (simp_all add: pl_wf_def)
  have "a \<in> set (ph_peerScores (pl_peerHeap l))" using map_wf_set [OF mw] assms(2) by force
  from indexed_in [OF ix this] show ?thesis by metis
qed

lemma SetStrategy_ok:
  assumes wf: "pl_wf (l, w)" and order: "set (order (pl_peersByHostPort l)) = snd ` set (pl_peersByHostPort l)"
  obtains l' where "SetStrategy order sc (l, w) = Ret (l', w)" and "pl_wf (l', w)" and "pl_later (l, w) (l', w)"
    and "heap_wf (pl_peerHeap l) \<longrightarrow> heap_wf (pl_peerHeap l')"
proof -
  define l1 where "l1 = l\<lparr>pl_scoreCalculator := sc\<rparr>"
  have wf1: "pl_wf (l1, w)" using wf by (simp add: pl_wf_def l1_def)
  have "\<forall>a \<in> set (order (pl_peersByHostPort l)). a < length (hs_scores (pl_peerHeap l1))"
    using order pl_scores_bound [OF wf] by (auto simp: l1_def)
  from SetStrategy_loop_ok [OF wf1 this] obtain l' where
    "SetStrategy_loop (order (pl_peersByHostPort l)) (l1, w) = Ret (l', w)" "pl_wf (l', w)" "pl_later (l1, w) (l', w)"
    "heap_wf (pl_peerHeap l1) \<longrightarrow> heap_wf (pl_peerHeap l')" by blast
  then show thesis using that [of l'] by (simp add: SetStrategy_def l1_def pl_later_def)
qed

lemma onPeerChange_ok:
  assumes wf: "pl_wf s" and env: "pl_wf (env s)" "pl_later s (env s)"
  obtains s' where "onPeerChange env p s = Ret s'" and "pl_wf s'" and "pl_later s s'"
proof -
  obtain l w l1 w1 where s: "s = (l, w)" and e: "env (l, w) = (l1, w1)" by (metis surj_pair)
  let ?hp = "p_hostPort (peer_at p w)"
  show thesis
  proof (cases "map_of (pl_peersByHostPort l) ?hp")
    case None
    then show thesis using that [of s] wf by (simp add: onPeerChange_def s)
  next
    case (Some a)
    let ?n = "pl_scoreCalculator l (pw_conns w) (peer_at (ps_Peer (score_at a (pl_peerHeap l))) w)"
    show thesis
    proof (cases "?n = ps_score (score_at a (pl_peerHeap l))")
      case True
      then show thesis using that [of s] wf Some by (simp add: onPeerChange_def s)
    next
      case False
      have "a < length (hs_scores (pl_peerHeap l))"
        using pl_scores_bound [OF wf [unfolded s]] map_of_SomeD [OF Some] by blast
      then have a: "a < length (hs_scores (pl_peerHeap l1))" using env(2) by (simp add: s e pl_later_def)
      have wf1: "pl_wf (l1, w1)" using env(1) by (simp add: s e)
      from pl_updatePeer_ok [OF wf1 a, of ?n] obtain l2 where up: "pl_updatePeer a ?n l1 = Ret l2" and wf2: "pl_wf (l2, w1)"
        and lt2: "pl_later (l1, w1) (l2, w1)" by metis
      have "onPeerChange env p s = Ret (l2, w1)" using Some False up by (simp add: onPeerChange_def s e)
      with that [OF this wf2] pl_later_trans [OF env(2)] lt2 show thesis by (simp add: s e)
    qed
  qed
qed

end
