(* ===== verification/Channel.thy ===== *)
theory Channel
  imports Peers
begin

text \<open>
  A channel, from \<^verbatim>\<open>channel.go\<close>: serving, keeping its connections, closing, what it does to its peers when connections come
  and go, and the sweep for idle connections of \<^verbatim>\<open>idle_sweep.go\<close>. Closing runs in several goroutines at once. What a goroutine
  does between two acquisitions of the lock is one function; a state of the run has the channel, the states of its connections and
  what each goroutine has left to do.
\<close>

section \<open>States\<close>

datatype ChannelState = ChannelClient | ChannelListening | ChannelStartClose | ChannelInboundClosed | ChannelClosed

fun channel_no :: "ChannelState \<Rightarrow> nat" where
  "channel_no ChannelClient = 1"
| "channel_no ChannelListening = 2"
| "channel_no ChannelStartClose = 3"
| "channel_no ChannelInboundClosed = 4"
| "channel_no ChannelClosed = 5"

text \<open>Both kinds of states are integers in the code, and are compared as such.\<close>

instantiation ChannelState :: linorder
begin

definition less_eq_ChannelState :: "ChannelState \<Rightarrow> ChannelState \<Rightarrow> bool" where
  "less_eq_ChannelState a b \<longleftrightarrow> channel_no a \<le> channel_no b"

definition less_ChannelState :: "ChannelState \<Rightarrow> ChannelState \<Rightarrow> bool" where
  "less_ChannelState a b \<longleftrightarrow> channel_no a < channel_no b"

instance
proof
  fix a b c :: ChannelState
  show "a < b \<longleftrightarrow> a \<le> b \<and> \<not> b \<le> a" by (auto simp: less_eq_ChannelState_def less_ChannelState_def)
  show "a \<le> a" "a \<le> b \<Longrightarrow> b \<le> c \<Longrightarrow> a \<le> c" "a \<le> b \<or> b \<le> a" by (auto simp: less_eq_ChannelState_def)
  show "a \<le> b \<Longrightarrow> b \<le> a \<Longrightarrow> a = b" by (cases a; cases b) (simp_all add: less_eq_ChannelState_def)
qed

end

instantiation connectionState :: linorder
begin

definition less_eq_connectionState :: "connectionState \<Rightarrow> connectionState \<Rightarrow> bool" where
  "less_eq_connectionState a b \<longleftrightarrow> state_no a \<le> state_no b"

definition less_connectionState :: "connectionState \<Rightarrow> connectionState \<Rightarrow> bool" where
  "less_connectionState a b \<longleftrightarrow> state_no a < state_no b"

instance
proof
  fix a b c :: connectionState
  show "a < b \<longleftrightarrow> a \<le> b \<and> \<not> b \<le> a" by (auto simp: less_eq_connectionState_def less_connectionState_def)
  show "a \<le> a" "a \<le> b \<Longrightarrow> b \<le> c \<Longrightarrow> a \<le> c" "a \<le> b \<or> b \<le> a" by (auto simp: less_eq_connectionState_def)
  show "a \<le> b \<Longrightarrow> b \<le> a \<Longrightarrow> a = b" by (cases a; cases b) (simp_all add: less_eq_connectionState_def)
qed

end

lemma connectionClosed_top [simp]: "s \<le> connectionClosed" "connectionClosed \<le> s \<longleftrightarrow> s = connectionClosed"
  by (cases s; simp add: less_eq_connectionState_def)+

section \<open>The idle sweep\<close>

record idleSweep =
  is_maxIdleTime :: duration
  is_idleCheckInterval :: duration
  is_started :: bool
  is_stopCh :: bool

definition is_start :: "idleSweep \<Rightarrow> idleSweep" where
  "is_start s = (if is_started s \<or> is_idleCheckInterval s \<le> 0 then s else s\<lparr>is_started := True, is_stopCh := False\<rparr>)"

definition startIdleSweep :: "duration \<Rightarrow> duration \<Rightarrow> idleSweep" where
  "startIdleSweep maxIdleTime idleCheckInterval =
     is_start \<lparr>is_maxIdleTime = maxIdleTime, is_idleCheckInterval = idleCheckInterval, is_started = False, is_stopCh = False\<rparr>"

text \<open>Closing the channel \<^verbatim>\<open>stopCh\<close> a second time panics.\<close>

definition is_Stop :: "idleSweep \<Rightarrow> idleSweep go" where
  "is_Stop s =
     (if \<not> is_started s then Ret s
      else if is_stopCh s then Panic
      else Ret (s\<lparr>is_started := False, is_stopCh := True\<rparr>))"

definition lastActivityTime :: "Connection \<Rightarrow> int" where
  "lastActivityTime c =
     (if c_lastActivityRead c < c_lastActivityWrite c then c_lastActivityWrite c else c_lastActivityRead c)"

fun close_idle :: "nat list \<Rightarrow> (nat \<Rightarrow> Connection) \<Rightarrow> (nat \<Rightarrow> Connection) go" where
  "close_idle [] conns = Ret conns"
| "close_idle (i # is) conns =
     (if \<not> IsActive (conns i) then close_idle is conns
      else if hasPendingCalls (conns i) then close_idle is conns
      else (case conn_close (conns i) of Panic \<Rightarrow> Panic | Ret (_, c') \<Rightarrow> close_idle is (conns(i := c'))))"

text \<open>\<open>env\<close> is what the connections do after they have been examined, before they are closed.\<close>

definition checkIdleConnections ::
  "int \<Rightarrow> duration \<Rightarrow> ((nat \<Rightarrow> Connection) \<Rightarrow> (nat \<Rightarrow> Connection)) \<Rightarrow> nat list \<Rightarrow> (nat \<Rightarrow> Connection) \<Rightarrow> (nat \<Rightarrow> Connection) go" where
  "checkIdleConnections now maxIdleTime env ids conns =
     (let idleConnections = filter (\<lambda>i. now - lastActivityTime (conns i) \<ge> maxIdleTime) ids
      in close_idle idleConnections (env conns))"

section \<open>The channel\<close>

record Channel =
  ch_state :: ChannelState
  ch_l :: bool
  ch_lClosed :: bool
  ch_hostPort :: string
  ch_isEphemeral :: bool
  ch_conns :: "nat list"
  ch_idleSweep :: idleSweep
  ch_onClosed :: nat

definition errAlreadyListening :: gerror where
  "errAlreadyListening = ErrorString ''channel already listening''"

definition errInvalidStateForOp :: gerror where
  "errInvalidStateForOp = ErrorString ''channel is in an invalid state for that method''"

definition errMaxIdleTimeNotSet :: gerror where
  "errMaxIdleTimeNotSet = ErrorString ''IdleCheckInterval is set but MaxIdleTime is zero''"

definition ephemeralHostPort :: string where
  "ephemeralHostPort = ''0.0.0.0:0''"

definition validateIdleCheck :: "duration \<Rightarrow> duration \<Rightarrow> gerror option" where
  "validateIdleCheck idleCheckInterval maxIdleTime =
     (if idleCheckInterval > 0 \<and> maxIdleTime \<le> 0 then Some errMaxIdleTimeNotSet else None)"

definition NewChannel :: "string \<Rightarrow> duration \<Rightarrow> duration \<Rightarrow> gerror + Channel" where
  "NewChannel serviceName idleCheckInterval maxIdleTime =
     (if serviceName = [] then Inl ErrNoServiceName
      else
        (case validateIdleCheck idleCheckInterval maxIdleTime of
           Some e \<Rightarrow> Inl e
         | None \<Rightarrow>
             Inr \<lparr>ch_state = ChannelClient, ch_l = False, ch_lClosed = False, ch_hostPort = ephemeralHostPort,
                  ch_isEphemeral = True, ch_conns = [], ch_idleSweep = startIdleSweep maxIdleTime idleCheckInterval,
                  ch_onClosed = 0\<rparr>))"

definition Serve :: "string \<Rightarrow> Channel \<Rightarrow> gerror option \<times> Channel" where
  "Serve addr ch =
     (if ch_l ch then (Some errAlreadyListening, ch)
      else
        (let ch1 = ch\<lparr>ch_l := True\<rparr>
         in if ch_state ch1 \<noteq> ChannelClient then (Some errInvalidStateForOp, ch1)
            else (None, ch1\<lparr>ch_state := ChannelListening, ch_hostPort := addr, ch_isEphemeral := False\<rparr>)))"

text \<open>\<open>s\<close> is the state of the connection.\<close>

definition ch_addConnection :: "connectionState \<Rightarrow> nat \<Rightarrow> Channel \<Rightarrow> bool \<times> Channel" where
  "ch_addConnection s c ch =
     (if s \<noteq> connectionActive then (False, ch)
      else if ch_state ch = ChannelClient \<or> ch_state ch = ChannelListening
      then (True, ch\<lparr>ch_conns := List.insert c (ch_conns ch)\<rparr>)
      else (False, ch))"

definition removeClosedConn :: "connectionState \<Rightarrow> nat \<Rightarrow> Channel \<Rightarrow> Channel" where
  "removeClosedConn s c ch = (if s \<noteq> connectionClosed then ch else ch\<lparr>ch_conns := removeAll c (ch_conns ch)\<rparr>)"

definition getMinConnectionState :: "(nat \<Rightarrow> connectionState) \<Rightarrow> Channel \<Rightarrow> connectionState" where
  "getMinConnectionState cst ch =
     fold (\<lambda>c minState. if cst c < minState then cst c else minState) (ch_conns ch) connectionClosed"

definition ch_updateTo :: "connectionState \<Rightarrow> ChannelState \<Rightarrow> ChannelState option" where
  "ch_updateTo minState chState =
     (if minState \<ge> connectionClosed then Some ChannelClosed
      else if minState \<ge> connectionInboundClosed \<and> chState = ChannelStartClose then Some ChannelInboundClosed
      else None)"

text \<open>Closing the channel \<^verbatim>\<open>closed\<close> a second time panics.\<close>

definition ch_onClosed_call :: "Channel \<Rightarrow> Channel go" where
  "ch_onClosed_call ch = (if ch_onClosed ch > 0 then Panic else Ret (ch\<lparr>ch_onClosed := 1\<rparr>))"

text \<open>What \<^verbatim>\<open>Close\<close> does with the lock held: the connections to close, and whether the channel is closed.\<close>

definition Close_locked :: "Channel \<Rightarrow> (nat list \<times> bool \<times> Channel) go" where
  "Close_locked ch =
     (if ch_state ch = ChannelClosed then Ret ([], False, ch)
      else
        (let ch1 = (if ch_l ch then ch\<lparr>ch_lClosed := True\<rparr> else ch)
         in go_bind (is_Stop (ch_idleSweep ch1)) (\<lambda>s.
              let ch2 = ch1\<lparr>ch_idleSweep := s, ch_state := ChannelStartClose\<rparr>
              in if ch_conns ch2 = [] then Ret ([], True, ch2\<lparr>ch_state := ChannelClosed\<rparr>)
                 else Ret (ch_conns ch2, False, ch2))))"

section \<open>The goroutines\<close>

text \<open>
  What is left to do. A goroutine that has changed the state of a connection runs the callback: remove it, read the state of the
  channel, compute the least state of the connections, update the state of the channel, and say that it is closed. One that closes
  the channel takes the lock and then closes the connections one by one.
\<close>

datatype ch_pc =
    CbRemove nat
  | CbState
  | CbMin ChannelState
  | CbUpdate ChannelState ChannelState
  | OnClosed
  | CloseStart
  | CloseConns "nat list" bool

type_synonym chan_run = "Channel \<times> (nat \<Rightarrow> connectionState)"

fun ch_exec :: "ch_pc \<Rightarrow> chan_run \<Rightarrow> (ch_pc list \<times> chan_run) go" where
  "ch_exec (CbRemove c) (ch, cst) = Ret ([CbState], removeClosedConn (cst c) c ch, cst)"
| "ch_exec CbState (ch, cst) =
     (if ch_state ch \<noteq> ChannelStartClose \<and> ch_state ch \<noteq> ChannelInboundClosed then Ret ([], ch, cst)
      else Ret ([CbMin (ch_state ch)], ch, cst))"
| "ch_exec (CbMin chState) (ch, cst) =
     (case ch_updateTo (getMinConnectionState cst ch) chState of
        None \<Rightarrow> Ret ([], ch, cst)
      | Some updateTo \<Rightarrow> Ret ([CbUpdate chState updateTo], ch, cst))"
| "ch_exec (CbUpdate chState updateTo) (ch, cst) =
     (if ch_state ch = chState
      then Ret (if updateTo = ChannelClosed then [OnClosed] else [], ch\<lparr>ch_state := updateTo\<rparr>, cst)
      else Ret ([], ch, cst))"
| "ch_exec OnClosed (ch, cst) = go_bind (ch_onClosed_call ch) (\<lambda>ch'. Ret ([], ch', cst))"
| "ch_exec CloseStart (ch, cst) = go_bind (Close_locked ch) (\<lambda>(cs, closed, ch'). Ret ([CloseConns cs closed], ch', cst))"
| "ch_exec (CloseConns [] closed) (ch, cst) = Ret (if closed then [OnClosed] else [], ch, cst)"
| "ch_exec (CloseConns (c # cs) closed) (ch, cst) =
     (if cst c = connectionActive then Ret ([CbRemove c, CloseConns cs closed], ch, cst(c := connectionStartClose))
      else Ret ([CloseConns cs closed], ch, cst))"

text \<open>The callback of a goroutine that is not interrupted.\<close>

definition ch_connectionCloseStateChange :: "nat \<Rightarrow> chan_run \<Rightarrow> Channel go" where
  "ch_connectionCloseStateChange c = (\<lambda>(ch, cst).
     let ch1 = removeClosedConn (cst c) c ch;
         chState = ch_state ch1
     in if chState \<noteq> ChannelStartClose \<and> chState \<noteq> ChannelInboundClosed then Ret ch1
        else
          (case ch_updateTo (getMinConnectionState cst ch1) chState of
             None \<Rightarrow> Ret ch1
           | Some updateTo \<Rightarrow>
               (let ch2 = ch1\<lparr>ch_state := updateTo\<rparr>
                in if updateTo = ChannelClosed then ch_onClosed_call ch2 else Ret ch2)))"

section \<open>Peers and connections\<close>

text \<open>The list of the channel and those of its isolated subchannels; every one of them recalculates the score of the peer.\<close>

fun update_lists :: "nat \<Rightarrow> PeerList list \<Rightarrow> peerWorld \<Rightarrow> PeerList list go" where
  "update_lists p [] w = Ret []"
| "update_lists p (l # ls) w =
     go_bind (onPeerChange id p (l, w)) (\<lambda>(l', _). go_bind (update_lists p ls w) (\<lambda>ls'. Ret (l' # ls')))"

definition ch_updatePeer :: "nat \<Rightarrow> PeerList list \<times> peerWorld \<Rightarrow> (PeerList list \<times> peerWorld) go" where
  "ch_updatePeer p = (\<lambda>(ls, w). go_bind (update_lists p ls w) (\<lambda>ls'. Ret (ls', w)))"

definition exchangeUpdated :: "string \<Rightarrow> PeerList list \<times> peerWorld \<Rightarrow> (PeerList list \<times> peerWorld) go" where
  "exchangeUpdated hostPort lw =
     (if hostPort = [] then Ret lw
      else (case root_Get hostPort (snd lw) of None \<Rightarrow> Ret lw | Some p \<Rightarrow> ch_updatePeer p lw))"

definition addConnectionToPeer ::
  "string \<Rightarrow> nat \<Rightarrow> connectionDirection \<Rightarrow> PeerList list \<times> peerWorld \<Rightarrow> (PeerList list \<times> peerWorld) go" where
  "addConnectionToPeer hostPort c direction = (\<lambda>(ls, w).
     go_bind (root_GetOrAdd hostPort w) (\<lambda>(p, w1). ch_updatePeer p (ls, snd (peer_addConnection p c direction w1))))"

definition ch_close_peer :: "string \<Rightarrow> nat \<Rightarrow> PeerList list \<times> peerWorld \<Rightarrow> (PeerList list \<times> peerWorld) go" where
  "ch_close_peer hostPort c = (\<lambda>(ls, w).
     case root_Get hostPort w of
       None \<Rightarrow> Ret (ls, w)
     | Some p \<Rightarrow> ch_updatePeer p (ls, peer_connectionCloseStateChange p c w))"

definition ch_close_peers :: "string \<Rightarrow> string \<Rightarrow> nat \<Rightarrow> PeerList list \<times> peerWorld \<Rightarrow> (PeerList list \<times> peerWorld) go" where
  "ch_close_peers hostPort outboundHP c lw =
     go_bind (ch_close_peer hostPort c lw) (\<lambda>lw1.
       if outboundHP \<noteq> [] \<and> outboundHP \<noteq> hostPort then ch_close_peer outboundHP c lw1 else Ret lw1)"

end
