(* ===== verification/Peer_Runs.thy ===== *)
theory Peer_Runs
  imports Peers
begin

text \<open>
  What holds of every list of peers, whatever is done with it and with the peers it shares: its map and its heap agree and no
  operation on it panics. Choosing a peer avoids those that have been tried. The order of the heap is kept by every operation
  but the one that adds a peer.
\<close>

section \<open>Choosing a peer\<close>

abbreviation pl_hosts :: "PeerList \<Rightarrow> string set" where
  "pl_hosts l \<equiv> dom (map_of (pl_peersByHostPort l))"

definition GetNew_spec :: "string list \<Rightarrow> PeerList \<times> peerWorld \<Rightarrow> gerror + nat \<Rightarrow> bool" where
  "GetNew_spec prev = (\<lambda>(l, w) r.
     case r of
       Inl e \<Rightarrow> pl_hosts l \<subseteq> set prev \<and> e = (if pl_hosts l = {} then ErrNoPeers else ErrNoNewPeers)
     | Inr p \<Rightarrow> (let hp = p_hostPort (peer_at p w)
                 in hp \<in> pl_hosts l \<and> hp \<notin> set prev \<and>
                    (getHost hp \<in> set prev \<longrightarrow> (\<forall>hp' \<in> pl_hosts l. hp' \<in> set prev \<or> getHost hp' \<in> set prev))))"

lemma chosen_host:
  assumes wf: "pl_wf (l, w)" and c: "chosen_ok prev avoid l (Some p)"
  shows "p_hostPort (peer_at p w) \<in> pl_hosts l" and "canChoosePeer prev avoid (p_hostPort (peer_at p w))"
proof -
  from c obtain hp a where i: "map_of (pl_peersByHostPort l) hp = Some a" and p: "ps_Peer (score_at a (pl_peerHeap l)) = p"
    and can: "canChoosePeer prev avoid hp" by (auto simp: chosen_ok_def)
  have mw: "map_wf (pl_peersByHostPort l) (pl_peerHeap l) (pw_peers w)" using wf by (simp add: pl_wf_def)
  have "p_hostPort (peer_at p w) = hp" using map_wf_in(3) [OF mw i] p by simp
  then show "p_hostPort (peer_at p w) \<in> pl_hosts l" and "canChoosePeer prev avoid (p_hostPort (peer_at p w))"
    using i can by auto
qed

lemma chosen_none:
  assumes "chosen_ok prev avoid l None" and "hp \<in> pl_hosts l"
  shows "\<not> canChoosePeer prev avoid hp"
  using assms by (auto simp: chosen_ok_def)

lemma hosts_empty:
  assumes "pl_wf (l, w)"
  shows "ph_Len (pl_peerHeap l) = 0 \<longleftrightarrow> pl_hosts l = {}"
proof -
  have mw: "map_wf (pl_peersByHostPort l) (pl_peerHeap l) (pw_peers w)" using assms by (simp add: pl_wf_def)
  show ?thesis using map_wf_set [OF mw] by (auto simp: ph_Len_def)
qed

lemma GetNew_ok:
  assumes wf: "pl_wf (l, w)"
  obtains r l' w' where "GetNew rand prev (l, w) = Ret (r, l', w')" and "pl_wf (l', w')" and "pl_later (l, w) (l', w')"
    and "pl_peersByHostPort l' = pl_peersByHostPort l" and "heap_wf (pl_peerHeap l) \<longrightarrow> heap_wf (pl_peerHeap l')"
    and "GetNew_spec prev (l, w) r"
proof (cases "ph_Len (pl_peerHeap l) = 0")
  case True
  then show thesis using that [of "Inl ErrNoPeers" l w] wf hosts_empty [OF wf] by (simp add: GetNew_def GetNew_spec_def)
next
  case False
  from choosePeer_ok [OF wf, of rand prev True] obtain r1 l1 w1 where c1: "choosePeer rand prev True (l, w) = Ret (r1, l1, w1)"
    and wf1: "pl_wf (l1, w1)" and lt1: "pl_later (l, w) (l1, w1)" and m1: "pl_peersByHostPort l1 = pl_peersByHostPort l"
    and o1: "heap_wf (pl_peerHeap l) \<longrightarrow> heap_wf (pl_peerHeap l1)" and ch1: "chosen_ok prev True l r1" .
  show thesis
  proof (cases r1)
    case (Some p)
    have "GetNew_spec prev (l, w) (Inr p)"
      using chosen_host [OF wf, of prev True p] ch1 Some by (auto simp: GetNew_spec_def canChoosePeer_def Let_def split: if_splits)
    then show thesis using that [of "Inr p" l1 w1] c1 Some False wf1 lt1 m1 o1 by (simp add: GetNew_def)
  next
    case None
    from choosePeer_ok [OF wf1, of rand prev False] obtain r2 l2 w2 where c2: "choosePeer rand prev False (l1, w1) = Ret (r2, l2, w2)"
      and wf2: "pl_wf (l2, w2)" and lt2: "pl_later (l1, w1) (l2, w2)" and m2: "pl_peersByHostPort l2 = pl_peersByHostPort l1"
      and o2: "heap_wf (pl_peerHeap l1) \<longrightarrow> heap_wf (pl_peerHeap l2)" and ch2: "chosen_ok prev False l1 r2" .
    have avoid: "hp \<in> set prev \<or> getHost hp \<in> set prev" if "hp \<in> pl_hosts l" for hp
      using chosen_none [OF ch1 [unfolded None] that] by (auto simp: canChoosePeer_def split: if_splits)
    have "GetNew_spec prev (l, w) (case r2 of None \<Rightarrow> Inl ErrNoNewPeers | Some p \<Rightarrow> Inr p)"
    proof (cases r2)
      case (Some p)
      have "p_hostPort (peer_at p w1) \<in> pl_hosts l" "p_hostPort (peer_at p w1) \<notin> set prev"
        using chosen_host [OF wf1 ch2 [unfolded Some]] m1 by (auto simp: canChoosePeer_def split: if_splits)
      moreover have "p_hostPort (peer_at p w1) = p_hostPort (peer_at p w)"
      proof -
        have "w1 = w" using c1 None by (auto simp: choosePeer_def Let_def go_bind_Ret_iff split: option.splits prod.splits)
        then show ?thesis by simp
      qed
      ultimately show ?thesis using Some avoid by (auto simp: GetNew_spec_def Let_def)
    next
      case none: None
      have "hp \<in> set prev" if "hp \<in> pl_hosts l" for hp
        using chosen_none [OF ch2 [unfolded none], of hp] that m1 by (auto simp: canChoosePeer_def split: if_splits)
      then have "pl_hosts l \<subseteq> set prev" by blast
      then show ?thesis using none False hosts_empty [OF wf] by (simp add: GetNew_spec_def)
    qed
    moreover have "GetNew rand prev (l, w) = Ret (case r2 of None \<Rightarrow> Inl ErrNoNewPeers | Some p \<Rightarrow> Inr p, l2, w2)"
      using c1 c2 None False by (cases r2) (simp_all add: GetNew_def)
    ultimately show thesis using that wf2 pl_later_trans [OF lt1 lt2] m1 m2 o1 o2 by simp
  qed
qed

lemma pl_Get_ok:
  assumes wf: "pl_wf s" and env: "\<And>r t. GetNew rand prev s = Ret (r, t) \<Longrightarrow> pl_wf (env t) \<and> pl_later t (env t)"
  obtains r s' where "pl_Get rand env prev s = Ret (r, s')" and "pl_wf s'" and "pl_later s s'"
proof -
  obtain l w where s: "s = (l, w)" by (metis surj_pair)
  from GetNew_ok [OF wf [unfolded s], of rand prev] obtain r l1 w1 where g: "GetNew rand prev s = Ret (r, l1, w1)"
    and wf1: "pl_wf (l1, w1)" and lt1: "pl_later s (l1, w1)" unfolding s .
  show thesis
  proof (cases "r = Inl ErrNoNewPeers")
    case False
    then show thesis using that [OF _ wf1 lt1, of r] g by (cases r) (simp_all add: pl_Get_def)
  next
    case True
    obtain l2 w2 where e: "env (l1, w1) = (l2, w2)" by (metis surj_pair)
    have wf2: "pl_wf (l2, w2)" and lt2: "pl_later (l1, w1) (l2, w2)" using env [OF g] by (simp_all add: e)
    from choosePeer_ok [OF wf2, of rand "[]" False] obtain r3 l3 w3 where c: "choosePeer rand [] False (l2, w2) = Ret (r3, l3, w3)"
      and wf3: "pl_wf (l3, w3)" and lt3: "pl_later (l2, w2) (l3, w3)" by metis
    have "pl_Get rand env prev s = Ret (case r3 of None \<Rightarrow> Inl ErrNoPeers | Some p \<Rightarrow> Inr p, l3, w3)"
      using g True e c by (cases r3) (simp_all add: pl_Get_def)
    from that [OF this wf3 pl_later_trans [OF pl_later_trans [OF lt1 lt2] lt3]] show thesis .
  qed
qed

section \<open>Runs\<close>

lemma world_conns_ok:
  assumes "root_wf w"
  shows "root_wf (w\<lparr>pw_conns := conns\<rparr>)" and "peers_later w (w\<lparr>pw_conns := conns\<rparr>)"
  using assms by (simp_all add: root_wf_def peers_later_def)

lemma onStatusChanged_ok:
  "root_wf (onStatusChanged p w) = root_wf w" "peers_later v (onStatusChanged p w) = peers_later v w"
  by (simp_all add: onStatusChanged_def root_wf_def peers_later_def)

lemma peer_addConnection_ok:
  assumes rw: "root_wf w"
  shows "root_wf (snd (peer_addConnection p c d w))" and "peers_later w (snd (peer_addConnection p c d w))"
  by (simp_all add: peer_addConnection_def Let_def onStatusChanged_ok set_peer_root set_peer_later rw)

lemma onClosedConnRemoved_ok:
  assumes "root_wf w"
  shows "root_wf (onClosedConnRemoved p w)" and "peers_later v w \<Longrightarrow> peers_later v (onClosedConnRemoved p w)"
  using assms
  by (auto simp: onClosedConnRemoved_def Let_def root_wf_def peers_later_def delete_conv' split: option.splits)

lemma peer_connectionCloseStateChange_ok:
  assumes rw: "root_wf w"
  shows "root_wf (peer_connectionCloseStateChange p c w)" and "peers_later w (peer_connectionCloseStateChange p c w)"
  by (auto simp: peer_connectionCloseStateChange_def Let_def onStatusChanged_ok onClosedConnRemoved_ok set_peer_root set_peer_later rw
      split: prod.splits)

text \<open>
  A list and the peers that it shares with others: the operations on the list, connections that are made and that close, and
  the other lists that add the peer to theirs. What happens while an operation does not hold the lock is such a run as well.
\<close>

inductive peer_run :: "PeerList \<times> peerWorld \<Rightarrow> PeerList \<times> peerWorld \<Rightarrow> bool" where
  run_start: "peer_run s s"
| run_Add: "peer_run s s1 \<Longrightarrow> hp \<noteq> [] \<Longrightarrow> pl_Add rand hp s1 = Ret (p, s2) \<Longrightarrow> peer_run s s2"
| run_Remove: "peer_run s s1 \<Longrightarrow> pl_Remove hp s1 = Ret (e, s2) \<Longrightarrow> peer_run s s2"
| run_GetNew: "peer_run s s1 \<Longrightarrow> GetNew rand prev s1 = Ret (r, s2) \<Longrightarrow> peer_run s s2"
| run_Get: "peer_run s s1 \<Longrightarrow> (\<forall>r t. GetNew rand prev s1 = Ret (r, t) \<longrightarrow> peer_run t (env t)) \<Longrightarrow>
    pl_Get rand env prev s1 = Ret (r, s2) \<Longrightarrow> peer_run s s2"
| run_change: "peer_run s s1 \<Longrightarrow> peer_run s1 (env s1) \<Longrightarrow> onPeerChange env p s1 = Ret s2 \<Longrightarrow> peer_run s s2"
| run_SetStrategy: "peer_run s (l, w) \<Longrightarrow> set (order (pl_peersByHostPort l)) = snd ` set (pl_peersByHostPort l) \<Longrightarrow>
    SetStrategy order sc (l, w) = Ret s2 \<Longrightarrow> peer_run s s2"
| run_conns: "peer_run s (l, w) \<Longrightarrow> peer_run s (l, w\<lparr>pw_conns := conns\<rparr>)"
| run_connected: "peer_run s (l, w) \<Longrightarrow> peer_run s (l, snd (peer_addConnection p c d w))"
| run_closed: "peer_run s (l, w) \<Longrightarrow> peer_run s (l, peer_connectionCloseStateChange p c w)"
| run_root: "peer_run s (l, w) \<Longrightarrow> hp \<noteq> [] \<Longrightarrow> root_GetOrAdd hp w = Ret (p, w') \<Longrightarrow> peer_run s (l, w')"
| run_other_Add: "peer_run s (l, w) \<Longrightarrow> peer_run s (l, addSC p w)"
| run_other_Remove: "peer_run s (l, w) \<Longrightarrow> peer_run s (l, delSC p w)"

lemma peer_run_world:
  assumes "pl_wf s \<longrightarrow> pl_wf (l, w) \<and> pl_later s (l, w)" and "root_wf w \<Longrightarrow> root_wf w' \<and> peers_later w w'"
  shows "pl_wf s \<longrightarrow> pl_wf (l, w') \<and> pl_later s (l, w')"
proof
  assume "pl_wf s"
  with assms(1) have wf: "pl_wf (l, w)" and lt: "pl_later s (l, w)" by blast+
  have "root_wf w" using wf by (simp add: pl_wf_def)
  with assms(2) pl_wf_world [OF wf, of w'] pl_later_trans [OF lt] show "pl_wf (l, w') \<and> pl_later s (l, w')" by blast
qed

lemma peer_run_ok: "peer_run s s' \<Longrightarrow> pl_wf s \<longrightarrow> pl_wf s' \<and> pl_later s s'"
proof (induction rule: peer_run.induct)
  case (run_Add s s1 hp rand p s2)
  show ?case
  proof
    assume "pl_wf s"
    with run_Add have wf: "pl_wf s1" and lt: "pl_later s s1" by blast+
    obtain l w where s1: "s1 = (l, w)" by (metis surj_pair)
    from pl_Add_ok [OF wf [unfolded s1] run_Add(2), of rand] run_Add(3) pl_later_trans [OF lt] show "pl_wf s2 \<and> pl_later s s2"
      unfolding s1 by (metis go.inject prod.inject)
  qed
next
  case (run_Remove s s1 hp e s2)
  show ?case
  proof
    assume "pl_wf s"
    with run_Remove have wf: "pl_wf s1" and lt: "pl_later s s1" by blast+
    obtain l w where s1: "s1 = (l, w)" by (metis surj_pair)
    from pl_Remove_ok [OF wf [unfolded s1], of hp] run_Remove(2) pl_later_trans [OF lt] show "pl_wf s2 \<and> pl_later s s2"
      unfolding s1 by (metis go.inject prod.inject)
  qed
next
  case (run_GetNew s s1 rand prev r s2)
  show ?case
  proof
    assume "pl_wf s"
    with run_GetNew have wf: "pl_wf s1" and lt: "pl_later s s1" by blast+
    obtain l w where s1: "s1 = (l, w)" by (metis surj_pair)
    from GetNew_ok [OF wf [unfolded s1], of rand prev] run_GetNew(2) pl_later_trans [OF lt] show "pl_wf s2 \<and> pl_later s s2"
      unfolding s1 by (metis go.inject prod.inject)
  qed
next
  case (run_Get s s1 rand prev env r s2)
  show ?case
  proof
    assume "pl_wf s"
    with run_Get have wf: "pl_wf s1" and lt: "pl_later s s1" by blast+
    obtain l w where s1: "s1 = (l, w)" by (metis surj_pair)
    have "pl_wf t" if "GetNew rand prev s1 = Ret (q, t)" for q t
      using GetNew_ok [OF wf [unfolded s1], of rand prev] that unfolding s1 by (metis go.inject prod.inject)
    with run_Get.IH(2) have "pl_wf (env t) \<and> pl_later t (env t)" if "GetNew rand prev s1 = Ret (q, t)" for q t
      using that by blast
    then obtain q s3 where "pl_Get rand env prev s1 = Ret (q, s3)" "pl_wf s3" "pl_later s1 s3" by (rule pl_Get_ok [OF wf])
    then show "pl_wf s2 \<and> pl_later s s2" using run_Get.hyps(2) pl_later_trans [OF lt] by simp
  qed
next
  case (run_change s s1 env p s2)
  then show ?case using onPeerChange_ok [of s1 env p] pl_later_trans by (metis go.inject)
next
  case (run_SetStrategy s l w order sc s2)
  then show ?case using SetStrategy_ok [of l w order sc] pl_later_trans by (metis go.inject)
next
  case (run_conns s l w conns)
  show ?case by (rule peer_run_world [OF run_conns.IH]) (simp add: world_conns_ok)
next
  case (run_connected s l w p c d)
  show ?case by (rule peer_run_world [OF run_connected.IH]) (simp add: peer_addConnection_ok)
next
  case (run_closed s l w p c)
  show ?case by (rule peer_run_world [OF run_closed.IH]) (simp add: peer_connectionCloseStateChange_ok)
next
  case (run_root s l w hp p w')
  show ?case
  proof (rule peer_run_world [OF run_root.IH])
    assume "root_wf w"
    from root_Add_ok [OF this run_root(2)] run_root(3) \<open>root_wf w\<close> show "root_wf w' \<and> peers_later w w'"
      by (auto simp: root_GetOrAdd_def split: option.splits)
  qed
next
  case (run_other_Add s l w p)
  show ?case by (rule peer_run_world [OF run_other_Add.IH]) (simp add: addSC_ok)
next
  case (run_other_Remove s l w p)
  show ?case by (rule peer_run_world [OF run_other_Remove.IH]) (simp add: addSC_ok)
qed simp

lemma newPeerList_wf: "root_wf w \<Longrightarrow> pl_wf (newPeerList, w)"
  by (simp add: pl_wf_def newPeerList_def newPeerHeap_def indexed_def map_wf_def ph_Len_def)

lemma peer_run_wf:
  assumes "root_wf w" and "peer_run (newPeerList, w) s"
  shows "pl_wf s"
  using peer_run_ok [OF assms(2)] newPeerList_wf [OF assms(1)] by blast

text \<open>
  C21: Start from a new list, on a root list that leads to peers with the right host and port, and run any operations on the
  list and on the peers it shares with other lists. The list stays well formed: its map and its heap hold the same scores, each
  once; every score knows its index in the heap, and has none once it has left the heap; and the map leads from a host and port to
  the peer that has it. No further operation panics: adding a host and port that is not blank, removing one, choosing a peer,
  updating a score after any run of other operations, and changing the strategy, whatever it is and in whatever order the map is
  visited.
\<close>

theorem peer_lists_safe:
  assumes "root_wf w" and "peer_run (newPeerList, w) (l, v)"
  shows "pl_wf (l, v) \<and>
    (\<forall>rand hp. hp \<noteq> [] \<longrightarrow> (\<exists>p s. pl_Add rand hp (l, v) = Ret (p, s))) \<and>
    (\<forall>hp. \<exists>e s. pl_Remove hp (l, v) = Ret (e, s)) \<and>
    (\<forall>rand prev. \<exists>r s. GetNew rand prev (l, v) = Ret (r, s)) \<and>
    (\<forall>env p. peer_run (l, v) (env (l, v)) \<longrightarrow> (\<exists>s. onPeerChange env p (l, v) = Ret s)) \<and>
    (\<forall>order sc. set (order (pl_peersByHostPort l)) = snd ` set (pl_peersByHostPort l) \<longrightarrow>
       (\<exists>s. SetStrategy order sc (l, v) = Ret s))"
proof (intro conjI allI impI)
  show wf: "pl_wf (l, v)" by (rule peer_run_wf [OF assms])
  show "\<exists>p s. pl_Add rand hp (l, v) = Ret (p, s)" if "hp \<noteq> []" for rand hp using pl_Add_ok [OF wf that, of rand] by metis
  show "\<exists>e s. pl_Remove hp (l, v) = Ret (e, s)" for hp using pl_Remove_ok [OF wf, of hp] by metis
  show "\<exists>r s. GetNew rand prev (l, v) = Ret (r, s)" for rand prev using GetNew_ok [OF wf, of rand prev] by metis
  show "\<exists>s. onPeerChange env p (l, v) = Ret s" if "peer_run (l, v) (env (l, v))" for env p
    using onPeerChange_ok [OF wf] peer_run_ok [OF that] wf by metis
  show "\<exists>s. SetStrategy order sc (l, v) = Ret s"
    if "set (order (pl_peersByHostPort l)) = snd ` set (pl_peersByHostPort l)" for order sc
    using SetStrategy_ok [OF wf, of order sc] that by metis
qed

text \<open>
  C22: Choosing a peer for another attempt, from any list that a run leads to. An error is returned only if every peer of the list
  has been tried, and says whether there is none at all. Otherwise the peer is one of the list that has not been tried, and its
  host has been tried only if that is so of every other peer that is left. If the heap is in order, it stays so.
\<close>

theorem get_new:
  assumes "root_wf w" and "peer_run (newPeerList, w) (l, v)"
  shows "\<exists>r l' v'. GetNew rand prev (l, v) = Ret (r, l', v') \<and> pl_hosts l' = pl_hosts l \<and>
    (heap_wf (pl_peerHeap l) \<longrightarrow> heap_wf (pl_peerHeap l')) \<and>
    (case r of
       Inl e \<Rightarrow> pl_hosts l \<subseteq> set prev \<and> e = (if pl_hosts l = {} then ErrNoPeers else ErrNoNewPeers)
     | Inr p \<Rightarrow> p_hostPort (peer_at p v) \<in> pl_hosts l - set prev \<and>
         (getHost (p_hostPort (peer_at p v)) \<in> set prev \<longrightarrow>
            (\<forall>hp \<in> pl_hosts l. hp \<in> set prev \<or> getHost hp \<in> set prev)))"
proof -
  from GetNew_ok [OF peer_run_wf [OF assms], of rand prev] obtain r l' v' where g: "GetNew rand prev (l, v) = Ret (r, l', v')"
    and "pl_wf (l', v')" "pl_later (l, v) (l', v')" and m: "pl_peersByHostPort l' = pl_peersByHostPort l"
    and o: "heap_wf (pl_peerHeap l) \<longrightarrow> heap_wf (pl_peerHeap l')" and sp: "GetNew_spec prev (l, v) r" .
  from sp have "case r of
       Inl e \<Rightarrow> pl_hosts l \<subseteq> set prev \<and> e = (if pl_hosts l = {} then ErrNoPeers else ErrNoNewPeers)
     | Inr p \<Rightarrow> p_hostPort (peer_at p v) \<in> pl_hosts l - set prev \<and>
         (getHost (p_hostPort (peer_at p v)) \<in> set prev \<longrightarrow>
            (\<forall>hp \<in> pl_hosts l. hp \<in> set prev \<or> getHost hp \<in> set prev))"
    by (cases r) (simp_all add: GetNew_spec_def Let_def)
  with g m o show ?thesis by (intro exI conjI) simp_all
qed

text \<open>
  C23: Choosing from a list whose heap is in order: the peer that is returned has, of all that may be chosen, the least score, and
  of those with that score the least order.
\<close>

theorem choose_best:
  assumes "root_wf w" and "peer_run (newPeerList, w) (l, v)" and "heap_wf (pl_peerHeap l)"
    and "choosePeer rand prev avoid (l, v) = Ret (Some p, s)"
  shows "\<exists>hp a. map_of (pl_peersByHostPort l) hp = Some a \<and> ps_Peer (score_at a (pl_peerHeap l)) = p \<and> canChoosePeer prev avoid hp \<and>
    (\<forall>hp' b. map_of (pl_peersByHostPort l) hp' = Some b \<and> canChoosePeer prev avoid hp' \<longrightarrow>
       heap_key (pl_peerHeap l) a \<le> heap_key (pl_peerHeap l) b)"
proof -
  from choosePeer_ok [OF peer_run_wf [OF assms(1,2)], of rand prev avoid] assms(4) have "chosen_ok prev avoid l (Some p)"
    by (metis go.inject prod.inject)
  then show ?thesis using assms(3) by (simp add: chosen_ok_def)
qed

section \<open>The order of the heap\<close>

lemma pl_Remove_order:
  assumes wf: "pl_wf (l, w)" and ord: "heap_wf (pl_peerHeap l)" and rm: "pl_Remove hp (l, w) = Ret (e, l', w')"
  shows "heap_wf (pl_peerHeap l')"
proof (cases "map_of (pl_peersByHostPort l) hp")
  case None
  then show ?thesis using rm ord by (simp add: pl_Remove_def)
next
  case (Some a)
  let ?h = "pl_peerHeap l"
  have ix: "indexed ?h" and mw: "map_wf (pl_peersByHostPort l) ?h (pw_peers w)" using wf by (simp_all add: pl_wf_def)
  from ix map_wf_in(1) [OF mw Some] obtain i where i: "i < ph_Len ?h" and at: "ph_peerScores ?h ! i = a"
    and idx: "ps_index (score_at a ?h) = int i" by (rule indexed_in)
  from heap_Remove_ok [OF ix i] obtain h' where h': "heap_Remove (int i) ?h = Ret (a, h')" "heap_wf ?h \<longrightarrow> heap_wf h'" unfolding at by metis
  then show ?thesis using rm Some idx ord by (auto simp: pl_Remove_def ph_removePeer_def Let_def)
qed

lemma onPeerChange_order:
  assumes wf: "pl_wf (l, w)" and env: "env (l, w) = (l1, w1)" "pl_wf (l1, w1)" "pl_later (l, w) (l1, w1)"
    and ord: "heap_wf (pl_peerHeap l)" "heap_wf (pl_peerHeap l1)" and ch: "onPeerChange env p (l, w) = Ret (l', w')"
  shows "heap_wf (pl_peerHeap l')"
proof (cases "map_of (pl_peersByHostPort l) (p_hostPort (peer_at p w))")
  case None
  then show ?thesis using ch ord by (simp add: onPeerChange_def)
next
  case (Some a)
  let ?n = "pl_scoreCalculator l (pw_conns w) (peer_at (ps_Peer (score_at a (pl_peerHeap l))) w)"
  have "a < length (hs_scores (pl_peerHeap l))" using pl_scores_bound [OF wf] map_of_SomeD [OF Some] by blast
  then have a: "a < length (hs_scores (pl_peerHeap l1))" using env(3) by (simp add: pl_later_def)
  from pl_updatePeer_ok [OF env(2) a, of ?n] obtain l2 where "pl_updatePeer a ?n l1 = Ret l2"
    "heap_wf (pl_peerHeap l1) \<longrightarrow> heap_wf (pl_peerHeap l2)" by metis
  then show ?thesis using ch Some ord env(1) by (auto simp: onPeerChange_def Let_def split: if_splits)
qed

text \<open>
  A run that adds no peer to the list. What happens to the peers and connections outside the list is a run that leaves the list as it
  is.
\<close>

inductive peer_use :: "PeerList \<times> peerWorld \<Rightarrow> PeerList \<times> peerWorld \<Rightarrow> bool" where
  use_start: "peer_use s s"
| use_Add: "peer_use s (l, w) \<Longrightarrow> pl_exists hp l \<noteq> None \<Longrightarrow> pl_Add rand hp (l, w) = Ret (p, s2) \<Longrightarrow> peer_use s s2"
| use_Remove: "peer_use s s1 \<Longrightarrow> pl_Remove hp s1 = Ret (e, s2) \<Longrightarrow> peer_use s s2"
| use_GetNew: "peer_use s s1 \<Longrightarrow> GetNew rand prev s1 = Ret (r, s2) \<Longrightarrow> peer_use s s2"
| use_Get: "peer_use s s1 \<Longrightarrow> (\<forall>r t. GetNew rand prev s1 = Ret (r, t) \<longrightarrow> peer_use t (env t)) \<Longrightarrow>
    pl_Get rand env prev s1 = Ret (r, s2) \<Longrightarrow> peer_use s s2"
| use_change: "peer_use s s1 \<Longrightarrow> peer_use s1 (env s1) \<Longrightarrow> onPeerChange env p s1 = Ret s2 \<Longrightarrow> peer_use s s2"
| use_SetStrategy: "peer_use s (l, w) \<Longrightarrow> set (order (pl_peersByHostPort l)) = snd ` set (pl_peersByHostPort l) \<Longrightarrow>
    SetStrategy order sc (l, w) = Ret s2 \<Longrightarrow> peer_use s s2"
| use_others: "peer_use s (l, w) \<Longrightarrow> peer_run (l, w) (l, w') \<Longrightarrow> peer_use s (l, w')"

definition in_order :: "PeerList \<times> peerWorld \<Rightarrow> bool" where
  "in_order s \<longleftrightarrow> pl_wf s \<and> heap_wf (pl_peerHeap (fst s))"

lemma GetNew_order:
  assumes "in_order s" and "GetNew rand prev s = Ret (r, t)"
  shows "in_order t \<and> pl_later s t"
proof -
  obtain l w where s: "s = (l, w)" by (metis surj_pair)
  have wf: "pl_wf (l, w)" and ord: "heap_wf (pl_peerHeap l)" using assms(1) by (simp_all add: in_order_def s)
  from GetNew_ok [OF wf, of rand prev] obtain r' l' w' where "GetNew rand prev (l, w) = Ret (r', l', w')" "pl_wf (l', w')"
    "pl_later (l, w) (l', w')" "heap_wf (pl_peerHeap l) \<longrightarrow> heap_wf (pl_peerHeap l')" by metis
  then show ?thesis using assms(2) ord by (auto simp: in_order_def s)
qed

lemma pl_Get_order:
  assumes ord: "in_order s" and env: "\<And>r t. GetNew rand prev s = Ret (r, t) \<Longrightarrow> in_order (env t) \<and> pl_later t (env t)"
    and get: "pl_Get rand env prev s = Ret (r, s')"
  shows "in_order s' \<and> pl_later s s'"
proof -
  obtain l w where s: "s = (l, w)" by (metis surj_pair)
  have wf: "pl_wf (l, w)" using ord by (simp add: in_order_def s)
  from GetNew_ok [OF wf, of rand prev] obtain r1 t where g: "GetNew rand prev s = Ret (r1, t)" unfolding s by metis
  note t = GetNew_order [OF ord g] and e = env [OF g]
  obtain l2 w2 where e2: "env t = (l2, w2)" by (metis surj_pair)
  have wf2: "pl_wf (l2, w2)" using e by (simp add: in_order_def e2)
  from choosePeer_ok [OF wf2, of rand "[]" False] obtain r3 l3 w3 where c: "choosePeer rand [] False (l2, w2) = Ret (r3, l3, w3)"
    and wf3: "pl_wf (l3, w3)" and lt3: "pl_later (l2, w2) (l3, w3)" and o3: "heap_wf (pl_peerHeap l2) \<longrightarrow> heap_wf (pl_peerHeap l3)" by metis
  have "s' = t \<or> s' = (l3, w3)"
    using get g c e2 by (auto simp: pl_Get_def split: sum.splits if_splits option.splits)
  moreover have "in_order (l3, w3)" using wf3 o3 e by (simp add: in_order_def e2)
  moreover have "pl_later s (l3, w3)"
    using pl_later_trans [OF pl_later_trans [OF conjunct2 [OF t] conjunct2 [OF e]]] lt3 by (simp add: e2)
  ultimately show ?thesis using t by blast
qed

lemma peer_use_order: "peer_use s s' \<Longrightarrow> in_order s \<longrightarrow> in_order s' \<and> pl_later s s'"
proof (induction rule: peer_use.induct)
  case (use_Add s l w hp rand p s2)
  then show ?case by (auto simp: pl_Add_def split: option.splits)
next
  case (use_Remove s s1 hp e s2)
  obtain l w l2 w2 where s: "s1 = (l, w)" "s2 = (l2, w2)" by (metis surj_pair)
  show ?case
  proof
    assume "in_order s"
    with use_Remove.IH have o: "in_order (l, w)" and lt: "pl_later s (l, w)" by (simp_all add: s)
    then have wf: "pl_wf (l, w)" "heap_wf (pl_peerHeap l)" by (simp_all add: in_order_def)
    from pl_Remove_ok [OF wf(1), of hp] use_Remove.hyps(2) have "pl_wf s2" "pl_later (l, w) s2" unfolding s by (metis go.inject prod.inject)+
    with pl_Remove_order [OF wf use_Remove.hyps(2) [unfolded s]] pl_later_trans [OF lt] show "in_order s2 \<and> pl_later s s2"
      by (simp add: in_order_def s)
  qed
next
  case (use_GetNew s s1 rand prev r s2)
  then show ?case using GetNew_order pl_later_trans by blast
next
  case (use_Get s s1 rand prev env r s2)
  show ?case
  proof
    assume "in_order s"
    with use_Get.IH(1) have o: "in_order s1" and lt: "pl_later s s1" by simp_all
    have env: "in_order (env t) \<and> pl_later t (env t)" if "GetNew rand prev s1 = Ret (q, t)" for q t
      using use_Get.IH(2) GetNew_order [OF o that] that by blast
    have "in_order s2 \<and> pl_later s1 s2" by (rule pl_Get_order [OF o _ use_Get.hyps(2)]) (rule env)
    with pl_later_trans [OF lt] show "in_order s2 \<and> pl_later s s2" by blast
  qed
next
  case (use_change s s1 env p s2)
  obtain l w l1 w1 l2 w2 where s: "s1 = (l, w)" "env (l, w) = (l1, w1)" "s2 = (l2, w2)" by (metis surj_pair)
  show ?case
  proof
    assume "in_order s"
    with use_change.IH have o: "in_order (l, w)" "in_order (l1, w1)" and lt: "pl_later s (l, w)" "pl_later (l, w) (l1, w1)"
      by (simp_all add: s)
    then have wf: "pl_wf (l, w)" "pl_wf (l1, w1)" "heap_wf (pl_peerHeap l)" "heap_wf (pl_peerHeap l1)" by (simp_all add: in_order_def)
    from onPeerChange_ok [of "(l, w)" env p] wf(1,2) lt(2) use_change.hyps(3) have "pl_wf s2" "pl_later (l, w) s2"
      unfolding s by (metis go.inject)+
    with onPeerChange_order [OF wf(1) s(2) wf(2) lt(2) wf(3,4) use_change.hyps(3) [unfolded s]] pl_later_trans [OF lt(1)]
    show "in_order s2 \<and> pl_later s s2" by (simp add: in_order_def s)
  qed
next
  case (use_SetStrategy s l w order sc s2)
  show ?case
  proof
    assume "in_order s"
    with use_SetStrategy.IH have wf: "pl_wf (l, w)" and ord: "heap_wf (pl_peerHeap l)" and lt: "pl_later s (l, w)" by (simp_all add: in_order_def)
    from SetStrategy_ok [where order = order, OF wf use_SetStrategy.hyps(2), of sc] obtain l' where "SetStrategy order sc (l, w) = Ret (l', w)" "pl_wf (l', w)"
      "pl_later (l, w) (l', w)" "heap_wf (pl_peerHeap l) \<longrightarrow> heap_wf (pl_peerHeap l')" by metis
    with use_SetStrategy.hyps(3) ord pl_later_trans [OF lt] show "in_order s2 \<and> pl_later s s2" by (auto simp: in_order_def)
  qed
next
  case (use_others s l w w')
  show ?case
  proof
    assume "in_order s"
    with use_others.IH have wf: "pl_wf (l, w)" and ord: "heap_wf (pl_peerHeap l)" and lt: "pl_later s (l, w)" by (simp_all add: in_order_def)
    from peer_run_ok [OF use_others.hyps(2)] wf ord pl_later_trans [OF lt] show "in_order (l, w') \<and> pl_later s (l, w')"
      by (auto simp: in_order_def)
  qed
qed (auto simp: pl_later_def peers_later_def)

text \<open>
  C24: Once the heap of a list is in order it stays so, whatever is done with the list but adding a new peer: choosing peers, each of
  which moves to the back of its score, removing peers, changing the strategy, and updating scores, also those that were computed
  before the lock was taken and whose peer has left the list since; with connections that come and go, and other lists that share the
  peers, in between. So every peer that is chosen at any time has the least score, and the least order among those of this score, of the
  peers that may be chosen.
\<close>

theorem heap_order_kept:
  assumes "root_wf w" and "peer_run (newPeerList, w) s1" and "heap_wf (pl_peerHeap (fst s1))" and "peer_use s1 (l, w')"
  shows "heap_wf (pl_peerHeap l) \<and>
    (\<forall>rand prev avoid p s. choosePeer rand prev avoid (l, w') = Ret (Some p, s) \<longrightarrow>
       heap_wf (pl_peerHeap (fst s)) \<and>
       (\<exists>hp a. map_of (pl_peersByHostPort l) hp = Some a \<and> ps_Peer (score_at a (pl_peerHeap l)) = p \<and> canChoosePeer prev avoid hp \<and>
         (\<forall>hp' b. map_of (pl_peersByHostPort l) hp' = Some b \<and> canChoosePeer prev avoid hp' \<longrightarrow>
            heap_key (pl_peerHeap l) a \<le> heap_key (pl_peerHeap l) b)))"
proof (intro conjI allI impI)
  have "in_order s1" using peer_run_wf [OF assms(1,2)] assms(3) by (simp add: in_order_def)
  with peer_use_order [OF assms(4)] have wf: "pl_wf (l, w')" and ord: "heap_wf (pl_peerHeap l)" by (simp_all add: in_order_def)
  show "heap_wf (pl_peerHeap l)" by (rule ord)
  fix rand prev avoid p s
  assume c: "choosePeer rand prev avoid (l, w') = Ret (Some p, s)"
  from choosePeer_ok [OF wf, of rand prev avoid] c obtain l2 w2 where s: "s = (l2, w2)"
    and o: "heap_wf (pl_peerHeap l) \<longrightarrow> heap_wf (pl_peerHeap l2)" and ch: "chosen_ok prev avoid l (Some p)" by (metis go.inject prod.inject)
  show "heap_wf (pl_peerHeap (fst s))" using o ord by (simp add: s)
  show "\<exists>hp a. map_of (pl_peersByHostPort l) hp = Some a \<and> ps_Peer (score_at a (pl_peerHeap l)) = p \<and> canChoosePeer prev avoid hp \<and>
         (\<forall>hp' b. map_of (pl_peersByHostPort l) hp' = Some b \<and> canChoosePeer prev avoid hp' \<longrightarrow>
            heap_key (pl_peerHeap l) a \<le> heap_key (pl_peerHeap l) b)"
    using ch ord by (simp add: chosen_ok_def)
qed

section \<open>Adding peers\<close>

definition no_peers :: "(nat \<Rightarrow> Connection) \<Rightarrow> peerWorld" where
  "no_peers conns = \<lparr>pw_conns = conns, pw_peers = [], pw_root = [], pw_status = []\<rparr>"

fun pl_Adds :: "(nat \<Rightarrow> nat) \<Rightarrow> string list \<Rightarrow> PeerList \<times> peerWorld \<Rightarrow> (PeerList \<times> peerWorld) go" where
  "pl_Adds rand [] s = Ret s"
| "pl_Adds rand (hp # hps) s = go_bind (pl_Add rand hp s) (\<lambda>(p, s'). pl_Adds rand hps s')"

definition draws :: "nat \<Rightarrow> nat" where
  "draws k = (if k = 3 then 1 else if k = 5 then 2 else 0)"

lemmas peer_list_eval = pl_Add_def pl_exists_def root_Add_def newPeer_def addSC_def set_peer_def newPeerScore_def newPeerList_def
  newPeerHeap_def no_peers_def ph_addPeer_def ph_pushPeer_def ph_swapOrder_def rng_Intn_def heap_Push_def ph_Push_def set_index_def
  set_score_def ph_Len_def ph_Less_def ph_Swap_def heap_Fix_def heap_down_up_def preferIncomingCalculator_def NumConnections_def

text \<open>
  Adding a peer may break the order. Of four hosts that are added to a new list the fourth swaps its order with the first, which is the
  root of the heap. \<^verbatim>\<open>swapOrder\<close> changes both orders and then restores the heap at the one index and at the other, but the first of
  the two moves the element that the second is meant for: an element is left above one that comes before it.
\<close>

lemma add_breaks_order:
  "\<exists>l w. pl_Adds draws [''a:1'', ''b:1'', ''c:1'', ''d:1''] (newPeerList, no_peers conns) = Ret (l, w) \<and>
     ph_peerScores (pl_peerHeap l) = [3, 0, 2, 1] \<and>
     map (heap_key (pl_peerHeap l)) [3, 0, 2, 1] = [(-1, 1), (-1, 4), (-1, 3), (-1, 2)] \<and> \<not> heap_wf (pl_peerHeap l)"
  by (simp add: peer_list_eval heap_up.simps heap_down.simps Let_def draws_def heap_key_def heap_wf_def heap_ordered_def)
    (intro impI exI [of _ 3], simp)

section \<open>Examples\<close>

lemma pl_Adds_run:
  "pl_Adds rand hps s = Ret s' \<Longrightarrow> [] \<notin> set hps \<Longrightarrow> peer_run t s \<Longrightarrow> peer_run t s'"
proof (induction hps arbitrary: s)
  case (Cons hp hps)
  from Cons.prems(1) obtain p s1 where a: "pl_Add rand hp s = Ret (p, s1)" and r: "pl_Adds rand hps s1 = Ret s'"
    by (auto simp: go_bind_Ret_iff)
  have "peer_run t s1" using run_Add [OF Cons.prems(3) _ a] Cons.prems(2) by auto
  with Cons.IH [OF r] Cons.prems(2) show ?case by simp
qed simp

abbreviation example_peers :: peerWorld where
  "example_peers \<equiv> no_peers (\<lambda>_. new_conn)"

lemma example_root: "root_wf example_peers"
  by (simp add: root_wf_def no_peers_def)

lemma two_peers:
  "\<exists>l w. pl_Adds draws [''a:1'', ''b:1''] (newPeerList, no_peers conns) = Ret (l, w) \<and> heap_wf (pl_peerHeap l) \<and>
     pl_peersByHostPort l = [(''a:1'', 0), (''b:1'', 1)] \<and> (\<exists>s. choosePeer draws [''a:1''] False (l, w) = Ret (Some 1, s))"
  by (simp add: peer_list_eval heap_up.simps heap_down.simps Let_def draws_def heap_key_def heap_wf_def indexed_def heap_ordered_def
      choosePeer_def ph_popPeer_def heap_Pop_def ph_Pop_def canChoosePeer_def less_Suc_eq all_conj_distrib)

theorem peer_lists_safe_witness:
  "\<exists>l v. pl_Adds draws [''a:1'', ''b:1''] (newPeerList, example_peers) = Ret (l, v) \<and> pl_wf (l, v) \<and>
     (\<exists>p s. pl_Add draws ''c:1'' (l, v) = Ret (p, s)) \<and> (\<exists>e s. pl_Remove ''a:1'' (l, v) = Ret (e, s))"
proof -
  from two_peers [of "\<lambda>_. new_conn"] obtain l v where a: "pl_Adds draws [''a:1'', ''b:1''] (newPeerList, example_peers) = Ret (l, v)" by blast
  have "peer_run (newPeerList, example_peers) (l, v)" by (rule pl_Adds_run [OF a _ run_start]) simp
  from peer_lists_safe [OF example_root this] a show ?thesis by blast
qed

theorem get_new_witness:
  "\<exists>l v p s. pl_Adds draws [''a:1'', ''b:1''] (newPeerList, example_peers) = Ret (l, v) \<and>
     GetNew draws [''a:1'', ''a''] (l, v) = Ret (Inr p, s) \<and> p_hostPort (peer_at p v) = ''b:1''"
proof -
  from two_peers [of "\<lambda>_. new_conn"] obtain l v where a: "pl_Adds draws [''a:1'', ''b:1''] (newPeerList, example_peers) = Ret (l, v)"
    and m: "pl_peersByHostPort l = [(''a:1'', 0), (''b:1'', 1)]" by blast
  have run: "peer_run (newPeerList, example_peers) (l, v)" by (rule pl_Adds_run [OF a _ run_start]) simp
  have d: "pl_hosts l = {''a:1'', ''b:1''}" unfolding m by auto
  define prev where "prev = [''a:1'', ''a'']"
  from get_new [OF example_root run, of draws prev] obtain r l' v' where g: "GetNew draws prev (l, v) = Ret (r, l', v')"
    and c: "case r of
        Inl e \<Rightarrow> pl_hosts l \<subseteq> set prev \<and> e = (if pl_hosts l = {} then ErrNoPeers else ErrNoNewPeers)
      | Inr p \<Rightarrow> p_hostPort (peer_at p v) \<in> pl_hosts l - set prev \<and>
          (getHost (p_hostPort (peer_at p v)) \<in> set prev \<longrightarrow>
             (\<forall>hp \<in> pl_hosts l. hp \<in> set prev \<or> getHost hp \<in> set prev))" by blast
  have "\<exists>p. r = Inr p \<and> p_hostPort (peer_at p v) = ''b:1''" using c unfolding d prev_def by (cases r) auto
  with a g show ?thesis unfolding prev_def by blast
qed

theorem choose_best_witness:
  "\<exists>l v s. pl_Adds draws [''a:1'', ''b:1''] (newPeerList, example_peers) = Ret (l, v) \<and>
     choosePeer draws [''a:1''] False (l, v) = Ret (Some 1, s) \<and>
     (\<exists>hp a. map_of (pl_peersByHostPort l) hp = Some a \<and> ps_Peer (score_at a (pl_peerHeap l)) = 1 \<and>
        canChoosePeer [''a:1''] False hp)"
proof -
  from two_peers [of "\<lambda>_. new_conn"] obtain l v s where a: "pl_Adds draws [''a:1'', ''b:1''] (newPeerList, example_peers) = Ret (l, v)"
    and h: "heap_wf (pl_peerHeap l)" and c: "choosePeer draws [''a:1''] False (l, v) = Ret (Some 1, s)" by blast
  have run: "peer_run (newPeerList, example_peers) (l, v)" by (rule pl_Adds_run [OF a _ run_start]) simp
  from choose_best [OF example_root run h c] a c show ?thesis by blast
qed

theorem heap_order_kept_witness:
  "\<exists>l v r l' v'. pl_Adds draws [''a:1'', ''b:1''] (newPeerList, example_peers) = Ret (l, v) \<and>
     GetNew draws [] (l, v) = Ret (r, l', v') \<and> heap_wf (pl_peerHeap l')"
proof -
  from two_peers [of "\<lambda>_. new_conn"] obtain l v where a: "pl_Adds draws [''a:1'', ''b:1''] (newPeerList, example_peers) = Ret (l, v)"
    and h: "heap_wf (pl_peerHeap (fst (l, v)))" by auto
  have run: "peer_run (newPeerList, example_peers) (l, v)" by (rule pl_Adds_run [OF a _ run_start]) simp
  obtain r l' v' where g: "GetNew draws [] (l, v) = Ret (r, l', v')" by (rule GetNew_ok [OF peer_run_wf [OF example_root run]])
  from heap_order_kept [OF example_root run h use_GetNew [OF use_start g]] a g show ?thesis by blast
qed

end
