(* ===== verification/Channel_Runs.thy ===== *)
theory Channel_Runs
  imports Channel Peer_Runs
begin

text \<open>
  What holds of a channel in every interleaving of the goroutines that use it, close it and report that connections close; and an
  interleaving in which its close is lost.
\<close>

section \<open>Runs\<close>

type_synonym chan_state = "chan_run \<times> ch_pc multiset"

inductive ch_step :: "chan_state \<Rightarrow> chan_state \<Rightarrow> bool" where
  step_connect: "ch_addConnection (cst c) c ch = (True, ch') \<Longrightarrow> ch_step ((ch, cst), T) ((ch', cst), T)"
| step_serve: "Serve addr ch = (e, ch') \<Longrightarrow> ch_step ((ch, cst), T) ((ch', cst), T)"
| step_conn: "cst c < s \<Longrightarrow> ch_step ((ch, cst), T) ((ch, cst(c := s)), add_mset (CbRemove c) T)"
| step_Close: "ch_step (r, T) (r, add_mset CloseStart T)"
| step_run: "pc \<in># T \<Longrightarrow> ch_exec pc r = Ret (pcs, r') \<Longrightarrow> ch_step (r, T) (r', T - {#pc#} + mset pcs)"

inductive ch_reach :: "chan_state \<Rightarrow> bool" where
  reach_new: "NewChannel serviceName interval idle = Inr ch \<Longrightarrow> ch_reach ((ch, \<lambda>_. connectionActive), {#})"
| reach_step: "ch_reach s \<Longrightarrow> ch_step s s' \<Longrightarrow> ch_reach s'"

section \<open>The invariant\<close>

abbreviation ch_closing :: "Channel \<Rightarrow> bool" where
  "ch_closing ch \<equiv> ch_state ch \<noteq> ChannelClient \<and> ch_state ch \<noteq> ChannelListening"

abbreviation all_closed :: "Channel \<Rightarrow> (nat \<Rightarrow> connectionState) \<Rightarrow> bool" where
  "all_closed ch cst \<equiv> (\<forall>c \<in> set (ch_conns ch). cst c = connectionClosed)"

text \<open>The goroutines that are about to say that the channel is closed.\<close>

fun says_closed :: "ch_pc \<Rightarrow> bool" where
  "says_closed OnClosed = True"
| "says_closed (CloseConns cs closed) = closed"
| "says_closed _ = False"

definition close_counted :: "Channel \<Rightarrow> ch_pc multiset \<Rightarrow> bool" where
  "close_counted ch T \<longleftrightarrow>
     ch_onClosed ch + size (filter_mset says_closed T) = (if ch_state ch = ChannelClosed then 1 else 0)"

definition pc_ok :: "chan_run \<Rightarrow> ch_pc \<Rightarrow> bool" where
  "pc_ok = (\<lambda>(ch, cst) pc.
     case pc of
       CbMin s \<Rightarrow> ch_closing ch \<and> s \<noteq> ChannelClosed
     | CbUpdate s u \<Rightarrow> ch_closing ch \<and> s \<noteq> ChannelClosed \<and> (u = ChannelInboundClosed \<or> u = ChannelClosed \<and> all_closed ch cst)
     | _ \<Rightarrow> True)"

definition update_due :: "ch_pc multiset \<Rightarrow> bool" where
  "update_due T \<longleftrightarrow> CbState \<in># T \<or> CbMin ChannelStartClose \<in># T \<or> CbUpdate ChannelStartClose ChannelClosed \<in># T"

definition ch_inv :: "chan_state \<Rightarrow> bool" where
  "ch_inv = (\<lambda>((ch, cst), T).
     (is_started (ch_idleSweep ch) \<longrightarrow> \<not> is_stopCh (ch_idleSweep ch)) \<and>
     close_counted ch T \<and>
     (ch_state ch = ChannelClosed \<longrightarrow> all_closed ch cst) \<and>
     (\<forall>pc \<in># T. pc_ok (ch, cst) pc) \<and>
     (\<forall>c \<in> set (ch_conns ch). cst c = connectionClosed \<longrightarrow> CbRemove c \<in># T) \<and>
     (ch_state ch = ChannelStartClose \<and> ch_conns ch = [] \<longrightarrow> update_due T))"

lemma min_state_fold:
  "fold (\<lambda>c m. if cst c < m then cst c else m) cs m = connectionClosed \<longleftrightarrow> m = connectionClosed \<and> (\<forall>c \<in> set cs. cst c = connectionClosed)"
proof (induction cs arbitrary: m)
  case (Cons c cs)
  show ?case using Cons.IH [of "if cst c < m then cst c else m"] connectionClosed_top(1) [of "cst c"] connectionClosed_top(1) [of m]
    by (auto simp: not_less order.order_iff_strict)
qed simp

lemma min_state_closed: "getMinConnectionState cst ch = connectionClosed \<longleftrightarrow> all_closed ch cst"
  by (simp add: getMinConnectionState_def min_state_fold)

lemma updateTo_cases:
  assumes "ch_updateTo (getMinConnectionState cst ch) s = Some u"
  shows "u = ChannelInboundClosed \<or> u = ChannelClosed \<and> all_closed ch cst"
  using assms min_state_closed [of cst ch] by (auto simp: ch_updateTo_def split: if_splits)

lemma updateTo_closed: "all_closed ch cst \<Longrightarrow> ch_updateTo (getMinConnectionState cst ch) s = Some ChannelClosed"
  using min_state_closed [of cst ch] by (simp add: ch_updateTo_def)

lemma pc_ok_mono:
  assumes "pc_ok (ch, cst) pc" and "ch_closing ch \<Longrightarrow> ch_closing ch'" and "ch_closing ch \<Longrightarrow> all_closed ch cst \<Longrightarrow> all_closed ch' cst'"
  shows "pc_ok (ch', cst') pc"
  using assms by (cases pc) (auto simp: pc_ok_def)

lemma ch_invI:
  assumes "is_started (ch_idleSweep ch) \<longrightarrow> \<not> is_stopCh (ch_idleSweep ch)" and "close_counted ch T"
    and "ch_state ch = ChannelClosed \<Longrightarrow> all_closed ch cst" and "\<And>pc. pc \<in># T \<Longrightarrow> pc_ok (ch, cst) pc"
    and "\<And>c. c \<in> set (ch_conns ch) \<Longrightarrow> cst c = connectionClosed \<Longrightarrow> CbRemove c \<in># T"
    and "ch_state ch = ChannelStartClose \<Longrightarrow> ch_conns ch = [] \<Longrightarrow> update_due T"
  shows "ch_inv ((ch, cst), T)"
  using assms by (simp add: ch_inv_def)

lemma ch_invD:
  assumes "ch_inv ((ch, cst), T)"
  shows "is_started (ch_idleSweep ch) \<longrightarrow> \<not> is_stopCh (ch_idleSweep ch)" and "close_counted ch T"
    and "ch_state ch = ChannelClosed \<Longrightarrow> all_closed ch cst" and "pc \<in># T \<Longrightarrow> pc_ok (ch, cst) pc"
    and "c \<in> set (ch_conns ch) \<Longrightarrow> cst c = connectionClosed \<Longrightarrow> CbRemove c \<in># T"
    and "ch_state ch = ChannelStartClose \<Longrightarrow> ch_conns ch = [] \<Longrightarrow> update_due T"
  using assms by (simp_all add: ch_inv_def)

text \<open>A goroutine that ends or goes on, without a change of the channel.\<close>

lemma inv_goes_on:
  assumes inv: "ch_inv ((ch, cst), add_mset pc T)" and count: "length (filter says_closed pcs) = (if says_closed pc then 1 else 0)"
    and ok: "\<And>p. p \<in> set pcs \<Longrightarrow> pc_ok (ch, cst) p" and remove: "\<And>c. pc = CbRemove c \<Longrightarrow> cst c \<noteq> connectionClosed"
    and due: "ch_state ch = ChannelStartClose \<Longrightarrow> ch_conns ch = [] \<Longrightarrow> update_due {#pc#} \<Longrightarrow> update_due (mset pcs)"
  shows "ch_inv ((ch, cst), T + mset pcs)"
proof (rule ch_invI)
  note d = ch_invD [OF inv]
  show "is_started (ch_idleSweep ch) \<longrightarrow> \<not> is_stopCh (ch_idleSweep ch)" by (rule d(1))
  have "size (filter_mset says_closed (mset pcs)) = length (filter says_closed pcs)" by (simp flip: mset_filter)
  then show "close_counted ch (T + mset pcs)" using d(2) count by (simp add: close_counted_def split: if_splits)
  show "all_closed ch cst" if "ch_state ch = ChannelClosed" using d(3) that .
  show "pc_ok (ch, cst) p" if "p \<in># T + mset pcs" for p using that d(4) [of p] ok by auto
  show "CbRemove c \<in># T + mset pcs" if "c \<in> set (ch_conns ch)" "cst c = connectionClosed" for c
    using d(5) [OF that] remove [of c] that by auto
  show "update_due (T + mset pcs)" if "ch_state ch = ChannelStartClose" "ch_conns ch = []"
    using d(6) [OF that] due [OF that] by (auto simp: update_due_def)
qed

lemma inv_remove:
  assumes inv: "ch_inv ((ch, cst), add_mset (CbRemove c) T)"
  shows "ch_inv ((removeClosedConn (cst c) c ch, cst), T + mset [CbState])"
proof (cases "cst c = connectionClosed")
  case False
  then show ?thesis using inv_goes_on [OF inv, of "[CbState]"] by (simp add: removeClosedConn_def pc_ok_def update_due_def)
next
  case True
  note d = ch_invD [OF inv]
  let ?ch = "ch\<lparr>ch_conns := removeAll c (ch_conns ch)\<rparr>"
  have "ch_inv ((?ch, cst), T + mset [CbState])"
  proof (rule ch_invI)
    show "is_started (ch_idleSweep ?ch) \<longrightarrow> \<not> is_stopCh (ch_idleSweep ?ch)" using d(1) by simp
    show "close_counted ?ch (T + mset [CbState])" using d(2) by (simp add: close_counted_def)
    show "all_closed ?ch cst" if "ch_state ?ch = ChannelClosed" using d(3) that by simp
    show "pc_ok (?ch, cst) p" if "p \<in># T + mset [CbState]" for p
    proof (cases "p = CbState")
      case False
      with that have "pc_ok (ch, cst) p" using d(4) [of p] by simp
      then show ?thesis by (rule pc_ok_mono) auto
    qed (simp add: pc_ok_def)
    show "CbRemove x \<in># T + mset [CbState]" if "x \<in> set (ch_conns ?ch)" "cst x = connectionClosed" for x
      using d(5) [of x] that by auto
  qed (simp add: update_due_def)
  then show ?thesis using True by (simp add: removeClosedConn_def)
qed

lemma inv_update:
  assumes inv: "ch_inv ((ch, cst), add_mset (CbUpdate s u) T)" and st: "ch_state ch = s"
  shows "ch_inv ((ch\<lparr>ch_state := u\<rparr>, cst), T + mset (if u = ChannelClosed then [OnClosed] else []))"
proof (rule ch_invI)
  note d = ch_invD [OF inv]
  let ?ch = "ch\<lparr>ch_state := u\<rparr>"
  let ?T = "T + mset (if u = ChannelClosed then [OnClosed] else [])"
  have ok: "ch_closing ch" "s \<noteq> ChannelClosed" "u = ChannelInboundClosed \<or> u = ChannelClosed \<and> all_closed ch cst"
    using d(4) [of "CbUpdate s u"] by (auto simp: pc_ok_def)
  show "is_started (ch_idleSweep ?ch) \<longrightarrow> \<not> is_stopCh (ch_idleSweep ?ch)" using d(1) by simp
  show "close_counted ?ch ?T" using d(2) ok st by (auto simp: close_counted_def)
  show "all_closed ?ch cst" if "ch_state ?ch = ChannelClosed" using ok that by auto
  show "pc_ok (?ch, cst) p" if "p \<in># ?T" for p
  proof (cases "p = OnClosed")
    case False
    with that have "pc_ok (ch, cst) p" using d(4) [of p] by (simp split: if_splits)
    then show ?thesis by (rule pc_ok_mono) (use ok in auto)
  qed (simp add: pc_ok_def)
  show "CbRemove x \<in># ?T" if "x \<in> set (ch_conns ?ch)" "cst x = connectionClosed" for x
    using d(5) [of x] that by auto
  show "update_due ?T" if "ch_state ?ch = ChannelStartClose" using ok that by simp
qed

lemma inv_onClosed:
  assumes inv: "ch_inv ((ch, cst), add_mset OnClosed T)"
  shows "ch_onClosed_call ch = Ret (ch\<lparr>ch_onClosed := 1\<rparr>)" and "ch_inv ((ch\<lparr>ch_onClosed := 1\<rparr>, cst), T)"
proof -
  note d = ch_invD [OF inv]
  have z: "ch_onClosed ch = 0" "size (filter_mset says_closed T) = 0" "ch_state ch = ChannelClosed"
    using d(2) by (auto simp: close_counted_def split: if_splits)
  then show "ch_onClosed_call ch = Ret (ch\<lparr>ch_onClosed := 1\<rparr>)" by (simp add: ch_onClosed_call_def)
  show "ch_inv ((ch\<lparr>ch_onClosed := 1\<rparr>, cst), T)"
  proof (rule ch_invI)
    show "pc_ok (ch\<lparr>ch_onClosed := 1\<rparr>, cst) p" if "p \<in># T" for p
    proof -
      have "pc_ok (ch, cst) p" using d(4) [of p] that by simp
      then show ?thesis by (rule pc_ok_mono) auto
    qed
    show "CbRemove x \<in># T" if "x \<in> set (ch_conns (ch\<lparr>ch_onClosed := 1\<rparr>))" "cst x = connectionClosed" for x
      using d(5) [of x] that by auto
  qed (use d(1,3) z in \<open>simp_all add: close_counted_def\<close>)
qed

lemma inv_Close:
  assumes inv: "ch_inv ((ch, cst), add_mset CloseStart T)"
  obtains cs closed ch' where "Close_locked ch = Ret (cs, closed, ch')" and "ch_inv ((ch', cst), T + mset [CloseConns cs closed])"
proof (cases "ch_state ch = ChannelClosed")
  case True
  have "ch_inv ((ch, cst), T + mset [CloseConns [] False])"
    by (rule inv_goes_on [OF inv]) (simp_all add: pc_ok_def True)
  then show thesis using that [of "[]" False ch] True by (simp add: Close_locked_def)
next
  case False
  note d = ch_invD [OF inv]
  define s where "s = (if is_started (ch_idleSweep ch) then (ch_idleSweep ch)\<lparr>is_started := False, is_stopCh := True\<rparr> else ch_idleSweep ch)"
  have stop: "is_Stop (ch_idleSweep ch) = Ret s" using d(1) by (simp add: is_Stop_def s_def)
  define ch2 where "ch2 = (if ch_l ch then ch\<lparr>ch_lClosed := True\<rparr> else ch)\<lparr>ch_idleSweep := s, ch_state := ChannelStartClose\<rparr>"
  define closed where "closed \<longleftrightarrow> ch_conns ch = []"
  define ch' where "ch' = (if closed then ch2\<lparr>ch_state := ChannelClosed\<rparr> else ch2)"
  have simps: "ch_conns ch' = ch_conns ch" "ch_onClosed ch' = ch_onClosed ch" "ch_idleSweep ch' = s"
    "ch_state ch' = (if closed then ChannelClosed else ChannelStartClose)"
    by (simp_all add: ch'_def ch2_def)
  have "Close_locked ch = Ret (ch_conns ch, closed, ch')"
    using False stop by (simp add: Close_locked_def Let_def ch2_def ch'_def closed_def)
  moreover have "ch_inv ((ch', cst), T + mset [CloseConns (ch_conns ch) closed])"
  proof (rule ch_invI)
    show "is_started (ch_idleSweep ch') \<longrightarrow> \<not> is_stopCh (ch_idleSweep ch')" using d(1) by (simp add: simps s_def)
    show "close_counted ch' (T + mset [CloseConns (ch_conns ch) closed])"
      using d(2) False by (simp add: close_counted_def simps)
    show "all_closed ch' cst" if "ch_state ch' = ChannelClosed" using that by (simp add: simps closed_def split: if_splits)
    show "pc_ok (ch', cst) p" if "p \<in># T + mset [CloseConns (ch_conns ch) closed]" for p
    proof (cases "p = CloseConns (ch_conns ch) closed")
      case False
      with that have "pc_ok (ch, cst) p" using d(4) [of p] by simp
      then show ?thesis by (rule pc_ok_mono) (auto simp: simps)
    qed (simp add: pc_ok_def)
    show "CbRemove x \<in># T + mset [CloseConns (ch_conns ch) closed]" if "x \<in> set (ch_conns ch')" "cst x = connectionClosed" for x
      using d(5) [of x] that by (auto simp: simps)
    show "update_due (T + mset [CloseConns (ch_conns ch) closed])" if "ch_state ch' = ChannelStartClose" "ch_conns ch' = []"
      using that by (simp add: simps closed_def)
  qed
  ultimately show thesis using that by blast
qed

text \<open>A connection whose state advances, and the callback that this runs.\<close>

lemma inv_advance:
  assumes inv: "ch_inv ((ch, cst), T)" and lt: "cst c < s"
  shows "ch_inv ((ch, cst(c := s)), add_mset (CbRemove c) T)"
proof (rule ch_invI)
  note d = ch_invD [OF inv]
  have no: "cst c \<noteq> connectionClosed" using lt connectionClosed_top(1) [of s] by (auto simp: not_le [symmetric])
  have mono: "all_closed ch cst \<Longrightarrow> all_closed ch (cst(c := s))" using no by auto
  show "is_started (ch_idleSweep ch) \<longrightarrow> \<not> is_stopCh (ch_idleSweep ch)" by (rule d(1))
  show "close_counted ch (add_mset (CbRemove c) T)" using d(2) by (simp add: close_counted_def)
  show "all_closed ch (cst(c := s))" if "ch_state ch = ChannelClosed" using mono d(3) [OF that] .
  show "pc_ok (ch, cst(c := s)) p" if "p \<in># add_mset (CbRemove c) T" for p
  proof (cases "p = CbRemove c")
    case False
    with that have "pc_ok (ch, cst) p" using d(4) [of p] by simp
    then show ?thesis by (rule pc_ok_mono) (use mono in auto)
  qed (simp add: pc_ok_def)
  show "CbRemove x \<in># add_mset (CbRemove c) T" if "x \<in> set (ch_conns ch)" "(cst(c := s)) x = connectionClosed" for x
    using d(5) [of x] that by (cases "x = c") auto
  show "update_due (add_mset (CbRemove c) T)" if "ch_state ch = ChannelStartClose" "ch_conns ch = []"
    using d(6) [OF that] by (auto simp: update_due_def)
qed

lemma exec_ok:
  assumes inv: "ch_inv ((ch, cst), add_mset pc T)"
  shows "\<exists>pcs r. ch_exec pc (ch, cst) = Ret (pcs, r) \<and> ch_inv (r, T + mset pcs)"
proof (cases pc)
  case (CbRemove c)
  then show ?thesis using inv_remove inv by auto
next
  case CbState
  have go: "ch_inv ((ch, cst), T + mset pcs)"
    if "pcs = (if ch_state ch \<noteq> ChannelStartClose \<and> ch_state ch \<noteq> ChannelInboundClosed then [] else [CbMin (ch_state ch)])" for pcs
    by (rule inv_goes_on [OF inv]) (auto simp: that CbState pc_ok_def update_due_def split: if_splits)
  show ?thesis using go [OF refl] CbState by (cases "ch_state ch") auto
next
  case (CbMin s)
  have s: "ch_closing ch" "s \<noteq> ChannelClosed" using ch_invD(4) [OF inv, of pc] CbMin by (auto simp: pc_ok_def)
  let ?u = "ch_updateTo (getMinConnectionState cst ch) s"
  have "ch_inv ((ch, cst), T + mset (case ?u of None \<Rightarrow> [] | Some u \<Rightarrow> [CbUpdate s u]))"
  proof (rule inv_goes_on [OF inv])
    show "pc_ok (ch, cst) p" if "p \<in> set (case ?u of None \<Rightarrow> [] | Some u \<Rightarrow> [CbUpdate s u])" for p
      using that s updateTo_cases [of cst ch s] by (auto simp: pc_ok_def split: option.splits)
    show "update_due (mset (case ?u of None \<Rightarrow> [] | Some u \<Rightarrow> [CbUpdate s u]))"
      if "ch_state ch = ChannelStartClose" "ch_conns ch = []" "update_due {#pc#}"
      using that updateTo_closed [of ch cst s] CbMin by (auto simp: update_due_def)
  qed (auto simp: CbMin split: option.splits)
  then show ?thesis using CbMin by (cases ?u) auto
next
  case (CbUpdate s u)
  show ?thesis
  proof (cases "ch_state ch = s")
    case True
    then show ?thesis using inv_update [OF inv [unfolded CbUpdate] True] CbUpdate by auto
  next
    case False
    have "ch_inv ((ch, cst), T + mset [])" by (rule inv_goes_on [OF inv]) (use False CbUpdate in \<open>auto simp: update_due_def\<close>)
    then show ?thesis using CbUpdate False by auto
  qed
next
  case OnClosed
  then show ?thesis using inv_onClosed [of ch cst T] inv by simp
next
  case CloseStart
  with inv obtain cs closed ch' where "Close_locked ch = Ret (cs, closed, ch')" "ch_inv ((ch', cst), T + mset [CloseConns cs closed])"
    using inv_Close by blast
  then show ?thesis using CloseStart by auto
next
  case (CloseConns cs closed)
  show ?thesis
  proof (cases cs)
    case Nil
    have "ch_inv ((ch, cst), T + mset (if closed then [OnClosed] else []))"
      by (rule inv_goes_on [OF inv]) (auto simp: CloseConns pc_ok_def update_due_def)
    then show ?thesis using CloseConns Nil by auto
  next
    case (Cons c cs')
    show ?thesis
    proof (cases "cst c = connectionActive")
      case False
      have "ch_inv ((ch, cst), T + mset [CloseConns cs' closed])"
        by (rule inv_goes_on [OF inv]) (auto simp: CloseConns pc_ok_def update_due_def)
      then show ?thesis using CloseConns Cons False by auto
    next
      case True
      then have "cst c < connectionStartClose" by (simp add: less_connectionState_def)
      from inv_advance [OF inv this] have "ch_inv ((ch, cst(c := connectionStartClose)), add_mset pc (add_mset (CbRemove c) T))"
        by (simp add: add_mset_commute)
      from inv_goes_on [OF this, of "[CloseConns cs' closed]"]
      have "ch_inv ((ch, cst(c := connectionStartClose)), T + mset [CbRemove c, CloseConns cs' closed])"
        by (cases closed) (simp_all add: CloseConns pc_ok_def update_due_def add_mset_commute)
      then show ?thesis using CloseConns Cons True by auto
    qed
  qed
qed

lemma ch_step_inv:
  assumes "ch_step s s'" and "ch_inv s"
  shows "ch_inv s'"
  using assms
proof (induction rule: ch_step.induct)
  case (step_connect cst c ch ch' T)
  note d = ch_invD [OF step_connect(2)]
  have open': "\<not> ch_closing ch" "cst c = connectionActive" and ch': "ch' = ch\<lparr>ch_conns := List.insert c (ch_conns ch)\<rparr>"
    using step_connect(1) by (auto simp: ch_addConnection_def split: if_splits)
  show ?case
  proof (rule ch_invI)
    show "close_counted ch' T" using d(2) by (simp add: close_counted_def ch')
    show "pc_ok (ch', cst) p" if "p \<in># T" for p
      by (rule pc_ok_mono [OF d(4) [OF that]]) (use open' in \<open>auto simp: ch'\<close>)
    show "CbRemove x \<in># T" if "x \<in> set (ch_conns ch')" "cst x = connectionClosed" for x
      using d(5) [of x] that open' by (auto simp: ch')
  qed (use d(1) open' in \<open>auto simp: ch'\<close>)
next
  case (step_serve addr ch e ch' cst T)
  note d = ch_invD [OF step_serve(2)]
  have ch': "ch_conns ch' = ch_conns ch" "ch_onClosed ch' = ch_onClosed ch" "ch_idleSweep ch' = ch_idleSweep ch"
    "ch_state ch' = ch_state ch \<or> \<not> ch_closing ch \<and> ch_state ch' = ChannelListening"
    using step_serve(1) by (auto simp: Serve_def Let_def split: if_splits)
  show ?case
  proof (rule ch_invI)
    show "close_counted ch' T" using d(2) ch' by (auto simp: close_counted_def)
    show "pc_ok (ch', cst) p" if "p \<in># T" for p
      by (rule pc_ok_mono [OF d(4) [OF that]]) (use ch' in auto)
    show "CbRemove x \<in># T" if "x \<in> set (ch_conns ch')" "cst x = connectionClosed" for x
      using d(5) [of x] that by (auto simp: ch')
    show "update_due T" if "ch_state ch' = ChannelStartClose" "ch_conns ch' = []" using d(6) that ch' by auto
    show "all_closed ch' cst" if "ch_state ch' = ChannelClosed" using d(3) that ch' by auto
  qed (use d(1) ch' in auto)
next
  case (step_conn cst c s ch T)
  then show ?case by (intro inv_advance)
next
  case (step_Close r T)
  obtain ch cst where r: "r = (ch, cst)" by (cases r)
  note d = ch_invD [OF step_Close [unfolded r]]
  show ?case unfolding r
  proof (rule ch_invI)
    show "close_counted ch (add_mset CloseStart T)" using d(2) by (simp add: close_counted_def)
    show "pc_ok (ch, cst) p" if "p \<in># add_mset CloseStart T" for p using that d(4) [of p] by (auto simp: pc_ok_def)
    show "CbRemove x \<in># add_mset CloseStart T" if "x \<in> set (ch_conns ch)" "cst x = connectionClosed" for x
      using d(5) [OF that] by simp
    show "update_due (add_mset CloseStart T)" if "ch_state ch = ChannelStartClose" "ch_conns ch = []"
      using d(6) [OF that] by (auto simp: update_due_def)
  qed (use d(1,3) in auto)
next
  case (step_run pc T r pcs r')
  obtain ch cst where r: "r = (ch, cst)" by (cases r)
  obtain U where T: "T = add_mset pc U" using step_run(1) by (meson multi_member_split)
  from exec_ok [of ch cst pc U] step_run(2,3) show ?case unfolding r T by auto
qed

lemma ch_reach_inv: "ch_reach s \<Longrightarrow> ch_inv s"
proof (induction rule: ch_reach.induct)
  case (reach_new serviceName interval idle ch)
  then show ?case
    by (auto simp: NewChannel_def startIdleSweep_def is_start_def ch_inv_def close_counted_def split: if_splits option.splits)
next
  case (reach_step s s')
  then show ?case by (blast intro: ch_step_inv)
qed

section \<open>What holds of the channel\<close>

text \<open>
  C12: In every interleaving, no goroutine panics: the idle sweep is stopped at most once and the channel that says that the channel
  is closed is closed at most once. When the state is closed every connection that is left is closed, and when it is not nobody has
  been told. After a close no connection is added. And if all goroutines have come to an end, \<^verbatim>\<open>Close\<close> has been called and every
  connection is closed, then none is left, and the state is closed or it is \<^verbatim>\<open>ChannelInboundClosed\<close>.
\<close>

theorem channel_safe:
  assumes "ch_reach ((ch, cst), T)"
  shows "(\<forall>pc \<in># T. \<exists>x. ch_exec pc (ch, cst) = Ret x) \<and>
    ch_onClosed ch \<le> (if ch_state ch = ChannelClosed then 1 else 0) \<and>
    (ch_state ch = ChannelClosed \<longrightarrow> all_closed ch cst) \<and>
    (ch_closing ch \<longrightarrow> (\<forall>c. ch_addConnection (cst c) c ch = (False, ch))) \<and>
    (T = {#} \<and> ch_closing ch \<and> all_closed ch cst \<longrightarrow>
       ch_conns ch = [] \<and>
       (ch_state ch = ChannelInboundClosed \<or> ch_state ch = ChannelClosed \<and> ch_onClosed ch = 1))"
proof (intro conjI ballI impI allI)
  have inv: "ch_inv ((ch, cst), T)" by (rule ch_reach_inv [OF assms])
  note d = ch_invD [OF inv]
  show "\<exists>x. ch_exec pc (ch, cst) = Ret x" if pc: "pc \<in># T" for pc
  proof -
    obtain U where "T = add_mset pc U" using pc by (meson multi_member_split)
    with exec_ok [of ch cst pc U] inv show ?thesis by auto
  qed
  show "ch_onClosed ch \<le> (if ch_state ch = ChannelClosed then 1 else 0)" using d(2) by (auto simp: close_counted_def split: if_splits)
  show "cst c = connectionClosed" if "ch_state ch = ChannelClosed" "c \<in> set (ch_conns ch)" for c using d(3) that by blast
  show "ch_addConnection (cst c) c ch = (False, ch)" if "ch_closing ch" for c using that by (simp add: ch_addConnection_def)
  assume q: "T = {#} \<and> ch_closing ch \<and> all_closed ch cst"
  show none: "ch_conns ch = []" using d(5) [of "hd (ch_conns ch)"] q by (cases "ch_conns ch") auto
  show "ch_state ch = ChannelInboundClosed \<or> ch_state ch = ChannelClosed \<and> ch_onClosed ch = 1"
    using d(2,6) q none by (cases "ch_state ch") (auto simp: close_counted_def update_due_def)
qed

section \<open>Schedules\<close>

text \<open>An interleaving, step by step: which goroutine runs next, as its place in the list of those that are running.\<close>

datatype ch_event = Connected nat | Advanced nat connectionState | Closing | Runs nat

fun ch_schedule :: "ch_event list \<Rightarrow> chan_run \<times> ch_pc list \<Rightarrow> (chan_run \<times> ch_pc list) option" where
  "ch_schedule [] s = Some s"
| "ch_schedule (Connected c # es) ((ch, cst), ts) =
     (let (added, ch') = ch_addConnection (cst c) c ch in if added then ch_schedule es ((ch', cst), ts) else None)"
| "ch_schedule (Advanced c s # es) ((ch, cst), ts) =
     (if cst c < s then ch_schedule es ((ch, cst(c := s)), ts @ [CbRemove c]) else None)"
| "ch_schedule (Closing # es) (r, ts) = ch_schedule es (r, ts @ [CloseStart])"
| "ch_schedule (Runs n # es) (r, ts) =
     (if n < length ts then
        (case ch_exec (ts ! n) r of
           Panic \<Rightarrow> None
         | Ret (pcs, r') \<Rightarrow> ch_schedule es (r', take n ts @ pcs @ drop (Suc n) ts))
      else None)"

lemma schedule_reach:
  "ch_schedule es (r, ts) = Some (r', ts') \<Longrightarrow> ch_reach (r, mset ts) \<Longrightarrow> ch_reach (r', mset ts')"
proof (induction es "(r, ts)" arbitrary: r ts rule: ch_schedule.induct)
  case (2 c es ch cst ts)
  from 2(2) obtain ch' where a: "ch_addConnection (cst c) c ch = (True, ch')" and rest: "ch_schedule es ((ch', cst), ts) = Some (r', ts')"
    by (auto simp: Let_def split: prod.splits if_splits)
  from 2(1) [of "(True, ch')" True ch'] a rest reach_step [OF 2(3) step_connect [of cst c ch ch', OF a]] show ?case by simp
next
  case (3 c s es ch cst ts)
  then show ?case by (auto split: if_splits intro: reach_step step_conn)
next
  case (4 es r ts)
  then show ?case by (auto intro: reach_step step_Close)
next
  case (5 n es r ts)
  from 5(2) obtain pcs r1 where n: "n < length ts" and x: "ch_exec (ts ! n) r = Ret (pcs, r1)"
    and rest: "ch_schedule es (r1, take n ts @ pcs @ drop (Suc n) ts) = Some (r', ts')"
    by (auto split: if_splits go.splits prod.splits)
  have m: "ts ! n \<in># mset ts" using n by simp
  have "mset ts = add_mset (ts ! n) (mset (take n ts) + mset (drop (Suc n) ts))"
    using arg_cong [OF id_take_nth_drop [OF n], of mset] by simp
  then have "mset ts - {#ts ! n#} + mset pcs = mset (take n ts @ pcs @ drop (Suc n) ts)" by simp
  with reach_step [OF 5(3) step_run [OF m x]] have "ch_reach (r1, mset (take n ts @ pcs @ drop (Suc n) ts))" by simp
  with 5(1) [OF n x refl rest] show ?case .
qed auto

definition new_channel :: Channel where
  "new_channel = (case NewChannel ''svc'' 0 0 of Inr ch \<Rightarrow> ch)"

lemma new_channel_simps [simp]:
  "ch_state new_channel = ChannelClient" "ch_conns new_channel = []" "ch_onClosed new_channel = 0" "ch_l new_channel = False"
  "is_started (ch_idleSweep new_channel) = False"
  by (simp_all add: new_channel_def NewChannel_def validateIdleCheck_def startIdleSweep_def is_start_def)

lemma new_channel_reach: "ch_reach ((new_channel, \<lambda>_. connectionActive), mset [])"
  using reach_new [of "''svc''" 0 0 new_channel]
  by (simp add: new_channel_def NewChannel_def validateIdleCheck_def)

lemmas schedule_eval = ch_addConnection_def removeClosedConn_def getMinConnectionState_def ch_updateTo_def Close_locked_def
  is_Stop_def ch_onClosed_call_def less_connectionState_def less_eq_connectionState_def

text \<open>One connection; the channel is closed, and the connection starts to close.\<close>

definition closing_prefix :: "ch_event list" where
  "closing_prefix = [Connected 0, Closing, Runs 0, Runs 0, Runs 1, Runs 0, Runs 0, Runs 0]"

text \<open>
  The steps that are left to a channel when nobody calls \<^verbatim>\<open>Close\<close> again and no connection changes its state.
\<close>

definition ch_idle_step :: "chan_state \<Rightarrow> chan_state \<Rightarrow> bool" where
  "ch_idle_step s s' \<longleftrightarrow> ch_step s s' \<and> snd (fst s') = snd (fst s) \<and> CloseStart \<notin># snd s'"

lemma Serve_closing:
  assumes "Serve addr ch = (e, ch')" and "ch_state ch \<noteq> ChannelClient"
  shows "ch_state ch' = ch_state ch" and "ch_conns ch' = ch_conns ch" and "ch_onClosed ch' = ch_onClosed ch"
  using assms by (auto simp: Serve_def split: if_splits)

lemma ch_idle_step_quiet:
  assumes "ch_idle_step ((ch, cst), {#}) s'" and "ch_closing ch"
  obtains ch' where "s' = ((ch', cst), {#})" and "ch_state ch' = ch_state ch" and "ch_conns ch' = ch_conns ch" and "ch_onClosed ch' = ch_onClosed ch"
proof -
  have st: "ch_step ((ch, cst), {#}) s'" and q: "snd (fst s') = cst" "CloseStart \<notin># snd s'" using assms(1) by (simp_all add: ch_idle_step_def)
  from st show thesis
  proof (cases rule: ch_step.cases)
    case (step_connect c ch')
    then show thesis using assms(2) by (auto simp: ch_addConnection_def split: if_splits)
  next
    case (step_serve addr e ch')
    then show thesis using that [of ch'] Serve_closing [of addr ch e ch'] assms(2) by simp
  next
    case (step_conn c s)
    then show thesis using q(1) by (metis fst_conv fun_upd_same less_irrefl snd_conv)
  qed (use q in auto)
qed

lemma ch_idle_run_quiet:
  assumes "ch_idle_step\<^sup>*\<^sup>* ((ch, cst), {#}) s'" and "ch_closing ch"
  shows "\<exists>ch'. s' = ((ch', cst), {#}) \<and> ch_state ch' = ch_state ch \<and> ch_conns ch' = ch_conns ch \<and> ch_onClosed ch' = ch_onClosed ch"
  using assms(1)
proof (induction rule: rtranclp_induct)
  case (step s s')
  then obtain ch1 where s: "s = ((ch1, cst), {#})" and c1: "ch_state ch1 = ch_state ch" "ch_conns ch1 = ch_conns ch" "ch_onClosed ch1 = ch_onClosed ch"
    by blast
  from step(2) assms(2) c1(1) obtain ch2 where "s' = ((ch2, cst), {#})" "ch_state ch2 = ch_state ch1" "ch_conns ch2 = ch_conns ch1"
    "ch_onClosed ch2 = ch_onClosed ch1" unfolding s by (elim ch_idle_step_quiet) simp_all
  with c1 show ?case by simp
qed simp

text \<open>
  C13: A close of the channel can be lost. There is a run with one call of \<^verbatim>\<open>Close\<close> and one connection: the last inbound call of the
  connection ends in one goroutine, and its last outbound call in another. The first reads that the channel has started to close and
  that inbound calls have ended; the second reads the same state of the channel, and that the connection is closed. The first sets the
  state to \<^verbatim>\<open>ChannelInboundClosed\<close>; the second sees that the state has changed and gives up. The connection is closed and gone, no
  goroutine is left, and nobody has been told. This does not change any more as long as \<^verbatim>\<open>Close\<close> is not called a second time
  and no connection that the channel does not have reports a change of its state.
\<close>

theorem channel_stuck:
  "\<exists>es ch cst. ch_schedule es ((new_channel, \<lambda>_. connectionActive), []) = Some ((ch, cst), []) \<and> count_list es Closing = 1 \<and>
     ch_reach ((ch, cst), {#}) \<and> cst 0 = connectionClosed \<and> (\<forall>c. c \<noteq> 0 \<longrightarrow> cst c = connectionActive) \<and>
     ch_conns ch = [] \<and> ch_state ch = ChannelInboundClosed \<and> ch_onClosed ch = 0 \<and>
     (\<forall>ch' cst' T. ch_idle_step\<^sup>*\<^sup>* ((ch, cst), {#}) ((ch', cst'), T) \<longrightarrow>
        T = {#} \<and> ch_conns ch' = [] \<and> ch_state ch' = ChannelInboundClosed \<and> ch_onClosed ch' = 0)"
proof -
  let ?es = "closing_prefix @ [Advanced 0 connectionInboundClosed, Runs 0, Runs 0, Runs 0,
    Advanced 0 connectionClosed, Runs 1, Runs 1, Runs 1, Runs 0, Runs 0]"
  have "\<exists>ch cst. ch_schedule ?es ((new_channel, \<lambda>_. connectionActive), []) = Some ((ch, cst), []) \<and> cst 0 = connectionClosed \<and>
      (\<forall>c. c \<noteq> 0 \<longrightarrow> cst c = connectionActive) \<and> ch_conns ch = [] \<and> ch_state ch = ChannelInboundClosed \<and> ch_onClosed ch = 0"
    by (simp add: closing_prefix_def schedule_eval)
  then obtain ch cst where s: "ch_schedule ?es ((new_channel, \<lambda>_. connectionActive), []) = Some ((ch, cst), [])"
    and f: "cst 0 = connectionClosed" "\<forall>c. c \<noteq> 0 \<longrightarrow> cst c = connectionActive" "ch_conns ch = []"
      "ch_state ch = ChannelInboundClosed" "ch_onClosed ch = 0" by blast
  from schedule_reach [OF s new_channel_reach] have "ch_reach ((ch, cst), {#})" by simp
  moreover have "T = {#} \<and> ch_conns ch' = [] \<and> ch_state ch' = ChannelInboundClosed \<and> ch_onClosed ch' = 0"
    if "ch_idle_step\<^sup>*\<^sup>* ((ch, cst), {#}) ((ch', cst'), T)" for ch' cst' T
    using ch_idle_run_quiet [OF that] f by auto
  moreover have "count_list ?es Closing = 1" by (simp add: closing_prefix_def)
  ultimately show ?thesis using s f by blast
qed

text \<open>The channel is still inbound-closed after the application has tried to serve on it.\<close>

theorem channel_stuck_witness:
  "\<exists>ch cst. ch_reach ((ch, cst), {#}) \<and> ch_state (snd (Serve ''h:1'' ch)) = ChannelInboundClosed"
proof -
  from channel_stuck obtain ch cst where c: "ch_reach ((ch, cst), {#})"
    and q: "\<forall>ch' cst' T. ch_idle_step\<^sup>*\<^sup>* ((ch, cst), {#}) ((ch', cst'), T) \<longrightarrow>
        T = {#} \<and> ch_conns ch' = [] \<and> ch_state ch' = ChannelInboundClosed \<and> ch_onClosed ch' = 0" by blast
  have "ch_idle_step ((ch, cst), {#}) ((snd (Serve ''h:1'' ch), cst), {#})"
    by (cases "Serve ''h:1'' ch") (simp add: ch_idle_step_def step_serve)
  with q c show ?thesis by blast
qed

text \<open>The same events, one callback after the other: the channel is closed.\<close>

theorem channel_safe_witness:
  "\<exists>ch cst. ch_schedule (closing_prefix @ [Advanced 0 connectionInboundClosed, Runs 0, Runs 0, Runs 0, Runs 0,
       Advanced 0 connectionClosed, Runs 0, Runs 0, Runs 0, Runs 0, Runs 0]) ((new_channel, \<lambda>_. connectionActive), []) =
       Some ((ch, cst), []) \<and> ch_state ch = ChannelClosed \<and> all_closed ch cst \<and> ch_conns ch = [] \<and> ch_onClosed ch = 1"
proof -
  let ?es = "closing_prefix @ [Advanced 0 connectionInboundClosed, Runs 0, Runs 0, Runs 0, Runs 0,
    Advanced 0 connectionClosed, Runs 0, Runs 0, Runs 0, Runs 0, Runs 0]"
  have "\<exists>ch cst. ch_schedule ?es ((new_channel, \<lambda>_. connectionActive), []) = Some ((ch, cst), []) \<and> ch_state ch = ChannelClosed"
    by (simp add: closing_prefix_def schedule_eval)
  then obtain ch cst where s: "ch_schedule ?es ((new_channel, \<lambda>_. connectionActive), []) = Some ((ch, cst), [])"
    and f: "ch_state ch = ChannelClosed" by blast
  from schedule_reach [OF s new_channel_reach] have r: "ch_reach ((ch, cst), {#})" by simp
  from channel_safe [OF r] s f show ?thesis by auto
qed

section \<open>The idle sweep\<close>

text \<open>The connections that the sweep closes: idle when they are examined, and then still active and without calls.\<close>

definition sweeps :: "int \<Rightarrow> duration \<Rightarrow> Connection \<Rightarrow> Connection \<Rightarrow> bool" where
  "sweeps now maxIdleTime before c \<longleftrightarrow>
     now - max (c_lastActivityRead before) (c_lastActivityWrite before) \<ge> maxIdleTime \<and>
     c_state c = connectionActive \<and> ms_count (c_inbound c) = 0 \<and> ms_count (c_outbound c) = 0 \<and> relay_canClose c"

lemma idle_conn_close:
  assumes inv: "conn_inv c" and act: "IsActive c" and idle: "\<not> hasPendingCalls c"
  obtains c' where "conn_close c = Ret (None, c')" and "c_state c' = connectionClosed" and "conn_inv c'"
proof -
  define d where "d = c_event OnCloseStateChange (c\<lparr>c_state := connectionStartClose\<rparr>)"
  have d: "conn_inv d" using inv act by (simp add: conn_inv_def c_event_def d_def IsActive_def)
  have s: "settled d = connectionClosed" using idle by (auto simp: settled_def d_def c_event_def hasPendingCalls_def relay_canClose_def
      split: if_splits option.splits)
  from checkExchanges_eq [OF d] conn_inv_check [OF d] s act that show thesis
    by (simp add: conn_close_def IsActive_def d_def [symmetric] conn_inv_def)
qed

lemma close_idle_ok:
  assumes "distinct is" and "\<forall>i. conn_inv (conns i)"
  shows "\<exists>conns'. close_idle is conns = Ret conns' \<and>
    (\<forall>i. if i \<in> set is \<and> IsActive (conns i) \<and> \<not> hasPendingCalls (conns i)
         then c_state (conns' i) = connectionClosed else conns' i = conns i)"
  using assms
proof (induction "is" arbitrary: conns)
  case (Cons j "is")
  show ?case
  proof (cases "IsActive (conns j) \<and> \<not> hasPendingCalls (conns j)")
    case False
    then have "close_idle (j # is) conns = close_idle is conns" by auto
    with Cons.IH [of conns] Cons.prems False show ?thesis by auto
  next
    case True
    from idle_conn_close [of "conns j"] Cons.prems(2) True obtain c' where c: "conn_close (conns j) = Ret (None, c')"
      "c_state c' = connectionClosed" "conn_inv c'" by metis
    then have eq: "close_idle (j # is) conns = close_idle is (conns(j := c'))" using True by simp
    have "\<exists>conns'. close_idle is (conns(j := c')) = Ret conns' \<and>
      (\<forall>i. if i \<in> set is \<and> IsActive ((conns(j := c')) i) \<and> \<not> hasPendingCalls ((conns(j := c')) i)
           then c_state (conns' i) = connectionClosed else conns' i = (conns(j := c')) i)"
      using Cons.prems c by (intro Cons.IH) auto
    then obtain conns' where e: "close_idle is (conns(j := c')) = Ret conns'" and all:
      "\<And>i. if i \<in> set is \<and> IsActive ((conns(j := c')) i) \<and> \<not> hasPendingCalls ((conns(j := c')) i)
           then c_state (conns' i) = connectionClosed else conns' i = (conns(j := c')) i" by blast
    have "if i \<in> set (j # is) \<and> IsActive (conns i) \<and> \<not> hasPendingCalls (conns i)
         then c_state (conns' i) = connectionClosed else conns' i = conns i" for i
      using all [of i] True c Cons.prems(1) by (cases "i = j") (auto split: if_splits)
    then show ?thesis using eq e by auto
  qed
qed simp

text \<open>
  C14: A sweep over the connections of a channel closes exactly those that have been idle, by their last reading and writing, for the
  maximal idle time or longer when they are examined, and that are active and have no call of either direction and no relayed one when
  it comes to close them, whatever the connections do in between. All others are left as they are, and the sweep never panics.
\<close>

theorem idle_sweep:
  assumes "distinct ids" and "\<forall>i. conn_inv (env conns i)"
  shows "\<exists>conns'. checkIdleConnections now maxIdleTime env ids conns = Ret conns' \<and>
    (\<forall>i. if i \<in> set ids \<and> sweeps now maxIdleTime (conns i) (env conns i)
         then c_state (conns' i) = connectionClosed else conns' i = env conns i)"
proof -
  define idle where "idle = filter (\<lambda>i. now - lastActivityTime (conns i) \<ge> maxIdleTime) ids"
  have last: "lastActivityTime c = max (c_lastActivityRead c) (c_lastActivityWrite c)" for c by (simp add: lastActivityTime_def max_def)
  have d: "distinct idle" using assms(1) by (simp add: idle_def)
  have iff: "i \<in> set idle \<and> IsActive (env conns i) \<and> \<not> hasPendingCalls (env conns i) \<longleftrightarrow>
      i \<in> set ids \<and> sweeps now maxIdleTime (conns i) (env conns i)" for i
    by (auto simp: idle_def sweeps_def last IsActive_def hasPendingCalls_def split: if_splits)
  have eq: "checkIdleConnections now maxIdleTime env ids conns = close_idle idle (env conns)"
    by (simp add: checkIdleConnections_def idle_def Let_def)
  from close_idle_ok [OF d assms(2), unfolded iff] show ?thesis unfolding eq .
qed

section \<open>Connections and peers\<close>

lemma update_lists_ok:
  assumes "\<forall>l \<in> set ls. pl_wf (l, w)"
  shows "\<exists>ls'. update_lists p ls w = Ret ls' \<and> length ls' = length ls \<and> (\<forall>l \<in> set ls'. pl_wf (l, w))"
  using assms
proof (induction ls)
  case (Cons l ls)
  have wf: "pl_wf (l, w)" using Cons.prems by simp
  obtain l' w' where c: "onPeerChange id p (l, w) = Ret (l', w')" and wf': "pl_wf (l', w')"
    using onPeerChange_ok [OF wf, of id p] wf by (metis id_apply pl_later_refl surj_pair)
  have "w' = w" using c by (auto simp: onPeerChange_def Let_def go_bind_Ret_iff split: option.splits if_splits)
  with Cons c wf' show ?case by auto
qed simp

lemma ch_updatePeer_ok:
  assumes "\<forall>l \<in> set ls. pl_wf (l, w)"
  shows "\<exists>ls'. ch_updatePeer p (ls, w) = Ret (ls', w) \<and> length ls' = length ls \<and> (\<forall>l \<in> set ls'. pl_wf (l, w))"
  using update_lists_ok [OF assms, of p] by (auto simp: ch_updatePeer_def)

lemma lists_world:
  assumes "\<forall>l \<in> set ls. pl_wf (l, w)" and "peers_later w w'" and "root_wf w'"
  shows "\<forall>l \<in> set ls. pl_wf (l, w')"
  using assms pl_wf_world(1) by blast

text \<open>Connections that come and go keep every list of the channel well formed, and never panic.\<close>

lemma addConnectionToPeer_ok:
  assumes wf: "\<forall>l \<in> set ls. pl_wf (l, w)" and rw: "root_wf w" and hp: "hostPort \<noteq> []"
  shows "\<exists>ls' w'. addConnectionToPeer hostPort c d (ls, w) = Ret (ls', w') \<and> root_wf w' \<and> (\<forall>l \<in> set ls'. pl_wf (l, w'))"
proof -
  obtain p w1 where g: "root_GetOrAdd hostPort w = Ret (p, w1)" and rw1: "root_wf w1" and lt1: "peers_later w w1"
  proof (cases "root_Get hostPort w")
    case (Some p)
    then show thesis using that [of p w] rw by (simp add: root_GetOrAdd_def)
  next
    case None
    then show thesis using root_Add_ok [OF rw hp] that by (metis option.simps(4) root_GetOrAdd_def)
  qed
  define w2 where "w2 = snd (peer_addConnection p c d w1)"
  have w2: "root_wf w2" "peers_later w w2"
    using peer_addConnection_ok [OF rw1, of p c d] peers_later_trans [OF lt1] by (simp_all add: w2_def)
  from ch_updatePeer_ok [OF lists_world [OF wf w2(2,1)], of p] g w2 show ?thesis
    by (auto simp: addConnectionToPeer_def w2_def [symmetric])
qed

lemma ch_close_peer_ok:
  assumes wf: "\<forall>l \<in> set ls. pl_wf (l, w)" and rw: "root_wf w"
  shows "\<exists>ls' w'. ch_close_peer hostPort c (ls, w) = Ret (ls', w') \<and> root_wf w' \<and> (\<forall>l \<in> set ls'. pl_wf (l, w'))"
proof (cases "root_Get hostPort w")
  case (Some p)
  define w1 where "w1 = peer_connectionCloseStateChange p c w"
  have w1: "root_wf w1" "peers_later w w1" using peer_connectionCloseStateChange_ok [OF rw] by (simp_all add: w1_def)
  from ch_updatePeer_ok [OF lists_world [OF wf w1(2,1)], of p] Some w1 show ?thesis
    by (auto simp: ch_close_peer_def w1_def [symmetric])
qed (use assms in \<open>simp add: ch_close_peer_def\<close>)

lemma ch_close_peers_ok:
  assumes wf: "\<forall>l \<in> set ls. pl_wf (l, w)" and rw: "root_wf w"
  shows "\<exists>ls' w'. ch_close_peers hostPort outboundHP c (ls, w) = Ret (ls', w') \<and> root_wf w' \<and> (\<forall>l \<in> set ls'. pl_wf (l, w'))"
proof -
  from ch_close_peer_ok [OF assms, of hostPort c] obtain ls1 w1 where "ch_close_peer hostPort c (ls, w) = Ret (ls1, w1)"
    "root_wf w1" "\<forall>l \<in> set ls1. pl_wf (l, w1)" by blast
  with ch_close_peer_ok [of ls1 w1 outboundHP c] show ?thesis by (auto simp: ch_close_peers_def)
qed

lemma new_conn_activity: "c_lastActivityRead new_conn = 0" "c_lastActivityWrite new_conn = 0"
  by (simp_all add: new_conn_def newConnection_def co_withDefaults_def getSendBufferSize_def DefaultConnectionBufferSize_def Let_def)

theorem idle_sweep_witness:
  "conn_inv new_conn \<and> (\<exists>conns'. checkIdleConnections 100 60 id [0] (\<lambda>_. new_conn) = Ret conns' \<and>
     c_state (conns' 0) = connectionClosed \<and> conns' 1 = new_conn)"
proof -
  have inv: "conn_inv new_conn" by (rule conn_reach_inv [OF new_conn_reach])
  have "\<exists>conns'. checkIdleConnections 100 60 id [0] (\<lambda>_. new_conn) = Ret conns' \<and>
    (\<forall>i. if i \<in> set [0] \<and> sweeps 100 60 ((\<lambda>_. new_conn) i) (id (\<lambda>_. new_conn) i)
         then c_state (conns' i) = connectionClosed else conns' i = id (\<lambda>_. new_conn) i)"
    by (rule idle_sweep) (simp_all add: inv)
  then obtain conns' where c: "checkIdleConnections 100 60 id [0] (\<lambda>_. new_conn) = Ret conns'" and
    all: "\<And>i. if i \<in> set [0] \<and> sweeps 100 60 new_conn new_conn then c_state (conns' i) = connectionClosed else conns' i = new_conn"
    by auto
  have "sweeps 100 60 new_conn new_conn" by (simp add: sweeps_def new_conn_activity new_conn_simps
      relay_canClose_def ms_count_def newMessageExchangeSet_def)
  with c all [of 0] all [of 1] inv show ?thesis by simp
qed

end
