(* ===== verification/Handshake.thy ===== *)
theory Handshake
  imports Channel
begin

text \<open>
  The handshake that both ends of a new connection perform, from \<^verbatim>\<open>preinit_connection.go\<close>. A socket is the bytes that can be read
  from it and those written to it; \<open>nc_write\<close> says which writes fail. The frames come from a pool. A successful handshake gives what
  the connection is made of: the description of the remote peer and the first message id. The address components of the peer, which
  only tracing uses, are left out.
\<close>

section \<open>Sockets and messages\<close>

record netConn =
  nc_in :: io_reader
  nc_out :: "byte list"
  nc_write :: "byte list \<Rightarrow> gerror option"
  nc_closed :: bool

fun messageType_String :: "byte \<Rightarrow> string" where
  "messageType_String i =
     (if i = 1 then ''messageTypeInitReq'' else if i = 2 then ''messageTypeInitRes''
      else if i = 3 then ''messageTypeCallReq'' else if i = 4 then ''messageTypeCallRes''
      else if i = 19 then ''messageTypeCallReqContinue'' else if i = 20 then ''messageTypeCallResContinue''
      else if i = 208 then ''messageTypePingReq'' else if i = 209 then ''messageTypePingRes''
      else if i = 255 then ''messageTypeError''
      else ''messageType('' @ show_nat (unat i) @ '')'')"

definition hs_writeMessage :: "Frame \<Rightarrow> message \<Rightarrow> netConn \<Rightarrow> (gerror option \<times> netConn) go" where
  "hs_writeMessage frame msg c =
     (case Frame_write msg frame of
        (Some e, _) \<Rightarrow> Ret (Some e, c)
      | (None, frame') \<Rightarrow>
          go_bind (WriteOut (nc_write c) frame') (\<lambda>(err, bs, _).
            case (err, bs) of
              (None, Some b) \<Rightarrow> Ret (None, c\<lparr>nc_out := nc_out c @ b\<rparr>)
            | _ \<Rightarrow> Ret (err, c)))"

definition hs_readError :: "Frame \<Rightarrow> gerror go" where
  "hs_readError frame =
     (let errMsg = \<lparr>em_id = fh_ID (fr_Header frame), em_errCode = ErrCodeInvalid, em_tracing = emptySpan, em_message = []\<rparr>
      in go_bind (Frame_read (ErrorMsg errMsg) frame) (\<lambda>(err, m).
           case err of
             Some e \<Rightarrow> Ret e
           | None \<Rightarrow> (case m of ErrorMsg em \<Rightarrow> Ret (errorMessage_AsSystemError em) | _ \<Rightarrow> Panic)))"

definition hs_readMessage :: "Frame \<Rightarrow> message \<Rightarrow> netConn \<Rightarrow> ((uint32 \<times> gerror option \<times> message) \<times> netConn) go" where
  "hs_readMessage frame msg c =
     go_bind (ReadIn (nc_in c) frame) (\<lambda>(err, frame', r).
       let c' = c\<lparr>nc_in := r\<rparr>; i = fh_ID (fr_Header frame')
       in case err of
            Some e \<Rightarrow> Ret ((0, Some e, msg), c')
          | None \<Rightarrow>
              if Frame_messageType frame' \<noteq> message_messageType msg then
                (if Frame_messageType frame' = messageTypeError
                 then go_bind (hs_readError frame') (\<lambda>e. Ret ((i, Some e, msg), c'))
                 else Ret ((i, Some (SystemError ErrCodeProtocol
                       (''expected message type '' @ messageType_String (message_messageType msg) @ '', got '' @
                        messageType_String (Frame_messageType frame')) None), msg), c'))
              else go_bind (Frame_read msg frame') (\<lambda>(err, m). Ret ((i, err, m), c')))"

section \<open>Descriptions of peers\<close>

record PeerVersion =
  pv_Language :: string
  pv_LanguageVersion :: string
  pv_TChannelVersion :: string

record PeerInfo =
  pi_HostPort :: string
  pi_ProcessName :: string
  pi_IsEphemeral :: bool
  pi_Version :: PeerVersion

definition isEphemeralHostPort :: "string \<Rightarrow> bool" where
  "isEphemeralHostPort hostPort \<longleftrightarrow>
     hostPort = [] \<or> hostPort = ephemeralHostPort \<or>
     length hostPort \<ge> 2 \<and> drop (length hostPort - 2) hostPort = '':0''"

definition getInitParams :: "PeerInfo \<Rightarrow> (string, string) gomap" where
  "getInitParams localPeer =
     [(InitParamHostPort, pi_HostPort localPeer),
      (InitParamProcessName, pi_ProcessName localPeer),
      (InitParamTChannelLanguage, pv_Language (pi_Version localPeer)),
      (InitParamTChannelLanguageVersion, pv_LanguageVersion (pi_Version localPeer)),
      (InitParamTChannelVersion, pv_TChannelVersion (pi_Version localPeer))]"

definition getInitMessage :: "PeerInfo \<Rightarrow> bool \<Rightarrow> uint32 \<Rightarrow> initMessage" where
  "getInitMessage localPeer hideListeningOnOutbound i =
     (let msg = \<lparr>im_id = i, im_Version = CurrentProtocolVersion, im_initParams = getInitParams localPeer\<rparr>
      in if hideListeningOnOutbound
         then msg\<lparr>im_initParams := AList.update InitParamHostPort ephemeralHostPort (im_initParams msg)\<rparr>
         else msg)"

definition param :: "(string, string) gomap \<Rightarrow> string \<Rightarrow> string" where
  "param p k = (case map_of p k of None \<Rightarrow> [] | Some v \<Rightarrow> v)"

definition parseRemotePeer :: "(string, string) gomap \<Rightarrow> string \<Rightarrow> gerror + PeerInfo" where
  "parseRemotePeer p remoteAddr =
     (case map_of p InitParamHostPort of
        None \<Rightarrow> Inl (ErrorString (''header '' @ InitParamHostPort @ '' is required''))
      | Some hostPort \<Rightarrow>
          (case map_of p InitParamProcessName of
             None \<Rightarrow> Inl (ErrorString (''header '' @ InitParamProcessName @ '' is required''))
           | Some processName \<Rightarrow>
               (let ephemeral = isEphemeralHostPort hostPort
                in Inr \<lparr>pi_HostPort = (if ephemeral then remoteAddr else hostPort), pi_ProcessName = processName,
                        pi_IsEphemeral = ephemeral,
                        pi_Version = \<lparr>pv_Language = param p InitParamTChannelLanguage,
                          pv_LanguageVersion = param p InitParamTChannelLanguageVersion,
                          pv_TChannelVersion = param p InitParamTChannelVersion\<rparr>\<rparr>)))"

section \<open>The handshake\<close>

definition unsupportedProtocolVersion :: "uint16 \<Rightarrow> gerror" where
  "unsupportedProtocolVersion got =
     SystemError ErrCodeProtocol (''unsupported protocol version '' @ show_nat (unat got) @ '' from peer, expected '' @
       show_nat (unat CurrentProtocolVersion)) None"

definition initError :: "Frame \<Rightarrow> uint32 \<Rightarrow> gerror \<Rightarrow> netConn \<Rightarrow> (gerror \<times> netConn) go" where
  "initError frame i err c =
     (let err1 = (case err of NetError True _ \<Rightarrow> ErrTimeout | _ \<Rightarrow> err);
          err2 = (if err1 = ioEOF then NewWrappedSystemError ErrCodeNetwork ioEOF else err1);
          msg = ErrorMsg \<lparr>em_id = i, em_errCode = GetSystemErrorCode (Some err2), em_tracing = emptySpan, em_message = Error err2\<rparr>
      in go_bind (hs_writeMessage frame msg c) (\<lambda>(_, c1). Ret (err2, c1\<lparr>nc_closed := True\<rparr>)))"

definition emptyInit :: initMessage where
  "emptyInit = \<lparr>im_id = 0, im_Version = 0, im_initParams = []\<rparr>"

text \<open>\<open>pool\<close> gives the frames that are taken from the pool, in their order.\<close>

definition outbound_exchange ::
  "(nat \<Rightarrow> Frame) \<Rightarrow> PeerInfo \<Rightarrow> bool \<Rightarrow> string \<Rightarrow> netConn \<Rightarrow> ((gerror + PeerInfo \<times> uint32) \<times> netConn) go" where
  "outbound_exchange pool localPeer hide remoteAddr c =
     (let msg = getInitMessage localPeer hide 1
      in go_bind (hs_writeMessage (pool 0) (InitReq msg) c) (\<lambda>(err, c1).
           case err of
             Some e \<Rightarrow> Ret (Inl e, c1)
           | None \<Rightarrow>
               go_bind (hs_readMessage (pool 1) (InitRes emptyInit) c1) (\<lambda>((i, err, res), c2).
                 case err of
                   Some e \<Rightarrow> Ret (Inl e, c2)
                 | None \<Rightarrow>
                     (case res of
                        InitRes r \<Rightarrow>
                          if i \<noteq> im_id msg then
                            Ret (Inl (SystemError ErrCodeProtocol (''received initRes with invalid ID, wanted '' @
                                   show_nat (unat (im_id msg)) @ '', got '' @ show_nat (unat i)) None), c2)
                          else if im_Version r \<noteq> CurrentProtocolVersion then Ret (Inl (unsupportedProtocolVersion (im_Version r)), c2)
                          else (case parseRemotePeer (im_initParams r) remoteAddr of
                                  Inl e \<Rightarrow> Ret (Inl (NewWrappedSystemError ErrCodeProtocol e), c2)
                                | Inr remotePeer \<Rightarrow> Ret (Inr (remotePeer, 1), c2))
                      | _ \<Rightarrow> Panic))))"

definition outboundHandshake ::
  "(nat \<Rightarrow> Frame) \<Rightarrow> PeerInfo \<Rightarrow> bool \<Rightarrow> string \<Rightarrow> netConn \<Rightarrow> ((gerror + PeerInfo \<times> uint32) \<times> netConn) go" where
  "outboundHandshake pool localPeer hide remoteAddr c =
     go_bind (outbound_exchange pool localPeer hide remoteAddr c) (\<lambda>(r, c1).
       case r of
         Inr x \<Rightarrow> Ret (Inr x, c1)
       | Inl e \<Rightarrow> go_bind (initError (pool 2) 1 e c1) (\<lambda>(e', c2). Ret (Inl e', c2)))"

text \<open>With the id that an error is sent with.\<close>

definition inbound_exchange ::
  "(nat \<Rightarrow> Frame) \<Rightarrow> PeerInfo \<Rightarrow> string \<Rightarrow> netConn \<Rightarrow> ((gerror + PeerInfo \<times> uint32) \<times> uint32 \<times> netConn) go" where
  "inbound_exchange pool localPeer remoteAddr c =
     go_bind (hs_readMessage (pool 0) (InitReq emptyInit) c) (\<lambda>((i, err, req), c1).
       case err of
         Some e \<Rightarrow> Ret (Inl e, i, c1)
       | None \<Rightarrow>
           (case req of
              InitReq r \<Rightarrow>
                if im_Version r < CurrentProtocolVersion then Ret (Inl (unsupportedProtocolVersion (im_Version r)), i, c1)
                else
                  (case parseRemotePeer (im_initParams r) remoteAddr of
                     Inl e \<Rightarrow> Ret (Inl (NewWrappedSystemError ErrCodeProtocol e), i, c1)
                   | Inr remotePeer \<Rightarrow>
                       go_bind (hs_writeMessage (pool 1) (InitRes (getInitMessage localPeer False i)) c1) (\<lambda>(err, c2).
                         case err of Some e \<Rightarrow> Ret (Inl e, i, c2) | None \<Rightarrow> Ret (Inr (remotePeer, 0), i, c2)))
            | _ \<Rightarrow> Panic))"

definition inboundHandshake ::
  "(nat \<Rightarrow> Frame) \<Rightarrow> PeerInfo \<Rightarrow> string \<Rightarrow> netConn \<Rightarrow> ((gerror + PeerInfo \<times> uint32) \<times> netConn) go" where
  "inboundHandshake pool localPeer remoteAddr c =
     go_bind (inbound_exchange pool localPeer remoteAddr c) (\<lambda>(r, i, c1).
       case r of
         Inr x \<Rightarrow> Ret (Inr x, c1)
       | Inl e \<Rightarrow> go_bind (initError (pool 2) i e c1) (\<lambda>(e', c2). Ret (Inl e', c2)))"

section \<open>Messages arrive\<close>

lemma WriteOut_any: "WriteOut w f = Ret (w bs, Some bs, f') \<Longrightarrow> WriteOut v f = Ret (v bs, Some bs, f')"
  by (auto simp: WriteOut_def Let_def split: option.splits if_splits)

lemma hs_message_sent:
  assumes f: "frame_inv f" and m: "valid_message m" "length (enc_message m) \<le> MaxFramePayloadSize"
  obtains bs where "\<And>c. \<forall>b. nc_write c b = None \<Longrightarrow> hs_writeMessage f m c = Ret (None, c\<lparr>nc_out := nc_out c @ bs\<rparr>)"
    and "\<And>g m0 d rest e. frame_inv g \<Longrightarrow> message_messageType m0 = message_messageType m \<Longrightarrow>
       nc_in d = \<lparr>ir_data = bs @ rest, ir_err = e\<rparr> \<Longrightarrow>
       hs_readMessage g m0 d = Ret ((message_ID m, None, message_view m0 m), d\<lparr>nc_in := \<lparr>ir_data = rest, ir_err = e\<rparr>\<rparr>)"
proof -
  from frame_transfer [OF f f m refl, of "\<lambda>_. None"] obtain f' f'' bs where fw: "Frame_write m f = (None, f')"
    and wo: "WriteOut (\<lambda>_. None) f' = Ret (None, Some bs, f'')" by blast
  have "hs_writeMessage f m c = Ret (None, c\<lparr>nc_out := nc_out c @ bs\<rparr>)" if "\<forall>b. nc_write c b = None" for c
    using fw WriteOut_any [OF wo, of "nc_write c"] that by (simp add: hs_writeMessage_def)
  moreover have "hs_readMessage g m0 d = Ret ((message_ID m, None, message_view m0 m), d\<lparr>nc_in := \<lparr>ir_data = rest, ir_err = e\<rparr>\<rparr>)"
    if g: "frame_inv g" "message_messageType m0 = message_messageType m" "nc_in d = \<lparr>ir_data = bs @ rest, ir_err = e\<rparr>" for g m0 d rest e
  proof -
    from frame_transfer [OF f g(1) m g(2), of "\<lambda>_. None" rest e] fw wo obtain g' where
      "ReadIn \<lparr>ir_data = bs @ rest, ir_err = e\<rparr> g = Ret (None, g', \<lparr>ir_data = rest, ir_err = e\<rparr>)"
      "fh_ID (fr_Header g') = message_ID m" "Frame_messageType g' = message_messageType m"
      "Frame_read m0 g' = Ret (None, message_view m0 m)" by auto
    then show ?thesis using g by (simp add: hs_readMessage_def Let_def)
  qed
  ultimately show thesis using that by blast
qed

text \<open>A description that fits into an init message.\<close>

definition sendable_peer :: "PeerInfo \<Rightarrow> bool" where
  "sendable_peer p \<longleftrightarrow>
     length (pi_HostPort p) + length (pi_ProcessName p) + length (pv_Language (pi_Version p)) +
     length (pv_LanguageVersion (pi_Version p)) + length (pv_TChannelVersion (pi_Version p)) \<le> 65000"

lemmas init_param_names = InitParamHostPort_def InitParamProcessName_def InitParamTChannelLanguage_def
  InitParamTChannelLanguageVersion_def InitParamTChannelVersion_def

lemma init_message_fits:
  assumes "sendable_peer p"
  shows "valid_init (getInitMessage p hide i)" and "length (enc_init (getInitMessage p hide i)) \<le> MaxFramePayloadSize"
    and "im_id (getInitMessage p hide i) = i" and "im_Version (getInitMessage p hide i) = CurrentProtocolVersion"
  using assms
  by (auto simp: getInitMessage_def getInitParams_def init_param_names valid_init_def valid_params_def sendable_peer_def
      enc_init_def enc_params_def ephemeralHostPort_def MaxFramePayloadSize_def MaxFrameSize_def Let_def)

text \<open>What a peer looks like at the other end: a host and port that cannot be called is replaced by the address of the socket.\<close>

definition seen_as :: "PeerInfo \<Rightarrow> bool \<Rightarrow> string \<Rightarrow> PeerInfo" where
  "seen_as p hide addr =
     (if hide \<or> isEphemeralHostPort (pi_HostPort p) then p\<lparr>pi_HostPort := addr, pi_IsEphemeral := True\<rparr>
      else p\<lparr>pi_IsEphemeral := False\<rparr>)"

lemma parse_init_message:
  "parseRemotePeer (im_initParams (getInitMessage p hide i)) addr = Inr (seen_as p hide addr)"
  by (cases p; cases "pi_Version p")
    (simp add: parseRemotePeer_def getInitMessage_def getInitParams_def init_param_names seen_as_def param_def
      isEphemeralHostPort_def ephemeralHostPort_def Let_def)

text \<open>
  C4: The handshake of two channels over a socket that accepts what is written to it. The bytes that each end writes let the other
  end succeed: both learn the process name and the versions of the other end, and its host and port, or the address of the socket if
  the other end does not listen or hides that it does; the end that connected starts with message id 1 and the other with 0. What
  follows the handshake is left in the stream, and the socket stays open.
\<close>

theorem handshake_agrees:
  assumes "sendable_peer p" and "sendable_peer q" and "\<forall>i. frame_inv (pool1 i)" and "\<forall>i. frame_inv (pool2 i)"
    and "\<forall>b. w1 b = None" and "\<forall>b. w2 b = None"
  shows "\<exists>b1 b2.
    outboundHandshake pool1 p hide addr2 \<lparr>nc_in = \<lparr>ir_data = b2 @ rest2, ir_err = e2\<rparr>, nc_out = [], nc_write = w1, nc_closed = False\<rparr> =
      Ret (Inr (seen_as q False addr2, 1),
           \<lparr>nc_in = \<lparr>ir_data = rest2, ir_err = e2\<rparr>, nc_out = b1, nc_write = w1, nc_closed = False\<rparr>) \<and>
    inboundHandshake pool2 q addr1 \<lparr>nc_in = \<lparr>ir_data = b1 @ rest1, ir_err = e1\<rparr>, nc_out = [], nc_write = w2, nc_closed = False\<rparr> =
      Ret (Inr (seen_as p hide addr1, 0),
           \<lparr>nc_in = \<lparr>ir_data = rest1, ir_err = e1\<rparr>, nc_out = b2, nc_write = w2, nc_closed = False\<rparr>)"
proof -
  define req where "req = getInitMessage p hide 1"
  define res where "res = getInitMessage q False 1"
  note req = init_message_fits [OF assms(1), of hide 1, folded req_def] and res = init_message_fits [OF assms(2), of False 1, folded res_def]
  have f: "frame_inv (pool1 i)" "frame_inv (pool2 i)" for i using assms(3,4) by auto
  have r: "valid_message (InitReq req)" "length (enc_message (InitReq req)) \<le> MaxFramePayloadSize" using req by simp_all
  have s: "valid_message (InitRes res)" "length (enc_message (InitRes res)) \<le> MaxFramePayloadSize" using res by simp_all
  from hs_message_sent [OF f(1) r, of 0] obtain b1 where
    wr1: "\<And>c. \<forall>b. nc_write c b = None \<Longrightarrow> hs_writeMessage (pool1 0) (InitReq req) c = Ret (None, c\<lparr>nc_out := nc_out c @ b1\<rparr>)" and
    rd1: "\<And>g m0 d rest e. frame_inv g \<Longrightarrow> message_messageType m0 = message_messageType (InitReq req) \<Longrightarrow>
       nc_in d = \<lparr>ir_data = b1 @ rest, ir_err = e\<rparr> \<Longrightarrow>
       hs_readMessage g m0 d = Ret ((message_ID (InitReq req), None, message_view m0 (InitReq req)), d\<lparr>nc_in := \<lparr>ir_data = rest, ir_err = e\<rparr>\<rparr>)"
    by blast
  from hs_message_sent [OF f(2) s, of 1] obtain b2 where
    wr2: "\<And>c. \<forall>b. nc_write c b = None \<Longrightarrow> hs_writeMessage (pool2 1) (InitRes res) c = Ret (None, c\<lparr>nc_out := nc_out c @ b2\<rparr>)" and
    rd2: "\<And>g m0 d rest e. frame_inv g \<Longrightarrow> message_messageType m0 = message_messageType (InitRes res) \<Longrightarrow>
       nc_in d = \<lparr>ir_data = b2 @ rest, ir_err = e\<rparr> \<Longrightarrow>
       hs_readMessage g m0 d = Ret ((message_ID (InitRes res), None, message_view m0 (InitRes res)), d\<lparr>nc_in := \<lparr>ir_data = rest, ir_err = e\<rparr>\<rparr>)"
    by blast
  note parse = parse_init_message [of p hide 1, folded req_def] parse_init_message [of q False 1, folded res_def]
  have "outboundHandshake pool1 p hide addr2 \<lparr>nc_in = \<lparr>ir_data = b2 @ rest2, ir_err = e2\<rparr>, nc_out = [], nc_write = w1, nc_closed = False\<rparr> =
      Ret (Inr (seen_as q False addr2, 1), \<lparr>nc_in = \<lparr>ir_data = rest2, ir_err = e2\<rparr>, nc_out = b1, nc_write = w1, nc_closed = False\<rparr>)"
    using assms(5) f req res parse
    by (simp add: outboundHandshake_def outbound_exchange_def Let_def req_def [symmetric] wr1 rd2)
  moreover have "inboundHandshake pool2 q addr1 \<lparr>nc_in = \<lparr>ir_data = b1 @ rest1, ir_err = e1\<rparr>, nc_out = [], nc_write = w2, nc_closed = False\<rparr> =
      Ret (Inr (seen_as p hide addr1, 0), \<lparr>nc_in = \<lparr>ir_data = rest1, ir_err = e1\<rparr>, nc_out = b2, nc_write = w2, nc_closed = False\<rparr>)"
    using assms(6) f req res parse
    by (simp add: inboundHandshake_def inbound_exchange_def Let_def res_def [symmetric] wr2 [unfolded One_nat_def] rd1)
  ultimately show ?thesis by blast
qed

text \<open>A client and a server.\<close>

definition example_peer :: "string \<Rightarrow> string \<Rightarrow> PeerInfo" where
  "example_peer hostPort processName =
     \<lparr>pi_HostPort = hostPort, pi_ProcessName = processName, pi_IsEphemeral = (hostPort = ephemeralHostPort),
      pi_Version = \<lparr>pv_Language = ''go'', pv_LanguageVersion = ''1.16'', pv_TChannelVersion = ''1.22.0''\<rparr>\<rparr>"

theorem handshake_agrees_witness:
  "\<exists>b1 b2 c1 c2.
    outboundHandshake (\<lambda>_. NewFrame MaxFramePayloadSize) (example_peer ephemeralHostPort ''client'') False ''10.0.0.1:80''
      \<lparr>nc_in = \<lparr>ir_data = b2 @ [], ir_err = ioEOF\<rparr>, nc_out = [], nc_write = \<lambda>_. None, nc_closed = False\<rparr> =
      Ret (Inr (example_peer ''10.0.0.2:80'' ''server'', 1), c1) \<and> nc_out c1 = b1 \<and>
    inboundHandshake (\<lambda>_. NewFrame MaxFramePayloadSize) (example_peer ''10.0.0.2:80'' ''server'') ''10.0.0.3:4000''
      \<lparr>nc_in = \<lparr>ir_data = b1 @ [], ir_err = ioEOF\<rparr>, nc_out = [], nc_write = \<lambda>_. None, nc_closed = False\<rparr> =
      Ret (Inr ((example_peer ''10.0.0.3:4000'' ''client'')\<lparr>pi_IsEphemeral := True\<rparr>, 0), c2) \<and> nc_out c2 = b2"
proof -
  let ?p = "example_peer ephemeralHostPort ''client''" and ?q = "example_peer ''10.0.0.2:80'' ''server''"
  have p: "sendable_peer ?p" "sendable_peer ?q" by (simp_all add: sendable_peer_def example_peer_def ephemeralHostPort_def)
  have q: "seen_as ?q False ''10.0.0.1:80'' = ?q"
    "seen_as ?p False ''10.0.0.3:4000'' = (example_peer ''10.0.0.3:4000'' ''client'')\<lparr>pi_IsEphemeral := True\<rparr>"
    by (simp_all add: seen_as_def example_peer_def isEphemeralHostPort_def ephemeralHostPort_def)
  have f: "\<forall>i :: nat. frame_inv ((\<lambda>_. NewFrame MaxFramePayloadSize) i)" by (simp add: frame_inv_New)
  have w: "\<forall>b. (\<lambda>_ :: byte list. None :: gerror option) b = None" by simp
  from handshake_agrees [OF p f f w w, of False "''10.0.0.1:80''" "[]" ioEOF "''10.0.0.3:4000''" "[]" ioEOF] obtain b1 b2 where
    "outboundHandshake (\<lambda>_. NewFrame MaxFramePayloadSize) ?p False ''10.0.0.1:80''
      \<lparr>nc_in = \<lparr>ir_data = b2 @ [], ir_err = ioEOF\<rparr>, nc_out = [], nc_write = \<lambda>_. None, nc_closed = False\<rparr> =
      Ret (Inr (?q, 1), \<lparr>nc_in = \<lparr>ir_data = [], ir_err = ioEOF\<rparr>, nc_out = b1, nc_write = \<lambda>_. None, nc_closed = False\<rparr>)"
    "inboundHandshake (\<lambda>_. NewFrame MaxFramePayloadSize) ?q ''10.0.0.3:4000''
      \<lparr>nc_in = \<lparr>ir_data = b1 @ [], ir_err = ioEOF\<rparr>, nc_out = [], nc_write = \<lambda>_. None, nc_closed = False\<rparr> =
      Ret (Inr ((example_peer ''10.0.0.3:4000'' ''client'')\<lparr>pi_IsEphemeral := True\<rparr>, 0),
        \<lparr>nc_in = \<lparr>ir_data = [], ir_err = ioEOF\<rparr>, nc_out = b2, nc_write = \<lambda>_. None, nc_closed = False\<rparr>)"
    unfolding q by blast
  then show ?thesis by (intro exI conjI) (assumption | simp)+
qed

end
