(* ===== verification/Handlers.thy ===== *)
theory Handlers
  imports Calls
begin

text \<open>
  Subchannels and handlers, from \<^verbatim>\<open>subchannel.go\<close> and \<^verbatim>\<open>handlers.go\<close>: which handler a call is dispatched to. Handlers are of a type
  \<open>'h\<close> of the user's; \<open>register\<close> says what \<^verbatim>\<open>Register\<close> makes of a handler of the user that has this operation. The peer lists of
  subchannels are those of \<^verbatim>\<open>Peers\<close>.
\<close>

section \<open>Handlers and subchannels\<close>

text \<open>The handler of a subchannel is a map of methods, or what \<^verbatim>\<open>SetHandler\<close> has put in its place.\<close>

datatype 'h scHandler = handlerMap "(string \<times> 'h) list" | otherHandler 'h

record 'h SubChannel =
  sc_serviceName :: string
  sc_isolated :: bool
  sc_handler :: "'h scHandler"

type_synonym 'h subChannelMap = "(string \<times> 'h SubChannel) list"

datatype 'h target = Handled 'h | NotFound string string

definition hmap_Register :: "'h \<Rightarrow> string \<Rightarrow> (string \<times> 'h) list \<Rightarrow> (string \<times> 'h) list" where
  "hmap_Register h meth hs = AList.update meth h hs"

definition hmap_find :: "string \<Rightarrow> (string \<times> 'h) list \<Rightarrow> 'h option" where
  "hmap_find meth hs = map_of hs meth"

fun sc_Handle :: "string \<Rightarrow> string \<Rightarrow> 'h scHandler \<Rightarrow> 'h target" where
  "sc_Handle service meth (handlerMap hs) =
     (case hmap_find meth hs of None \<Rightarrow> NotFound service meth | Some h \<Rightarrow> Handled h)"
| "sc_Handle service meth (otherHandler h) = Handled h"

text \<open>The error that a call without a handler is answered with; names are quoted, without the escapes of special characters.\<close>

definition no_handler_error :: "string \<Rightarrow> string \<Rightarrow> gerror" where
  "no_handler_error service meth =
     SystemError ErrCodeBadRequest (''no handler for service '' @ [CHR 0x22] @ service @ [CHR 0x22] @ '' and method '' @
       [CHR 0x22] @ meth @ [CHR 0x22]) None"

definition newSubChannel :: "string \<Rightarrow> 'h SubChannel" where
  "newSubChannel serviceName = \<lparr>sc_serviceName = serviceName, sc_isolated = False, sc_handler = handlerMap []\<rparr>"

definition Isolated :: "'h SubChannel \<Rightarrow> 'h SubChannel" where
  "Isolated sc = sc\<lparr>sc_isolated := True\<rparr>"

definition registerNewSubChannel :: "string \<Rightarrow> 'h subChannelMap \<Rightarrow> ('h SubChannel \<times> bool) \<times> 'h subChannelMap" where
  "registerNewSubChannel serviceName m =
     (case map_of m serviceName of
        Some sc \<Rightarrow> ((sc, False), m)
      | None \<Rightarrow> (let sc = newSubChannel serviceName in ((sc, True), AList.update serviceName sc m)))"

definition subChannel_getOrAdd :: "string \<Rightarrow> 'h subChannelMap \<Rightarrow> ('h SubChannel \<times> bool) \<times> 'h subChannelMap" where
  "subChannel_getOrAdd serviceName m =
     (case map_of m serviceName of Some sc \<Rightarrow> ((sc, False), m) | None \<Rightarrow> registerNewSubChannel serviceName m)"

definition GetSubChannel ::
  "string \<Rightarrow> ('h SubChannel \<Rightarrow> 'h SubChannel) list \<Rightarrow> 'h subChannelMap \<Rightarrow> 'h SubChannel \<times> 'h subChannelMap" where
  "GetSubChannel serviceName opts m =
     (case subChannel_getOrAdd serviceName m of
        ((sub, added), m1) \<Rightarrow>
          if added then (let sub' = fold (\<lambda>opt s. opt s) opts sub in (sub', AList.update serviceName sub' m1)) else (sub, m1))"

definition sc_Register :: "('h \<Rightarrow> ('h \<Rightarrow> string \<Rightarrow> 'h) option) \<Rightarrow> 'h \<Rightarrow> string \<Rightarrow> 'h SubChannel \<Rightarrow> 'h SubChannel go" where
  "sc_Register register h meth sc =
     (case sc_handler sc of
        handlerMap hs \<Rightarrow> Ret (sc\<lparr>sc_handler := handlerMap (hmap_Register h meth hs)\<rparr>)
      | otherHandler u \<Rightarrow>
          (case register u of None \<Rightarrow> Panic | Some f \<Rightarrow> Ret (sc\<lparr>sc_handler := otherHandler (f h meth)\<rparr>)))"

definition GetHandlers :: "'h SubChannel \<Rightarrow> (string \<times> 'h) list go" where
  "GetHandlers sc = (case sc_handler sc of handlerMap hs \<Rightarrow> Ret hs | otherHandler _ \<Rightarrow> Panic)"

definition SetHandler :: "'h \<Rightarrow> 'h SubChannel \<Rightarrow> 'h SubChannel" where
  "SetHandler h sc = sc\<lparr>sc_handler := otherHandler h\<rparr>"

section \<open>The handler of a channel\<close>

datatype 'h chHandler =
    channelHandler
  | userHandlerWithSkip "(string \<times> string) list" 'h
  | rootHandler 'h

text \<open>The parts of a string between the occurrences of two colons.\<close>

fun split_colons :: "string \<Rightarrow> string \<Rightarrow> string list" where
  "split_colons acc [] = [acc]"
| "split_colons acc [c] = [acc @ [c]]"
| "split_colons acc (c # d # s) =
     (if c = CHR '':'' \<and> d = CHR '':'' then acc # split_colons [] s else split_colons (acc @ [c]) (d # s))"

definition skip_error :: "string \<Rightarrow> gerror" where
  "skip_error sm = ErrorString (''each '' @ [CHR 0x22] @ ''SkipHandlerMethods'' @ [CHR 0x22] @
     '' value should be of service::Method format but got '' @ [CHR 0x22] @ sm @ [CHR 0x22])"

fun toServiceMethodSet :: "string list \<Rightarrow> gerror + (string \<times> string) list" where
  "toServiceMethodSet [] = Inr []"
| "toServiceMethodSet (sm # sms) =
     (case split_colons [] sm of
        [svc, meth] \<Rightarrow> (case toServiceMethodSet sms of Inl e \<Rightarrow> Inl e | Inr ps \<Rightarrow> Inr ((svc, meth) # ps))
      | _ \<Rightarrow> Inl (skip_error sm))"

text \<open>Dispatching makes a subchannel for a service that has none.\<close>

definition channelHandler_Handle :: "string \<Rightarrow> string \<Rightarrow> 'h subChannelMap \<Rightarrow> 'h target \<times> 'h subChannelMap" where
  "channelHandler_Handle service meth m =
     (case GetSubChannel service [] m of (sc, m1) \<Rightarrow> (sc_Handle service meth (sc_handler sc), m1))"

fun ch_Handle :: "string \<Rightarrow> string \<Rightarrow> 'h chHandler \<Rightarrow> 'h subChannelMap \<Rightarrow> 'h target \<times> 'h subChannelMap" where
  "ch_Handle service meth channelHandler m = channelHandler_Handle service meth m"
| "ch_Handle service meth (userHandlerWithSkip ignore user) m =
     (if (service, meth) \<in> set ignore then channelHandler_Handle service meth m else (Handled user, m))"
| "ch_Handle service meth (rootHandler user) m = (Handled user, m)"

definition channelHandler_Register ::
  "('h \<Rightarrow> ('h \<Rightarrow> string \<Rightarrow> 'h) option) \<Rightarrow> string \<Rightarrow> 'h \<Rightarrow> string \<Rightarrow> 'h subChannelMap \<Rightarrow> 'h subChannelMap go" where
  "channelHandler_Register register serviceName h meth m =
     (case GetSubChannel serviceName [] m of
        (sc, m1) \<Rightarrow> go_bind (sc_Register register h meth sc) (\<lambda>sc'. Ret (AList.update serviceName sc' m1)))"

fun ch_Register ::
  "('h \<Rightarrow> ('h \<Rightarrow> string \<Rightarrow> 'h) option) \<Rightarrow> string \<Rightarrow> 'h \<Rightarrow> string \<Rightarrow> 'h chHandler \<Rightarrow> 'h subChannelMap \<Rightarrow>
   ('h chHandler \<times> 'h subChannelMap) go" where
  "ch_Register register serviceName h meth (rootHandler user) m =
     (case register user of None \<Rightarrow> Panic | Some f \<Rightarrow> Ret (rootHandler (f h meth), m))"
| "ch_Register register serviceName h meth handler m =
     go_bind (channelHandler_Register register serviceName h meth m) (\<lambda>m'. Ret (handler, m'))"

section \<open>Dispatch\<close>

lemma GetSubChannel_plain:
  "GetSubChannel serviceName [] m =
     (case map_of m serviceName of
        Some sc \<Rightarrow> (sc, m)
      | None \<Rightarrow> (newSubChannel serviceName, AList.update serviceName (newSubChannel serviceName) m))"
  by (simp add: GetSubChannel_def subChannel_getOrAdd_def registerNewSubChannel_def Let_def split: option.splits)

text \<open>
  A channel with the handler of its own: a method that is registered is dispatched to the handler it was registered with, every other
  call as before, and a service that was never mentioned has no handler.
\<close>

lemma register_dispatches:
  assumes "channelHandler_Register register svc h meth m = Ret m'"
    and "\<forall>sc. map_of m svc = Some sc \<longrightarrow> (\<exists>hs. sc_handler sc = handlerMap hs)"
  shows "fst (channelHandler_Handle s x m') = (if s = svc \<and> x = meth then Handled h else fst (channelHandler_Handle s x m))"
proof (cases "map_of m svc")
  case None
  with assms(1) have "m' = AList.update svc ((newSubChannel svc)\<lparr>sc_handler := handlerMap [(meth, h)]\<rparr>)
      (AList.update svc (newSubChannel svc) m)"
    by (auto simp: channelHandler_Register_def GetSubChannel_plain sc_Register_def newSubChannel_def hmap_Register_def)
  then show ?thesis using None
    by (auto simp: channelHandler_Handle_def GetSubChannel_plain update_conv newSubChannel_def hmap_find_def split: option.splits)
next
  case (Some sc)
  with assms(2) obtain hs where hs: "sc_handler sc = handlerMap hs" by blast
  with assms(1) Some have "m' = AList.update svc (sc\<lparr>sc_handler := handlerMap (AList.update meth h hs)\<rparr>) m"
    by (auto simp: channelHandler_Register_def GetSubChannel_plain sc_Register_def hmap_Register_def)
  then show ?thesis using Some hs
    by (auto simp: channelHandler_Handle_def GetSubChannel_plain update_conv hmap_find_def newSubChannel_def split: option.splits)
qed

end
