(* ===== verification/Spec2Isabelle.thy ===== *)
theory Spec2Isabelle
  imports End_To_End Close_Protocol Health Relay_Forward Channel_Runs Handshake Handlers
begin

text \<open>
  A verification library for TChannel, the multiplexing RPC protocol implemented by the Go package
  \<^verbatim>\<open>tchannel\<close> in \<^verbatim>\<open>src/\<close>.

  \<^bold>\<open>The program.\<close> A channel (\<^verbatim>\<open>channel.go\<close>) listens and connects. Both ends of a new connection perform a handshake
  (\<^verbatim>\<open>preinit_connection.go\<close>); afterwards a connection (\<^verbatim>\<open>connection.go\<close>) has one goroutine that reads frames and one that
  writes those of its send channel. A call is a request and a response of three arguments each. The arguments are cut into
  chunks, the chunks packed into fragments with a running checksum (\<^verbatim>\<open>fragmenting_writer.go\<close>, \<^verbatim>\<open>checksum.go\<close>), every
  fragment is the payload of one frame (\<^verbatim>\<open>frame.go\<close>, \<^verbatim>\<open>messages.go\<close>, \<^verbatim>\<open>typed/buffer.go\<close>), and the other side puts them together
  again (\<^verbatim>\<open>fragmenting_reader.go\<close>). The frames of the many calls of a connection are told apart by message ids: an
  exchange set (\<^verbatim>\<open>mex.go\<close>) hands each frame to the call that waits for it. A connection closes gracefully: it waits for
  its inbound calls, then for its outbound ones. It is closed at once by an error, by failing health checks (\<^verbatim>\<open>health.go\<close>), and
  gracefully when it is idle (\<^verbatim>\<open>idle_sweep.go\<close>). Calls go to the best connected peer of a list that is a heap of scores
  (\<^verbatim>\<open>peer.go\<close>, \<^verbatim>\<open>peer_heap.go\<close>). A relay (\<^verbatim>\<open>relay.go\<close>) forwards the frames of calls between connections without decoding
  more of them than it needs (\<^verbatim>\<open>relay_messages.go\<close>).

  \<^bold>\<open>Conventions.\<close> Bytes and the unsigned integers of Go are words of their width; strings are lists of characters; maps
  are association lists with distinct keys, whose order is the arbitrary order of \<^verbatim>\<open>range\<close>; times and durations are
  integers, in nanoseconds. An \<^verbatim>\<open>error\<close> is a \<open>gerror\<close>, one that may be nil a \<open>gerror option\<close>. Code that may panic returns
  \<open>'a go\<close>, either \<open>Panic\<close> or \<open>Ret\<close> of a value. An operation that can fail to return, such as one that waits for its own
  goroutine, has an \<open>option\<close> around that and \<open>None\<close> for it. Objects that several parts share (exchanges, peers, scores,
  connections of a relay) are addresses into a heap of the component that owns them. A parameter \<open>env\<close> of an operation stands for
  what other goroutines do between two acquisitions of a lock. Where the interleaving itself is in question the operations are
  steps of an inductive relation, a goroutine being its program counter and local variables.
\<close>

text \<open>
  \<^bold>\<open>The wire format.\<close>
  \<^item> \<^verbatim>\<open>Go_Prelude\<close>: the parts of Go and its libraries that are used. \<^verbatim>\<open>Sys_Errors\<close>: \<^verbatim>\<open>errors.go\<close> and the error variables.
  \<^item> \<^verbatim>\<open>Typed_Buffer\<close>: \<^verbatim>\<open>typed/buffer.go\<close>. The locale \<open>wire_codec\<close> is the contract of a writer and its reader: what is written is
    read back, whatever follows, and a full buffer is an error. It is interpreted for every primitive here, and in \<^verbatim>\<open>Messages\<close>
    for spans and transport headers.
  \<^item> \<^verbatim>\<open>Messages\<close>: \<^verbatim>\<open>messages.go\<close> and the spans of \<^verbatim>\<open>tracing.go\<close>. \<^verbatim>\<open>Frame\<close>: \<^verbatim>\<open>frame.go\<close>, \<^verbatim>\<open>frame_pool.go\<close>; every message that fits
    survives being written into a frame, sent, received and read.
  \<^item> \<^verbatim>\<open>Checksum\<close>: \<^verbatim>\<open>checksum.go\<close> with both CRC-32 polynomials as \<^verbatim>\<open>hash/crc32\<close> computes them; the change of one byte is
    detected, and checksums from the pool are as good as new.
  \<^item> \<^verbatim>\<open>Thrift_Headers\<close>: \<^verbatim>\<open>thrift/headers.go\<close>, \<^verbatim>\<open>thrift/arg2/kv_iterator.go\<close>, \<^verbatim>\<open>typed/reader.go\<close>, \<^verbatim>\<open>typed/writer.go\<close>.

  \<^bold>\<open>Calls.\<close>
  \<^item> \<^verbatim>\<open>Fragmenting_Writer\<close>, \<^verbatim>\<open>Fragmenting_Reader\<close>: the two state machines. The locales \<open>fragment_sender\<close> and
    \<open>fragment_receiver\<close> are the interfaces \<^verbatim>\<open>fragmentSender\<close> and \<^verbatim>\<open>fragmentReceiver\<close> with what the machines rely on. The chunks
    that are sent join to the arguments, and reading them gives the arguments back.
  \<^item> \<^verbatim>\<open>Req_Res\<close>: \<^verbatim>\<open>reqres.go\<close>, \<^verbatim>\<open>arguments.go\<close>. The locales \<open>call_sender\<close> and \<open>call_receiver\<close> extend those two, and are interpreted for the
    four halves of a call: \<open>outbound_call\<close>, \<open>inbound_call\<close>, \<open>inbound_response\<close>, \<open>outbound_response\<close>.
  \<^item> \<^verbatim>\<open>Call_Context\<close>: \<^verbatim>\<open>context.go\<close>, \<^verbatim>\<open>context_builder.go\<close>, \<^verbatim>\<open>context_header.go\<close>, \<^verbatim>\<open>calloptions.go\<close> and \<^verbatim>\<open>retry.go\<close>.
  \<^item> \<^verbatim>\<open>Mex\<close>: exchanges and exchange sets; their invariant in every interleaving, the routing of frames, and that
    stopping a set lets the calls drain the frames that had arrived. A select is a function of the case it takes, with \<open>None\<close> for a case
    that is not ready (\<open>forward_case\<close>, \<open>recv_case\<close>), and the properties hold for whichever case is taken. As operations of one goroutine
    while the others stand still (\<open>mex_forwardPeerFrame\<close>, \<open>recvPeerFrame\<close>) they take a ready error case first, and without a ready case
    wait until the context ends; the lemmas \<open>forward_case_det\<close> and \<open>recv_case_det\<close> show that every ready case has the same outcome.
  \<^item> \<^verbatim>\<open>Calls\<close>: \<^verbatim>\<open>inbound.go\<close>, \<^verbatim>\<open>outbound.go\<close>, \<^verbatim>\<open>raw/call.go\<close>, \<^verbatim>\<open>raw/handler.go\<close> and the loops \<^verbatim>\<open>readFrames\<close> and \<^verbatim>\<open>writeFrames\<close>.
  \<^item> \<^verbatim>\<open>Transport\<close>, \<^verbatim>\<open>End_To_End\<close>: two connections together. Frames arrive in order; a request arrives as it was made, however
    it was cut into fragments and however the reader's buffer is sized; and the caller gets exactly what the handler returned. The
    locale \<open>conn_part\<close> is a part of a connection that handling frames leaves alone, interpreted for the frame pool and the relay's count.
\<close>

text \<open>
  \<^bold>\<open>Connections and channels.\<close>
  \<^item> \<^verbatim>\<open>Handshake\<close>: \<^verbatim>\<open>preinit_connection.go\<close>; the two ends agree on who they are.
  \<^item> \<^verbatim>\<open>Connection\<close>: \<^verbatim>\<open>connection.go\<close>, every operation a function of the record \<open>Connection\<close>. \<^verbatim>\<open>Conn_Runs\<close>: its operations in any order
    keep \<open>conn_inv\<close>, so none panics; an error reaches every call; a close ends exactly when the last exchange is gone; and a
    ping that fails in the goroutine of the health checks waits for itself.
  \<^item> \<^verbatim>\<open>Close_Protocol\<close>: \<^verbatim>\<open>checkExchanges\<close>, \<^verbatim>\<open>close\<close> and the registration of calls at the grain of single lock sections. The stop
    channel is closed once, no accepted call is cut off, no close is lost, and the sequential definitions of \<^verbatim>\<open>Connection\<close> are
    runs of it.
  \<^item> \<^verbatim>\<open>Health\<close>: \<^verbatim>\<open>health.go\<close>; the connection is closed exactly by enough consecutive failures, and pings are answered.
  \<^item> \<^verbatim>\<open>Channel\<close>, \<^verbatim>\<open>Channel_Runs\<close>: \<^verbatim>\<open>channel.go\<close> and \<^verbatim>\<open>idle_sweep.go\<close>. Safety in every interleaving, an interleaving in which a close
    of the channel is lost, and what an idle sweep closes.
  \<^item> \<^verbatim>\<open>Handlers\<close>: \<^verbatim>\<open>subchannel.go\<close>, \<^verbatim>\<open>handlers.go\<close>; a registered handler is the one that is called.

  \<^bold>\<open>Peers.\<close> \<^verbatim>\<open>Peer_Heap\<close> has \<^verbatim>\<open>peer_heap.go\<close> and \<^verbatim>\<open>container/heap\<close>, \<^verbatim>\<open>Peers\<close> has \<^verbatim>\<open>peer.go\<close>, \<^verbatim>\<open>root_peer_list.go\<close>,
  \<^verbatim>\<open>peer_strategies.go\<close> and \<^verbatim>\<open>peers/prefer.go\<close>. \<^verbatim>\<open>Peer_Runs\<close> shows that the map and the heap of a list always agree and nothing
  panics, which peer is chosen, and that the heap stays in order under every run that adds no peer; adding one may break the order
  (\<open>add_breaks_order\<close>).

  \<^bold>\<open>Relay.\<close> \<^verbatim>\<open>Relay_Messages\<close> has \<^verbatim>\<open>relay_messages.go\<close>, \<^verbatim>\<open>Relay_Items\<close> the timers and tables, \<^verbatim>\<open>Relayer\<close> the operations of
  \<^verbatim>\<open>relay.go\<close> on all the connections of a relay. \<^verbatim>\<open>Relay_Invariant\<close> is the invariant they keep; \<^verbatim>\<open>Relay_Runs\<close> concludes that no run
  panics, that each call ends once and that the pending counts are exact; \<^verbatim>\<open>Relay_Forward\<close> follows the frames of a call
  through the relay and bounds the time to live. In these runs handling a frame, the goroutine of a timer and the removal of a tomb are
  single steps over all the connections of the relay, although the code locks one table of items at a time; a goroutine that removes a tomb
  finds the tomb; and the next message id of a destination is not in use there (\<open>start_ready\<close>), as is the case until the 32-bit ids
  wrap around.
\<close>

text \<open>
  \<^bold>\<open>Termination.\<close> No definition has fuel. The loops over a stream or a channel are functions whose termination is proved: they use
  it up. The loops \<open>fw_write_loop\<close>, \<open>fr_read_loop\<close> and \<open>io_ReadAll\<close>, which depend on what the sender or receiver does, are partial functions
  with \<open>None\<close> for not returning; the lemmas of the locales show that they return \<open>Some\<close> under the contract of the interface, and so
  the properties of calls state a result. Where a loop of the source ends only with its connection (\<^verbatim>\<open>writeFrames\<close>, the health checks,
  the idle poller) the model runs it until it would wait for something new. The sizes of the buffers that a reader passes
  are a parameter \<open>sz\<close>, which the theorems take to be positive.

  \<^bold>\<open>Parameters.\<close> What \<^verbatim>\<open>Write\<close> of a socket answers, the frames that a pool returns, random numbers, the clock, the strategies and
  handlers of the user, the relay host, and the tracer's spans.

  \<^bold>\<open>Not modelled.\<close>
  \<^item> Statistics, logging, introspection and tracing beyond the encoding of spans: nothing of them feeds back into the protocol.
  \<^item> Accepting and dialling of sockets, deadlines and options of sockets, local addresses, the registry of all channels, and
    the address components in the description of a peer: calls of the operating system, or used by tracing only.
  \<^item> The relay's sending of a request whose second argument it changed: only the change itself is in \<^verbatim>\<open>Thrift_Headers\<close>.
  \<^item> The Thrift, JSON and HTTP layers (\<^verbatim>\<open>thrift/\<close> but its headers, \<^verbatim>\<open>json/\<close>, \<^verbatim>\<open>http/\<close>), the client of \<^verbatim>\<open>hyperbahn/\<close>, the code generator and
    generated code: adapters around third-party encodings.
  \<^item> Pools as caches (of request states, of checksums in use by others): an object from a pool is shown or taken to be as
    its constructor makes it, except for frames, whose old contents are arbitrary.
\<close>

end
